(* ===== verification/Prelude.thy ===== *)
theory Prelude
  imports Main "HOL-Library.Sublist" "HOL-Library.Word"
begin

text \<open>
  What every component shares: the error values that Go functions return, the
  early-return loop over a slice, the functions of the packages strings and strconv
  that the sources call, and the generic lemmas about them.  A Go string is a
  sequence of bytes, so it is a char list here (a char of HOL is a byte) and \<open>length\<close>
  is Go's \<open>len\<close>.
\<close>

section \<open>Collections of facts\<close>

named_theorems go_string \<open>evaluation of the Go string functions on structured arguments\<close>
named_theorems go_error \<open>inversion of the error results\<close>

section \<open>Error values\<close>

text \<open>
  \<open>Errorf f args\<close> is \<open>fmt.Errorf\<close> or \<open>errors.New\<close> with the format string as it is
  written in the source; \<open>ErrWrap f args e\<close> is a format string with a \<open>%w\<close> verb, whose
  argument is \<open>e\<close>; \<open>Sentinel m\<close> is a package-level \<open>errors.New\<close> that callers compare
  against; \<open>HTTPError c m\<close> is \<open>llm.HTTPError\<close>; \<open>RedisError m\<close> is \<open>redis.redisError\<close>.
  \<open>Stuck\<close> is produced by no Go function: it is the value of a bounded recursion that
  has used up its bound, and the theorems show that it does not occur.
\<close>

datatype goerr =
    Errorf string "string list"
  | ErrWrap string "string list" goerr
  | Sentinel string
  | HTTPError int string
  | RedisError string
  | Stuck

type_synonym 'a res = "goerr + 'a"

text \<open>\<open>errors.Is\<close> follows the chain of \<open>%w\<close> wrappers.\<close>

fun errors_Is :: "goerr \<Rightarrow> goerr \<Rightarrow> bool" where
  "errors_Is (ErrWrap f as e) t \<longleftrightarrow> ErrWrap f as e = t \<or> errors_Is e t"
| "errors_Is e t \<longleftrightarrow> e = t"

text \<open>\<open>errors.As(err, &httpErr)\<close>.\<close>

fun errors_As_HTTP :: "goerr \<Rightarrow> int option" where
  "errors_As_HTTP (HTTPError c m) = Some c"
| "errors_As_HTTP (ErrWrap f as e) = errors_As_HTTP e"
| "errors_As_HTTP e = None"

text \<open>\<open>errors.As(err, &re)\<close> for a \<open>*redisError\<close>.\<close>

fun errors_As_redis :: "goerr \<Rightarrow> bool" where
  "errors_As_redis (RedisError m) = True"
| "errors_As_redis (ErrWrap f as e) = errors_As_redis e"
| "errors_As_redis e = False"

definition bind_res :: "'a res \<Rightarrow> ('a \<Rightarrow> 'b res) \<Rightarrow> 'b res" where
  "bind_res r k = (case r of Inl e \<Rightarrow> Inl e | Inr x \<Rightarrow> k x)"

lemma bind_res_simps [simp]:
  "bind_res (Inl e) k = Inl e" "bind_res (Inr x) k = k x"
  by (simp_all add: bind_res_def)

lemma bind_res_Inr [go_error]:
  "bind_res r k = Inr y \<longleftrightarrow> (\<exists>x. r = Inr x \<and> k x = Inr y)"
  by (cases r) auto

lemma bind_res_Inl [go_error]:
  "bind_res r k = Inl e \<longleftrightarrow> r = Inl e \<or> (\<exists>x. r = Inr x \<and> k x = Inl e)"
  by (cases r) auto

text \<open>A \<open>for range\<close> loop whose body may return an error out of the function.\<close>

fun for_each :: "('a \<Rightarrow> 's \<Rightarrow> 's res) \<Rightarrow> 'a list \<Rightarrow> 's \<Rightarrow> 's res" where
  "for_each f [] s = Inr s"
| "for_each f (x # xs) s = bind_res (f x s) (for_each f xs)"

lemma for_each_invariant:
  assumes "for_each f xs s = Inr s'" and "I s"
    and "\<And>x s s'. x \<in> set xs \<Longrightarrow> f x s = Inr s' \<Longrightarrow> I s \<Longrightarrow> I s'"
  shows "I s'"
  using assms by (induction xs arbitrary: s) (auto simp: go_error)

lemma for_each_cong [fundef_cong]:
  assumes "xs = ys" and "s = t" and "\<And>x u. x \<in> set ys \<Longrightarrow> f x u = g x u"
  shows "for_each f xs s = for_each g ys t"
  using assms(3) unfolding assms(1,2)
  by (induction ys arbitrary: t) (auto simp: bind_res_def split: sum.splits)

lemma for_each_append:
  "for_each f (xs @ ys) s = bind_res (for_each f xs s) (for_each f ys)"
  by (induction xs arbitrary: s) (auto simp: bind_res_def split: sum.splits)

text \<open>A loop that appends one result for every element.\<close>

lemma for_each_collect:
  "for_each (\<lambda>x acc. bind_res (f x) (\<lambda>y. Inr (acc @ [y]))) xs acc = Inr ys \<longleftrightarrow>
     (\<exists>zs. list_all2 (\<lambda>x y. f x = Inr y) xs zs \<and> ys = acc @ zs)"
proof (induction xs arbitrary: acc)
  case (Cons x xs)
  then show ?case
    by (auto simp: go_error list_all2_Cons1)
qed auto

text \<open>
  A loop that only checks: its body never changes the state, and it succeeds exactly when
  every element passes.
\<close>

abbreviation check_each :: "('a \<Rightarrow> unit res) \<Rightarrow> 'a list \<Rightarrow> unit res" where
  "check_each f xs \<equiv> for_each (\<lambda>x _. f x) xs ()"

lemma check_each_Inr [go_error]:
  "check_each f xs = Inr u \<longleftrightarrow> (\<forall>x\<in>set xs. f x = Inr ())"
  by (induction xs) (auto simp: go_error)

lemma check_each_Inl [go_error]:
  assumes "check_each f xs = Inl e"
  shows "\<exists>x\<in>set xs. f x = Inl e"
  using assms by (induction xs) (auto simp: go_error)

text \<open>The first element that fails a test is unique.\<close>

lemma first_split_unique:
  "xs @ x # us = ys @ y # vs \<Longrightarrow> list_all P xs \<Longrightarrow> list_all P ys \<Longrightarrow> \<not> P x \<Longrightarrow> \<not> P y \<Longrightarrow> x = y"
proof (induction xs arbitrary: ys)
  case Nil
  then show ?case by (cases ys) auto
next
  case (Cons a xs)
  then show ?case by (cases ys) auto
qed

text \<open>Counting the elements with a property after an update.\<close>

lemma length_filter_update:
  "k < length xs \<Longrightarrow>
     length (filter P (xs[k := y])) + of_bool (P (xs ! k)) = length (filter P xs) + of_bool (P y)"
proof (induction xs arbitrary: k)
  case (Cons x xs)
  then show ?case by (cases k) auto
qed simp

lemma length_filter_mono: "(\<And>x. P x \<Longrightarrow> Q x) \<Longrightarrow> length (filter P xs) \<le> length (filter Q xs)"
  by (induction xs) auto

section \<open>Characters and identifiers\<close>

definition lower_chars :: string where
  "lower_chars = ''abcdefghijklmnopqrstuvwxyz''"

definition upper_chars :: string where
  "upper_chars = ''ABCDEFGHIJKLMNOPQRSTUVWXYZ''"

definition isDigit :: "char \<Rightarrow> bool" where
  "isDigit c \<longleftrightarrow> 48 \<le> (of_char c :: nat) \<and> (of_char c :: nat) \<le> 57"

text \<open>The regular expression \<open>^[a-z0-9_-]+$\<close>, \<open>idPattern\<close> of the packages pipeline and registry.\<close>

definition id_char :: "char \<Rightarrow> bool" where
  "id_char c \<longleftrightarrow> c \<in> set lower_chars \<or> isDigit c \<or> c = CHR ''_'' \<or> c = CHR ''-''"

definition idPattern :: "string \<Rightarrow> bool" where
  "idPattern s \<longleftrightarrow> s \<noteq> [] \<and> list_all id_char s"

text \<open>The regular expression \<open>^[a-zA-Z0-9_-]+$\<close>, \<open>pathPattern\<close>.\<close>

definition path_char :: "char \<Rightarrow> bool" where
  "path_char c \<longleftrightarrow> id_char c \<or> c \<in> set upper_chars"

definition pathPattern :: "string \<Rightarrow> bool" where
  "pathPattern s \<longleftrightarrow> s \<noteq> [] \<and> list_all path_char s"

lemmas char_class_defs = id_char_def path_char_def isDigit_def lower_chars_def
  upper_chars_def

lemma path_char_ascii:
  "path_char c \<Longrightarrow> c \<notin> set '' .{}'' \<and> (of_char c :: nat) < 128 \<and> 32 < (of_char c :: nat)"
  by (auto simp: char_class_defs)

lemma idPattern_pathPattern: "idPattern s \<Longrightarrow> pathPattern s"
  by (auto simp: idPattern_def pathPattern_def path_char_def list_all_iff)

section \<open>White space\<close>

text \<open>
  \<open>strings.TrimSpace\<close> removes the runes for which \<open>unicode.IsSpace\<close> holds.  These are the
  UTF-8 encodings of those runes: the six ASCII ones, U+0085, U+00A0, U+1680,
  U+2000 to U+200A, U+2028, U+2029, U+202F, U+205F and U+3000.
\<close>

definition space_encodings :: "string list" where
  "space_encodings =
     [[CHR 0x20], [CHR 0x09], [CHR 0x0A], [CHR 0x0B], [CHR 0x0C], [CHR 0x0D],
      [CHR 0xC2, CHR 0x85], [CHR 0xC2, CHR 0xA0], [CHR 0xE1, CHR 0x9A, CHR 0x80]] @
     map (\<lambda>c. [CHR 0xE2, CHR 0x80, c])
       [CHR 0x80, CHR 0x81, CHR 0x82, CHR 0x83, CHR 0x84, CHR 0x85, CHR 0x86, CHR 0x87,
        CHR 0x88, CHR 0x89, CHR 0x8A, CHR 0xA8, CHR 0xA9, CHR 0xAF] @
     [[CHR 0xE2, CHR 0x81, CHR 0x9F], [CHR 0xE3, CHR 0x80, CHR 0x80]]"

text \<open>Drop words of \<open>ws\<close> from the front as long as one of them is a prefix.\<close>

fun strip_words :: "nat \<Rightarrow> string list \<Rightarrow> string \<Rightarrow> string" where
  "strip_words 0 ws s = s"
| "strip_words (Suc n) ws s =
     (case find (\<lambda>w. prefix w s) ws of
        None \<Rightarrow> s
      | Some w \<Rightarrow> strip_words n ws (drop (length w) s))"

definition TrimLeftSpace :: "string \<Rightarrow> string" where
  "TrimLeftSpace s = strip_words (length s) space_encodings s"

definition TrimRightSpace :: "string \<Rightarrow> string" where
  "TrimRightSpace s = rev (strip_words (length s) (map rev space_encodings) (rev s))"

definition TrimSpace :: "string \<Rightarrow> string" where
  "TrimSpace s = TrimRightSpace (TrimLeftSpace s)"

lemma space_encodings_nonempty: "w \<in> set space_encodings \<Longrightarrow> w \<noteq> []"
  by (auto simp: space_encodings_def)

lemma find_prefix_None: "find (\<lambda>w. prefix w s) ws = None \<longleftrightarrow> (\<forall>w\<in>set ws. \<not> prefix w s)"
  by (auto simp: find_None_iff)

text \<open>The bound \<open>length s\<close> is enough: what is left starts with none of the words.\<close>

lemma strip_words_stops:
  assumes "\<And>w. w \<in> set ws \<Longrightarrow> w \<noteq> []" and "length s \<le> n" and "w \<in> set ws"
  shows "\<not> prefix w (strip_words n ws s)"
  using assms(2)
proof (induction n arbitrary: s)
  case 0
  with assms(1,3) show ?case by auto
next
  case (Suc n)
  show ?case
  proof (cases "find (\<lambda>w. prefix w s) ws")
    case None
    then have "strip_words (Suc n) ws s = s" by simp
    moreover from None have "\<not> prefix w s"
      using assms(3) by (simp add: find_prefix_None)
    ultimately show ?thesis by simp
  next
    case (Some v)
    then have "v \<in> set ws" "prefix v s"
      by (auto simp: find_Some_iff)
    with assms(1) Suc.prems have "length (drop (length v) s) \<le> n"
      by (cases v) (auto dest: prefix_length_le)
    with Suc.IH Some show ?thesis by simp
  qed
qed

lemma strip_words_id: "\<forall>w\<in>set ws. \<not> prefix w s \<Longrightarrow> strip_words n ws s = s"
  by (cases n) (auto simp: find_prefix_None [symmetric])

lemma strip_words_suffix: "suffix (strip_words n ws s) s"
proof (induction n arbitrary: s)
  case (Suc n)
  show ?case
    by (auto split: option.split intro: suffix_order.trans [OF Suc suffix_drop])
qed simp

lemma TrimLeftSpace_stops: "w \<in> set space_encodings \<Longrightarrow> \<not> prefix w (TrimLeftSpace s)"
  unfolding TrimLeftSpace_def by (rule strip_words_stops) (auto dest: space_encodings_nonempty)

text \<open>
  What is stripped is a sequence of the words, and, since no encoding of a space is a
  prefix or a suffix of another, every such sequence in front of other text is stripped.
\<close>

lemma strip_words_factor:
  "\<exists>us. set us \<subseteq> set ws \<and> s = concat us @ strip_words n ws s"
proof (induction n arbitrary: s)
  case 0
  show ?case by (rule exI [of _ "[]"]) simp
next
  case (Suc n)
  show ?case
  proof (cases "find (\<lambda>w. prefix w s) ws")
    case None
    then show ?thesis by (intro exI [of _ "[]"]) simp
  next
    case (Some v)
    then have v: "v \<in> set ws" "s = v @ drop (length v) s"
      by (auto simp: find_Some_iff prefix_def)
    obtain us where "set us \<subseteq> set ws"
      "drop (length v) s = concat us @ strip_words n ws (drop (length v) s)"
      using Suc.IH by blast
    with v Some show ?thesis
      by (intro exI [of _ "v # us"]) (metis append.assoc concat.simps(2) insert_subset
          list.simps(15) option.case(2) strip_words.simps(2))
  qed
qed

definition prefix_free :: "string list \<Rightarrow> bool" where
  "prefix_free ws \<longleftrightarrow> (\<forall>w\<in>set ws. w \<noteq> [] \<and> (\<forall>v\<in>set ws. prefix w v \<longrightarrow> w = v))"

lemma strip_words_concat:
  assumes "prefix_free ws" and "set us \<subseteq> set ws" and "\<forall>w\<in>set ws. \<not> prefix w t"
    and "length (concat us) \<le> n"
  shows "strip_words n ws (concat us @ t) = t"
  using assms(2,4)
proof (induction us arbitrary: n)
  case Nil
  with assms(3) show ?case by (simp add: strip_words_id)
next
  case (Cons u us)
  have uw: "u \<in> set ws" "u \<noteq> []"
    using Cons.prems assms(1) by (auto simp: prefix_free_def)
  from uw(2) have "Suc (length (concat us)) \<le> length (concat (u # us))"
    by (cases u) auto
  with Cons.prems(2) have "Suc (length (concat us)) \<le> n" by linarith
  then obtain m where n: "n = Suc m" "length (concat us) \<le> m"
    by (cases n) auto
  have eq: "w = u" if "w \<in> set ws" "prefix w (u @ concat us @ t)" for w
    using that uw assms(1) prefix_same_cases [of w "u @ concat us @ t" u]
    by (auto simp: prefix_free_def)
  have "find (\<lambda>w. prefix w (u @ concat us @ t)) ws = Some u"
  proof (cases "find (\<lambda>w. prefix w (u @ concat us @ t)) ws")
    case None
    with uw(1) show ?thesis by (auto simp: find_None_iff)
  next
    case (Some w)
    then have "w \<in> set ws" "prefix w (u @ concat us @ t)" by (auto simp: find_Some_iff)
    with eq Some show ?thesis by simp
  qed
  with n Cons show ?case by simp
qed

lemma prefix_free_spaces:
  "prefix_free space_encodings" "prefix_free (map rev space_encodings)"
  unfolding prefix_free_def by code_simp+

text \<open>Sequences of white space.\<close>

definition blank :: "string \<Rightarrow> bool" where
  "blank s \<longleftrightarrow> (\<exists>us. set us \<subseteq> set space_encodings \<and> s = concat us)"

lemma blank_Nil [simp]: "blank []"
  unfolding blank_def by (rule exI [of _ "[]"]) simp

lemma blank_append: "blank s \<Longrightarrow> blank t \<Longrightarrow> blank (s @ t)"
  unfolding blank_def by (metis concat_append le_sup_iff set_append)

lemma blank_word: "w \<in> set space_encodings \<Longrightarrow> blank w"
  unfolding blank_def by (rule exI [of _ "[w]"]) simp

lemma TrimSpace_factor: "\<exists>l r. s = l @ TrimSpace s @ r \<and> blank l \<and> blank r"
proof -
  obtain us where us: "set us \<subseteq> set space_encodings" "s = concat us @ TrimLeftSpace s"
    using strip_words_factor by (metis TrimLeftSpace_def)
  let ?t = "TrimLeftSpace s"
  obtain vs where vs: "set vs \<subseteq> set (map rev space_encodings)"
    "rev ?t = concat vs @ strip_words (length ?t) (map rev space_encodings) (rev ?t)"
    using strip_words_factor by blast
  from vs(2) have "?t = TrimSpace s @ rev (concat vs)"
    by (metis TrimRightSpace_def TrimSpace_def rev_append rev_rev_ident)
  moreover have "blank (rev (concat vs))"
    unfolding blank_def
    using vs(1) by (intro exI [of _ "rev (map rev vs)"]) (auto simp: rev_concat rev_map)
  moreover have "blank (concat us)" using us(1) by (auto simp: blank_def)
  ultimately show ?thesis using us(2) by metis
qed

lemma set_TrimSpace: "set (TrimSpace s) \<subseteq> set s"
proof -
  obtain l r where "s = l @ TrimSpace s @ r" using TrimSpace_factor by blast
  then have "set s = set l \<union> set (TrimSpace s) \<union> set r"
    by (metis set_append sup_assoc)
  then show ?thesis by blast
qed

text \<open>A string whose first and last byte are visible ASCII has nothing to trim.\<close>

definition visible :: "char \<Rightarrow> bool" where
  "visible c \<longleftrightarrow> 32 < (of_char c :: nat) \<and> (of_char c :: nat) < 128"

lemma space_encoding_ends:
  "w \<in> set space_encodings \<Longrightarrow> \<not> visible (hd w) \<and> \<not> visible (last w)"
  by (auto simp: space_encodings_def visible_def)

lemma visible_no_prefix:
  assumes "visible c" and "w \<in> set space_encodings"
  shows "\<not> prefix w (c # s)" and "\<not> prefix (rev w) (c # s)"
proof -
  have ends: "w \<noteq> []" "\<not> visible (hd w)" "\<not> visible (last w)"
    using assms(2) space_encodings_nonempty space_encoding_ends by auto
  show "\<not> prefix w (c # s)"
    using ends assms(1) by (cases w) auto
  show "\<not> prefix (rev w) (c # s)"
    using ends assms(1) by (cases w rule: rev_cases) auto
qed

text \<open>Text with visible ends: exactly the surrounding white space is removed.\<close>

definition visible_ends :: "string \<Rightarrow> bool" where
  "visible_ends t \<longleftrightarrow> t \<noteq> [] \<and> visible (hd t) \<and> visible (last t)"

lemma TrimSpace_padded [go_string]:
  assumes "visible_ends t" and "blank l" and "blank r"
  shows "TrimSpace (l @ t @ r) = t"
proof -
  obtain us where us: "set us \<subseteq> set space_encodings" "l = concat us"
    using assms(2) by (auto simp: blank_def)
  obtain vs where vs: "set vs \<subseteq> set space_encodings" "r = concat vs"
    using assms(3) by (auto simp: blank_def)
  have front: "\<forall>w\<in>set space_encodings. \<not> prefix w (t @ r)"
    using assms(1) visible_no_prefix(1) by (cases t) (auto simp: visible_ends_def)
  have "TrimLeftSpace (l @ t @ r) = t @ r"
    unfolding TrimLeftSpace_def us(2)
    using us(1) front by (intro strip_words_concat [OF prefix_free_spaces(1)]) auto
  moreover have rear: "\<forall>w\<in>set (map rev space_encodings). \<not> prefix w (rev t)"
    using assms(1) visible_no_prefix(2)
    by (cases t rule: rev_cases) (auto simp: visible_ends_def)
  have "strip_words (length (t @ r)) (map rev space_encodings) (concat (rev (map rev vs)) @ rev t)
      = rev t"
    using vs rear
    by (intro strip_words_concat [OF prefix_free_spaces(2)])
      (auto simp: length_concat rev_map [symmetric] sum_list_rev o_def)
  then have "TrimRightSpace (t @ r) = t"
    by (simp add: TrimRightSpace_def vs(2) rev_concat rev_map)
  ultimately show ?thesis by (simp add: TrimSpace_def)
qed

lemma TrimSpace_visible [go_string]: "visible_ends t \<Longrightarrow> TrimSpace t = t"
  using TrimSpace_padded [of t "[]" "[]"] by simp

lemma dropWhile_words:
  assumes "\<forall>u\<in>set E. (\<exists>c. u = [c] \<and> P c) \<or> (u \<noteq> [] \<and> \<not> P (hd u))"
    and "set us \<subseteq> set E" and "\<not> P x"
  shows "\<exists>vs. set vs \<subseteq> set E \<and> dropWhile P (concat us @ x # y) = concat vs @ x # y"
  using assms(2)
proof (induction us)
  case Nil
  with assms(3) show ?case by (intro exI [of _ "[]"]) simp
next
  case (Cons u us)
  then consider c where "u = [c]" "P c" | "u \<noteq> []" "\<not> P (hd u)"
    using assms(1) by auto
  then show ?case
  proof cases
    case 1
    with Cons show ?thesis by auto
  next
    case 2
    with Cons.prems show ?thesis by (intro exI [of _ "u # us"]) (cases u, auto)
  qed
qed

lemma path_char_visible: "path_char c \<Longrightarrow> visible c"
  using path_char_ascii by (auto simp: visible_def)

section \<open>Splitting and joining\<close>

text \<open>\<open>strings.Split\<close> with a one-byte separator, and \<open>strings.Join\<close>.\<close>

fun Split :: "char \<Rightarrow> string \<Rightarrow> string list" where
  "Split d [] = [[]]"
| "Split d (c # cs) =
     (if c = d then [] # Split d cs
      else (case Split d cs of [] \<Rightarrow> [[c]] | w # ws \<Rightarrow> (c # w) # ws))"

fun Join :: "string \<Rightarrow> string list \<Rightarrow> string" where
  "Join sep [] = []"
| "Join sep [w] = w"
| "Join sep (w # v # ws) = w @ sep @ Join sep (v # ws)"

lemma Split_nonempty [simp]: "Split d s \<noteq> []"
  by (induction s) (auto split: list.split)

lemma Join_Cons: "Join sep (w # ws) = (if ws = [] then w else w @ sep @ Join sep ws)"
  by (cases ws) auto

lemma Join_Split [simp]: "Join [d] (Split d s) = s"
proof (induction s)
  case (Cons c s)
  then show ?case
    by (cases "Split d s") (auto simp: Join_Cons split: if_splits)
qed simp

lemma Split_append_sep: "d \<notin> set w \<Longrightarrow> Split d (w @ d # s) = w # Split d s"
  by (induction w) auto

lemma Split_single: "d \<notin> set w \<Longrightarrow> Split d w = [w]"
  by (induction w) auto

lemma Split_Join [go_string]:
  "ws \<noteq> [] \<Longrightarrow> \<forall>w\<in>set ws. d \<notin> set w \<Longrightarrow> Split d (Join [d] ws) = ws"
proof (induction ws)
  case (Cons w ws)
  then show ?case
    by (cases ws) (auto simp: Split_append_sep Split_single)
qed simp

lemma Split_sep_free: "w \<in> set (Split d s) \<Longrightarrow> d \<notin> set w"
  by (induction s arbitrary: w) (auto split: list.splits if_splits)

section \<open>Decimal numbers\<close>

fun digit_value :: "char \<Rightarrow> nat" where
  "digit_value c = of_char c - 48"

fun nat_digits :: "nat \<Rightarrow> string" where
  "nat_digits n =
     (if n < 10 then [char_of (48 + n)] else nat_digits (n div 10) @ [char_of (48 + n mod 10)])"

declare nat_digits.simps [simp del]

text \<open>\<open>strconv.Itoa\<close> and \<open>strconv.FormatInt(_, 10)\<close>.\<close>

definition Itoa :: "int \<Rightarrow> string" where
  "Itoa i = (if i < 0 then CHR ''-'' # nat_digits (nat (- i)) else nat_digits (nat i))"

fun digits_value :: "nat \<Rightarrow> string \<Rightarrow> nat" where
  "digits_value n [] = n"
| "digits_value n (c # cs) = digits_value (10 * n + digit_value c) cs"

text \<open>
  \<open>strconv.Atoi\<close>, and \<open>strconv.ParseInt(_, 10, 64)\<close>: an optional sign, at least one digit,
  and a value that fits 64 bits.
\<close>

definition Atoi :: "string \<Rightarrow> int option" where
  "Atoi s =
     (let neg = (s \<noteq> [] \<and> hd s = CHR ''-'');
          ds = (if s \<noteq> [] \<and> (hd s = CHR ''-'' \<or> hd s = CHR ''+'') then tl s else s);
          v = int (digits_value 0 ds)
      in if ds = [] \<or> \<not> list_all isDigit ds then None
         else if neg then (if v \<le> 2 ^ 63 then Some (- v) else None)
         else (if v < 2 ^ 63 then Some v else None))"

lemma isDigit_char_of: "(n :: nat) < 10 \<Longrightarrow> isDigit (char_of (48 + n))"
  by (simp add: isDigit_def)

lemma digit_value_char_of: "n < 10 \<Longrightarrow> digit_value (char_of (48 + n)) = n"
  by simp

lemma nat_digits_isDigit: "list_all isDigit (nat_digits n)"
proof (induction n rule: nat_digits.induct)
  case (1 n)
  then show ?case
    by (subst nat_digits.simps) (auto simp: isDigit_char_of)
qed

lemma nat_digits_nonempty [simp]: "nat_digits n \<noteq> []"
  by (subst nat_digits.simps) simp

lemma digits_value_append:
  "digits_value n (xs @ ys) = digits_value (digits_value n xs) ys"
  by (induction xs arbitrary: n) simp_all

lemma digits_value_nat_digits [simp]: "digits_value 0 (nat_digits n) = n"
proof (induction n rule: nat_digits.induct)
  case (1 n)
  then show ?case
    by (subst nat_digits.simps) (auto simp: digits_value_append)
qed

lemma Atoi_Itoa_nat [go_string]: "n < 2 ^ 63 \<Longrightarrow> Atoi (Itoa (int n)) = Some (int n)"
proof -
  assume "n < 2 ^ 63"
  moreover have "hd (nat_digits n) \<noteq> CHR ''-'' \<and> hd (nat_digits n) \<noteq> CHR ''+''"
    using nat_digits_isDigit [of n] nat_digits_nonempty [of n]
    by (cases "nat_digits n") (auto simp: isDigit_def)
  ultimately show ?thesis
    using nat_digits_isDigit [of n] by (simp add: Atoi_def Itoa_def)
qed

lemma Atoi_Itoa:
  assumes "- (2 ^ 63) \<le> i" "i < 2 ^ 63"
  shows "Atoi (Itoa i) = Some i"
proof (cases "i < 0")
  case True
  then have "Itoa i = CHR ''-'' # nat_digits (nat (- i))" by (simp add: Itoa_def)
  moreover have "nat_digits (nat (- i)) \<noteq> []" "list_all isDigit (nat_digits (nat (- i)))"
    by (simp_all add: nat_digits_isDigit)
  ultimately show ?thesis using True assms by (simp add: Atoi_def)
next
  case False
  then have i: "int (nat i) = i" by simp
  have "int (nat i) < int (2 ^ 63)" using assms(2) i by simp
  then have "nat i < 2 ^ 63" by (simp only: of_nat_less_iff)
  from Atoi_Itoa_nat [OF this] show ?thesis unfolding i .
qed

end
