(* ===== verification/Float64.thy ===== *)
theory Float64
  imports Complex_Main "HOL-Library.Log_Nat" Prelude
begin

text \<open>
  Go's \<open>float64\<close>: IEEE 754 binary64 with round-to-nearest-even.  A finite value is the
  rational number it stands for; the negative zero is kept apart because
  \<open>json.Marshal\<close> prints it differently.  The arithmetic operators compute the exact
  rational result and round it, which is what IEEE 754 prescribes; \<open>strconv.ParseFloat\<close>
  is correctly rounded, so it is the same rounding applied to the decimal value; and
  \<open>strconv.FormatFloat\<close> with precision -1 prints the shortest decimal that reads back as
  the same value.
\<close>

datatype f64 = Fin rat | NegZero | PosInf | NegInf | NaN

section \<open>Rounding\<close>

definition pow2 :: "int \<Rightarrow> rat" where
  "pow2 k = (if 0 \<le> k then 2 ^ nat k else 1 / 2 ^ nat (- k))"

definition pow10 :: "int \<Rightarrow> rat" where
  "pow10 k = (if 0 \<le> k then 10 ^ nat k else 1 / 10 ^ nat (- k))"

text \<open>The \<open>e\<close> with \<open>2 ^ e \<le> q < 2 ^ (e + 1)\<close>, for a positive \<open>q\<close>.\<close>

definition ilog2 :: "rat \<Rightarrow> int" where
  "ilog2 q =
     (let (n, d) = quotient_of q;
          a = int (floorlog 2 (nat n)) - int (floorlog 2 (nat d))
      in if pow2 a \<le> q then a else a - 1)"

definition round_half_even :: "rat \<Rightarrow> int" where
  "round_half_even q =
     (let f = \<lfloor>q\<rfloor>; r = q - of_int f
      in if r < 1 / 2 then f else if 1 / 2 < r then f + 1 else if even f then f else f + 1)"

text \<open>
  \<open>round64 neg q\<close> rounds the exact result \<open>q\<close>; \<open>neg\<close> is the sign of an exact zero.  The
  spacing of binary64 numbers around \<open>q\<close> is \<open>2 ^ k\<close>, with 53 bits of precision and
  the exponent bounded below by the subnormal range.
\<close>

definition round64 :: "bool \<Rightarrow> rat \<Rightarrow> f64" where
  "round64 neg q =
     (if q = 0 then (if neg then NegZero else Fin 0)
      else let a = \<bar>q\<bar>; k = max (ilog2 a - 52) (- 1074);
               m = round_half_even (a / pow2 k); v = of_int m * pow2 k
           in if pow2 1024 \<le> v then (if q < 0 then NegInf else PosInf)
              else if m = 0 then (if q < 0 then NegZero else Fin 0)
              else Fin (if q < 0 then - v else v))"

section \<open>Comparison and arithmetic\<close>

text \<open>The finite value, or \<open>None\<close>.\<close>

fun fin_val :: "f64 \<Rightarrow> rat option" where
  "fin_val (Fin q) = Some q"
| "fin_val NegZero = Some 0"
| "fin_val _ = None"

fun sign_bit :: "f64 \<Rightarrow> bool" where
  "sign_bit (Fin q) \<longleftrightarrow> q < 0"
| "sign_bit NegZero \<longleftrightarrow> True"
| "sign_bit NegInf \<longleftrightarrow> True"
| "sign_bit _ \<longleftrightarrow> False"

definition f64_eq :: "f64 \<Rightarrow> f64 \<Rightarrow> bool" where
  "f64_eq x y =
     (case (fin_val x, fin_val y) of
        (Some a, Some b) \<Rightarrow> a = b
      | _ \<Rightarrow> x = y \<and> x \<noteq> NaN)"

definition f64_less :: "f64 \<Rightarrow> f64 \<Rightarrow> bool" where
  "f64_less x y =
     (if x = NaN \<or> y = NaN \<or> x = PosInf \<or> y = NegInf then False
      else case (fin_val x, fin_val y) of
        (Some a, Some b) \<Rightarrow> a < b
      | _ \<Rightarrow> True)"

fun f64_neg :: "f64 \<Rightarrow> f64" where
  "f64_neg (Fin q) = (if q = 0 then NegZero else Fin (- q))"
| "f64_neg NegZero = Fin 0"
| "f64_neg PosInf = NegInf"
| "f64_neg NegInf = PosInf"
| "f64_neg NaN = NaN"

definition f64_add :: "f64 \<Rightarrow> f64 \<Rightarrow> f64" where
  "f64_add x y =
     (if x = NaN \<or> y = NaN \<or> (x = PosInf \<and> y = NegInf) \<or> (x = NegInf \<and> y = PosInf) then NaN
      else case (fin_val x, fin_val y) of
        (Some a, Some b) \<Rightarrow> round64 (x = NegZero \<and> y = NegZero) (a + b)
      | (None, _) \<Rightarrow> x
      | (_, None) \<Rightarrow> y)"

definition f64_sub :: "f64 \<Rightarrow> f64 \<Rightarrow> f64" where
  "f64_sub x y = f64_add x (f64_neg y)"

definition f64_mul :: "f64 \<Rightarrow> f64 \<Rightarrow> f64" where
  "f64_mul x y =
     (let neg = (sign_bit x \<noteq> sign_bit y)
      in if x = NaN \<or> y = NaN then NaN
         else case (fin_val x, fin_val y) of
           (Some a, Some b) \<Rightarrow> round64 neg (a * b)
         | (Some a, None) \<Rightarrow> (if a = 0 then NaN else if neg then NegInf else PosInf)
         | (None, Some b) \<Rightarrow> (if b = 0 then NaN else if neg then NegInf else PosInf)
         | (None, None) \<Rightarrow> (if neg then NegInf else PosInf))"

definition f64_div :: "f64 \<Rightarrow> f64 \<Rightarrow> f64" where
  "f64_div x y =
     (let neg = (sign_bit x \<noteq> sign_bit y)
      in if x = NaN \<or> y = NaN then NaN
         else case (fin_val x, fin_val y) of
           (Some a, Some b) \<Rightarrow>
             (if b = 0 then (if a = 0 then NaN else if neg then NegInf else PosInf)
              else round64 neg (a / b))
         | (Some a, None) \<Rightarrow> (if neg then NegZero else Fin 0)
         | (None, Some b) \<Rightarrow> (if neg then NegInf else PosInf)
         | (None, None) \<Rightarrow> NaN)"

section \<open>Conversion to and from integers\<close>

definition f64_of_int :: "int \<Rightarrow> f64" where
  "f64_of_int i = round64 False (of_int i)"

definition trunc_rat :: "rat \<Rightarrow> int" where
  "trunc_rat q = (if q < 0 then - \<lfloor>- q\<rfloor> else \<lfloor>q\<rfloor>)"

text \<open>
  \<open>int64(x)\<close>: truncation.  The language leaves values outside the range to the
  implementation; on amd64 they become the least integer.
\<close>

definition int64_of_f64 :: "f64 \<Rightarrow> int" where
  "int64_of_f64 x =
     (case fin_val x of
        None \<Rightarrow> - (2 ^ 63)
      | Some q \<Rightarrow> (let t = trunc_rat q
                  in if - (2 ^ 63) \<le> t \<and> t < 2 ^ 63 then t else - (2 ^ 63)))"

text \<open>The test \<open>t == float64(int64(t))\<close>.\<close>

definition is_int64 :: "f64 \<Rightarrow> bool" where
  "is_int64 x = f64_eq x (f64_of_int (int64_of_f64 x))"

section \<open>Decimal text\<close>

text \<open>The \<open>e\<close> with \<open>10 ^ e \<le> q < 10 ^ (e + 1)\<close>, for a positive \<open>q\<close>.\<close>

definition ilog10 :: "rat \<Rightarrow> int" where
  "ilog10 q =
     (if 1 \<le> q then int (length (nat_digits (nat \<lfloor>q\<rfloor>))) - 1
      else - int (length (nat_digits (nat (\<lceil>1 / q\<rceil> - 1)))))"

text \<open>
  The shortest decimal \<open>d * 10 ^ x\<close> that rounds to the positive value \<open>q\<close>: the first
  number of digits for which one of the two neighbours of \<open>q\<close> reads back, the nearer
  one if both do.  Seventeen digits are always enough for binary64.
\<close>

fun shortest_from :: "nat \<Rightarrow> nat \<Rightarrow> rat \<Rightarrow> nat \<times> int" where
  "shortest_from left nd q =
     (let x = ilog10 q - int nd + 1; s = q / pow10 x; lo = nat \<lfloor>s\<rfloor>; hi = nat \<lceil>s\<rceil>;
          near = (if s - of_nat lo \<le> of_nat hi - s then lo else hi);
          ok = (\<lambda>d. round64 False (of_nat d * pow10 x) = Fin q)
      in case left of
           0 \<Rightarrow> (near, x)
         | Suc k \<Rightarrow> (if ok near then (near, x) else if ok lo then (lo, x)
                    else if ok hi then (hi, x) else shortest_from k (Suc nd) q))"

declare shortest_from.simps [simp del]

definition shortest :: "rat \<Rightarrow> nat \<times> int" where
  "shortest q = shortest_from 16 1 q"

text \<open>Digits without trailing zeros, and the position of the decimal point.\<close>

definition decimal_parts :: "rat \<Rightarrow> string \<times> int" where
  "decimal_parts q =
     (let (d, x) = shortest q; ds = nat_digits d;
          ds' = rev (dropWhile (\<lambda>c. c = CHR ''0'') (rev ds))
      in (ds', int (length ds) + x))"

text \<open>The formats \<open>'f'\<close>, \<open>'e'\<close> and \<open>'g'\<close> of \<open>strconv.FormatFloat\<close> with precision -1.\<close>

definition fmt_f :: "rat \<Rightarrow> string" where
  "fmt_f q =
     (let (ds, dp) = decimal_parts q
      in if dp \<le> 0 then ''0.'' @ replicate (nat (- dp)) CHR ''0'' @ ds
         else if int (length ds) \<le> dp then ds @ replicate (nat dp - length ds) CHR ''0''
         else take (nat dp) ds @ ''.'' @ drop (nat dp) ds)"

definition fmt_e :: "nat \<Rightarrow> rat \<Rightarrow> string" where
  "fmt_e width q =
     (let (ds, dp) = decimal_parts q; e = dp - 1; es = nat_digits (nat \<bar>e\<bar>)
      in take 1 ds @ (if length ds = 1 then [] else ''.'' @ drop 1 ds) @ ''e'' @
         (if e < 0 then ''-'' else ''+'') @
         replicate (width - length es) CHR ''0'' @ es)"

definition signed_text :: "(rat \<Rightarrow> string) \<Rightarrow> f64 \<Rightarrow> string" where
  "signed_text fmt x =
     (case x of
        NaN \<Rightarrow> ''NaN'' | PosInf \<Rightarrow> ''+Inf'' | NegInf \<Rightarrow> ''-Inf'' | NegZero \<Rightarrow> ''-0''
      | Fin q \<Rightarrow> (if q = 0 then ''0'' else if q < 0 then ''-'' @ fmt (- q) else fmt q))"

definition FormatFloat_f :: "f64 \<Rightarrow> string" where
  "FormatFloat_f = signed_text fmt_f"

definition FormatFloat_g :: "f64 \<Rightarrow> string" where
  "FormatFloat_g =
     signed_text (\<lambda>q. let e = snd (decimal_parts q) - 1
                      in if e < - 4 \<or> 6 \<le> e then fmt_e 2 q else fmt_f q)"

text \<open>
  The number encoder of \<open>encoding/json\<close>: format \<open>'e'\<close>, with the exponent's leading zero
  removed where it is negative, below 1e-6 and from 1e21 on, format \<open>'f'\<close> otherwise.
\<close>

definition json_float :: "f64 \<Rightarrow> string" where
  "json_float =
     signed_text (\<lambda>q. if q < pow10 (- 6) then fmt_e 1 q
                      else if pow10 21 \<le> q then fmt_e 2 q else fmt_f q)"

text \<open>
  The value of a decimal literal (an integer part, a fraction and an exponent), rounded;
  \<open>None\<close> is the range error of \<open>strconv.ParseFloat\<close>.
\<close>

definition decimal_f64 :: "bool \<Rightarrow> string \<Rightarrow> string \<Rightarrow> int \<Rightarrow> f64 option" where
  "decimal_f64 neg ip fp e =
     (let q = of_nat (digits_value 0 (ip @ fp)) * pow10 (e - int (length fp));
          v = round64 neg (if neg then - q else q)
      in if v = PosInf \<or> v = NegInf then None else Some v)"

end
