(* ===== verification/Json.thy ===== *)
theory Json
  imports Float64 "HOL-Library.List_Lexorder" "HOL-Library.Char_ord"
begin

text \<open>
  What the sources use of \<open>encoding/json\<close> on untyped values: \<open>json.Unmarshal\<close> into an
  \<open>any\<close> and \<open>json.Marshal\<close> of one.  \<open>JNull\<close> is the nil interface, \<open>JNum\<close> a \<open>float64\<close>,
  \<open>JObj\<close> a \<open>map[string]any\<close> given by its entries, with distinct keys.  Errors of the
  decoder carry no text here.
\<close>

datatype json =
    JNull
  | JBool bool
  | JNum f64
  | JStr string
  | JArr "json list"
  | JObj "(string \<times> json) list"

text \<open>
  A document as it is written: the literals of its numbers, and the members of its objects
  in order and with their duplicates.  The decoders of untyped values and of structs both
  start from it.
\<close>

datatype raw =
    RNull
  | RBool bool
  | RNum string
  | RStr string
  | RArr "raw list"
  | RObj "(string \<times> raw) list"

definition ErrJSON :: goerr where
  "ErrJSON = Sentinel ''encoding/json''"

section \<open>UTF-8\<close>

text \<open>
  The length of the UTF-8 encoding at the front of the string, 0 if the bytes there are
  no valid encoding (over-long forms, surrogates and values above U+10FFFF are not).
\<close>

definition byte_in :: "nat \<Rightarrow> nat \<Rightarrow> char \<Rightarrow> bool" where
  "byte_in lo hi c \<longleftrightarrow> lo \<le> of_char c \<and> of_char c \<le> hi"

definition cont_byte :: "char \<Rightarrow> bool" where
  "cont_byte = byte_in 0x80 0xBF"

definition rune_len :: "string \<Rightarrow> nat" where
  "rune_len s =
     (case s of [] \<Rightarrow> 0 | a # t \<Rightarrow>
        if byte_in 0 0x7F a then 1
        else (case t of [] \<Rightarrow> 0 | b # u \<Rightarrow>
          if byte_in 0xC2 0xDF a then (if cont_byte b then 2 else 0)
          else (case u of [] \<Rightarrow> 0 | c # v \<Rightarrow>
            if byte_in 0xE0 0xEF a then
              (if (if byte_in 0xE0 0xE0 a then byte_in 0xA0 0xBF b
                   else if byte_in 0xED 0xED a then byte_in 0x80 0x9F b else cont_byte b)
                  \<and> cont_byte c then 3 else 0)
            else (case v of [] \<Rightarrow> 0 | d # _ \<Rightarrow>
              if byte_in 0xF0 0xF4 a
                 \<and> (if byte_in 0xF0 0xF0 a then byte_in 0x90 0xBF b
                    else if byte_in 0xF4 0xF4 a then byte_in 0x80 0x8F b else cont_byte b)
                 \<and> cont_byte c \<and> cont_byte d then 4 else 0))))"

definition utf8 :: "nat \<Rightarrow> string" where
  "utf8 u =
     (if u < 0x80 then [char_of u]
      else if u < 0x800 then [char_of (0xC0 + u div 64), char_of (0x80 + u mod 64)]
      else if u < 0x10000 then
        [char_of (0xE0 + u div 4096), char_of (0x80 + u div 64 mod 64), char_of (0x80 + u mod 64)]
      else [char_of (0xF0 + u div 262144), char_of (0x80 + u div 4096 mod 64),
            char_of (0x80 + u div 64 mod 64), char_of (0x80 + u mod 64)])"

definition replacement :: string where
  "replacement = [CHR 0xEF, CHR 0xBF, CHR 0xBD]"

text \<open>\<open>len([]rune(s))\<close>: every byte that starts no valid encoding counts as one rune.\<close>

fun rune_count_fuel :: "nat \<Rightarrow> string \<Rightarrow> nat" where
  "rune_count_fuel 0 s = 0"
| "rune_count_fuel (Suc n) s =
     (if s = [] then 0 else Suc (rune_count_fuel n (drop (max 1 (rune_len s)) s)))"

definition rune_count :: "string \<Rightarrow> nat" where
  "rune_count s = rune_count_fuel (length s) s"

section \<open>Decoding\<close>

definition json_ws :: "char \<Rightarrow> bool" where
  "json_ws c \<longleftrightarrow> c = CHR 0x20 \<or> c = CHR 0x09 \<or> c = CHR 0x0A \<or> c = CHR 0x0D"

definition skip_ws :: "string \<Rightarrow> string" where
  "skip_ws = dropWhile json_ws"

definition hex_value :: "char \<Rightarrow> nat option" where
  "hex_value c =
     (if isDigit c then Some (digit_value c)
      else if byte_in 97 102 c then Some (of_char c - 87)
      else if byte_in 65 70 c then Some (of_char c - 55) else None)"

fun hex4 :: "string \<Rightarrow> (nat \<times> string) option" where
  "hex4 (a # b # c # d # r) =
     (case (hex_value a, hex_value b, hex_value c, hex_value d) of
        (Some w, Some x, Some y, Some z) \<Rightarrow> Some (4096 * w + 256 * x + 16 * y + z, r)
      | _ \<Rightarrow> None)"
| "hex4 _ = None"

text \<open>\<open>getu4\<close>: a further escape \<open>\u\<close> with four hexadecimal digits.\<close>

fun getu4 :: "string \<Rightarrow> (nat \<times> string) option" where
  "getu4 (a # b # r) = (if a = CHR 0x5C \<and> b = CHR ''u'' then hex4 r else None)"
| "getu4 _ = None"

definition simple_escape :: "char \<Rightarrow> char option" where
  "simple_escape c =
     map_of [(CHR 0x22, CHR 0x22), (CHR 0x5C, CHR 0x5C), (CHR ''/'', CHR ''/''),
       (CHR ''b'', CHR 0x08), (CHR ''f'', CHR 0x0C), (CHR ''n'', CHR 0x0A),
       (CHR ''r'', CHR 0x0D), (CHR ''t'', CHR 0x09)] c"

text \<open>
  The decoded rune of an escape \<open>\u\<close> and the rest: a surrogate pair is combined, a lone
  surrogate becomes U+FFFD.
\<close>

definition unicode_escape :: "nat \<Rightarrow> string \<Rightarrow> string \<times> string" where
  "unicode_escape u r =
     (if u < 0xD800 \<or> 0xDFFF < u then (utf8 u, r)
      else case getu4 r of
        Some (v, r') \<Rightarrow>
          (if u < 0xDC00 \<and> 0xDC00 \<le> v \<and> v \<le> 0xDFFF
           then (utf8 (0x10000 + (u - 0xD800) * 1024 + (v - 0xDC00)), r')
           else (replacement, r))
      | None \<Rightarrow> (replacement, r))"

text \<open>The rest of a string literal after its opening quote.\<close>

fun json_string :: "nat \<Rightarrow> string \<Rightarrow> (string \<times> string) option" where
  "json_string 0 s = None"
| "json_string (Suc n) s =
     (case s of [] \<Rightarrow> None | c # cs \<Rightarrow>
        let emit = (\<lambda>out r. map_option (\<lambda>(t, r'). (out @ t, r')) (json_string n r))
        in if c = CHR 0x22 then Some ([], cs)
           else if c = CHR 0x5C then
             (case cs of [] \<Rightarrow> None | e # r \<Rightarrow>
                if e = CHR ''u'' then
                  (case hex4 r of None \<Rightarrow> None
                   | Some (u, r') \<Rightarrow> (let (out, r'') = unicode_escape u r' in emit out r''))
                else (case simple_escape e of None \<Rightarrow> None | Some b \<Rightarrow> emit [b] r))
           else if of_char c < (32 :: nat) then None
           else if rune_len s = 0 then emit replacement cs
           else emit (take (rune_len s) s) (drop (rune_len s) s))"

text \<open>
  A number literal: an optional minus, an integer part without leading zeros, an optional
  fraction and an optional exponent, each with at least one digit.
\<close>

definition json_exponent :: "string \<Rightarrow> (int \<times> string) option" where
  "json_exponent s =
     (case s of
        c # r \<Rightarrow>
          (if c = CHR ''e'' \<or> c = CHR ''E'' then
             (let neg = (r \<noteq> [] \<and> hd r = CHR ''-'');
                  ds = (if r \<noteq> [] \<and> (hd r = CHR ''-'' \<or> hd r = CHR ''+'') then tl r else r);
                  e = int (digits_value 0 (takeWhile isDigit ds))
              in if takeWhile isDigit ds = [] then None
                 else Some (if neg then - e else e, dropWhile isDigit ds))
           else Some (0, s))
      | [] \<Rightarrow> Some (0, s))"

definition json_fraction :: "string \<Rightarrow> (string \<times> string) option" where
  "json_fraction s =
     (case s of
        c # r \<Rightarrow>
          (if c = CHR ''.'' then
             (if takeWhile isDigit r = [] then None
              else Some (takeWhile isDigit r, dropWhile isDigit r))
           else Some ([], s))
      | [] \<Rightarrow> Some ([], s))"

definition scan_number :: "string \<Rightarrow> ((bool \<times> string \<times> string \<times> int) \<times> string) option" where
  "scan_number s =
     (let neg = (s \<noteq> [] \<and> hd s = CHR ''-''); t = (if neg then tl s else s);
          zero = (t \<noteq> [] \<and> hd t = CHR ''0'');
          ip = (if zero then ''0'' else takeWhile isDigit t);
          r = (if zero then tl t else dropWhile isDigit t)
      in if ip = [] then None
         else case json_fraction r of None \<Rightarrow> None | Some (fp, r1) \<Rightarrow>
           (case json_exponent r1 of None \<Rightarrow> None | Some (e, r2) \<Rightarrow> Some ((neg, ip, fp, e), r2)))"

text \<open>The literal at the front of the input, and the value of a literal as a float64.\<close>

definition json_literal :: "string \<Rightarrow> (string \<times> string) option" where
  "json_literal s =
     map_option (\<lambda>(_, r). (take (length s - length r) s, r)) (scan_number s)"

definition literal_f64 :: "string \<Rightarrow> f64 option" where
  "literal_f64 lit =
     (case scan_number lit of
        Some ((neg, ip, fp, e), []) \<Rightarrow> decimal_f64 neg ip fp e
      | _ \<Rightarrow> None)"

text \<open>Assignment to a key of a \<open>map[string]any\<close>.\<close>

fun obj_put :: "string \<Rightarrow> 'v \<Rightarrow> (string \<times> 'v) list \<Rightarrow> (string \<times> 'v) list" where
  "obj_put k v [] = [(k, v)]"
| "obj_put k v ((l, w) # kvs) = (if l = k then (k, v) # kvs else (l, w) # obj_put k v kvs)"

text \<open>
  The value at the front of the input, with the entries of the object or array that is
  being read accumulated; \<open>d\<close> counts the open brackets, of which the decoder accepts
  10000.
\<close>

definition max_depth :: nat where
  "max_depth = 10000"

fun json_value :: "nat \<Rightarrow> nat \<Rightarrow> string \<Rightarrow> (raw \<times> string) option"
  and json_elems :: "nat \<Rightarrow> nat \<Rightarrow> raw list \<Rightarrow> string \<Rightarrow> (raw \<times> string) option"
  and json_members :: "nat \<Rightarrow> nat \<Rightarrow> (string \<times> raw) list \<Rightarrow> string \<Rightarrow> (raw \<times> string) option"
where
  "json_value 0 d s = None"
| "json_value (Suc n) d s =
     (case skip_ws s of [] \<Rightarrow> None | c # r \<Rightarrow>
        if c = CHR 0x22 then
          map_option (\<lambda>(t, r'). (RStr t, r')) (json_string (Suc (length r)) r)
        else if c = CHR ''['' then
          (if max_depth \<le> d then None
           else case skip_ws r of
             [] \<Rightarrow> None
           | e # r' \<Rightarrow> if e = CHR '']'' then Some (RArr [], r') else json_elems n (Suc d) [] r)
        else if c = CHR ''{'' then
          (if max_depth \<le> d then None
           else case skip_ws r of
             [] \<Rightarrow> None
           | e # r' \<Rightarrow> if e = CHR ''}'' then Some (RObj [], r') else json_members n (Suc d) [] r)
        else if prefix ''true'' (c # r) then Some (RBool True, drop 4 (c # r))
        else if prefix ''false'' (c # r) then Some (RBool False, drop 5 (c # r))
        else if prefix ''null'' (c # r) then Some (RNull, drop 4 (c # r))
        else map_option (\<lambda>(v, r'). (RNum v, r')) (json_literal (c # r)))"
| "json_elems 0 d acc s = None"
| "json_elems (Suc n) d acc s =
     (case json_value n d s of None \<Rightarrow> None | Some (v, r) \<Rightarrow>
        (case skip_ws r of [] \<Rightarrow> None | c # r' \<Rightarrow>
           if c = CHR '','' then json_elems n d (acc @ [v]) r'
           else if c = CHR '']'' then Some (RArr (acc @ [v]), r') else None))"
| "json_members 0 d acc s = None"
| "json_members (Suc n) d acc s =
     (case skip_ws s of [] \<Rightarrow> None | q # r \<Rightarrow>
        if q \<noteq> CHR 0x22 then None
        else case json_string (Suc (length r)) r of None \<Rightarrow> None | Some (k, r1) \<Rightarrow>
          (case skip_ws r1 of [] \<Rightarrow> None | c # r2 \<Rightarrow>
             if c \<noteq> CHR '':'' then None
             else case json_value n d r2 of None \<Rightarrow> None | Some (v, r3) \<Rightarrow>
               (case skip_ws r3 of [] \<Rightarrow> None | e # r4 \<Rightarrow>
                  if e = CHR '','' then json_members n d (acc @ [(k, v)]) r4
                  else if e = CHR ''}'' then Some (RObj (acc @ [(k, v)]), r4) else None)))"

text \<open>
  Decoding into an \<open>any\<close>: a number out of the range of a float64 is an error, and of two
  members with one key the later one counts.
\<close>

fun to_any :: "raw \<Rightarrow> json option" where
  "to_any RNull = Some JNull"
| "to_any (RBool b) = Some (JBool b)"
| "to_any (RNum lit) = map_option JNum (literal_f64 lit)"
| "to_any (RStr s) = Some (JStr s)"
| "to_any (RArr vs) = map_option JArr (those (map to_any vs))"
| "to_any (RObj kvs) =
     map_option (\<lambda>ms. JObj (fold (\<lambda>(k, v). obj_put k v) ms []))
       (those (map (\<lambda>(k, v). map_option (Pair k) (to_any v)) kvs))"

text \<open>A whole document: one value, and nothing but white space after it.\<close>

definition json_document :: "string \<Rightarrow> raw option" where
  "json_document s =
     (case json_value (2 * length s + 2) 0 s of
        None \<Rightarrow> None
      | Some (v, r) \<Rightarrow> if skip_ws r = [] then Some v else None)"

definition json_Unmarshal :: "string \<Rightarrow> json res" where
  "json_Unmarshal s =
     (case Option.bind (json_document s) to_any of None \<Rightarrow> Inl ErrJSON | Some v \<Rightarrow> Inr v)"

section \<open>Encoding\<close>

definition hex_digit :: "nat \<Rightarrow> char" where
  "hex_digit n = (if n < 10 then char_of (48 + n) else char_of (87 + n))"

text \<open>
  \<open>json.Marshal\<close> of a string: the two-character escapes, the escapes of the other control
  characters and of the HTML characters, U+2028 and U+2029 escaped, invalid bytes as the
  escape of U+FFFD.
\<close>

definition json_byte :: "char \<Rightarrow> string" where
  "json_byte c =
     (if c = CHR 0x22 \<or> c = CHR 0x5C then [CHR 0x5C, c]
      else if c = CHR 0x08 then [CHR 0x5C, CHR ''b'']
      else if c = CHR 0x0C then [CHR 0x5C, CHR ''f'']
      else if c = CHR 0x0A then [CHR 0x5C, CHR ''n'']
      else if c = CHR 0x0D then [CHR 0x5C, CHR ''r'']
      else if c = CHR 0x09 then [CHR 0x5C, CHR ''t'']
      else if of_char c < (32 :: nat) \<or> c = CHR ''<'' \<or> c = CHR ''>'' \<or> c = CHR ''&''
      then [CHR 0x5C] @ ''u00'' @ [hex_digit (of_char c div 16), hex_digit (of_char c mod 16)]
      else [c])"

fun json_quote_fuel :: "nat \<Rightarrow> string \<Rightarrow> string" where
  "json_quote_fuel 0 s = []"
| "json_quote_fuel (Suc n) s =
     (case s of [] \<Rightarrow> [] | c # cs \<Rightarrow>
        let k = rune_len s; w = take k s
        in if k = 1 then json_byte c @ json_quote_fuel n cs
           else if k = 0 then [CHR 0x5C] @ ''ufffd'' @ json_quote_fuel n cs
           else if w = [CHR 0xE2, CHR 0x80, CHR 0xA8]
             then [CHR 0x5C] @ ''u2028'' @ json_quote_fuel n (drop 3 s)
           else if w = [CHR 0xE2, CHR 0x80, CHR 0xA9]
             then [CHR 0x5C] @ ''u2029'' @ json_quote_fuel n (drop 3 s)
           else w @ json_quote_fuel n (drop k s))"

definition json_quote :: "string \<Rightarrow> string" where
  "json_quote s = [CHR 0x22] @ json_quote_fuel (length s) s @ [CHR 0x22]"

text \<open>Objects are printed with their keys in increasing order.\<close>

fun json_Marshal :: "json \<Rightarrow> string" where
  "json_Marshal JNull = ''null''"
| "json_Marshal (JBool b) = (if b then ''true'' else ''false'')"
| "json_Marshal (JNum x) = json_float x"
| "json_Marshal (JStr s) = json_quote s"
| "json_Marshal (JArr vs) = ''['' @ Join '','' (map json_Marshal vs) @ '']''"
| "json_Marshal (JObj kvs) =
     ''{'' @ Join '',''
       (map (\<lambda>(k, t). json_quote k @ '':'' @ t)
         (sort_key fst (map (\<lambda>(k, v). (k, json_Marshal v)) kvs))) @ ''}''"

section \<open>The decoder's result\<close>

text \<open>Objects of a decoded value have distinct keys, at every depth.\<close>

fun json_wf :: "json \<Rightarrow> bool" where
  "json_wf (JArr vs) \<longleftrightarrow> list_all json_wf vs"
| "json_wf (JObj kvs) \<longleftrightarrow> distinct (map fst kvs) \<and> list_all (\<lambda>(k, v). json_wf v) kvs"
| "json_wf _ \<longleftrightarrow> True"

lemma set_map_fst_obj_put: "fst ` set (obj_put k v kvs) = insert k (fst ` set kvs)"
proof (induction kvs)
  case (Cons p kvs)
  then show ?case by (cases p) auto
qed simp

lemma map_of_obj_put: "map_of (obj_put k v kvs) = (map_of kvs)(k \<mapsto> v)"
  by (induction kvs) auto

lemma distinct_obj_put: "distinct (map fst kvs) \<Longrightarrow> distinct (map fst (obj_put k v kvs))"
proof (induction kvs)
  case (Cons p kvs)
  then show ?case
    using set_map_fst_obj_put [of k v kvs] by (cases p) auto
qed simp

lemma set_obj_put: "set (obj_put k v kvs) \<subseteq> insert (k, v) (set kvs)"
  by (induction kvs) (auto split: if_splits)

lemma json_wf_obj_put:
  "json_wf (JObj kvs) \<Longrightarrow> json_wf v \<Longrightarrow> json_wf (JObj (obj_put k v kvs))"
  using set_obj_put [of k v kvs] distinct_obj_put by (fastforce simp: list_all_iff)

declare json_value.simps(2) [simp del] json_elems.simps(2) [simp del]
  json_members.simps(2) [simp del] json_string.simps(2) [simp del]

lemma json_wf_fold_obj_put:
  "json_wf (JObj acc) \<Longrightarrow> \<forall>(k, v)\<in>set ms. json_wf v \<Longrightarrow>
     json_wf (JObj (fold (\<lambda>(k, v). obj_put k v) ms acc))"
proof (induction ms arbitrary: acc)
  case (Cons m ms)
  then show ?case using json_wf_obj_put [OF Cons.prems(1)] by (cases m) (simp del: json_wf.simps)
qed simp

lemma those_Some_iff: "those xs = Some ys \<longleftrightarrow> xs = map Some ys"
proof (induction xs arbitrary: ys)
  case (Cons x xs)
  then show ?case by (cases ys; cases x) (auto split: option.splits)
qed auto

lemma to_any_wf: "to_any r = Some v \<Longrightarrow> json_wf v"
proof (induction r arbitrary: v rule: to_any.induct)
  case (5 vs)
  then obtain ws where ws: "map to_any vs = map Some ws" "v = JArr ws"
    by (auto simp: those_Some_iff)
  have "json_wf w" if "w \<in> set ws" for w
  proof -
    have "Some w \<in> to_any ` set vs" using ws(1) that by (metis image_eqI image_set)
    then obtain r where "r \<in> set vs" "to_any r = Some w" by auto
    then show ?thesis by (rule 5(1))
  qed
  with ws(2) show ?case by (simp add: list_all_iff)
next
  case (6 kvs)
  then obtain ms where ms: "map (\<lambda>(k, v). map_option (Pair k) (to_any v)) kvs = map Some ms"
    "v = JObj (fold (\<lambda>(k, v). obj_put k v) ms [])"
    by (auto simp: those_Some_iff)
  have "json_wf w" if "(k, w) \<in> set ms" for k w
  proof -
    have "Some (k, w) \<in> (\<lambda>(k, v). map_option (Pair k) (to_any v)) ` set kvs"
      using ms(1) that by (metis image_eqI image_set)
    then obtain r where "(k, r) \<in> set kvs" "to_any r = Some w"
      by (auto dest!: sym [of "Some _"])
    then show ?thesis using 6(1) [OF _ refl] by blast
  qed
  then show ?case unfolding ms(2) by (intro json_wf_fold_obj_put) auto
qed auto

lemma json_Unmarshal_wf: "json_Unmarshal s = Inr v \<Longrightarrow> json_wf v"
  by (auto simp: json_Unmarshal_def Option.bind_eq_Some_conv dest: to_any_wf split: option.splits)

end
