(* ===== verification/Model.thy ===== *)
theory Model
  imports Json
begin

text \<open>
  The types of \<open>internal/model\<close>: blueprints, pipelines with their steps and routes, jobs
  and step results.  A Go \<open>int\<close> has 64 bits and wraps around, so it is a word here; a nil
  pointer is \<open>None\<close>; an \<open>any\<close> is a JSON value, with \<open>JNull\<close> for nil.
\<close>

type_synonym goint = "64 word"

definition SchemaVersion :: goint where
  "SchemaVersion = 1"

type_synonym OutputFormat = string

definition OutputText :: OutputFormat where
  "OutputText = ''text''"

definition OutputJSON :: OutputFormat where
  "OutputJSON = ''json''"

record AgentBlueprint =
  bp_ID :: string
  bp_Description :: string
  bp_PromptPath :: string
  bp_Model :: string
  bp_BaseURL :: string
  bp_Temperature :: "f64 option"
  bp_MaxTokens :: goint
  bp_TimeoutSeconds :: goint
  bp_OutputFormat :: OutputFormat
  bp_OutputSchema :: string
  bp_Tools :: "string list"
  bp_Concurrency :: goint
  bp_RateLimit :: string
  bp_Version :: goint

section \<open>Conditions and routes\<close>

record Condition =
  Field :: string
  Equals :: json
  NotEquals :: json
  In :: "json list"
  Matches :: string
  Exists :: bool

record Route =
  When :: "Condition option"
  Default :: bool
  Goto :: string

definition OpEquals :: string where "OpEquals = ''equals''"
definition OpNotEquals :: string where "OpNotEquals = ''not_equals''"
definition OpIn :: string where "OpIn = ''in''"
definition OpMatches :: string where "OpMatches = ''matches''"
definition OpExists :: string where "OpExists = ''exists''"

lemmas Op_defs = OpEquals_def OpNotEquals_def OpIn_def OpMatches_def OpExists_def

text \<open>
  \<open>Condition.Operator\<close>: a counter and the last operator seen are updated by five
  independent tests; the result is empty unless exactly one test holds.
\<close>

definition Operator :: "Condition \<Rightarrow> string" where
  "Operator c =
     (let upd = (\<lambda>b op (count, cur). if b then (count + 1, op) else (count, cur));
          st = upd (Equals c \<noteq> JNull) OpEquals (0 :: nat, []);
          st = upd (NotEquals c \<noteq> JNull) OpNotEquals st;
          st = upd (In c \<noteq> []) OpIn st;
          st = upd (Matches c \<noteq> []) OpMatches st;
          st = upd (Exists c) OpExists st
      in if fst st \<noteq> 1 then [] else snd st)"

text \<open>The operators that a condition sets, and how \<open>Operator\<close> is determined by them.\<close>

definition operators_set :: "Condition \<Rightarrow> string list" where
  "operators_set c =
     (if Equals c \<noteq> JNull then [OpEquals] else []) @
     (if NotEquals c \<noteq> JNull then [OpNotEquals] else []) @
     (if In c \<noteq> [] then [OpIn] else []) @
     (if Matches c \<noteq> [] then [OpMatches] else []) @
     (if Exists c then [OpExists] else [])"

lemma Operator_operators_set:
  "Operator c = (case operators_set c of [op] \<Rightarrow> op | _ \<Rightarrow> [])"
  by (simp add: Operator_def operators_set_def Let_def)

lemma Operator_nonempty_iff: "Operator c \<noteq> [] \<longleftrightarrow> (\<exists>op. operators_set c = [op])"
  by (auto simp: Operator_operators_set operators_set_def Op_defs split: list.splits)

section \<open>Pipelines\<close>

record Step =
  step_ID :: string
  step_AgentID :: string
  step_Input :: string
  step_Output :: string
  step_Router :: bool
  step_Routes :: "Route list"
  step_Needs :: "string list"

record Pipeline =
  PipelineID :: string
  pl_Version :: goint
  pl_Inputs :: "string list"
  pl_Steps :: "Step list"
  pl_Output :: string

section \<open>Jobs\<close>

text \<open>\<open>JobKind\<close> and \<open>JobStatus\<close> are strings in Go, and a stored job may carry any string.\<close>

type_synonym JobKind = string
type_synonym JobStatus = string

definition KindAgent :: JobKind where "KindAgent = ''agent''"
definition KindPipeline :: JobKind where "KindPipeline = ''pipeline''"

definition StatusPending :: JobStatus where "StatusPending = ''PENDING''"
definition StatusRunning :: JobStatus where "StatusRunning = ''RUNNING''"
definition StatusCompleted :: JobStatus where "StatusCompleted = ''COMPLETED''"
definition StatusFailed :: JobStatus where "StatusFailed = ''FAILED''"
definition StatusCanceled :: JobStatus where "StatusCanceled = ''CANCELED''"
definition StatusSkipped :: JobStatus where "StatusSkipped = ''SKIPPED''"

lemmas Status_defs = StatusPending_def StatusRunning_def StatusCompleted_def
  StatusFailed_def StatusCanceled_def StatusSkipped_def

record Job =
  SessionID :: string
  job_Kind :: JobKind
  TargetID :: string
  job_Status :: JobStatus
  job_Input :: string
  job_Result :: string
  job_Error :: string

record StepResult =
  sr_SessionID :: string
  sr_StepID :: string
  sr_Status :: string
  sr_Output :: string
  sr_Error :: string
  sr_Tokens :: goint
  sr_DurationMS :: goint

end
