(* ===== verification/Template.thy ===== *)
theory Template
  imports Model
begin

text \<open>
  \<open>internal/pipeline/template.go\<close>: the template grammar.  \<open>refTokens\<close> is the sequence of
  matches of the regular expression \<open>refPattern\<close> and of the bytes between them, which is
  all that \<open>FindAllStringSubmatchIndex\<close>, \<open>FindAllStringIndex\<close> and \<open>ReplaceAllString\<close>
  use of it.  The main result is that \<open>ParseRefs\<close> accepts exactly the strings of the
  documented grammar and returns exactly their references.
\<close>

section \<open>References\<close>

datatype RefKind = RefInput | RefStepOutput

record Ref =
  Kind :: RefKind
  Name :: string
  StepID :: string
  Path :: "string list"
  Raw :: string

section \<open>The regular expression refPattern\<close>

definition brace :: "char \<Rightarrow> bool" where
  "brace c \<longleftrightarrow> c = CHR ''{'' \<or> c = CHR ''}''"

text \<open>The class \<open>\s\<close> of the regular expression syntax.\<close>

definition re_space :: "char \<Rightarrow> bool" where
  "re_space c \<longleftrightarrow> c = CHR 0x09 \<or> c = CHR 0x0A \<or> c = CHR 0x0C \<or> c = CHR 0x0D \<or> c = CHR 0x20"

text \<open>
  \<open>\{\{\s*([^{}]+?)\s*\}\}\<close> matches at a position when two opening braces are followed by a
  nonempty run of non-braces and two closing braces.  The greedy leading \<open>\s*\<close> and the
  reluctant group leave the run without its surrounding white space as the submatch,
  or its last byte if the run is white space only.
\<close>

definition submatch :: "string \<Rightarrow> string" where
  "submatch body =
     (let l = dropWhile re_space body
      in if l = [] then [last body] else rev (dropWhile re_space (rev l)))"

definition match_here :: "string \<Rightarrow> (string \<times> string) option" where
  "match_here s =
     (let body = takeWhile (\<lambda>c. \<not> brace c) (drop 2 s);
          rest = dropWhile (\<lambda>c. \<not> brace c) (drop 2 s)
      in if take 2 s = ''{{'' \<and> body \<noteq> [] \<and> take 2 rest = ''}}''
         then Some (body, drop 2 rest) else None)"

datatype token = Byte char | Match string string

lemma match_here_Some:
  "match_here s = Some (body, rest) \<longleftrightarrow>
     s = ''{{'' @ body @ ''}}'' @ rest \<and> body \<noteq> [] \<and> (\<forall>c\<in>set body. \<not> brace c)"
proof
  assume "match_here s = Some (body, rest)"
  then have t: "take 2 s = ''{{''" and b: "body = takeWhile (\<lambda>c. \<not> brace c) (drop 2 s)"
    and ne: "body \<noteq> []" and r2: "take 2 (dropWhile (\<lambda>c. \<not> brace c) (drop 2 s)) = ''}}''"
    and r: "rest = drop 2 (dropWhile (\<lambda>c. \<not> brace c) (drop 2 s))"
    by (auto simp: match_here_def Let_def split: if_splits)
  have "s = ''{{'' @ drop 2 s" using t by (metis append_take_drop_id)
  also have "drop 2 s = body @ dropWhile (\<lambda>c. \<not> brace c) (drop 2 s)"
    unfolding b by simp
  also have "dropWhile (\<lambda>c. \<not> brace c) (drop 2 s) = ''}}'' @ rest"
    unfolding r using r2 by (metis append_take_drop_id)
  finally show "s = ''{{'' @ body @ ''}}'' @ rest \<and> body \<noteq> [] \<and> (\<forall>c\<in>set body. \<not> brace c)"
    using ne unfolding b by (auto dest: set_takeWhileD)
next
  assume s: "s = ''{{'' @ body @ ''}}'' @ rest \<and> body \<noteq> [] \<and> (\<forall>c\<in>set body. \<not> brace c)"
  then have "takeWhile (\<lambda>c. \<not> brace c) (body @ ''}}'' @ rest) = body"
    and "dropWhile (\<lambda>c. \<not> brace c) (body @ ''}}'' @ rest) = ''}}'' @ rest"
    by (simp_all add: brace_def)
  with s show "match_here s = Some (body, rest)"
    by (simp add: match_here_def)
qed

lemma match_here_shorter: "match_here s = Some (body, rest) \<Longrightarrow> length rest < length s"
  by (auto simp: match_here_Some)

text \<open>All leftmost, non-overlapping matches, with the bytes between them.\<close>

function refTokens :: "string \<Rightarrow> token list" where
  "refTokens [] = []"
| "refTokens (c # cs) =
     (case match_here (c # cs) of
        Some (body, rest) \<Rightarrow> Match (''{{'' @ body @ ''}}'') (submatch body) # refTokens rest
      | None \<Rightarrow> Byte c # refTokens cs)"
  by pat_completeness auto
termination
proof (relation "measure length")
  show "(b, c # cs) \<in> measure length"
    if "match_here (c # cs) = Some x" and "(a, b) = x" for c cs x a b
    using match_here_shorter [of "c # cs" a b] that by simp
qed auto

declare refTokens.simps(2) [simp del]

fun token_text :: "token \<Rightarrow> string" where
  "token_text (Byte c) = [c]"
| "token_text (Match raw g) = raw"

fun bytes_of :: "token list \<Rightarrow> string" where
  "bytes_of [] = []"
| "bytes_of (Byte c # ts) = c # bytes_of ts"
| "bytes_of (Match raw g # ts) = bytes_of ts"

fun matches_of :: "token list \<Rightarrow> (string \<times> string) list" where
  "matches_of [] = []"
| "matches_of (Byte c # ts) = matches_of ts"
| "matches_of (Match raw g # ts) = (raw, g) # matches_of ts"

section \<open>Parsing references\<close>

definition parseRef :: "string \<Rightarrow> string \<Rightarrow> Ref res" where
  "parseRef inner raw =
     (let parts = Split CHR ''.'' inner
      in if length parts = 2 \<and> parts ! 0 = ''inputs'' then
           (if \<not> idPattern (parts ! 1) then Inl (Errorf ''invalid input reference %q'' [raw])
            else Inr \<lparr>Kind = RefInput, Name = parts ! 1, StepID = [], Path = [], Raw = raw\<rparr>)
         else if 3 \<le> length parts \<and> parts ! 0 = ''steps'' \<and> parts ! 2 = ''output'' then
           (if \<not> idPattern (parts ! 1) then Inl (Errorf ''invalid step reference %q'' [raw])
            else bind_res
              (check_each (\<lambda>seg. if \<not> pathPattern seg
                 then Inl (Errorf ''invalid JSON path in reference %q'' [raw]) else Inr ())
                (drop 3 parts))
              (\<lambda>_. Inr \<lparr>Kind = RefStepOutput, Name = [], StepID = parts ! 1,
                        Path = drop 3 parts, Raw = raw\<rparr>))
         else Inl (Errorf
           ''invalid template reference %q (want inputs.<name> or steps.<id>.output[.path])'' [raw]))"

definition ParseRefs :: "string \<Rightarrow> Ref list res" where
  "ParseRefs s =
     bind_res
       (for_each
         (\<lambda>(raw, group) refs.
            bind_res (parseRef (TrimSpace group) raw) (\<lambda>ref. Inr (refs @ [ref])))
         (matches_of (refTokens s)) [])
       (\<lambda>refs. if list_ex brace (bytes_of (refTokens s))
               then Inl (Errorf ''malformed template %q: unbalanced or invalid braces'' [s])
               else Inr refs)"

section \<open>The tokens of a string\<close>

lemma refTokens_match [simp]:
  assumes "body \<noteq> []" and "\<forall>c\<in>set body. \<not> brace c"
  shows "refTokens (''{{'' @ body @ ''}}'' @ rest)
    = Match (''{{'' @ body @ ''}}'') (submatch body) # refTokens rest"
proof -
  have "match_here (''{{'' @ body @ ''}}'' @ rest) = Some (body, rest)"
    using assms by (simp add: match_here_Some)
  then show ?thesis by (simp add: refTokens.simps(2))
qed

lemma match_here_nonbrace: "c \<noteq> CHR ''{'' \<Longrightarrow> match_here (c # s) = None"
  by (simp add: match_here_def)

lemma refTokens_text:
  "\<forall>c\<in>set t. \<not> brace c \<Longrightarrow> refTokens (t @ rest) = map Byte t @ refTokens rest"
  by (induction t) (auto simp: refTokens.simps(2) match_here_nonbrace brace_def)

lemma refTokens_concat: "concat (map token_text (refTokens s)) = s"
proof (induction s rule: refTokens.induct)
  case (2 c cs)
  then show ?case
  proof (cases "match_here (c # cs)")
    case (Some p)
    obtain body rest where p: "p = (body, rest)" by fastforce
    with Some have "c # cs = ''{{'' @ body @ ''}}'' @ rest"
      by (simp add: match_here_Some)
    with 2(2) [OF Some p [symmetric]] p Some show ?thesis
      by (auto simp: refTokens.simps(2))
  qed (simp add: refTokens.simps(2))
qed simp

lemma Match_in_refTokens:
  "Match raw g \<in> set (refTokens s) \<Longrightarrow>
     \<exists>body. raw = ''{{'' @ body @ ''}}'' \<and> g = submatch body \<and> body \<noteq> [] \<and> (\<forall>c\<in>set body. \<not> brace c)"
proof (induction s rule: refTokens.induct)
  case (2 c cs)
  show ?case
  proof (cases "match_here (c # cs)")
    case None
    with 2(1,3) show ?thesis by (auto simp: refTokens.simps(2))
  next
    case (Some p)
    obtain body rest where p: "p = (body, rest)" by fastforce
    then have "body \<noteq> []" "\<forall>c\<in>set body. \<not> brace c"
      using Some by (simp_all add: match_here_Some)
    with 2(2) [OF Some p [symmetric]] 2(3) Some p show ?thesis
      by (auto simp: refTokens.simps(2))
  qed
qed simp

section \<open>The submatch and white space\<close>

lemma re_space_words:
  "\<forall>u\<in>set space_encodings. (\<exists>c. u = [c] \<and> re_space c) \<or> (u \<noteq> [] \<and> \<not> re_space (hd u))"
  "\<forall>u\<in>set (map rev space_encodings). (\<exists>c. u = [c] \<and> re_space c) \<or> (u \<noteq> [] \<and> \<not> re_space (hd u))"
proof -
  have "list_all (\<lambda>u. (length u = 1 \<or> \<not> re_space (hd u)) \<and> u \<noteq> [])
      (space_encodings @ map rev space_encodings)"
    unfolding re_space_def by code_simp
  then have *: "(length u = 1 \<or> \<not> re_space (hd u)) \<and> u \<noteq> []"
    if "u \<in> set space_encodings \<or> u \<in> set (map rev space_encodings)" for u
    using that by (auto simp: list_all_iff)
  then have H: "(\<exists>c. u = [c] \<and> re_space c) \<or> (u \<noteq> [] \<and> \<not> re_space (hd u))"
    if "u \<in> set space_encodings \<or> u \<in> set (map rev space_encodings)" for u
    using * [OF that] by (cases u) auto
  show "\<forall>u\<in>set space_encodings. (\<exists>c. u = [c] \<and> re_space c) \<or> (u \<noteq> [] \<and> \<not> re_space (hd u))"
    by (intro ballI H disjI1)
  show "\<forall>u\<in>set (map rev space_encodings).
      (\<exists>c. u = [c] \<and> re_space c) \<or> (u \<noteq> [] \<and> \<not> re_space (hd u))"
    by (intro ballI H disjI2)
qed

lemma re_space_encoding: "re_space c \<Longrightarrow> [c] \<in> set space_encodings"
  unfolding re_space_def by (elim disjE; simp add: space_encodings_def)

lemma blank_re_space: "list_all re_space s \<Longrightarrow> blank s"
proof (induction s)
  case (Cons c s)
  then have "blank [c]" "blank s"
    by (auto intro: blank_word re_space_encoding)
  then show ?case using blank_append [of "[c]" s] by simp
qed simp

lemma visible_not_re_space: "visible c \<Longrightarrow> \<not> re_space c"
  by (auto simp: visible_def re_space_def)

lemma blank_rev_words:
  assumes "blank r"
  obtains us where "set us \<subseteq> set (map rev space_encodings)" "rev r = concat us"
proof -
  from assms obtain us where "set us \<subseteq> set space_encodings" "r = concat us"
    by (auto simp: blank_def)
  then show thesis
    by (intro that [of "rev (map rev us)"]) (auto simp: rev_concat rev_map)
qed

lemma dropWhile_blank_front:
  assumes "blank l" and "visible_ends t"
  obtains l' where "blank l'" "dropWhile re_space (l @ t @ r) = l' @ t @ r"
proof -
  obtain us where us: "set us \<subseteq> set space_encodings" "l = concat us"
    using assms(1) by (auto simp: blank_def)
  obtain x y where t: "t = x # y" "\<not> re_space x"
    using assms(2) visible_not_re_space by (cases t) (auto simp: visible_ends_def)
  from dropWhile_words [OF re_space_words(1) us(1) t(2), of "y @ r"] us(2) t(1)
  show thesis using that by (auto simp: blank_def)
qed

lemma dropWhile_blank_end:
  assumes "blank r" and "visible_ends t"
  obtains r' where "blank r'" "rev (dropWhile re_space (rev (l @ t @ r))) = l @ t @ r'"
proof -
  obtain us where us: "set us \<subseteq> set (map rev space_encodings)" "rev r = concat us"
    using assms(1) by (rule blank_rev_words)
  obtain x y where t: "t = y @ [x]" "\<not> re_space x"
    using assms(2) visible_not_re_space
    by (cases t rule: rev_cases) (auto simp: visible_ends_def)
  obtain vs where vs: "set vs \<subseteq> set (map rev space_encodings)"
    "dropWhile re_space (concat us @ x # rev y @ rev l) = concat vs @ x # rev y @ rev l"
    using dropWhile_words [OF re_space_words(2) us(1) t(2)] by blast
  have "blank (rev (concat vs))"
    unfolding blank_def using vs(1)
    by (intro exI [of _ "rev (map rev vs)"]) (auto simp: rev_concat rev_map)
  then show thesis
    using that [of "rev (concat vs)"] vs(2) us(2) t(1) by simp
qed

lemma submatch_factor:
  assumes "b \<noteq> []"
  obtains l r where "b = l @ submatch b @ r" "blank l" "blank r"
proof (cases "dropWhile re_space b = []")
  case True
  then have "list_all re_space (butlast b)"
    by (auto simp: list_all_iff dropWhile_eq_Nil_conv dest: in_set_butlastD)
  then have "blank (butlast b)" by (rule blank_re_space)
  with True assms show ?thesis
    by (intro that [of "butlast b" "[]"]) (simp_all add: submatch_def)
next
  case False
  let ?d = "dropWhile re_space b"
  have "b = takeWhile re_space b @ ?d" by simp
  also have "?d = submatch b @ rev (takeWhile re_space (rev ?d))"
    using False
    by (simp add: submatch_def) (metis rev_append rev_rev_ident takeWhile_dropWhile_id)
  finally have eq: "b = takeWhile re_space b @ submatch b @ rev (takeWhile re_space (rev ?d))" .
  have "list_all re_space (takeWhile re_space xs)" for xs
    by (auto simp: list_all_iff dest: set_takeWhileD)
  then show ?thesis
    by (intro that [OF eq]) (auto intro: blank_re_space simp: list_all_rev)
qed

lemma TrimSpace_submatch:
  assumes "b \<noteq> []" and "visible_ends t"
  shows "TrimSpace (submatch b) = t \<longleftrightarrow> TrimSpace b = t"
proof
  assume t: "TrimSpace (submatch b) = t"
  obtain l r where b: "b = l @ submatch b @ r" "blank l" "blank r"
    using submatch_factor [OF assms(1)] .
  obtain l' r' where "submatch b = l' @ t @ r'" "blank l'" "blank r'"
    using TrimSpace_factor [of "submatch b"] t by blast
  with b have "b = (l @ l') @ t @ (r' @ r)" "blank (l @ l')" "blank (r' @ r)"
    by (auto intro: blank_append)
  with assms(2) show "TrimSpace b = t" by (metis TrimSpace_padded)
next
  assume "TrimSpace b = t"
  then obtain l r where b: "b = l @ t @ r" "blank l" "blank r"
    using TrimSpace_factor [of b] by blast
  obtain l' where l': "blank l'" "dropWhile re_space b = l' @ t @ r"
    using dropWhile_blank_front [OF b(2) assms(2)] b(1) by blast
  obtain r' where r': "blank r'" "rev (dropWhile re_space (rev (l' @ t @ r))) = l' @ t @ r'"
    using dropWhile_blank_end [OF b(3) assms(2)] by blast
  have "t \<noteq> []" using assms(2) by (simp add: visible_ends_def)
  then have "submatch b = l' @ t @ r'"
    using l' r' by (simp add: submatch_def)
  with l'(1) r'(1) assms(2) show "TrimSpace (submatch b) = t"
    by (simp add: TrimSpace_padded)
qed

section \<open>The documented grammar\<close>

text \<open>
  A reference is well formed when its parts satisfy the patterns; its text is
  \<open>inputs.<name>\<close> or \<open>steps.<id>.output[.path]\<close>.
\<close>

definition ref_text :: "Ref \<Rightarrow> string" where
  "ref_text r =
     (case Kind r of
        RefInput \<Rightarrow> ''inputs.'' @ Name r
      | RefStepOutput \<Rightarrow> Join ''.'' ([''steps'', StepID r, ''output''] @ Path r))"

definition ref_ok :: "Ref \<Rightarrow> bool" where
  "ref_ok r =
     (case Kind r of
        RefInput \<Rightarrow> idPattern (Name r) \<and> StepID r = [] \<and> Path r = []
      | RefStepOutput \<Rightarrow> idPattern (StepID r) \<and> list_all pathPattern (Path r) \<and> Name r = [])"

text \<open>A template is plain text without braces and holes that hold a reference and white space.\<close>

datatype item = Text string | Hole string Ref

fun item_text :: "item \<Rightarrow> string" where
  "item_text (Text t) = t"
| "item_text (Hole b r) = ''{{'' @ b @ ''}}''"

fun item_ok :: "item \<Rightarrow> bool" where
  "item_ok (Text t) \<longleftrightarrow> (\<forall>c\<in>set t. \<not> brace c)"
| "item_ok (Hole b r) \<longleftrightarrow>
     (\<forall>c\<in>set b. \<not> brace c) \<and> TrimSpace b = ref_text r \<and> ref_ok r \<and> Raw r = ''{{'' @ b @ ''}}''"

fun item_refs :: "item \<Rightarrow> Ref list" where
  "item_refs (Text t) = []"
| "item_refs (Hole b r) = [r]"

definition template_text :: "item list \<Rightarrow> string" where
  "template_text items = concat (map item_text items)"

definition template_refs :: "item list \<Rightarrow> Ref list" where
  "template_refs items = concat (map item_refs items)"

lemma id_no_dot: "idPattern s \<Longrightarrow> CHR ''.'' \<notin> set s"
  using path_char_ascii by (fastforce simp: idPattern_def list_all_iff path_char_def)

lemma path_no_dot: "pathPattern s \<Longrightarrow> CHR ''.'' \<notin> set s"
  using path_char_ascii by (fastforce simp: pathPattern_def list_all_iff)

lemma pathPattern_visible_ends: "pathPattern s \<Longrightarrow> visible_ends s"
  using path_char_visible by (auto simp: pathPattern_def visible_ends_def list_all_iff)

lemma last_Join:
  "ws \<noteq> [] \<Longrightarrow> last ws \<noteq> [] \<Longrightarrow> Join sep ws \<noteq> [] \<and> last (Join sep ws) = last (last ws)"
  by (induction ws rule: list_nonempty_induct) (auto simp: Join_Cons)

lemma ref_text_visible_ends:
  assumes "ref_ok r"
  shows "visible_ends (ref_text r)"
proof (cases "Kind r")
  case RefInput
  with assms have "visible_ends (Name r)"
    by (simp add: ref_ok_def idPattern_pathPattern pathPattern_visible_ends)
  with RefInput show ?thesis
    by (simp add: ref_text_def visible_ends_def) (simp add: visible_def)
next
  case RefStepOutput
  let ?ws = "[''steps'', StepID r, ''output''] @ Path r"
  have "visible_ends (last ?ws)"
    using assms RefStepOutput pathPattern_visible_ends [of "last (Path r)"]
    by (auto simp: ref_ok_def list_all_iff visible_ends_def visible_def)
  then have "last (Join ''.'' ?ws) = last (last ?ws)" "visible (last (last ?ws))"
    using last_Join [of ?ws "''.''"] by (auto simp: visible_ends_def)
  with RefStepOutput show ?thesis
    by (simp add: ref_text_def visible_ends_def Join_Cons) (simp add: visible_def)
qed

lemma parseRef_Inr:
  "parseRef inner raw = Inr r \<longleftrightarrow> ref_ok r \<and> inner = ref_text r \<and> Raw r = raw"
proof
  let ?ps = "Split CHR ''.'' inner"
  assume "parseRef inner raw = Inr r"
  then consider
      "length ?ps = 2" "?ps ! 0 = ''inputs''" "idPattern (?ps ! 1)"
      "r = \<lparr>Kind = RefInput, Name = ?ps ! 1, StepID = [], Path = [], Raw = raw\<rparr>"
    | "3 \<le> length ?ps" "?ps ! 0 = ''steps''" "?ps ! 2 = ''output''" "idPattern (?ps ! 1)"
      "list_all pathPattern (drop 3 ?ps)"
      "r = \<lparr>Kind = RefStepOutput, Name = [], StepID = ?ps ! 1, Path = drop 3 ?ps, Raw = raw\<rparr>"
    by (auto simp: parseRef_def Let_def go_error list_all_iff split: if_splits)
  then show "ref_ok r \<and> inner = ref_text r \<and> Raw r = raw"
  proof cases
    case 1
    then obtain a b where "?ps = [a, b]"
      by (metis One_nat_def Suc_1 length_0_conv length_Suc_conv)
    with 1(2) have "?ps = [''inputs'', ?ps ! 1]" by simp
    then have "Join ''.'' ?ps = Join ''.'' [''inputs'', ?ps ! 1]" by (rule arg_cong)
    then have "inner = ''inputs.'' @ ?ps ! 1" by simp
    with 1 show ?thesis by (simp add: ref_ok_def ref_text_def)
  next
    case 2
    then obtain a b c d where "?ps = a # b # c # d"
      by (metis Suc_le_length_iff numeral_3_eq_3)
    with 2(2,3) have "?ps = [''steps'', ?ps ! 1, ''output''] @ drop 3 ?ps" by simp
    then have "Join ''.'' ?ps = Join ''.'' ([''steps'', ?ps ! 1, ''output''] @ drop 3 ?ps)"
      by (rule arg_cong)
    then have "inner = Join ''.'' ([''steps'', ?ps ! 1, ''output''] @ drop 3 ?ps)"
      by (simp only: Join_Split)
    with 2 show ?thesis by (simp add: ref_ok_def ref_text_def)
  qed
next
  assume r: "ref_ok r \<and> inner = ref_text r \<and> Raw r = raw"
  show "parseRef inner raw = Inr r"
  proof (cases "Kind r")
    case RefInput
    with r have "inner = Join ''.'' [''inputs'', Name r]" "CHR ''.'' \<notin> set (Name r)"
      by (auto simp: ref_text_def ref_ok_def dest: id_no_dot)
    then have "Split CHR ''.'' inner = [''inputs'', Name r]"
      by (simp add: Split_single)
    with r RefInput show ?thesis
      by (cases r) (simp add: parseRef_def ref_ok_def)
  next
    case RefStepOutput
    let ?ws = "[''steps'', StepID r, ''output''] @ Path r"
    have "Split CHR ''.'' (Join ''.'' ?ws) = ?ws"
      using r RefStepOutput
      by (intro Split_Join) (auto simp: ref_ok_def list_all_iff dest: id_no_dot path_no_dot)
    with r RefStepOutput have "Split CHR ''.'' inner = ?ws"
      by (simp add: ref_text_def)
    with r RefStepOutput show ?thesis
      by (cases r) (auto simp: parseRef_def ref_ok_def Let_def go_error list_all_iff)
  qed
qed

text \<open>The tokens of a well-formed template.\<close>

fun item_tokens :: "item \<Rightarrow> token list" where
  "item_tokens (Text t) = map Byte t"
| "item_tokens (Hole b r) = [Match (''{{'' @ b @ ''}}'') (submatch b)]"

lemma Hole_body_nonempty: "item_ok (Hole b r) \<Longrightarrow> b \<noteq> []"
  using ref_text_visible_ends [of r] TrimSpace_visible [of "[]"] set_TrimSpace [of "[]"]
  by (auto simp: visible_ends_def)

lemma refTokens_template:
  "list_all item_ok items \<Longrightarrow>
     refTokens (template_text items) = concat (map item_tokens items)"
proof (induction items)
  case (Cons i items)
  then show ?case
  proof (cases i)
    case (Text t)
    with Cons show ?thesis by (simp add: template_text_def refTokens_text)
  next
    case (Hole b r)
    with Cons have "b \<noteq> []" "\<forall>c\<in>set b. \<not> brace c"
      using Hole_body_nonempty [of b r] by auto
    with Cons Hole show ?thesis
      using refTokens_match [of b "template_text items"] by (simp add: template_text_def)
  qed
qed (simp add: template_text_def)

lemma bytes_of_append [simp]: "bytes_of (ts @ us) = bytes_of ts @ bytes_of us"
  by (induction ts rule: bytes_of.induct) auto

lemma matches_of_append [simp]: "matches_of (ts @ us) = matches_of ts @ matches_of us"
  by (induction ts rule: matches_of.induct) auto

lemma bytes_of_Byte [simp]: "bytes_of (map Byte t) = t"
  by (induction t) auto

lemma matches_of_Byte [simp]: "matches_of (map Byte t) = []"
  by (induction t) auto

definition parse_match :: "string \<times> string \<Rightarrow> Ref \<Rightarrow> bool" where
  "parse_match m r \<longleftrightarrow> parseRef (TrimSpace (snd m)) (fst m) = Inr r"

lemma ParseRefs_tokens:
  "ParseRefs s = Inr rs \<longleftrightarrow>
     list_all2 parse_match (matches_of (refTokens s)) rs
     \<and> (\<forall>c\<in>set (bytes_of (refTokens s)). \<not> brace c)"
proof -
  have loop: "(\<lambda>(raw, group) refs. bind_res (parseRef (TrimSpace group) raw) (\<lambda>ref. Inr (refs @ [ref])))
      = (\<lambda>m refs. bind_res (parseRef (TrimSpace (snd m)) (fst m)) (\<lambda>ref. Inr (refs @ [ref])))"
    by auto
  show ?thesis
    unfolding ParseRefs_def loop
    by (auto simp: go_error for_each_collect parse_match_def [abs_def] list_ex_iff split: if_splits)
qed

lemma template_matches:
  "list_all item_ok items \<Longrightarrow>
     list_all2 parse_match (matches_of (concat (map item_tokens items))) (template_refs items)
     \<and> (\<forall>c\<in>set (bytes_of (concat (map item_tokens items))). \<not> brace c)"
proof (induction items)
  case (Cons i items)
  then show ?case
  proof (cases i)
    case (Hole b r)
    with Cons have ok: "item_ok (Hole b r)" by simp
    then have "TrimSpace (submatch b) = ref_text r"
      using TrimSpace_submatch [of b "ref_text r"] Hole_body_nonempty ref_text_visible_ends
      by auto
    with ok Cons Hole show ?thesis
      by (auto simp: template_refs_def parse_match_def parseRef_Inr)
  qed (auto simp: template_refs_def)
qed (simp add: template_refs_def)

lemma items_of_tokens:
  assumes "\<forall>raw g. Match raw g \<in> set ts \<longrightarrow>
      (\<exists>b. raw = ''{{'' @ b @ ''}}'' \<and> g = submatch b \<and> b \<noteq> [] \<and> (\<forall>c\<in>set b. \<not> brace c))"
    and "list_all2 parse_match (matches_of ts) rs" and "\<forall>c\<in>set (bytes_of ts). \<not> brace c"
  shows "\<exists>items. list_all item_ok items \<and> template_text items = concat (map token_text ts)
    \<and> template_refs items = rs"
  using assms
proof (induction ts arbitrary: rs rule: matches_of.induct)
  case 1
  then show ?case by (intro exI [of _ "[]"]) (simp add: template_text_def template_refs_def)
next
  case (2 c ts)
  then obtain items where "list_all item_ok items" "template_text items = concat (map token_text ts)"
    "template_refs items = rs"
    by fastforce
  with 2(4) show ?case
    by (intro exI [of _ "Text [c] # items"])
      (simp add: template_text_def template_refs_def)
next
  case (3 raw g ts)
  obtain b where b: "raw = ''{{'' @ b @ ''}}''" "g = submatch b" "b \<noteq> []" "\<forall>c\<in>set b. \<not> brace c"
    using 3(2) by (meson list.set_intros(1))
  obtain r rs' where rs: "rs = r # rs'" "parse_match (raw, g) r"
    "list_all2 parse_match (matches_of ts) rs'"
    using 3(3) by (auto simp: list_all2_Cons1)
  then obtain items where items: "list_all item_ok items"
    "template_text items = concat (map token_text ts)" "template_refs items = rs'"
    using 3(1) [of rs'] 3(2,4) by auto
  have "item_ok (Hole b r)"
    using rs(2) b TrimSpace_submatch [of b "ref_text r"] ref_text_visible_ends [of r]
    by (auto simp: parse_match_def parseRef_Inr)
  with items rs(1) b(1) show ?case
    by (intro exI [of _ "Hole b r # items"])
      (simp add: template_text_def template_refs_def)
qed

text \<open>
  C19: \<open>ParseRefs\<close> decides the documented grammar: a string is accepted exactly when it is
  plain text without braces interspersed with holes \<open>{{ inputs.<name> }}\<close> and
  \<open>{{ steps.<id>.output[.path] }}\<close> (with any white space inside the braces), and the
  references returned are exactly those of the holes, in order.
\<close>

theorem ParseRefs_grammar:
  "ParseRefs s = Inr rs \<longleftrightarrow>
     (\<exists>items. list_all item_ok items \<and> s = template_text items \<and> rs = template_refs items)"
proof
  assume "ParseRefs s = Inr rs"
  then obtain items where "list_all item_ok items"
    "template_text items = concat (map token_text (refTokens s))" "template_refs items = rs"
    using items_of_tokens [of "refTokens s" rs] Match_in_refTokens
    by (auto simp: ParseRefs_tokens)
  then show "\<exists>items. list_all item_ok items \<and> s = template_text items \<and> rs = template_refs items"
    by (auto simp: refTokens_concat)
next
  assume "\<exists>items. list_all item_ok items \<and> s = template_text items \<and> rs = template_refs items"
  then show "ParseRefs s = Inr rs"
    using refTokens_template template_matches by (auto simp: ParseRefs_tokens)
qed

end
