(* ===== verification/Graph.thy ===== *)
theory Graph
  imports Template
begin

text \<open>
  \<open>internal/pipeline/graph.go\<close>: the dependency edges of a pipeline and the depth-first
  search that rejects cycles.  The maps \<open>deps\<close> and \<open>seen\<close> that the closure \<open>add\<close>
  updates are threaded through the loops; the recursion of \<open>visit\<close> is bounded by the
  number of steps, which \<open>checkAcyclic_not_stuck\<close> shows to be enough.
\<close>

type_synonym deps = "string \<rightharpoonup> string list"

text \<open>Indexing a map of slices: a missing key gives the nil slice.\<close>

definition deps_at :: "deps \<Rightarrow> string \<Rightarrow> string list" where
  "deps_at m k = (case m k of None \<Rightarrow> [] | Some xs \<Rightarrow> xs)"

section \<open>Collecting the edges\<close>

record dep_state =
  ds_deps :: deps
  ds_seen :: "string \<Rightarrow> string \<Rightarrow> bool"

definition add_dep :: "string \<Rightarrow> string \<Rightarrow> dep_state \<Rightarrow> dep_state" where
  "add_dep from_id to_id st =
     (if ds_seen st to_id from_id then st
      else st\<lparr>ds_seen := (ds_seen st)(to_id := (ds_seen st to_id)(from_id := True)),
              ds_deps := (ds_deps st)(to_id \<mapsto> deps_at (ds_deps st) to_id @ [from_id])\<rparr>)"

definition deps_refs :: "string set \<Rightarrow> Step \<Rightarrow> Ref list \<Rightarrow> dep_state \<Rightarrow> dep_state res" where
  "deps_refs ids s =
     for_each (\<lambda>ref st.
       if Kind ref \<noteq> RefStepOutput then Inr st
       else if StepID ref \<notin> ids
         then Inl (Errorf ''step %q references unknown step %q'' [step_ID s, StepID ref])
       else Inr (add_dep (StepID ref) (step_ID s) st))"

definition deps_needs :: "string set \<Rightarrow> Step \<Rightarrow> dep_state \<Rightarrow> dep_state res" where
  "deps_needs ids s =
     for_each (\<lambda>need st.
       if need = step_ID s then Inl (Errorf ''step %q needs itself'' [step_ID s])
       else if need \<notin> ids then Inl (Errorf ''step %q needs unknown step %q'' [step_ID s, need])
       else Inr (add_dep need (step_ID s) st)) (step_Needs s)"

definition deps_routes :: "string set \<Rightarrow> Step \<Rightarrow> dep_state \<Rightarrow> dep_state res" where
  "deps_routes ids s st =
     (if step_Router s then
        for_each (\<lambda>rt st.
          if Goto rt \<notin> ids
            then Inl (Errorf ''router step %q: goto %q is not a step'' [step_ID s, Goto rt])
          else Inr (add_dep (step_ID s) (Goto rt) st)) (step_Routes s) st
      else Inr st)"

definition deps_step :: "string set \<Rightarrow> Step \<Rightarrow> dep_state \<Rightarrow> dep_state res" where
  "deps_step ids s st =
     (let st0 = (if ds_deps st (step_ID s) = None
                 then st\<lparr>ds_deps := (ds_deps st)(step_ID s \<mapsto> [])\<rparr> else st)
      in case ParseRefs (step_Input s) of
           Inl e \<Rightarrow> Inl (ErrWrap ''step %q input: %w'' [step_ID s] e)
         | Inr refs \<Rightarrow>
             bind_res (deps_refs ids s refs st0) (\<lambda>st1.
             bind_res (deps_needs ids s st1) (deps_routes ids s)))"

definition step_ids :: "Pipeline \<Rightarrow> string set" where
  "step_ids p = step_ID ` set (pl_Steps p)"

definition no_deps :: dep_state where
  "no_deps = \<lparr>ds_deps = Map.empty, ds_seen = (\<lambda>_ _. False)\<rparr>"

section \<open>Cycle detection\<close>

datatype color = White | Gray | Black

fun visit :: "nat \<Rightarrow> deps \<Rightarrow> string \<Rightarrow> (string \<Rightarrow> color) \<Rightarrow> (string \<Rightarrow> color) res"
  and visit_deps :: "nat \<Rightarrow> deps \<Rightarrow> string list \<Rightarrow> (string \<Rightarrow> color) \<Rightarrow> (string \<Rightarrow> color) res"
where
  "visit 0 deps i color = Inl Stuck"
| "visit (Suc n) deps i color =
     bind_res (visit_deps n deps (deps_at deps i) (color(i := Gray)))
       (\<lambda>color'. Inr (color'(i := Black)))"
| "visit_deps n deps [] color = Inr color"
| "visit_deps n deps (dep # ds) color =
     (case color dep of
        Gray \<Rightarrow> Inl (Errorf ''dependency cycle involving step %q'' [dep])
      | White \<Rightarrow> bind_res (visit n deps dep color) (visit_deps n deps ds)
      | Black \<Rightarrow> visit_deps n deps ds color)"

definition checkAcyclic :: "Step list \<Rightarrow> deps \<Rightarrow> unit res" where
  "checkAcyclic steps deps =
     bind_res
       (for_each (\<lambda>s color. if color (step_ID s) = White
                            then visit (length steps) deps (step_ID s) color else Inr color)
         steps (\<lambda>_. White))
       (\<lambda>_. Inr ())"

definition Deps :: "Pipeline \<Rightarrow> deps res" where
  "Deps p =
     bind_res (for_each (deps_step (step_ids p)) (pl_Steps p) no_deps) (\<lambda>st.
     bind_res (checkAcyclic (pl_Steps p) (ds_deps st)) (\<lambda>_. Inr (ds_deps st)))"

section \<open>Correctness of the search\<close>

text \<open>\<open>(x, y)\<close>: step \<open>x\<close> depends on step \<open>y\<close>.\<close>

definition dep_rel :: "deps \<Rightarrow> (string \<times> string) set" where
  "dep_rel m = {(x, y). y \<in> set (deps_at m x)}"

text \<open>
  A successful visit paints its start black, keeps the gray nodes and the black ones, and
  keeps the black nodes closed under dependencies and off every cycle.
\<close>

definition black_closed :: "deps \<Rightarrow> (string \<Rightarrow> color) \<Rightarrow> bool" where
  "black_closed m c \<longleftrightarrow>
     (\<forall>x y. c x = Black \<longrightarrow> (x, y) \<in> dep_rel m \<longrightarrow> c y = Black) \<and>
     (\<forall>x. c x = Black \<longrightarrow> (x, x) \<notin> (dep_rel m)\<^sup>+)"

lemma black_reaches_black:
  assumes "black_closed m c" and "(x, y) \<in> (dep_rel m)\<^sup>*" and "c x = Black"
  shows "c y = Black"
  using assms(2,3,1) by (induction rule: rtrancl_induct) (auto simp: black_closed_def)

definition grows :: "(string \<Rightarrow> color) \<Rightarrow> (string \<Rightarrow> color) \<Rightarrow> bool" where
  "grows c c' \<longleftrightarrow> (\<forall>x. (c' x = Gray \<longleftrightarrow> c x = Gray) \<and> (c x = Black \<longrightarrow> c' x = Black))"

lemma grows_refl [simp]: "grows c c"
  by (simp add: grows_def)

lemma grows_trans: "grows a b \<Longrightarrow> grows b c \<Longrightarrow> grows a c"
  by (simp add: grows_def)

lemma visit_Inr:
  "visit n m x c = Inr c' \<Longrightarrow> c x = White \<Longrightarrow> black_closed m c \<Longrightarrow>
     black_closed m c' \<and> grows c c' \<and> c' x = Black"
  "visit_deps n m ds c = Inr c' \<Longrightarrow> black_closed m c \<Longrightarrow>
     black_closed m c' \<and> grows c c' \<and> (\<forall>d\<in>set ds. c' d = Black)"
proof (induction n m x c and n m ds c arbitrary: c' and c' rule: visit_visit_deps.induct)
  case (2 n m x c)
  from 2(2) obtain c1 where c1: "visit_deps n m (deps_at m x) (c(x := Gray)) = Inr c1"
    and c': "c' = c1(x := Black)"
    by (auto simp: go_error)
  from 2(3,4) have "black_closed m (c(x := Gray))"
    by (auto simp: black_closed_def)
  from 2(1) [OF c1 this] have closed: "black_closed m c1" and g: "grows (c(x := Gray)) c1"
    and ds: "\<forall>d\<in>set (deps_at m x). c1 d = Black"
    by blast+
  have "(x, x) \<notin> (dep_rel m)\<^sup>+"
  proof
    assume "(x, x) \<in> (dep_rel m)\<^sup>+"
    then obtain y where "(x, y) \<in> dep_rel m" "(y, x) \<in> (dep_rel m)\<^sup>*"
      by (meson tranclD)
    then have "c1 x = Black"
      using ds black_reaches_black [OF closed] by (auto simp: dep_rel_def)
    moreover have "c1 x = Gray" using g by (simp add: grows_def)
    ultimately show False by simp
  qed
  then have "black_closed m c'"
    using closed ds unfolding c' black_closed_def by (auto simp: dep_rel_def)
  moreover have "grows c c'"
    using g 2(3) unfolding c' grows_def by (auto split: if_splits)
  moreover have "c' x = Black" by (simp add: c')
  ultimately show ?case by blast
next
  case (4 n m d ds c)
  show ?case
  proof (cases "c d")
    case White
    with 4(4) obtain c1 where c1: "visit n m d c = Inr c1" "visit_deps n m ds c1 = Inr c'"
      by (auto simp: go_error)
    with 4(1) [OF White c1(1)] White 4(5) have s1: "black_closed m c1" "grows c c1" "c1 d = Black"
      by auto
    from 4(2) [OF White c1(2)] s1 show ?thesis
      by (auto intro: grows_trans simp: grows_def)
  next
    case Gray
    with 4(4) show ?thesis by simp
  next
    case Black
    with 4(3) [OF Black] 4(4,5) show ?thesis by (auto simp: grows_def)
  qed
qed auto

text \<open>
  An error is a cycle: as long as every gray node reaches the node being visited, a gray
  dependency closes a cycle through itself.
\<close>

lemma visit_Inl:
  "visit n m x c = Inl e \<Longrightarrow> (\<forall>g. c g = Gray \<longrightarrow> (g, x) \<in> (dep_rel m)\<^sup>*) \<Longrightarrow> black_closed m c \<Longrightarrow>
     c x = White \<Longrightarrow> e \<noteq> Stuck \<Longrightarrow>
     \<exists>d. e = Errorf ''dependency cycle involving step %q'' [d] \<and> (d, d) \<in> (dep_rel m)\<^sup>+"
  "visit_deps n m ds c = Inl e \<Longrightarrow> (\<forall>g. c g = Gray \<longrightarrow> (g, x) \<in> (dep_rel m)\<^sup>*) \<Longrightarrow>
     black_closed m c \<Longrightarrow> set ds \<subseteq> set (deps_at m x) \<Longrightarrow> e \<noteq> Stuck \<Longrightarrow>
     \<exists>d. e = Errorf ''dependency cycle involving step %q'' [d] \<and> (d, d) \<in> (dep_rel m)\<^sup>+"
proof (induction n m x c and n m ds c arbitrary: and x rule: visit_visit_deps.induct)
  case (2 n m x c)
  from 2(2) have "visit_deps n m (deps_at m x) (c(x := Gray)) = Inl e"
    by (auto simp: go_error)
  moreover have "\<forall>g. (c(x := Gray)) g = Gray \<longrightarrow> (g, x) \<in> (dep_rel m)\<^sup>*"
    using 2(3) by auto
  moreover have "black_closed m (c(x := Gray))"
    using 2(4,5) by (auto simp: black_closed_def)
  ultimately show ?case using 2(1) [of x] 2(6) by blast
next
  case (4 n m d ds c)
  have edge: "(x, d) \<in> dep_rel m" using 4(7) by (auto simp: dep_rel_def)
  show ?case
  proof (cases "c d")
    case White
    have reach: "\<forall>g. c g = Gray \<longrightarrow> (g, d) \<in> (dep_rel m)\<^sup>*"
      using 4(5) edge by (meson rtrancl.rtrancl_into_rtrancl)
    from 4(4) White consider "visit n m d c = Inl e"
      | c1 where "visit n m d c = Inr c1" "visit_deps n m ds c1 = Inl e"
      by (auto simp: go_error)
    then show ?thesis
    proof cases
      case 1
      then show ?thesis using 4(1) [OF White _ reach 4(6) White 4(8)] by blast
    next
      case 2
      with visit_Inr(1) [OF 2(1) White 4(6)] have "black_closed m c1" "grows c c1" by auto
      with 4(2) [OF White 2(2)] 4(5,7,8) show ?thesis by (auto simp: grows_def)
    qed
  next
    case Gray
    then have "(d, x) \<in> (dep_rel m)\<^sup>*" using 4(5) by simp
    with edge have "(d, d) \<in> (dep_rel m)\<^sup>+" by simp
    with 4(4) Gray show ?thesis by auto
  next
    case Black
    with 4(3) [OF Black, of x] 4(4-8) show ?thesis by auto
  qed
qed auto

text \<open>The bound: a visit needs no more calls than there are white nodes.\<close>

definition whites :: "string set \<Rightarrow> (string \<Rightarrow> color) \<Rightarrow> nat" where
  "whites U c = card {x \<in> U. c x = White}"

lemma whites_grows:
  assumes "finite U" and "grows c c'"
  shows "whites U c' \<le> whites U c"
  unfolding whites_def
proof (rule card_mono)
  show "{x \<in> U. c' x = White} \<subseteq> {x \<in> U. c x = White}"
    using assms(2) by (auto simp: grows_def) (metis color.exhaust color.distinct)
qed (use assms(1) in simp)

lemma whites_paint:
  assumes "finite U" and "x \<in> U" and "c x = White" and "k \<noteq> White"
  shows "Suc (whites U (c(x := k))) = whites U c"
proof -
  have "{y \<in> U. c y = White} = insert x {y \<in> U. (c(x := k)) y = White}"
    using assms by auto
  moreover have "x \<notin> {y \<in> U. (c(x := k)) y = White}" using assms(4) by simp
  ultimately show ?thesis
    unfolding whites_def using assms(1) by simp
qed

lemma visit_not_stuck:
  assumes "finite U" and "\<And>x. x \<in> U \<Longrightarrow> set (deps_at m x) \<subseteq> U"
  shows "c x = White \<Longrightarrow> x \<in> U \<Longrightarrow> whites U c \<le> n \<Longrightarrow> black_closed m c \<Longrightarrow> visit n m x c \<noteq> Inl Stuck"
    and "set ds \<subseteq> U \<Longrightarrow> whites U c \<le> n \<Longrightarrow> black_closed m c \<Longrightarrow> visit_deps n m ds c \<noteq> Inl Stuck"
  using assms(2)
proof (induction n m x c and n m ds c rule: visit_visit_deps.induct)
  case (1 m x c)
  then have "x \<in> {y \<in> U. c y = White}" by simp
  with 1(3) assms(1) show ?case by (auto simp: whites_def)
next
  case (2 n m x c)
  have "whites U (c(x := Gray)) \<le> n"
    using whites_paint [of U x c Gray] 2(2-4) assms(1) by simp
  moreover have "black_closed m (c(x := Gray))"
    using 2(2,5) by (auto simp: black_closed_def)
  ultimately have "visit_deps n m (deps_at m x) (c(x := Gray)) \<noteq> Inl Stuck"
    using 2(1) 2(3,6) by blast
  then show ?case by (auto simp: go_error)
next
  case (4 n m d ds c)
  show ?case
  proof (cases "c d")
    case White
    with 4 have "visit n m d c \<noteq> Inl Stuck" by simp
    moreover have "visit_deps n m ds c1 \<noteq> Inl Stuck" if c1: "visit n m d c = Inr c1" for c1
    proof -
      have "black_closed m c1" "grows c c1"
        using visit_Inr(1) [OF c1 White 4(6)] by auto
      moreover from this(2) have "whites U c1 \<le> n"
        using whites_grows [OF assms(1)] 4(5) le_trans by blast
      ultimately show ?thesis using 4(2) [OF White] 4(4,7) by simp
    qed
    ultimately show ?thesis using White by (auto simp: go_error)
  next
    case Black
    with 4(3) [OF Black] 4(4-7) show ?thesis by simp
  qed simp
qed simp

section \<open>The search decides acyclicity\<close>

text \<open>The loop over all steps, started from any closed colouring without gray nodes.\<close>

definition visit_step :: "nat \<Rightarrow> deps \<Rightarrow> Step \<Rightarrow> (string \<Rightarrow> color) \<Rightarrow> (string \<Rightarrow> color) res" where
  "visit_step n m s c = (if c (step_ID s) = White then visit n m (step_ID s) c else Inr c)"

lemma checkAcyclic_visit_step:
  "checkAcyclic steps m =
     bind_res (for_each (visit_step (length steps) m) steps (\<lambda>_. White)) (\<lambda>_. Inr ())"
  by (simp add: checkAcyclic_def visit_step_def [abs_def])

definition settled :: "deps \<Rightarrow> (string \<Rightarrow> color) \<Rightarrow> bool" where
  "settled m c \<longleftrightarrow> black_closed m c \<and> (\<forall>x. c x \<noteq> Gray)"

lemma visit_step_Inr:
  assumes "visit_step n m s c = Inr c'" and "settled m c"
  shows "settled m c' \<and> grows c c' \<and> c' (step_ID s) = Black"
proof (cases "c (step_ID s) = White")
  case True
  with assms visit_Inr(1) [of n m "step_ID s" c c'] show ?thesis
    by (auto simp: visit_step_def settled_def grows_def)
next
  case False
  with assms show ?thesis
    by (cases "c (step_ID s)") (auto simp: visit_step_def settled_def)
qed

lemma visit_steps_Inr:
  "for_each (visit_step n m) steps c = Inr c' \<Longrightarrow> settled m c \<Longrightarrow>
     settled m c' \<and> grows c c' \<and> (\<forall>s\<in>set steps. c' (step_ID s) = Black)"
proof (induction steps arbitrary: c)
  case (Cons s steps)
  then obtain c1 where c1: "visit_step n m s c = Inr c1" "for_each (visit_step n m) steps c1 = Inr c'"
    by (auto simp: go_error)
  with visit_step_Inr [OF c1(1) Cons.prems(2)] Cons.IH [OF c1(2)] show ?case
    by (auto simp: grows_def)
qed simp

lemma visit_steps_Inl:
  "for_each (visit_step n m) steps c = Inl e \<Longrightarrow> settled m c \<Longrightarrow> e \<noteq> Stuck \<Longrightarrow>
     \<exists>d. e = Errorf ''dependency cycle involving step %q'' [d] \<and> (d, d) \<in> (dep_rel m)\<^sup>+"
proof (induction steps arbitrary: c)
  case (Cons s steps)
  show ?case
  proof (cases "visit_step n m s c")
    case (Inl e')
    with Cons.prems have "visit n m (step_ID s) c = Inl e" "c (step_ID s) = White"
      by (auto simp: visit_step_def split: if_splits)
    with Cons.prems(2,3) visit_Inl(1) show ?thesis by (auto simp: settled_def)
  next
    case (Inr c1)
    with Cons visit_step_Inr [OF Inr Cons.prems(2)] show ?thesis by simp
  qed
qed simp

lemma visit_steps_not_stuck:
  assumes "finite U" and "\<And>x. x \<in> U \<Longrightarrow> set (deps_at m x) \<subseteq> U"
  shows "settled m c \<Longrightarrow> whites U c \<le> n \<Longrightarrow> step_ID ` set steps \<subseteq> U \<Longrightarrow>
    for_each (visit_step n m) steps c \<noteq> Inl Stuck"
proof (induction steps arbitrary: c)
  case (Cons s steps)
  have "visit_step n m s c \<noteq> Inl Stuck"
    using visit_not_stuck(1) [OF assms] Cons.prems by (auto simp: visit_step_def settled_def)
  moreover have "for_each (visit_step n m) steps c1 \<noteq> Inl Stuck"
    if "visit_step n m s c = Inr c1" for c1
    using visit_step_Inr [OF that Cons.prems(1)] Cons.IH [of c1] Cons.prems(2,3)
      whites_grows [OF assms(1), of c c1] by auto
  ultimately show ?case by (auto simp: go_error)
qed simp

text \<open>A dependency map over the steps: its keys and its entries are step ids.\<close>

definition deps_over :: "Step list \<Rightarrow> deps \<Rightarrow> bool" where
  "deps_over steps m \<longleftrightarrow> dep_rel m \<subseteq> (step_ID ` set steps) \<times> (step_ID ` set steps)"

lemma settled_White: "settled m (\<lambda>_. White)"
  by (simp add: settled_def black_closed_def)

lemma checkAcyclic_not_stuck:
  assumes "deps_over steps m"
  shows "checkAcyclic steps m \<noteq> Inl Stuck"
proof -
  let ?U = "step_ID ` set steps"
  have "\<And>x. x \<in> ?U \<Longrightarrow> set (deps_at m x) \<subseteq> ?U"
    using assms by (auto simp: deps_over_def dep_rel_def)
  moreover have "whites ?U (\<lambda>_. White) \<le> length steps"
    using card_image_le [of "set steps" step_ID] card_length [of steps] le_trans
    by (auto simp: whites_def)
  ultimately have "for_each (visit_step (length steps) m) steps (\<lambda>_. White) \<noteq> Inl Stuck"
    using visit_steps_not_stuck [of ?U m "\<lambda>_. White" "length steps" steps] settled_White by auto
  then show ?thesis by (auto simp: checkAcyclic_visit_step go_error)
qed

text \<open>
  On a dependency map over the steps the search succeeds exactly when the dependency
  relation is acyclic.
\<close>

lemma checkAcyclic_iff:
  assumes "deps_over steps m"
  shows "checkAcyclic steps m = Inr () \<longleftrightarrow> acyclic (dep_rel m)"
proof
  assume "checkAcyclic steps m = Inr ()"
  then obtain c where "for_each (visit_step (length steps) m) steps (\<lambda>_. White) = Inr c"
    by (auto simp: checkAcyclic_visit_step go_error)
  from visit_steps_Inr [OF this settled_White]
  have c: "black_closed m c" "\<forall>s\<in>set steps. c (step_ID s) = Black"
    by (auto simp: settled_def)
  show "acyclic (dep_rel m)"
    unfolding acyclic_def
  proof (intro allI notI)
    fix x
    assume cyc: "(x, x) \<in> (dep_rel m)\<^sup>+"
    then obtain y where "(x, y) \<in> dep_rel m" by (meson tranclD)
    then have "c x = Black" using assms c(2) by (auto simp: deps_over_def)
    with c(1) cyc show False by (simp add: black_closed_def)
  qed
next
  assume acyc: "acyclic (dep_rel m)"
  show "checkAcyclic steps m = Inr ()"
  proof (cases "for_each (visit_step (length steps) m) steps (\<lambda>_. White)")
    case (Inl e)
    then have "e \<noteq> Stuck"
      using checkAcyclic_not_stuck [OF assms] by (auto simp: checkAcyclic_visit_step)
    with visit_steps_Inl [OF Inl settled_White] acyc show ?thesis
      by (auto simp: acyclic_def)
  next
    case (Inr c)
    then show ?thesis by (simp add: checkAcyclic_visit_step)
  qed
qed

lemma checkAcyclic_Inl:
  assumes "checkAcyclic steps m = Inl e" and "deps_over steps m"
  shows "\<exists>d. e = Errorf ''dependency cycle involving step %q'' [d] \<and> (d, d) \<in> (dep_rel m)\<^sup>+"
proof -
  have "for_each (visit_step (length steps) m) steps (\<lambda>_. White) = Inl e"
    using assms(1) by (auto simp: checkAcyclic_visit_step go_error)
  moreover have "e \<noteq> Stuck" using assms checkAcyclic_not_stuck by blast
  ultimately show ?thesis using visit_steps_Inl settled_White by blast
qed

section \<open>The edges that are collected\<close>

definition dep_inv :: "dep_state \<Rightarrow> bool" where
  "dep_inv st \<longleftrightarrow>
     (\<forall>x y. ds_seen st x y \<longleftrightarrow> y \<in> set (deps_at (ds_deps st) x)) \<and>
     (\<forall>x. distinct (deps_at (ds_deps st) x))"

text \<open>\<open>extends D E st st'\<close>: \<open>st'\<close> has the edges \<open>E\<close> and the keys \<open>D\<close> in addition.\<close>

definition extends :: "string set \<Rightarrow> (string \<times> string) set \<Rightarrow> dep_state \<Rightarrow> dep_state \<Rightarrow> bool" where
  "extends D E st st' \<longleftrightarrow>
     (dep_inv st \<longrightarrow> dep_inv st' \<and> dep_rel (ds_deps st') = dep_rel (ds_deps st) \<union> E
        \<and> dom (ds_deps st') = dom (ds_deps st) \<union> D)"

lemma extends_refl: "extends {} {} st st"
  by (simp add: extends_def)

lemma extends_trans:
  "extends D E st st1 \<Longrightarrow> extends D' E' st1 st2 \<Longrightarrow> extends (D \<union> D') (E \<union> E') st st2"
  by (auto simp: extends_def)

lemma deps_at_upd: "deps_at (m(x \<mapsto> v)) y = (if y = x then v else deps_at m y)"
  by (simp add: deps_at_def)

lemma deps_at_None: "m x = None \<Longrightarrow> deps_at m x = []"
  by (simp add: deps_at_def)

lemma deps_at_dom: "y \<in> set (deps_at m x) \<Longrightarrow> x \<in> dom m"
  by (cases "m x") (auto simp: deps_at_def)

lemma extends_add_dep: "extends {y} {(y, x)} st (add_dep x y st)"
proof (cases "ds_seen st y x")
  case True
  then have "add_dep x y st = st" by (simp add: add_dep_def)
  moreover have "x \<in> set (deps_at (ds_deps st) y)" if "dep_inv st"
    using that True by (simp add: dep_inv_def)
  ultimately show ?thesis
    using deps_at_dom [of x "ds_deps st" y]
    by (simp add: extends_def dep_rel_def insert_absorb)
next
  case False
  then show ?thesis
    by (auto simp: extends_def add_dep_def dep_inv_def dep_rel_def deps_at_upd split: if_splits)
qed

lemma extends_nil_entry:
  "ds_deps st x = None \<Longrightarrow> extends {x} {} st (st\<lparr>ds_deps := (ds_deps st)(x \<mapsto> [])\<rparr>)"
  by (auto simp: extends_def dep_inv_def dep_rel_def deps_at_upd deps_at_None split: if_splits)

text \<open>The three loops of the body have one shape: skip, add an edge, or fail.\<close>

lemma for_each_adds:
  assumes "\<And>x st. f x st = (if skip x then Inr st else if ok x then Inr (add_dep (src x) (dst x) st)
                          else Inl (err x))"
  shows "(\<exists>st'. for_each f xs st = Inr st') \<longleftrightarrow> (\<forall>x\<in>set xs. skip x \<or> ok x)"
    and "for_each f xs st = Inr st' \<Longrightarrow>
      extends (dst ` {x \<in> set xs. \<not> skip x}) ((\<lambda>x. (dst x, src x)) ` {x \<in> set xs. \<not> skip x}) st st'"
proof -
  show "(\<exists>st'. for_each f xs st = Inr st') \<longleftrightarrow> (\<forall>x\<in>set xs. skip x \<or> ok x)"
    by (induction xs arbitrary: st) (auto simp: assms go_error split: if_splits)
  show "for_each f xs st = Inr st' \<Longrightarrow>
      extends (dst ` {x \<in> set xs. \<not> skip x}) ((\<lambda>x. (dst x, src x)) ` {x \<in> set xs. \<not> skip x}) st st'"
  proof (induction xs arbitrary: st)
    case Nil
    then show ?case by (simp add: extends_refl)
  next
    case (Cons x xs)
    then obtain st1 where st1: "f x st = Inr st1" "for_each f xs st1 = Inr st'"
      by (auto simp: go_error)
    note IH = Cons.IH [OF st1(2)]
    show ?case
    proof (cases "skip x")
      case True
      with st1(1) have "st1 = st" by (simp add: assms)
      moreover have "{y \<in> set (x # xs). \<not> skip y} = {y \<in> set xs. \<not> skip y}" using True by auto
      ultimately show ?thesis using IH by simp
    next
      case False
      with st1(1) have "st1 = add_dep (src x) (dst x) st"
        by (auto simp: assms split: if_splits)
      then have "extends {dst x} {(dst x, src x)} st st1" by (simp add: extends_add_dep)
      moreover have "{y \<in> set (x # xs). \<not> skip y} = insert x {y \<in> set xs. \<not> skip y}"
        using False by auto
      ultimately show ?thesis using extends_trans [OF _ IH] by fastforce
    qed
  qed
qed

text \<open>The specification of the edges that one step contributes.\<close>

definition ref_steps :: "Ref list \<Rightarrow> string set" where
  "ref_steps refs = StepID ` {r \<in> set refs. Kind r = RefStepOutput}"

definition step_edges :: "Step \<Rightarrow> Ref list \<Rightarrow> (string \<times> string) set" where
  "step_edges s refs =
     {step_ID s} \<times> (ref_steps refs \<union> set (step_Needs s)) \<union>
     (if step_Router s then (Goto ` set (step_Routes s)) \<times> {step_ID s} else {})"

definition step_keys :: "Step \<Rightarrow> string set" where
  "step_keys s = insert (step_ID s) (if step_Router s then Goto ` set (step_Routes s) else {})"

definition step_deps_ok :: "string set \<Rightarrow> Step \<Rightarrow> Ref list \<Rightarrow> bool" where
  "step_deps_ok ids s refs \<longleftrightarrow>
     ParseRefs (step_Input s) = Inr refs \<and> ref_steps refs \<subseteq> ids \<and>
     set (step_Needs s) \<subseteq> ids - {step_ID s} \<and>
     (step_Router s \<longrightarrow> Goto ` set (step_Routes s) \<subseteq> ids)"

lemma deps_refs_spec:
  "(\<exists>st'. deps_refs ids s refs st = Inr st') \<longleftrightarrow> ref_steps refs \<subseteq> ids"
  "deps_refs ids s refs st = Inr st' \<Longrightarrow>
     extends (if ref_steps refs = {} then {} else {step_ID s}) ({step_ID s} \<times> ref_steps refs) st st'"
proof -
  note spec = for_each_adds [where skip = "\<lambda>r. Kind r \<noteq> RefStepOutput" and ok = "\<lambda>r. StepID r \<in> ids"
      and src = StepID and dst = "\<lambda>_. step_ID s" and xs = refs and st = st
      and err = "\<lambda>r. Errorf ''step %q references unknown step %q'' [step_ID s, StepID r]"]
  show "(\<exists>st'. deps_refs ids s refs st = Inr st') \<longleftrightarrow> ref_steps refs \<subseteq> ids"
    unfolding deps_refs_def by (subst spec(1)) (auto simp: ref_steps_def)
  assume "deps_refs ids s refs st = Inr st'"
  then have "extends ((\<lambda>_. step_ID s) ` {r \<in> set refs. \<not> Kind r \<noteq> RefStepOutput})
      ((\<lambda>r. (step_ID s, StepID r)) ` {r \<in> set refs. \<not> Kind r \<noteq> RefStepOutput}) st st'"
    unfolding deps_refs_def by (rule spec(2) [rotated]) simp
  moreover have "(\<lambda>_. step_ID s) ` {r \<in> set refs. \<not> Kind r \<noteq> RefStepOutput}
      = (if ref_steps refs = {} then {} else {step_ID s})"
    by (auto simp: ref_steps_def)
  moreover have "(\<lambda>r. (step_ID s, StepID r)) ` {r \<in> set refs. \<not> Kind r \<noteq> RefStepOutput}
      = {step_ID s} \<times> ref_steps refs"
    by (auto simp: ref_steps_def)
  ultimately show "extends (if ref_steps refs = {} then {} else {step_ID s})
      ({step_ID s} \<times> ref_steps refs) st st'"
    by simp
qed

lemma deps_needs_spec:
  "(\<exists>st'. deps_needs ids s st = Inr st') \<longleftrightarrow> set (step_Needs s) \<subseteq> ids - {step_ID s}"
  "deps_needs ids s st = Inr st' \<Longrightarrow>
     extends (if step_Needs s = [] then {} else {step_ID s}) ({step_ID s} \<times> set (step_Needs s)) st st'"
proof -
  define err where "err = (\<lambda>n. if n = step_ID s then Errorf ''step %q needs itself'' [step_ID s]
      else Errorf ''step %q needs unknown step %q'' [step_ID s, n])"
  have body: "(if need = step_ID s then Inl (Errorf ''step %q needs itself'' [step_ID s])
       else if need \<notin> ids then Inl (Errorf ''step %q needs unknown step %q'' [step_ID s, need])
       else Inr (add_dep need (step_ID s) st)) =
      (if False then Inr st else if need \<in> ids - {step_ID s} then Inr (add_dep need (step_ID s) st)
       else Inl (err need))" for need st
    by (simp add: err_def)
  note spec = for_each_adds [where skip = "\<lambda>_. False" and ok = "\<lambda>n. n \<in> ids - {step_ID s}"
      and src = "\<lambda>n. n" and dst = "\<lambda>_. step_ID s" and err = err and xs = "step_Needs s" and st = st,
      OF body]
  show "(\<exists>st'. deps_needs ids s st = Inr st') \<longleftrightarrow> set (step_Needs s) \<subseteq> ids - {step_ID s}"
    unfolding deps_needs_def by (subst spec(1)) auto
  assume "deps_needs ids s st = Inr st'"
  then have "extends ((\<lambda>_. step_ID s) ` {n \<in> set (step_Needs s). \<not> False})
      ((\<lambda>n. (step_ID s, n)) ` {n \<in> set (step_Needs s). \<not> False}) st st'"
    unfolding deps_needs_def by (rule spec(2))
  moreover have "(\<lambda>_. step_ID s) ` {n \<in> set (step_Needs s). \<not> False}
      = (if step_Needs s = [] then {} else {step_ID s})"
    by (cases "step_Needs s") auto
  moreover have "(\<lambda>n. (step_ID s, n)) ` {n \<in> set (step_Needs s). \<not> False}
      = {step_ID s} \<times> set (step_Needs s)"
    by auto
  ultimately show "extends (if step_Needs s = [] then {} else {step_ID s})
      ({step_ID s} \<times> set (step_Needs s)) st st'"
    by simp
qed

lemma deps_routes_spec:
  "(\<exists>st'. deps_routes ids s st = Inr st') \<longleftrightarrow>
     (step_Router s \<longrightarrow> Goto ` set (step_Routes s) \<subseteq> ids)"
  "deps_routes ids s st = Inr st' \<Longrightarrow>
     extends (if step_Router s then Goto ` set (step_Routes s) else {})
       (if step_Router s then (Goto ` set (step_Routes s)) \<times> {step_ID s} else {}) st st'"
proof -
  note spec = for_each_adds [where skip = "\<lambda>_. False" and ok = "\<lambda>r. Goto r \<in> ids"
      and src = "\<lambda>_. step_ID s" and dst = Goto and xs = "step_Routes s" and st = st
      and err = "\<lambda>r. Errorf ''router step %q: goto %q is not a step'' [step_ID s, Goto r]"]
  show "(\<exists>st'. deps_routes ids s st = Inr st') \<longleftrightarrow>
      (step_Router s \<longrightarrow> Goto ` set (step_Routes s) \<subseteq> ids)"
    unfolding deps_routes_def by (simp, subst spec(1)) auto
  assume *: "deps_routes ids s st = Inr st'"
  show "extends (if step_Router s then Goto ` set (step_Routes s) else {})
      (if step_Router s then (Goto ` set (step_Routes s)) \<times> {step_ID s} else {}) st st'"
  proof (cases "step_Router s")
    case True
    with * have "extends (Goto ` {r \<in> set (step_Routes s). \<not> False})
        ((\<lambda>r. (Goto r, step_ID s)) ` {r \<in> set (step_Routes s). \<not> False}) st st'"
      unfolding deps_routes_def by (intro spec(2)) auto
    moreover have "(\<lambda>r. (Goto r, step_ID s)) ` {r \<in> set (step_Routes s). \<not> False}
        = (Goto ` set (step_Routes s)) \<times> {step_ID s}"
      by auto
    ultimately show ?thesis using True by simp
  next
    case False
    with * show ?thesis by (simp add: deps_routes_def extends_refl)
  qed
qed

lemma deps_step_Inr_iff:
  "(\<exists>st'. deps_step ids s st = Inr st') \<longleftrightarrow> (\<exists>refs. step_deps_ok ids s refs)"
proof (cases "ParseRefs (step_Input s)")
  case (Inr refs)
  have "(\<exists>st'. deps_step ids s st = Inr st') \<longleftrightarrow>
      ref_steps refs \<subseteq> ids \<and> set (step_Needs s) \<subseteq> ids - {step_ID s} \<and>
      (step_Router s \<longrightarrow> Goto ` set (step_Routes s) \<subseteq> ids)"
    unfolding deps_step_def Let_def Inr
    using deps_refs_spec(1) deps_needs_spec(1) deps_routes_spec(1)
    by (simp add: go_error) (metis (no_types, lifting))
  with Inr show ?thesis by (simp add: step_deps_ok_def)
qed (simp add: deps_step_def Let_def step_deps_ok_def)

lemma deps_step_extends:
  assumes "deps_step ids s st = Inr st'"
  obtains refs where "step_deps_ok ids s refs"
    "extends (step_keys s) (step_edges s refs) st st'"
proof -
  obtain refs where ok: "step_deps_ok ids s refs"
    using assms deps_step_Inr_iff by metis
  define st0 where "st0 = (if ds_deps st (step_ID s) = None
      then st\<lparr>ds_deps := (ds_deps st)(step_ID s \<mapsto> [])\<rparr> else st)"
  obtain st1 st2 where run: "deps_refs ids s refs st0 = Inr st1"
    "deps_needs ids s st1 = Inr st2" "deps_routes ids s st2 = Inr st'"
    using assms ok by (auto simp: deps_step_def Let_def step_deps_ok_def st0_def go_error)
  have e0: "extends {step_ID s} {} st st0"
    by (auto simp: st0_def extends_nil_entry) (auto simp: extends_def)
  let ?D = "(({step_ID s} \<union> (if ref_steps refs = {} then {} else {step_ID s}))
      \<union> (if step_Needs s = [] then {} else {step_ID s}))
      \<union> (if step_Router s then Goto ` set (step_Routes s) else {})"
  let ?E = "(({} \<union> {step_ID s} \<times> ref_steps refs) \<union> {step_ID s} \<times> set (step_Needs s))
      \<union> (if step_Router s then (Goto ` set (step_Routes s)) \<times> {step_ID s} else {})"
  have "extends ?D ?E st st'"
    by (rule extends_trans [OF extends_trans [OF extends_trans [OF e0
        deps_refs_spec(2) [OF run(1)]] deps_needs_spec(2) [OF run(2)]] deps_routes_spec(2) [OF run(3)]])
  moreover have "?D = step_keys s" by (auto simp: step_keys_def)
  moreover have "?E = step_edges s refs" by (auto simp: step_edges_def)
  ultimately have "extends (step_keys s) (step_edges s refs) st st'" by simp
  with ok show thesis by (rule that)
qed

section \<open>The specification of Deps\<close>

text \<open>
  \<open>depends_on p x y\<close>: a step with id \<open>x\<close> refers to the output of \<open>y\<close>, or needs \<open>y\<close>, or
  is the target of a route of the router step \<open>y\<close>.
\<close>

definition depends_on :: "Pipeline \<Rightarrow> string \<Rightarrow> string \<Rightarrow> bool" where
  "depends_on p x y \<longleftrightarrow>
     (\<exists>s\<in>set (pl_Steps p).
        (step_ID s = x \<and>
           ((\<exists>refs. ParseRefs (step_Input s) = Inr refs \<and> y \<in> ref_steps refs)
            \<or> y \<in> set (step_Needs s)))
        \<or> (step_ID s = y \<and> step_Router s \<and> x \<in> Goto ` set (step_Routes s)))"

definition pipeline_deps_ok :: "Pipeline \<Rightarrow> bool" where
  "pipeline_deps_ok p \<longleftrightarrow> (\<forall>s\<in>set (pl_Steps p). \<exists>refs. step_deps_ok (step_ids p) s refs)"

lemma deps_loop_Inr_iff:
  "(\<exists>st'. for_each (deps_step ids) steps st = Inr st') \<longleftrightarrow>
     (\<forall>s\<in>set steps. \<exists>refs. step_deps_ok ids s refs)"
proof (induction steps arbitrary: st)
  case (Cons s steps)
  show ?case
  proof (cases "deps_step ids s st")
    case (Inl e)
    then have "\<not> (\<exists>refs. step_deps_ok ids s refs)"
      using deps_step_Inr_iff [of ids s st] by simp
    with Inl show ?thesis by simp
  next
    case (Inr st1)
    then have "\<exists>refs. step_deps_ok ids s refs" using deps_step_Inr_iff [of ids s st] by simp
    with Inr Cons show ?thesis by simp
  qed
qed simp

definition ok_edges :: "string set \<Rightarrow> Step list \<Rightarrow> (string \<times> string) set" where
  "ok_edges ids steps = {e. \<exists>s\<in>set steps. \<exists>refs. step_deps_ok ids s refs \<and> e \<in> step_edges s refs}"

lemma ok_edges_Cons:
  "step_deps_ok ids s refs \<Longrightarrow> ok_edges ids (s # steps) = step_edges s refs \<union> ok_edges ids steps"
  by (auto simp: ok_edges_def step_deps_ok_def)

lemma step_edges_iff:
  "(x, y) \<in> step_edges s refs \<longleftrightarrow>
     (step_ID s = x \<and> (y \<in> ref_steps refs \<or> y \<in> set (step_Needs s)))
     \<or> (step_ID s = y \<and> step_Router s \<and> x \<in> Goto ` set (step_Routes s))"
  by (auto simp: step_edges_def)

lemma depends_on_ok_edges:
  assumes "\<forall>s\<in>set (pl_Steps p). \<exists>refs. step_deps_ok ids s refs"
  shows "depends_on p x y \<longleftrightarrow> (x, y) \<in> ok_edges ids (pl_Steps p)"
  unfolding depends_on_def ok_edges_def mem_Collect_eq
proof (rule bex_cong [OF refl])
  fix s
  assume "s \<in> set (pl_Steps p)"
  with assms obtain refs where "step_deps_ok ids s refs" by blast
  moreover from this have "ParseRefs (step_Input s) = Inr refs" by (simp add: step_deps_ok_def)
  moreover have "step_deps_ok ids s r \<Longrightarrow> r = refs" for r
    using calculation by (simp add: step_deps_ok_def)
  ultimately show
    "(step_ID s = x \<and> ((\<exists>refs. ParseRefs (step_Input s) = Inr refs \<and> y \<in> ref_steps refs)
          \<or> y \<in> set (step_Needs s))
      \<or> step_ID s = y \<and> step_Router s \<and> x \<in> Goto ` set (step_Routes s)) \<longleftrightarrow>
     (\<exists>refs. step_deps_ok ids s refs \<and> (x, y) \<in> step_edges s refs)"
    unfolding step_edges_iff by (metis sum.inject(2))
qed

lemma deps_loop_extends:
  "for_each (deps_step ids) steps st = Inr st' \<Longrightarrow>
     extends (\<Union>s\<in>set steps. step_keys s) (ok_edges ids steps) st st'"
proof (induction steps arbitrary: st)
  case Nil
  then show ?case by (simp add: extends_refl ok_edges_def)
next
  case (Cons s steps)
  then obtain st1 where st1: "deps_step ids s st = Inr st1" "for_each (deps_step ids) steps st1 = Inr st'"
    by (auto simp: go_error)
  obtain refs where refs: "step_deps_ok ids s refs" "extends (step_keys s) (step_edges s refs) st st1"
    using deps_step_extends [OF st1(1)] .
  from extends_trans [OF refs(2) Cons.IH [OF st1(2)]] show ?case
    by (simp add: ok_edges_Cons [OF refs(1)])
qed

lemma dep_inv_no_deps: "dep_inv no_deps"
  by (simp add: dep_inv_def no_deps_def deps_at_def)

lemma deps_loop_spec:
  assumes "for_each (deps_step (step_ids p)) (pl_Steps p) no_deps = Inr st"
  shows "dep_inv st" and "dep_rel (ds_deps st) = {(x, y). depends_on p x y}"
    and "dom (ds_deps st) = step_ids p" and "deps_over (pl_Steps p) (ds_deps st)"
proof -
  let ?ids = "step_ids p"
  have ok: "\<forall>s\<in>set (pl_Steps p). \<exists>refs. step_deps_ok ?ids s refs"
    using assms deps_loop_Inr_iff by blast
  have ext: "dep_inv st"
    "dep_rel (ds_deps st) = ok_edges ?ids (pl_Steps p)"
    "dom (ds_deps st) = (\<Union>s\<in>set (pl_Steps p). step_keys s)"
    using deps_loop_extends [OF assms] dep_inv_no_deps
    by (auto simp: extends_def no_deps_def dep_rel_def deps_at_def)
  show "dep_inv st" by (rule ext(1))
  show rel: "dep_rel (ds_deps st) = {(x, y). depends_on p x y}"
    unfolding ext(2) using depends_on_ok_edges [OF ok] by auto
  have goto: "Goto r \<in> ?ids" if "s \<in> set (pl_Steps p)" "step_Router s" "r \<in> set (step_Routes s)" for s r
    using ok that by (auto simp: step_deps_ok_def)
  have "step_keys s \<subseteq> ?ids" if "s \<in> set (pl_Steps p)" for s
    using goto [OF that] that by (auto simp: step_keys_def step_ids_def split: if_splits)
  then show "dom (ds_deps st) = ?ids"
    unfolding ext(3) by (fastforce simp: step_keys_def step_ids_def)
  show "deps_over (pl_Steps p) (ds_deps st)"
  proof -
    have "x \<in> ?ids \<and> y \<in> ?ids" if "(x, y) \<in> ok_edges ?ids (pl_Steps p)" for x y
      using that by (auto simp: ok_edges_def step_edges_iff step_ids_def step_deps_ok_def)
    then show ?thesis by (auto simp: deps_over_def ext(2) step_ids_def [symmetric])
  qed
qed

lemma Deps_Inr_iff:
  "(\<exists>m. Deps p = Inr m) \<longleftrightarrow> pipeline_deps_ok p \<and> acyclic {(x, y). depends_on p x y}"
proof (cases "for_each (deps_step (step_ids p)) (pl_Steps p) no_deps")
  case (Inl e)
  then have "\<not> pipeline_deps_ok p"
    using deps_loop_Inr_iff [of "step_ids p" "pl_Steps p" no_deps]
    by (simp add: pipeline_deps_ok_def)
  with Inl show ?thesis by (simp add: Deps_def)
next
  case (Inr st)
  then have "pipeline_deps_ok p"
    using deps_loop_Inr_iff [of "step_ids p" "pl_Steps p" no_deps]
    by (simp add: pipeline_deps_ok_def)
  with Inr checkAcyclic_iff [OF deps_loop_spec(4) [OF Inr]] deps_loop_spec(2) [OF Inr]
  show ?thesis by (auto simp: Deps_def go_error)
qed

text \<open>
  C3: \<open>Deps\<close> succeeds exactly when every step is well formed (its input parses, every
  referenced, needed or routed-to step exists, no step needs itself) and the dependency
  relation of the pipeline is acyclic.
\<close>

theorem Deps_succeeds_iff:
  "(\<exists>m. Deps p = Inr m) \<longleftrightarrow> pipeline_deps_ok p \<and> acyclic {(x, y). depends_on p x y}"
  by (rule Deps_Inr_iff)

text \<open>
  The graph that \<open>Deps\<close> returns has an entry for every step and no other, lists every
  dependency of a step exactly once, and nothing else.
\<close>

theorem Deps_edges:
  assumes "Deps p = Inr m"
  shows "dom m = step_ids p \<and> distinct (deps_at m x) \<and>
    (y \<in> set (deps_at m x) \<longleftrightarrow> depends_on p x y)"
proof -
  from assms obtain st where st: "for_each (deps_step (step_ids p)) (pl_Steps p) no_deps = Inr st"
    and m: "m = ds_deps st"
    by (auto simp: Deps_def go_error)
  from deps_loop_spec(1-3) [OF st] show ?thesis
    by (auto simp: m dep_inv_def dep_rel_def)
qed

lemma Deps_acyclic: "Deps p = Inr m \<Longrightarrow> acyclic (dep_rel m)"
proof -
  assume *: "Deps p = Inr m"
  then obtain st where st: "for_each (deps_step (step_ids p)) (pl_Steps p) no_deps = Inr st"
    "m = ds_deps st" "checkAcyclic (pl_Steps p) m = Inr ()"
    by (auto simp: Deps_def go_error)
  then show ?thesis using checkAcyclic_iff deps_loop_spec(4) by blast
qed

lemma Deps_spec:
  assumes "Deps p = Inr m"
  shows "dom m = step_ids p" and "dep_rel m = {(x, y). depends_on p x y}"
    and "dep_rel m \<subseteq> step_ids p \<times> step_ids p" and "pipeline_deps_ok p"
proof -
  from assms obtain st where st: "for_each (deps_step (step_ids p)) (pl_Steps p) no_deps = Inr st"
    and m: "m = ds_deps st"
    by (auto simp: Deps_def go_error)
  note deps_loop_spec [OF st, folded m]
  then show "dom m = step_ids p" "dep_rel m = {(x, y). depends_on p x y}"
    "dep_rel m \<subseteq> step_ids p \<times> step_ids p"
    by (simp_all add: deps_over_def step_ids_def)
  show "pipeline_deps_ok p"
    using st deps_loop_Inr_iff [of "step_ids p" "pl_Steps p" no_deps]
    by (simp add: pipeline_deps_ok_def)
qed

text \<open>
  When every step is well formed and \<open>Deps\<close> fails, the error names a step that lies on a
  dependency cycle; in particular the search never gives up.
\<close>

theorem Deps_reports_cycle:
  assumes "Deps p = Inl e" and "pipeline_deps_ok p"
  shows "\<exists>d. e = Errorf ''dependency cycle involving step %q'' [d]
    \<and> (d, d) \<in> {(x, y). depends_on p x y}\<^sup>+"
proof -
  obtain st where st: "for_each (deps_step (step_ids p)) (pl_Steps p) no_deps = Inr st"
    using assms(2) deps_loop_Inr_iff [of "step_ids p" "pl_Steps p" no_deps]
    by (auto simp: pipeline_deps_ok_def)
  with assms(1) have "checkAcyclic (pl_Steps p) (ds_deps st) = Inl e"
    by (auto simp: Deps_def go_error)
  from checkAcyclic_Inl [OF this deps_loop_spec(4) [OF st]] deps_loop_spec(2) [OF st]
  show ?thesis by simp
qed

end
