(* ===== verification/Resolve.thy ===== *)
theory Resolve
  imports Template
begin

text \<open>
  \<open>internal/pipeline/resolve.go\<close>: substitution of the values of a scope for the references
  of a template, and the lookup of a JSON path in a step's output.
\<close>

section \<open>Definitions\<close>

record Scope =
  Inputs :: "string \<rightharpoonup> string"
  Outputs :: "string \<rightharpoonup> string"

text \<open>The text of \<open>%T\<close> for a decoded JSON value.\<close>

fun go_type :: "json \<Rightarrow> string" where
  "go_type JNull = ''<nil>''"
| "go_type (JBool b) = ''bool''"
| "go_type (JNum x) = ''float64''"
| "go_type (JStr s) = ''string''"
| "go_type (JArr vs) = ''[]interface {}''"
| "go_type (JObj kvs) = ''map[string]interface {}''"

text \<open>A decoded value can always be marshalled, so the error branch of the last case is not taken.\<close>

fun stringify :: "json \<Rightarrow> string" where
  "stringify JNull = []"
| "stringify (JStr s) = s"
| "stringify (JBool b) = (if b then ''true'' else ''false'')"
| "stringify (JNum x) =
     (if is_int64 x then Itoa (int64_of_f64 x) else FormatFloat_f x)"
| "stringify v = json_Marshal v"

text \<open>One step of the path: the body of the loop of \<open>lookupPath\<close>.\<close>

definition lookup_seg :: "string list \<Rightarrow> string \<Rightarrow> json \<Rightarrow> json res" where
  "lookup_seg path seg cur =
     (case cur of
        JObj kvs \<Rightarrow>
          (case map_of kvs seg of
             None \<Rightarrow> Inl (Errorf ''path %s: key %q not found'' [Join ''.'' path, seg])
           | Some v \<Rightarrow> Inr v)
      | JArr vs \<Rightarrow>
          (case Atoi seg of
             None \<Rightarrow> Inl (Errorf ''path %s: bad index %q'' [Join ''.'' path, seg])
           | Some idx \<Rightarrow>
               if idx < 0 \<or> int (length vs) \<le> idx
               then Inl (Errorf ''path %s: bad index %q'' [Join ''.'' path, seg])
               else Inr (vs ! nat idx))
      | _ \<Rightarrow> Inl (Errorf ''path %s: cannot descend into %T'' [Join ''.'' path, go_type cur]))"

definition lookupPath :: "string \<Rightarrow> string list \<Rightarrow> string res" where
  "lookupPath raw path =
     (case json_Unmarshal (TrimSpace raw) of
        Inl e \<Rightarrow> Inl (ErrWrap ''path %s: output is not JSON: %w'' [Join ''.'' path] e)
      | Inr doc \<Rightarrow>
          bind_res (for_each (lookup_seg path) path doc) (\<lambda>cur. Inr (stringify cur)))"

definition resolveRef :: "Ref \<Rightarrow> Scope \<Rightarrow> string res" where
  "resolveRef ref scope =
     (case Kind ref of
        RefInput \<Rightarrow>
          (case Inputs scope (Name ref) of
             None \<Rightarrow> Inl (Errorf ''unresolved input %q'' [Name ref])
           | Some val \<Rightarrow> Inr val)
      | RefStepOutput \<Rightarrow>
          (case Outputs scope (StepID ref) of
             None \<Rightarrow> Inl (Errorf ''unresolved step output %q'' [StepID ref])
           | Some raw \<Rightarrow> if Path ref = [] then Inr raw else lookupPath raw (Path ref)))"

text \<open>
  The replacement loop: the bytes between the matches are copied, and every match is
  replaced by the entry of its text in the table, the empty string if there is none.
\<close>

fun substitute :: "(string \<rightharpoonup> string) \<Rightarrow> token list \<Rightarrow> string" where
  "substitute replacements [] = []"
| "substitute replacements (Byte c # ts) = c # substitute replacements ts"
| "substitute replacements (Match raw g # ts) =
     (case replacements raw of None \<Rightarrow> [] | Some v \<Rightarrow> v) @ substitute replacements ts"

definition put_replacement ::
  "Scope \<Rightarrow> Ref \<Rightarrow> (string \<rightharpoonup> string) \<Rightarrow> (string \<rightharpoonup> string) res" where
  "put_replacement scope ref replacements =
     bind_res (resolveRef ref scope) (\<lambda>val. Inr (replacements(Raw ref \<mapsto> val)))"

definition Resolve :: "string \<Rightarrow> Scope \<Rightarrow> string res" where
  "Resolve s scope =
     bind_res (ParseRefs s) (\<lambda>refs.
       if refs = [] then Inr s
       else bind_res
         (for_each (put_replacement scope) refs Map.empty)
         (\<lambda>replacements. Inr (substitute replacements (refTokens s))))"

section \<open>Substitution\<close>

text \<open>What a part of a template stands for.\<close>

fun item_value :: "Scope \<Rightarrow> item \<Rightarrow> string res" where
  "item_value scope (Text t) = Inr t"
| "item_value scope (Hole b r) = resolveRef r scope"

lemma substitute_append [simp]:
  "substitute m (ts @ us) = substitute m ts @ substitute m us"
  by (induction m ts rule: substitute.induct) (auto split: option.split)

lemma substitute_Byte [simp]: "substitute m (map Byte t) = t"
  by (induction t) auto

text \<open>The table has an entry for the text of every reference, which determines its value.\<close>

definition table_ok :: "Scope \<Rightarrow> Ref list \<Rightarrow> (string \<rightharpoonup> string) \<Rightarrow> bool" where
  "table_ok scope refs m \<longleftrightarrow>
     (\<forall>r\<in>set refs. \<exists>v. m (Raw r) = Some v \<and> resolveRef r scope = Inr v)"

lemma put_replacement_Inr [go_error]:
  "put_replacement scope r m = Inr m' \<longleftrightarrow>
     (\<exists>v. resolveRef r scope = Inr v \<and> m' = m(Raw r \<mapsto> v))"
  by (auto simp: put_replacement_def go_error)

lemma replacements_ok:
  assumes "for_each (put_replacement scope) refs m0 = Inr m"
    and "\<And>q r. q \<in> set (seen @ refs) \<Longrightarrow> r \<in> set (seen @ refs) \<Longrightarrow> Raw q = Raw r \<Longrightarrow> q = r"
    and "table_ok scope seen m0"
  shows "table_ok scope (seen @ refs) m"
  using assms
proof (induction refs arbitrary: m0 seen)
  case (Cons r refs)
  obtain v where v: "resolveRef r scope = Inr v"
    and rest: "for_each (put_replacement scope) refs (m0(Raw r \<mapsto> v)) = Inr m"
    using Cons.prems(1) by (auto simp: go_error)
  have inj: "q = r" if "q \<in> set seen" "Raw q = Raw r" for q
    using that Cons.prems(2) [of q r] by simp
  have "table_ok scope (seen @ [r]) (m0(Raw r \<mapsto> v))"
    using Cons.prems(3) v inj by (auto simp: table_ok_def)
  then show ?case
    using Cons.IH [OF rest, of "seen @ [r]"] Cons.prems(2) by (simp del: fun_upd_apply)
qed simp

lemma replacements_succeed:
  "(\<exists>m. for_each (put_replacement scope) refs m0 = Inr m) \<longleftrightarrow> (\<forall>r\<in>set refs. \<exists>v. resolveRef r scope = Inr v)"
  by (induction refs arbitrary: m0) (auto simp: go_error)

lemma substitute_template:
  assumes "list_all item_ok items" and "table_ok scope (template_refs items) m"
  shows "list_all2 (\<lambda>i v. item_value scope i = Inr v) items vs \<longleftrightarrow>
    vs = map (\<lambda>i. substitute m (item_tokens i)) items"
  using assms
proof (induction items arbitrary: vs)
  case (Cons i items)
  have "item_value scope i = Inr (substitute m (item_tokens i))"
    using Cons.prems by (cases i) (auto simp: table_ok_def template_refs_def)
  moreover have "table_ok scope (template_refs items) m"
    using Cons.prems(2) by (auto simp: table_ok_def template_refs_def)
  ultimately show ?case
    using Cons.IH Cons.prems(1) by (auto simp: list_all2_Cons1)
qed simp

lemma template_Raw_inj:
  assumes "list_all item_ok items" "q \<in> set (template_refs items)" "r \<in> set (template_refs items)"
    and "Raw q = Raw r"
  shows "q = r"
proof -
  have hole: "\<exists>b. ref_ok r \<and> ref_text r = TrimSpace b \<and> Raw r = ''{{'' @ b @ ''}}''"
    if "r \<in> set (template_refs items)" for r
  proof -
    from that obtain i where "i \<in> set items" "r \<in> set (item_refs i)"
      by (auto simp: template_refs_def)
    with assms(1) show ?thesis by (cases i) (auto simp: list_all_iff)
  qed
  obtain b where b: "ref_ok q" "ref_ok r" "ref_text q = TrimSpace b" "ref_text r = TrimSpace b"
    using hole [OF assms(2)] hole [OF assms(3)] assms(4) by auto
  then have "parseRef (TrimSpace b) (Raw r) = Inr q" "parseRef (TrimSpace b) (Raw r) = Inr r"
    using assms(4) by (simp_all add: parseRef_Inr)
  then show ?thesis by simp
qed

lemma substitute_items:
  "substitute m (concat (map item_tokens items)) = concat (map (\<lambda>i. substitute m (item_tokens i)) items)"
  by (induction items) auto

lemma item_values_resolve:
  "list_all2 (\<lambda>i v. item_value scope i = Inr v) items vs \<Longrightarrow>
     r \<in> set (template_refs items) \<Longrightarrow> \<exists>v. resolveRef r scope = Inr v"
proof (induction items arbitrary: vs)
  case (Cons i items)
  then show ?case
    by (cases i) (auto simp: list_all2_Cons1 template_refs_def)
qed (simp add: template_refs_def)

lemma Resolve_template:
  assumes "list_all item_ok items"
  shows "Resolve (template_text items) scope = Inr out \<longleftrightarrow>
    (\<exists>vs. list_all2 (\<lambda>i v. item_value scope i = Inr v) items vs \<and> out = concat vs)"
proof -
  let ?refs = "template_refs items"
  let ?loop = "for_each (put_replacement scope) ?refs Map.empty"
  have parse: "ParseRefs (template_text items) = Inr ?refs"
    using assms refTokens_template template_matches by (auto simp: ParseRefs_tokens)
  have tokens: "refTokens (template_text items) = concat (map item_tokens items)"
    using assms by (rule refTokens_template)
  show ?thesis
  proof (cases "\<forall>r\<in>set ?refs. \<exists>v. resolveRef r scope = Inr v")
    case True
    then obtain m where m: "?loop = Inr m" using replacements_succeed by blast
    have tab: "table_ok scope ?refs m"
      using replacements_ok [where seen = "[]", OF m] template_Raw_inj [OF assms]
      by (simp add: table_ok_def)
    have sub: "substitute m (refTokens (template_text items))
        = concat (map (\<lambda>i. substitute m (item_tokens i)) items)"
      by (simp add: tokens substitute_items)
    have "Resolve (template_text items) scope = Inr (substitute m (refTokens (template_text items)))"
    proof (cases "?refs = []")
      case True
      have "substitute m ts = concat (map token_text ts)" if "matches_of ts = []" for ts
        using that by (induction ts rule: matches_of.induct) auto
      moreover have "matches_of (refTokens (template_text items)) = []"
        using parse True by (simp add: ParseRefs_tokens)
      ultimately show ?thesis
        using parse True by (simp add: Resolve_def refTokens_concat)
    qed (use parse m in \<open>simp add: Resolve_def\<close>)
    then show ?thesis
      using substitute_template [OF assms tab] sub by auto
  next
    case False
    then have "\<nexists>m. ?loop = Inr m" using replacements_succeed by blast
    moreover from False have "?refs \<noteq> []" by auto
    ultimately have "Resolve (template_text items) scope \<noteq> Inr out"
      using parse by (auto simp: Resolve_def go_error)
    then show ?thesis using False item_values_resolve by blast
  qed
qed

text \<open>
  C20: \<open>Resolve\<close> returns a string exactly when the template is well formed and every one of
  its references has a value, and the string is the template with every hole replaced by
  its value; the values themselves are never scanned for references again.
\<close>

theorem Resolve_spec:
  "Resolve s scope = Inr out \<longleftrightarrow>
     (\<exists>items vs. list_all item_ok items \<and> s = template_text items
        \<and> list_all2 (\<lambda>i v. item_value scope i = Inr v) items vs \<and> out = concat vs)"
proof
  assume R: "Resolve s scope = Inr out"
  then obtain refs where "ParseRefs s = Inr refs"
    by (auto simp: Resolve_def go_error)
  then obtain items where items: "list_all item_ok items" "s = template_text items"
    using items_of_tokens [of "refTokens s" refs] Match_in_refTokens
    by (auto simp: ParseRefs_tokens refTokens_concat)
  with R show "\<exists>items vs. list_all item_ok items \<and> s = template_text items
      \<and> list_all2 (\<lambda>i v. item_value scope i = Inr v) items vs \<and> out = concat vs"
    using Resolve_template [OF items(1)] by blast
next
  assume "\<exists>items vs. list_all item_ok items \<and> s = template_text items
    \<and> list_all2 (\<lambda>i v. item_value scope i = Inr v) items vs \<and> out = concat vs"
  then show "Resolve s scope = Inr out"
    using Resolve_template by blast
qed

end
