(* ===== verification/Conditions.thy ===== *)
theory Conditions
  imports Resolve
begin

text \<open>
  \<open>internal/pipeline/condition.go\<close>: the conditions of a router step and the choice of a
  route.  The regular expressions of \<open>matches\<close> come from outside: \<open>regexp_Compile\<close> is a
  parameter that gives the match test of a pattern, or the error of a bad one.
\<close>

section \<open>Definitions\<close>

type_synonym regexp_compile = "string \<Rightarrow> (string \<Rightarrow> bool) res"

text \<open>\<open>atoi\<close> keeps its number in an \<open>int\<close>, which wraps around.\<close>

fun atoi_loop :: "goint \<Rightarrow> string \<Rightarrow> goint res" where
  "atoi_loop n [] = Inr n"
| "atoi_loop n (r # rs) =
     (if \<not> isDigit r then Inl (Errorf ''not a number'' [])
      else atoi_loop (n * 10 + of_nat (digit_value r)) rs)"

definition atoi :: "string \<Rightarrow> goint res" where
  "atoi s = (if s = [] then Inl (Errorf ''empty'' []) else atoi_loop 0 s)"

text \<open>One step of the path; \<open>None\<close> is an absent key or index.\<close>

definition walk_seg :: "string \<Rightarrow> json \<Rightarrow> json option" where
  "walk_seg seg cur =
     (case cur of
        JObj kvs \<Rightarrow> map_of kvs seg
      | JArr vs \<Rightarrow>
          (case atoi seg of
             Inl _ \<Rightarrow> None
           | Inr idx \<Rightarrow>
               if sint idx < 0 \<or> int (length vs) \<le> sint idx then None
               else Some (vs ! nat (sint idx)))
      | _ \<Rightarrow> None)"

fun walk_segs :: "string list \<Rightarrow> json \<Rightarrow> json option" where
  "walk_segs [] cur = Some cur"
| "walk_segs (seg # segs) cur =
     (case walk_seg seg cur of None \<Rightarrow> None | Some v \<Rightarrow> walk_segs segs v)"

text \<open>The value and \<open>found\<close>; the error result is always nil.\<close>

definition walkPath :: "json \<Rightarrow> string \<Rightarrow> (json \<times> bool) res" where
  "walkPath doc path =
     (if path = [] then Inr (doc, True)
      else (case walk_segs (Split CHR ''.'' path) doc of
              None \<Rightarrow> Inr (JNull, False)
            | Some cur \<Rightarrow> Inr (cur, True)))"

definition looseEqual :: "json \<Rightarrow> json \<Rightarrow> bool" where
  "looseEqual value operand =
     (case operand of
        JStr s \<Rightarrow> stringify value = s
      | _ \<Rightarrow> json_Marshal value = json_Marshal operand)"

definition EvaluateCondition :: "regexp_compile \<Rightarrow> Condition \<Rightarrow> string \<Rightarrow> bool res" where
  "EvaluateCondition regexp_Compile cond input =
     (case json_Unmarshal (TrimSpace input) of
        Inl e \<Rightarrow> Inl (ErrWrap ''router input is not JSON: %w'' [] e)
      | Inr doc \<Rightarrow>
          bind_res (walkPath doc (Field cond)) (\<lambda>(value, found).
            if Operator cond = OpExists then Inr (found \<and> stringify value \<noteq> [])
            else if Operator cond = OpEquals then Inr (found \<and> looseEqual value (Equals cond))
            else if Operator cond = OpNotEquals then
              Inr (found \<and> \<not> looseEqual value (NotEquals cond))
            else if Operator cond = OpIn then
              Inr (found \<and> list_ex (looseEqual value) (In cond))
            else if Operator cond = OpMatches then
              (if \<not> found then Inr False
               else case regexp_Compile (Matches cond) of
                      Inl e \<Rightarrow> Inl (ErrWrap ''invalid matches pattern %q: %w'' [Matches cond] e)
                    | Inr re \<Rightarrow> Inr (re (stringify value)))
            else Inl (Errorf ''condition has no single operator'' [])))"

text \<open>The loop of \<open>PickRoute\<close>: \<open>fallback\<close> is the target of the last default route so far.\<close>

fun pick_loop :: "regexp_compile \<Rightarrow> string \<Rightarrow> Route list \<Rightarrow> string option \<Rightarrow> string res" where
  "pick_loop re input [] fallback =
     (case fallback of
        Some g \<Rightarrow> Inr g
      | None \<Rightarrow> Inl (Errorf ''router: no route matched and no default'' []))"
| "pick_loop re input (r # rs) fallback =
     (if Default r then pick_loop re input rs (Some (Goto r))
      else (case When r of
              None \<Rightarrow> pick_loop re input rs fallback
            | Some cond \<Rightarrow>
                bind_res (EvaluateCondition re cond input) (\<lambda>ok.
                  if ok then Inr (Goto r) else pick_loop re input rs fallback)))"

definition PickRoute :: "regexp_compile \<Rightarrow> Route list \<Rightarrow> string \<Rightarrow> string res" where
  "PickRoute re routes input = pick_loop re input routes None"

section \<open>Paths\<close>

lemma atoi_loop_digits:
  "list_all isDigit s \<Longrightarrow> atoi_loop (of_nat n) s = Inr (of_nat (digits_value n s))"
proof (induction s arbitrary: n)
  case (Cons c s)
  then have "atoi_loop (of_nat (10 * n + digit_value c)) s
      = Inr (of_nat (digits_value (10 * n + digit_value c) s))"
    by (simp del: of_nat_add of_nat_mult digit_value.simps)
  with Cons.prems show ?case by (simp add: algebra_simps del: digit_value.simps)
qed simp

lemma atoi_loop_error: "\<not> list_all isDigit s \<Longrightarrow> \<exists>e. atoi_loop n s = Inl e"
  by (induction s arbitrary: n) auto

lemma atoi_digits: "s \<noteq> [] \<Longrightarrow> list_all isDigit s \<Longrightarrow> atoi s = Inr (of_nat (digits_value 0 s))"
  using atoi_loop_digits [of s 0] by (simp add: atoi_def)

lemma atoi_error: "s = [] \<or> \<not> list_all isDigit s \<Longrightarrow> \<exists>e. atoi s = Inl e"
  using atoi_loop_error by (auto simp: atoi_def)

lemma sint_of_nat_small: "n < 2 ^ 63 \<Longrightarrow> sint (of_nat n :: goint) = int n"
proof -
  assume "n < 2 ^ 63"
  then have n: "int n < 2 ^ 63" by simp
  have "signed_take_bit 63 (int n) = int n"
    by (rule signed_take_bit_int_eq_self) (use n in simp_all)
  then show ?thesis by (simp add: signed_of_nat)
qed

text \<open>
  The two index readers agree on a segment that is a number below \<open>2 ^ 63\<close> written without
  a sign, and on a segment that both refuse.
\<close>

definition plain_seg :: "string \<Rightarrow> bool" where
  "plain_seg seg \<longleftrightarrow>
     (if list_all isDigit seg then digits_value 0 seg < 2 ^ 63
      else case Atoi seg of None \<Rightarrow> True | Some i \<Rightarrow> i < 0)"

lemma digits_no_sign:
  "list_all isDigit s \<Longrightarrow> s \<noteq> [] \<Longrightarrow> hd s \<noteq> CHR ''-'' \<and> hd s \<noteq> CHR ''+''"
  by (cases s) (auto simp: isDigit_def)

lemma Atoi_digits:
  assumes "list_all isDigit s" "s \<noteq> []" "digits_value 0 s < 2 ^ 63"
  shows "Atoi s = Some (int (digits_value 0 s))"
  using assms digits_no_sign [OF assms(1,2)] by (simp add: Atoi_def Let_def)

lemma walk_seg_lookup_seg:
  assumes "plain_seg seg"
  shows "walk_seg seg cur = (case lookup_seg path seg cur of Inl e \<Rightarrow> None | Inr v \<Rightarrow> Some v)"
proof (cases cur)
  case (JArr vs)
  show ?thesis
  proof (cases "list_all isDigit seg \<and> seg \<noteq> []")
    case True
    with assms have "atoi seg = Inr (of_nat (digits_value 0 seg))"
      "Atoi seg = Some (int (digits_value 0 seg))"
      "sint (of_nat (digits_value 0 seg) :: goint) = int (digits_value 0 seg)"
      by (simp_all add: plain_seg_def atoi_digits Atoi_digits sint_of_nat_small)
    with JArr show ?thesis by (simp add: walk_seg_def lookup_seg_def)
  next
    case False
    then obtain e where "atoi seg = Inl e" using atoi_error by auto
    moreover have "case Atoi seg of None \<Rightarrow> True | Some i \<Rightarrow> i < 0"
      using False assms by (auto simp: plain_seg_def Atoi_def split: if_splits)
    ultimately show ?thesis
      using JArr by (auto simp: walk_seg_def lookup_seg_def split: option.splits)
  qed
qed (auto simp: walk_seg_def lookup_seg_def split: option.split)

lemma walk_segs_lookup:
  "list_all plain_seg segs \<Longrightarrow>
     walk_segs segs cur = Some v \<longleftrightarrow> for_each (lookup_seg path) segs cur = Inr v"
proof (induction segs arbitrary: cur)
  case (Cons seg segs)
  have "walk_seg seg cur = (case lookup_seg path seg cur of Inl e \<Rightarrow> None | Inr v \<Rightarrow> Some v)"
    using Cons.prems by (intro walk_seg_lookup_seg) simp
  with Cons show ?case by (cases "lookup_seg path seg cur") auto
qed simp

text \<open>
  The path lookup of the router conditions and the one of the templates agree: on a
  nonempty path of segments without dots whose indices are plain, \<open>lookupPath\<close> succeeds
  on a document exactly when \<open>walkPath\<close> finds the path, and returns the text of the value
  found.
\<close>

theorem lookupPath_walkPath:
  assumes "path \<noteq> []" and "path \<noteq> [[]]" and "\<forall>seg\<in>set path. CHR ''.'' \<notin> set seg" and "list_all plain_seg path"
    and "json_Unmarshal (TrimSpace raw) = Inr doc"
  shows "lookupPath raw path = Inr s \<longleftrightarrow>
    (\<exists>v. walkPath doc (Join ''.'' path) = Inr (v, True) \<and> s = stringify v)"
proof -
  have "Split CHR ''.'' (Join ''.'' path) = path"
    using assms(1,3) by (rule Split_Join)
  moreover from this assms(2) have "Join ''.'' path \<noteq> []" by auto
  ultimately show ?thesis
    using walk_segs_lookup [OF assms(4), of doc _ path] assms(5)
    by (cases "walk_segs path doc") (auto simp: lookupPath_def walkPath_def go_error)
qed

section \<open>Conditions\<close>

text \<open>
  What a condition means, for every operator: a condition without exactly one operator
  is an error; an absent field satisfies no condition; a present one is compared by the
  operator.
\<close>

theorem EvaluateCondition_spec:
  assumes "json_Unmarshal (TrimSpace input) = Inr doc" and "walkPath doc (Field cond) = Inr (v, found)"
  shows "EvaluateCondition re cond input =
    (if operators_set cond = [OpExists] then Inr (found \<and> stringify v \<noteq> [])
     else if operators_set cond = [OpEquals] then Inr (found \<and> looseEqual v (Equals cond))
     else if operators_set cond = [OpNotEquals] then Inr (found \<and> \<not> looseEqual v (NotEquals cond))
     else if operators_set cond = [OpIn] then Inr (found \<and> (\<exists>c\<in>set (In cond). looseEqual v c))
     else if operators_set cond = [OpMatches] then
       (if \<not> found then Inr False
        else case re (Matches cond) of
               Inl e \<Rightarrow> Inl (ErrWrap ''invalid matches pattern %q: %w'' [Matches cond] e)
             | Inr test \<Rightarrow> Inr (test (stringify v)))
     else Inl (Errorf ''condition has no single operator'' []))"
proof -
  have op: "Operator cond = o' \<longleftrightarrow> operators_set cond = [o']" if "o' \<noteq> []" for o'
    using that by (auto simp: Operator_operators_set operators_set_def split: list.splits)
  show ?thesis
    using assms op [of OpExists] op [of OpEquals] op [of OpNotEquals] op [of OpIn] op [of OpMatches]
    by (simp add: EvaluateCondition_def Op_defs list_ex_iff)
qed

section \<open>Routes\<close>

text \<open>A route that is passed over: a default, one without a condition, or one that does not match.\<close>

definition passed_over :: "regexp_compile \<Rightarrow> string \<Rightarrow> Route \<Rightarrow> bool" where
  "passed_over re input r \<longleftrightarrow>
     Default r \<or> When r = None \<or> (\<exists>c. When r = Some c \<and> EvaluateCondition re c input = Inr False)"

definition matching :: "regexp_compile \<Rightarrow> string \<Rightarrow> Route \<Rightarrow> bool" where
  "matching re input r \<longleftrightarrow>
     \<not> Default r \<and> (\<exists>c. When r = Some c \<and> EvaluateCondition re c input = Inr True)"

definition last_default :: "Route list \<Rightarrow> string option \<Rightarrow> string option" where
  "last_default rs d =
     (case filter Default rs of [] \<Rightarrow> d | ds \<Rightarrow> Some (Goto (last ds)))"

lemma last_default_simps [simp]:
  "last_default [] d = d"
  "last_default (r # rs) d = last_default rs (if Default r then Some (Goto r) else d)"
  by (auto simp: last_default_def split: list.splits)

lemma pick_loop_passes:
  "list_all (passed_over re input) pre \<Longrightarrow>
     pick_loop re input (pre @ rs) d = pick_loop re input rs (last_default pre d)"
  by (induction pre arbitrary: d) (auto simp: passed_over_def)

lemma pick_loop_cases:
  obtains (all) "list_all (passed_over re input) rs"
  | (hit) pre r post where "rs = pre @ r # post" "list_all (passed_over re input) pre"
      "matching re input r"
  | (err) pre r post c e where "rs = pre @ r # post" "list_all (passed_over re input) pre"
      "\<not> Default r" "When r = Some c" "EvaluateCondition re c input = Inl e"
proof (cases "list_all (passed_over re input) rs")
  case False
  then obtain pre r post where split: "rs = pre @ r # post" "\<not> passed_over re input r"
    "list_all (passed_over re input) pre"
    using split_list_first_prop [of rs "\<lambda>r. \<not> passed_over re input r"] by (auto simp: list_all_iff)
  then obtain c where c: "\<not> Default r" "When r = Some c" "EvaluateCondition re c input \<noteq> Inr False"
    by (auto simp: passed_over_def)
  show thesis
  proof (cases "EvaluateCondition re c input")
    case (Inl e)
    with split c err show thesis by blast
  next
    case (Inr b)
    with c have "matching re input r" by (cases b) (auto simp: matching_def)
    with split hit show thesis by blast
  qed
qed

lemma not_matching_passed_over: "matching re input r \<Longrightarrow> passed_over re input r \<Longrightarrow> False"
  by (auto simp: matching_def passed_over_def)

lemma pick_loop_target:
  "pick_loop re input rs d = Inr g \<Longrightarrow> Some g = d \<or> g \<in> Goto ` set rs"
  by (induction rs arbitrary: d) (fastforce simp: go_error split: option.splits if_splits)+

lemma PickRoute_target: "PickRoute re rs input = Inr g \<Longrightarrow> g \<in> Goto ` set rs"
  using pick_loop_target [of re input rs None g] by (simp add: PickRoute_def)

text \<open>
  C37: \<open>PickRoute\<close> returns the target of the first route that matches, and the target of the
  last default route when every condition evaluates to false; there is no other way for it
  to succeed.
\<close>

theorem PickRoute_spec:
  "PickRoute re routes input = Inr g \<longleftrightarrow>
     (\<exists>pre r post. routes = pre @ r # post \<and> list_all (passed_over re input) pre
        \<and> matching re input r \<and> g = Goto r)
     \<or> list_all (passed_over re input) routes
        \<and> filter Default routes \<noteq> [] \<and> g = Goto (last (filter Default routes))"
  (is "_ \<longleftrightarrow> ?first \<or> ?default")
proof (cases re input routes rule: pick_loop_cases)
  case all
  then have "\<not> ?first" using not_matching_passed_over by (fastforce simp: list_all_iff)
  with all show ?thesis
    using pick_loop_passes [of re input routes "[]" None]
    by (auto simp: PickRoute_def last_default_def split: list.splits)
next
  case (hit pre r post)
  then have pick: "PickRoute re routes input = Inr (Goto r)"
    using pick_loop_passes [of re input pre "r # post" None]
    by (auto simp: PickRoute_def matching_def)
  have some: "\<not> list_all (passed_over re input) routes"
    using hit not_matching_passed_over by fastforce
  have uniq: "r' = r" if "routes = pre' @ r' # post'" "list_all (passed_over re input) pre'"
    "matching re input r'" for pre' r' post'
  proof (rule first_split_unique [of pre' r' post' pre r post "passed_over re input"])
    show "pre' @ r' # post' = pre @ r # post" using that(1) hit(1) by simp
    show "\<not> passed_over re input r'" "\<not> passed_over re input r"
      using not_matching_passed_over that(3) hit(3) by blast+
  qed (use that(2) hit(2) in simp_all)
  have "?first \<longleftrightarrow> Goto r = g" using uniq hit by blast
  with some pick show ?thesis by simp
next
  case (err pre r post c e)
  then have "PickRoute re routes input = Inl e"
    using pick_loop_passes [of re input pre "r # post" None] by (auto simp: PickRoute_def)
  moreover have stop: "\<not> passed_over re input r" "\<not> matching re input r"
    using err by (auto simp: passed_over_def matching_def)
  moreover from stop err have "\<not> list_all (passed_over re input) routes" by simp
  moreover have False if "routes = pre' @ r' # post'" "list_all (passed_over re input) pre'"
    "matching re input r'" for pre' r' post'
  proof -
    have "pre' @ r' # post' = pre @ r # post" using that(1) err(1) by simp
    moreover have "\<not> passed_over re input r'" using not_matching_passed_over that(3) by blast
    ultimately have "r' = r" using first_split_unique that(2) err(2) stop(1) by metis
    with stop(2) that(3) show False by simp
  qed
  ultimately show ?thesis by auto
qed

end
