(* ===== verification/Machine.thy ===== *)
theory Machine
  imports Main
begin

text \<open>
  Concurrent components are modelled as machines: an event either is not possible in a
  state or leads to a new one.  An interleaving of the goroutines of the program is a list
  of events.  The locales state what a component proves once (an invariant, a measure that
  every event decreases, progress) and what follows for every interleaving.
\<close>

section \<open>Runs\<close>

fun run_events :: "('e \<Rightarrow> 's \<Rightarrow> 's option) \<Rightarrow> 'e list \<Rightarrow> 's \<Rightarrow> 's option" where
  "run_events exec [] s = Some s"
| "run_events exec (e # es) s =
     (case exec e s of None \<Rightarrow> None | Some s' \<Rightarrow> run_events exec es s')"

inductive reachable :: "('e \<Rightarrow> 's \<Rightarrow> 's option) \<Rightarrow> 's \<Rightarrow> 's \<Rightarrow> bool"
  for exec :: "'e \<Rightarrow> 's \<Rightarrow> 's option" and s0 :: 's
where
  start: "reachable exec s0 s0"
| event: "reachable exec s0 s \<Longrightarrow> exec e s = Some s' \<Longrightarrow> reachable exec s0 s'"

inductive_cases reachableE: "reachable exec s0 s"

lemma run_events_append:
  "run_events exec (es @ fs) s =
     (case run_events exec es s of None \<Rightarrow> None | Some s' \<Rightarrow> run_events exec fs s')"
  by (induction es arbitrary: s) (auto split: option.split)

lemma reachable_run_events:
  "reachable exec s s' \<longleftrightarrow> (\<exists>es. run_events exec es s = Some s')"
proof
  assume "reachable exec s s'"
  then show "\<exists>es. run_events exec es s = Some s'"
  proof induction
    case start
    show ?case by (rule exI [of _ "[]"]) simp
  next
    case (event t e u)
    then obtain es where "run_events exec es s = Some t" by blast
    with event(2) show ?case
      by (intro exI [of _ "es @ [e]"]) (simp add: run_events_append)
  qed
next
  have "reachable exec s t \<Longrightarrow> run_events exec es t = Some s' \<Longrightarrow> reachable exec s s'" for es t
    by (induction es arbitrary: t) (auto split: option.splits intro: reachable.event)
  then show "\<exists>es. run_events exec es s = Some s' \<Longrightarrow> reachable exec s s'"
    by (auto intro: reachable.start)
qed

lemma reachable_trans: "reachable exec a b \<Longrightarrow> reachable exec b c \<Longrightarrow> reachable exec a c"
  by (rotate_tac, induction rule: reachable.induct) (auto intro: reachable.event)

text \<open>A run is complete when no event is possible after it.\<close>

definition halted :: "('e \<Rightarrow> 's \<Rightarrow> 's option) \<Rightarrow> 's \<Rightarrow> bool" where
  "halted exec s \<longleftrightarrow> (\<forall>e. exec e s = None)"

section \<open>Invariants\<close>

locale invariant_machine =
  fixes exec :: "'e \<Rightarrow> 's \<Rightarrow> 's option" and inv :: "'s \<Rightarrow> bool"
  assumes preserved: "inv s \<Longrightarrow> exec e s = Some s' \<Longrightarrow> inv s'"
begin

lemma inv_reachable: "reachable exec s s' \<Longrightarrow> inv s \<Longrightarrow> inv s'"
  by (induction rule: reachable.induct) (auto dest: preserved)

lemma inv_run: "run_events exec es s = Some s' \<Longrightarrow> inv s \<Longrightarrow> inv s'"
  using inv_reachable reachable_run_events by metis

end

section \<open>Bounded runs\<close>

locale measured_machine = invariant_machine +
  fixes size_of :: "'s \<Rightarrow> nat"
  assumes decreases: "inv s \<Longrightarrow> exec e s = Some s' \<Longrightarrow> size_of s' < size_of s"
begin

lemma run_bounded: "inv s \<Longrightarrow> run_events exec es s = Some s' \<Longrightarrow> length es + size_of s' \<le> size_of s"
proof (induction es arbitrary: s)
  case (Cons e es)
  then obtain t where t: "exec e s = Some t" "run_events exec es t = Some s'"
    by (auto split: option.splits)
  from decreases [OF Cons.prems(1) t(1)] Cons.IH [OF preserved [OF Cons.prems(1) t(1)] t(2)]
  show ?case by simp
qed simp

text \<open>From every state a halted one is reached, whatever events are chosen.\<close>

lemma halts: "inv s \<Longrightarrow> \<exists>es s'. run_events exec es s = Some s' \<and> halted exec s'"
proof (induction "size_of s" arbitrary: s rule: less_induct)
  case less
  show ?case
  proof (cases "halted exec s")
    case True
    then show ?thesis by (intro exI [of _ "[]"]) auto
  next
    case False
    then obtain e t where t: "exec e s = Some t" by (auto simp: halted_def)
    obtain es s' where "run_events exec es t = Some s'" "halted exec s'"
      using less.hyps [OF decreases [OF less.prems t] preserved [OF less.prems t]] by blast
    with t show ?thesis by (intro exI [of _ "e # es"]) auto
  qed
qed

end

section \<open>Deadlock freedom\<close>

text \<open>In a state that is not final, some event is possible; so complete runs end in final states.\<close>

locale live_machine = measured_machine +
  fixes final :: "'s \<Rightarrow> bool"
  assumes progress: "inv s \<Longrightarrow> \<not> final s \<Longrightarrow> \<exists>e s'. exec e s = Some s'"
begin

lemma halted_final: "inv s \<Longrightarrow> reachable exec s s' \<Longrightarrow> halted exec s' \<Longrightarrow> final s'"
  using progress inv_reachable by (fastforce simp: halted_def)

lemma reaches_final: "inv s \<Longrightarrow> \<exists>es s'. run_events exec es s = Some s' \<and> halted exec s' \<and> final s'"
  using halts halted_final reachable_run_events by metis

end

end
