(* ===== verification/PipelineRun.thy ===== *)
theory PipelineRun
  imports Graph Conditions Machine
begin

text \<open>
  \<open>internal/engine/pipeline.go\<close>: the execution of a pipeline as a DAG.  The variables that
  the closures of \<open>RunPipeline\<close> share are the record \<open>prun\<close>; the goroutines that
  \<open>launch\<close> starts are its list of tasks.  One event is one atomic action: the main
  goroutine tests the loop condition and admits steps, a task acquires the semaphore,
  the main goroutine receives a completion, a task releases the semaphore.  What an agent
  returns is part of the event, so that every behaviour of an agent is covered.
\<close>

section \<open>Results\<close>

record AgentResult =
  ar_AgentID :: string
  ar_Output :: string
  ar_Tokens :: goint
  ar_DurationMS :: goint

record StepOutcome =
  so_StepID :: string
  so_Status :: string
  so_Output :: string
  so_Error :: string
  so_Tokens :: goint
  so_DurationMS :: goint

record PipelineResult =
  pr_PipelineID :: string
  pr_Output :: string
  pr_Tokens :: goint
  pr_DurationMS :: goint
  pr_Steps :: "StepOutcome list"

text \<open>The text of an error, \<open>err.Error()\<close>, is a parameter of the definitions that store it.\<close>

type_synonym error_text = "goerr \<Rightarrow> string"

definition stepStatus :: "goerr option \<Rightarrow> string" where
  "stepStatus err = (if err \<noteq> None then StatusFailed else StatusCompleted)"

definition errString :: "error_text \<Rightarrow> goerr option \<Rightarrow> string" where
  "errString text err = (case err of None \<Rightarrow> [] | Some e \<Rightarrow> text e)"

definition status_only :: "string \<Rightarrow> string \<Rightarrow> string \<Rightarrow> StepOutcome" where
  "status_only stepID status err =
     \<lparr>so_StepID = stepID, so_Status = status, so_Output = [], so_Error = err, so_Tokens = 0,
      so_DurationMS = 0\<rparr>"

section \<open>The state of a run\<close>

datatype task_phase = Waiting | Holding | Releasing | Exited

record task =
  t_step :: Step
  t_decoded :: string
  t_phase :: task_phase

datatype main_phase = LoopTop | Receiving | Stalled | LoopExit

record prun =
  rn_pending :: "string set"
  rn_state :: "string \<rightharpoonup> string"
  rn_results :: "string \<rightharpoonup> StepOutcome"
  rn_scope :: Scope
  rn_running :: int
  rn_failure :: "goerr option"
  rn_canceled :: bool
  rn_tokens :: goint
  rn_tasks :: "task list"
  rn_phase :: main_phase

text \<open>What stays fixed during a run.\<close>

record penv =
  pe_ID :: string
  pe_pipeline :: Pipeline
  pe_deps :: deps
  pe_maxParallel :: goint
  pe_regexp :: regexp_compile
  pe_text :: error_text

definition zero_step :: Step where
  "zero_step = \<lparr>step_ID = [], step_AgentID = [], step_Input = [], step_Output = [],
     step_Router = False, step_Routes = [], step_Needs = []\<rparr>"

text \<open>The maps \<open>steps\<close> and \<open>state\<close>, indexed as Go does: a missing key gives the zero value.\<close>

definition steps_map :: "Pipeline \<Rightarrow> string \<rightharpoonup> Step" where
  "steps_map p = map_of (rev (map (\<lambda>s. (step_ID s, s)) (pl_Steps p)))"

definition step_at :: "Pipeline \<Rightarrow> string \<Rightarrow> Step" where
  "step_at p i = (case steps_map p i of None \<Rightarrow> zero_step | Some s \<Rightarrow> s)"

definition state_at :: "prun \<Rightarrow> string \<Rightarrow> string" where
  "state_at st i = (case rn_state st i of None \<Rightarrow> [] | Some s \<Rightarrow> s)"

definition order :: "Pipeline \<Rightarrow> string list" where
  "order p = map step_ID (pl_Steps p)"

section \<open>Admission\<close>

fun depStatus :: "(string \<Rightarrow> string) \<Rightarrow> string list \<Rightarrow> bool \<times> bool" where
  "depStatus state [] = (True, False)"
| "depStatus state (dep # ds) =
     (if state dep = StatusCompleted then depStatus state ds
      else if state dep = StatusSkipped then (False, True)
      else if state dep = StatusFailed then (False, True)
      else (False, False))"

text \<open>The closure \<open>launch\<close>: a step whose input does not resolve fails at once.\<close>

definition launch :: "penv \<Rightarrow> Step \<Rightarrow> prun \<Rightarrow> prun" where
  "launch env step st =
     (case Resolve (step_Input step) (rn_scope st) of
        Inl err \<Rightarrow>
          st\<lparr>rn_results := (rn_results st)(step_ID step \<mapsto>
               status_only (step_ID step) StatusFailed (pe_text env err)),
             rn_state := (rn_state st)(step_ID step \<mapsto> StatusFailed),
             rn_failure := (case rn_failure st of
                None \<Rightarrow> Some (ErrWrap ''engine: pipeline %q step %q: %w''
                               [pe_ID env, step_ID step] err)
              | Some e \<Rightarrow> Some e),
             rn_canceled := True\<rparr>
      | Inr decoded \<Rightarrow>
          st\<lparr>rn_running := rn_running st + 1,
             rn_tasks := rn_tasks st @ [\<lparr>t_step = step, t_decoded = decoded, t_phase = Waiting\<rparr>]\<rparr>)"

definition skip_result :: "string \<Rightarrow> prun \<Rightarrow> prun" where
  "skip_result i st =
     st\<lparr>rn_pending := rn_pending st - {i},
        rn_results := (rn_results st)(i \<mapsto> status_only i StatusSkipped [])\<rparr>"

text \<open>
  One iteration of the admission loop; once \<open>failure\<close> is set the loop is left, so that the
  iterations that are not made are the identity.
\<close>

definition admit_step :: "penv \<Rightarrow> string \<Rightarrow> prun \<Rightarrow> prun" where
  "admit_step env i st =
     (if rn_failure st \<noteq> None then st
      else if i \<notin> rn_pending st then st
      else if state_at st i = StatusSkipped then skip_result i st
      else let (ready, skip) = depStatus (state_at st) (deps_at (pe_deps env) i) in
        if skip then skip_result i (st\<lparr>rn_state := (rn_state st)(i \<mapsto> StatusSkipped)\<rparr>)
        else if \<not> ready then st
        else launch env (step_at (pe_pipeline env) i)
               (st\<lparr>rn_pending := rn_pending st - {i}\<rparr>))"

definition admit :: "penv \<Rightarrow> prun \<Rightarrow> prun" where
  "admit env st = fold (admit_step env) (order (pe_pipeline env)) st"

section \<open>Completion\<close>

record completion =
  c_stepID :: string
  c_out :: StepOutcome
  c_gotoID :: string

text \<open>What a router's goroutine sends.\<close>

definition router_completion :: "penv \<Rightarrow> Step \<Rightarrow> string \<Rightarrow> completion" where
  "router_completion env step decoded =
     (case PickRoute (pe_regexp env) (step_Routes step) decoded of
        Inl rerr \<Rightarrow>
          \<lparr>c_stepID = step_ID step,
           c_out = status_only (step_ID step) StatusFailed (pe_text env rerr), c_gotoID = []\<rparr>
      | Inr gotoID \<Rightarrow>
          \<lparr>c_stepID = step_ID step,
           c_out = (if steps_map (pe_pipeline env) gotoID = None
                    then status_only (step_ID step) StatusFailed
                      (pe_text env (Errorf ''goto %q is not a step'' [gotoID]))
                    else status_only (step_ID step) StatusCompleted []),
           c_gotoID = gotoID\<rparr>)"

text \<open>What an agent's goroutine sends.\<close>

definition agent_completion :: "penv \<Rightarrow> Step \<Rightarrow> AgentResult \<times> goerr option \<Rightarrow> completion" where
  "agent_completion env step ret =
     (case ret of (res, aerr) \<Rightarrow>
        \<lparr>c_stepID = step_ID step,
         c_out = \<lparr>so_StepID = step_ID step, so_Status = stepStatus aerr, so_Output = ar_Output res,
                  so_Error = errString (pe_text env) aerr, so_Tokens = ar_Tokens res,
                  so_DurationMS = ar_DurationMS res\<rparr>,
         c_gotoID = []\<rparr>)"

definition task_completion :: "penv \<Rightarrow> task \<Rightarrow> AgentResult \<times> goerr option \<Rightarrow> completion" where
  "task_completion env t ret =
     (if step_Router (t_step t) then router_completion env (t_step t) (t_decoded t)
      else agent_completion env (t_step t) ret)"

text \<open>The part of the loop after \<open>c := <-done\<close>.\<close>

definition receive :: "penv \<Rightarrow> completion \<Rightarrow> prun \<Rightarrow> prun" where
  "receive env c st =
     (let st1 = st\<lparr>rn_running := rn_running st - 1,
                   rn_state := (rn_state st)(c_stepID c \<mapsto> so_Status (c_out c)),
                   rn_results := (rn_results st)(c_stepID c \<mapsto> c_out c)\<rparr>
      in if so_Status (c_out c) = StatusCompleted then
           (if c_gotoID c \<noteq> [] then
              st1\<lparr>rn_scope := (rn_scope st)\<lparr>Outputs := (Outputs (rn_scope st))(c_stepID c \<mapsto> [])\<rparr>,
                  rn_state := fold (\<lambda>rt s. if Goto rt \<noteq> c_gotoID c then s(Goto rt \<mapsto> StatusSkipped) else s)
                    (step_Routes (step_at (pe_pipeline env) (c_stepID c))) (rn_state st1)\<rparr>
            else
              st1\<lparr>rn_scope := (rn_scope st)\<lparr>Outputs :=
                    (Outputs (rn_scope st))(c_stepID c \<mapsto> so_Output (c_out c))\<rparr>,
                  rn_tokens := rn_tokens st + so_Tokens (c_out c)\<rparr>)
         else
           st1\<lparr>rn_failure := (case rn_failure st of
                 None \<Rightarrow> Some (Errorf ''engine: pipeline %q step %q: %s''
                                [pe_ID env, c_stepID c, so_Error (c_out c)])
               | Some e \<Rightarrow> Some e),
               rn_canceled := True\<rparr>)"

section \<open>Events\<close>

datatype pevent =
    Iterate
  | Acquire nat
  | Deliver nat "AgentResult \<times> goerr option"
  | Release nat

definition parallelism :: "penv \<Rightarrow> nat" where
  "parallelism env = (if sint (pe_maxParallel env) < 1 then 1 else nat (sint (pe_maxParallel env)))"

definition holders :: "prun \<Rightarrow> nat" where
  "holders st = length (filter (\<lambda>t. t_phase t \<in> {Holding, Releasing}) (rn_tasks st))"

definition set_phase :: "nat \<Rightarrow> task_phase \<Rightarrow> prun \<Rightarrow> prun" where
  "set_phase k ph st = st\<lparr>rn_tasks := (rn_tasks st)[k := (rn_tasks st ! k)\<lparr>t_phase := ph\<rparr>]\<rparr>"

text \<open>The tests after the admission loop.\<close>

definition after_admit :: "prun \<Rightarrow> main_phase" where
  "after_admit st =
     (if rn_pending st = {} \<and> rn_running st = 0 then LoopExit
      else if rn_failure st \<noteq> None \<and> rn_running st = 0 then LoopExit
      else if rn_running st = 0 then Stalled
      else Receiving)"

definition task_in :: "prun \<Rightarrow> nat \<Rightarrow> task_phase \<Rightarrow> bool" where
  "task_in st k ph \<longleftrightarrow> k < length (rn_tasks st) \<and> t_phase (rn_tasks st ! k) = ph"

fun exec_event :: "penv \<Rightarrow> pevent \<Rightarrow> prun \<Rightarrow> prun option" where
  "exec_event env Iterate st =
     (if rn_phase st \<noteq> LoopTop then None
      else if rn_pending st = {} then Some (st\<lparr>rn_phase := LoopExit\<rparr>)
      else let st' = admit env st in Some (st'\<lparr>rn_phase := after_admit st'\<rparr>))"
| "exec_event env (Acquire k) st =
     (if task_in st k Waiting \<and> holders st < parallelism env
      then Some (set_phase k Holding st) else None)"
| "exec_event env (Deliver k ret) st =
     (if rn_phase st = Receiving \<and> task_in st k Holding
      then Some ((receive env (task_completion env (rn_tasks st ! k) ret)
                   (set_phase k Releasing st))\<lparr>rn_phase := LoopTop\<rparr>)
      else None)"
| "exec_event env (Release k) st =
     (if task_in st k Releasing then Some (set_phase k Exited st) else None)"

section \<open>The beginning and the end of a run\<close>

definition bind_inputs ::
  "string \<Rightarrow> (string \<rightharpoonup> string) \<Rightarrow> string list \<Rightarrow> (string \<rightharpoonup> string) res" where
  "bind_inputs pipelineID inputs names =
     for_each (\<lambda>name m.
       case inputs name of
         None \<Rightarrow> Inl (Errorf ''engine: pipeline %q missing required input %q'' [pipelineID, name])
       | Some val \<Rightarrow> Inr (m(name \<mapsto> val))) names Map.empty"

definition start_state :: "Pipeline \<Rightarrow> (string \<rightharpoonup> string) \<Rightarrow> prun" where
  "start_state p ins =
     \<lparr>rn_pending = step_ids p, rn_state = Map.empty, rn_results = Map.empty,
      rn_scope = \<lparr>Inputs = ins, Outputs = Map.empty\<rparr>, rn_running = 0, rn_failure = None,
      rn_canceled = False, rn_tokens = 0, rn_tasks = [], rn_phase = LoopTop\<rparr>"

text \<open>
  \<open>RunPipeline\<close> up to its loop; \<open>pipelines\<close> is the registry snapshot, \<open>maxParallel\<close>
  the engine's limit.
\<close>

definition RunPipeline_start ::
  "(string \<rightharpoonup> Pipeline) \<Rightarrow> goint \<Rightarrow> regexp_compile \<Rightarrow> error_text \<Rightarrow> string \<Rightarrow> (string \<rightharpoonup> string)
     \<Rightarrow> (penv \<times> prun) res" where
  "RunPipeline_start pipelines maxParallel re text pipelineID inputs =
     (case pipelines pipelineID of
        None \<Rightarrow> Inl (Errorf ''engine: unknown pipeline %q'' [pipelineID])
      | Some p \<Rightarrow>
          (case Deps p of
             Inl err \<Rightarrow> Inl (ErrWrap ''engine: pipeline %q: %w'' [pipelineID] err)
           | Inr deps \<Rightarrow>
               bind_res (bind_inputs pipelineID inputs (pl_Inputs p)) (\<lambda>ins.
                 Inr (\<lparr>pe_ID = pipelineID, pe_pipeline = p, pe_deps = deps,
                        pe_maxParallel = maxParallel, pe_regexp = re, pe_text = text\<rparr>,
                      start_state p ins))))"

definition collectOutcomes :: "string list \<Rightarrow> (string \<rightharpoonup> StepOutcome) \<Rightarrow> StepOutcome list" where
  "collectOutcomes ids results =
     map (\<lambda>i. case results i of Some r \<Rightarrow> r | None \<Rightarrow> status_only i StatusSkipped []) ids"

text \<open>The search of \<open>finalOutput\<close> for the last agent step that completed.\<close>

fun last_output :: "Pipeline \<Rightarrow> prun \<Rightarrow> string list \<Rightarrow> string option \<Rightarrow> string option" where
  "last_output p st [] found = found"
| "last_output p st (i # is) found =
     (if state_at st i \<noteq> StatusCompleted then last_output p st is found
      else if step_Router (step_at p i) then last_output p st is found
      else last_output p st is
        (Some (case Outputs (rn_scope st) i of None \<Rightarrow> [] | Some s \<Rightarrow> s)))"

definition finalOutput :: "Pipeline \<Rightarrow> prun \<Rightarrow> string res" where
  "finalOutput p st =
     (if TrimSpace (pl_Output p) \<noteq> [] then
        (case Resolve (pl_Output p) (rn_scope st) of
           Inl err \<Rightarrow> Inl (ErrWrap ''output: %w'' [] err)
         | Inr resolved \<Rightarrow> Inr resolved)
      else (case last_output p st (order p) None of
              None \<Rightarrow> Inl (Errorf ''produced no agent output'' [])
            | Some out \<Rightarrow> Inr out))"

text \<open>What \<open>RunPipeline\<close> returns when its loop has ended; \<open>elapsed\<close> is the time measured.\<close>

definition RunPipeline_end ::
  "penv \<Rightarrow> goint \<Rightarrow> prun \<Rightarrow> (PipelineResult \<times> goerr option) option" where
  "RunPipeline_end env elapsed st =
     (let p = pe_pipeline env;
          outcomes = collectOutcomes (order p) (rn_results st);
          partial_result = \<lparr>pr_PipelineID = [], pr_Output = [], pr_Tokens = rn_tokens st,
                            pr_DurationMS = elapsed, pr_Steps = outcomes\<rparr>
      in case rn_phase st of
           Stalled \<Rightarrow>
             Some (partial_result\<lparr>pr_Tokens := 0\<rparr>,
               Some (Errorf ''engine: pipeline %q stalled (unresolved dependencies)'' [pe_ID env]))
         | LoopExit \<Rightarrow>
             (case rn_failure st of
                Some failure \<Rightarrow> Some (partial_result, Some failure)
              | None \<Rightarrow>
                  (case finalOutput p st of
                     Inl err \<Rightarrow>
                       Some (partial_result, Some (ErrWrap ''engine: pipeline %q %w'' [pe_ID env] err))
                   | Inr out \<Rightarrow>
                       Some (\<lparr>pr_PipelineID = pe_ID env, pr_Output = out,
                              pr_Tokens = rn_tokens st, pr_DurationMS = elapsed,
                              pr_Steps = outcomes\<rparr>, None)))
         | _ \<Rightarrow> None)"

end
