(* ===== verification/PipelineSafety.thy ===== *)
theory PipelineSafety
  imports PipelineRun
begin

text \<open>
  The invariants of a pipeline run, for every interleaving of the tasks and every behaviour
  of the agents: which steps are started and when, what skipped means, and how many tasks
  run at a time.
\<close>

section \<open>The scheduling invariant\<close>

text \<open>The dependency graph of the run is the one that \<open>Deps\<close> computed.\<close>

definition env_ok :: "penv \<Rightarrow> bool" where
  "env_ok env \<longleftrightarrow> Deps (pe_pipeline env) = Inr (pe_deps env)"

abbreviation ids :: "penv \<Rightarrow> string set" where
  "ids env \<equiv> step_ids (pe_pipeline env)"

definition active :: "task \<Rightarrow> bool" where
  "active t \<longleftrightarrow> t_phase t = Waiting \<or> t_phase t = Holding"

text \<open>The steps of the tasks, in the order of their launch, and whether they still run.\<close>

definition tview :: "prun \<Rightarrow> (Step \<times> bool) list" where
  "tview st = map (\<lambda>t. (t_step t, active t)) (rn_tasks st)"

definition launched :: "prun \<Rightarrow> string list" where
  "launched st = map (\<lambda>t. step_ID (t_step t)) (rn_tasks st)"

lemma launched_tview: "launched st = map (step_ID \<circ> fst) (tview st)"
  by (simp add: launched_def tview_def)

text \<open>A step that was started: launched, or failed before its task was created.\<close>

definition started :: "prun \<Rightarrow> string \<Rightarrow> bool" where
  "started st i \<longleftrightarrow> i \<in> set (launched st) \<or> rn_state st i = Some StatusFailed"

definition deps_done :: "penv \<Rightarrow> prun \<Rightarrow> string \<Rightarrow> bool" where
  "deps_done env st i \<longleftrightarrow> (\<forall>d\<in>set (deps_at (pe_deps env) i). rn_state st d = Some StatusCompleted)"

definition task_ok :: "penv \<Rightarrow> prun \<Rightarrow> Step \<times> bool \<Rightarrow> bool" where
  "task_ok env st v \<longleftrightarrow>
     fst v = step_at (pe_pipeline env) (step_ID (fst v)) \<and>
     step_ID (fst v) \<in> ids env - rn_pending st \<and>
     (if snd v then rn_state st (step_ID (fst v)) = None
      else rn_state st (step_ID (fst v)) \<in> {Some StatusCompleted, Some StatusFailed})"

definition sched_inv :: "penv \<Rightarrow> prun \<Rightarrow> bool" where
  "sched_inv env st \<longleftrightarrow>
     rn_pending st \<subseteq> ids env \<and> dom (rn_state st) \<subseteq> ids env \<and>
     distinct (launched st) \<and>
     (\<forall>v\<in>set (tview st). task_ok env st v) \<and>
     (\<forall>i\<in>rn_pending st. rn_state st i \<in> {None, Some StatusSkipped}) \<and>
     (\<forall>i\<in>ids env - rn_pending st. i \<notin> set (launched st) \<longrightarrow>
        rn_state st i \<in> {Some StatusSkipped, Some StatusFailed}) \<and>
     (\<forall>i. started st i \<longrightarrow> deps_done env st i) \<and>
     (\<forall>i. rn_state st i = Some StatusFailed \<longrightarrow> rn_failure st \<noteq> None) \<and>
     (\<forall>i. rn_state st i = Some StatusCompleted \<longrightarrow> Outputs (rn_scope st) i \<noteq> None)"

lemma sched_invI:
  assumes "rn_pending st \<subseteq> ids env" "dom (rn_state st) \<subseteq> ids env" "distinct (launched st)"
    and "\<And>v. v \<in> set (tview st) \<Longrightarrow> task_ok env st v"
    and "\<And>i. i \<in> rn_pending st \<Longrightarrow> rn_state st i \<in> {None, Some StatusSkipped}"
    and "\<And>i. i \<in> ids env - rn_pending st \<Longrightarrow> i \<notin> set (launched st) \<Longrightarrow>
      rn_state st i \<in> {Some StatusSkipped, Some StatusFailed}"
    and "\<And>i. started st i \<Longrightarrow> deps_done env st i"
    and "\<And>i. rn_state st i = Some StatusFailed \<Longrightarrow> rn_failure st \<noteq> None"
    and "\<And>i. rn_state st i = Some StatusCompleted \<Longrightarrow> Outputs (rn_scope st) i \<noteq> None"
  shows "sched_inv env st"
  using assms unfolding sched_inv_def by blast

lemma sched_invD:
  assumes "sched_inv env st"
  shows "rn_pending st \<subseteq> ids env" "dom (rn_state st) \<subseteq> ids env" "distinct (launched st)"
    and "\<And>v. v \<in> set (tview st) \<Longrightarrow> task_ok env st v"
    and "\<And>i. i \<in> rn_pending st \<Longrightarrow> rn_state st i \<in> {None, Some StatusSkipped}"
    and "\<And>i. i \<in> ids env - rn_pending st \<Longrightarrow> i \<notin> set (launched st) \<Longrightarrow>
      rn_state st i \<in> {Some StatusSkipped, Some StatusFailed}"
    and "\<And>i. started st i \<Longrightarrow> deps_done env st i"
    and "\<And>i. rn_state st i = Some StatusFailed \<Longrightarrow> rn_failure st \<noteq> None"
    and "\<And>i. rn_state st i = Some StatusCompleted \<Longrightarrow> Outputs (rn_scope st) i \<noteq> None"
  using assms unfolding sched_inv_def by blast+

lemma status_distinct [simp]:
  "StatusCompleted \<noteq> StatusSkipped" "StatusSkipped \<noteq> StatusCompleted"
  "StatusCompleted \<noteq> StatusFailed" "StatusFailed \<noteq> StatusCompleted"
  "StatusSkipped \<noteq> StatusFailed" "StatusFailed \<noteq> StatusSkipped"
  "StatusCompleted \<noteq> []" "StatusSkipped \<noteq> []" "StatusFailed \<noteq> []"
  by (simp_all add: Status_defs)

lemma state_at_iff [simp]:
  "s \<noteq> [] \<Longrightarrow> state_at st i = s \<longleftrightarrow> rn_state st i = Some s"
  by (auto simp: state_at_def split: option.split)

lemma pending_not_launched:
  assumes "sched_inv env st" "i \<in> rn_pending st"
  shows "i \<notin> set (launched st)"
  using sched_invD(4) [OF assms(1)] assms(2) by (auto simp: launched_tview task_ok_def)

lemma launched_state:
  assumes "sched_inv env st" "i \<in> set (launched st)"
  shows "rn_state st i \<in> {None, Some StatusCompleted, Some StatusFailed}"
proof -
  obtain v where v: "v \<in> set (tview st)" "i = step_ID (fst v)"
    using assms(2) by (auto simp: launched_tview)
  from sched_invD(4) [OF assms(1) v(1)] v(2) show ?thesis
    by (auto simp: task_ok_def split: if_splits)
qed

section \<open>Dependency status\<close>

lemma depStatus_ready:
  "fst (depStatus state ds) \<longleftrightarrow> (\<forall>d\<in>set ds. state d = StatusCompleted)"
  by (induction ds) auto

lemma depStatus_exclusive: "depStatus state ds = (ready, skip) \<Longrightarrow> \<not> (ready \<and> skip)"
  by (induction ds) (auto split: if_splits)

lemma depStatus_skip:
  "snd (depStatus state ds) \<Longrightarrow> \<exists>d\<in>set ds. state d = StatusSkipped \<or> state d = StatusFailed"
  by (induction ds) (auto split: if_splits)

lemma depStatus_blocked:
  "depStatus state ds = (False, False) \<Longrightarrow>
     \<exists>d\<in>set ds. state d \<notin> {StatusCompleted, StatusSkipped, StatusFailed}"
  by (induction ds) (auto split: if_splits)

section \<open>Preservation\<close>

lemma step_ID_step_at: "i \<in> step_ids p \<Longrightarrow> step_ID (step_at p i) = i"
proof -
  assume "i \<in> step_ids p"
  then have "steps_map p i \<noteq> None"
    by (auto simp: steps_map_def step_ids_def map_of_eq_None_iff image_iff)
  then obtain s where s: "steps_map p i = Some s" by auto
  then have "step_ID s = i"
    unfolding steps_map_def by (auto dest: map_of_SomeD)
  with s show ?thesis by (simp add: step_at_def)
qed

lemma step_at_in_steps: "i \<in> step_ids p \<Longrightarrow> step_at p i \<in> set (pl_Steps p)"
proof -
  assume "i \<in> step_ids p"
  then have "steps_map p i \<noteq> None"
    by (auto simp: steps_map_def step_ids_def map_of_eq_None_iff image_iff)
  then obtain s where s: "steps_map p i = Some s" by auto
  then have "s \<in> set (pl_Steps p)"
    unfolding steps_map_def by (auto dest: map_of_SomeD)
  with s show ?thesis by (simp add: step_at_def)
qed

lemma skip_preserves:
  assumes inv: "sched_inv env st" and i: "i \<in> rn_pending st"
  shows "sched_inv env (skip_result i (st\<lparr>rn_state := (rn_state st)(i \<mapsto> StatusSkipped)\<rparr>))"
    (is "sched_inv env ?st")
proof -
  note d = sched_invD [OF inv]
  have notin: "i \<notin> set (launched st)" by (rule pending_not_launched [OF inv i])
  have not_done: "rn_state st i \<noteq> Some StatusCompleted" using d(5) [OF i] by auto
  have view: "tview ?st = tview st" "launched ?st = launched st"
    "rn_pending ?st = rn_pending st - {i}" "rn_state ?st = (rn_state st)(i \<mapsto> StatusSkipped)"
    "rn_failure ?st = rn_failure st" "rn_scope ?st = rn_scope st"
    by (simp_all add: skip_result_def tview_def launched_def)
  show ?thesis
  proof (rule sched_invI, unfold view)
    show "task_ok env ?st v" if "v \<in> set (tview st)" for v
      using d(4) [OF that] that notin
      by (auto simp: task_ok_def view launched_tview image_iff)
    show "deps_done env ?st j" if "started ?st j" for j
    proof -
      have "started st j" using that by (auto simp: started_def view split: if_splits)
      from d(7) [OF this] not_done show ?thesis by (auto simp: deps_done_def view)
    qed
    show "rn_failure st \<noteq> None" if "((rn_state st)(i \<mapsto> StatusSkipped)) j = Some StatusFailed" for j
      using d(8) that by (auto split: if_splits)
    show "Outputs (rn_scope st) j \<noteq> None"
      if "((rn_state st)(i \<mapsto> StatusSkipped)) j = Some StatusCompleted" for j
      using d(9) that by (auto split: if_splits)
    show "((rn_state st)(i \<mapsto> StatusSkipped)) j \<in> {Some StatusSkipped, Some StatusFailed}"
      if "j \<in> ids env - (rn_pending st - {i})" "j \<notin> set (launched st)" for j
      using d(6) [of j] that by auto
  qed (use d(1-3,5) i in auto)
qed

lemma skip_known_preserves:
  assumes "sched_inv env st" "i \<in> rn_pending st" "rn_state st i = Some StatusSkipped"
  shows "sched_inv env (skip_result i st)"
proof -
  have "st\<lparr>rn_state := (rn_state st)(i \<mapsto> StatusSkipped)\<rparr> = st"
    using assms(3) by (simp add: map_upd_triv)
  with skip_preserves [OF assms(1,2)] show ?thesis by simp
qed

lemma launch_preserves:
  assumes inv: "sched_inv env st" and i: "i \<in> rn_pending st"
    and state: "rn_state st i = None" and "deps_done env st i"
  shows "sched_inv env (launch env (step_at (pe_pipeline env) i) (st\<lparr>rn_pending := rn_pending st - {i}\<rparr>))"
    (is "sched_inv env ?st")
proof -
  note d = sched_invD [OF inv]
  have notin: "i \<notin> set (launched st)" by (rule pending_not_launched [OF inv i])
  have sid: "step_ID (step_at (pe_pipeline env) i) = i" using i d(1) step_ID_step_at by blast
  show ?thesis
  proof (cases "Resolve (step_Input (step_at (pe_pipeline env) i)) (rn_scope st)")
    case (Inl e)
    then have view: "tview ?st = tview st" "launched ?st = launched st"
      "rn_pending ?st = rn_pending st - {i}" "rn_state ?st = (rn_state st)(i \<mapsto> StatusFailed)"
      "rn_failure ?st \<noteq> None" "rn_scope ?st = rn_scope st"
      by (simp_all add: launch_def tview_def launched_def sid split: option.split)
    show ?thesis
    proof (rule sched_invI, unfold view(1-4,6))
      show "task_ok env ?st v" if "v \<in> set (tview st)" for v
        using d(4) [OF that] that notin
        by (auto simp: task_ok_def view launched_tview image_iff)
      show "deps_done env ?st j" if "started ?st j" for j
        using that d(7) [of j] assms(4) state
        by (cases "j = i") (auto simp: started_def deps_done_def view split: if_splits)
      show "rn_failure ?st \<noteq> None" for j by (rule view(5))
      show "Outputs (rn_scope st) j \<noteq> None"
        if "((rn_state st)(i \<mapsto> StatusFailed)) j = Some StatusCompleted" for j
        using d(9) that by (auto split: if_splits)
      show "((rn_state st)(i \<mapsto> StatusFailed)) j \<in> {Some StatusSkipped, Some StatusFailed}"
        if "j \<in> ids env - (rn_pending st - {i})" "j \<notin> set (launched st)" for j
        using d(6) [of j] that by auto
    qed (use d(1-3,5) i in auto)
  next
    case (Inr out)
    then have view: "tview ?st = tview st @ [(step_at (pe_pipeline env) i, True)]"
      "launched ?st = launched st @ [i]"
      "rn_pending ?st = rn_pending st - {i}" "rn_state ?st = rn_state st"
      "rn_failure ?st = rn_failure st" "rn_scope ?st = rn_scope st"
      by (simp_all add: launch_def tview_def launched_def sid active_def)
    show ?thesis
    proof (rule sched_invI, unfold view)
      show "task_ok env ?st v" if "v \<in> set (tview st @ [(step_at (pe_pipeline env) i, True)])" for v
        using that d(1) d(4) [of v] i sid state
        by (auto simp: task_ok_def view)
      show "deps_done env ?st j" if "started ?st j" for j
        using that d(7) [of j] assms(4) by (auto simp: started_def deps_done_def view)
    qed (use d(1-3,5,6,8,9) i notin in auto)
  qed
qed

lemma admit_step_preserves:
  assumes inv: "sched_inv env st"
  shows "sched_inv env (admit_step env i st)"
proof -
  obtain ready skip where ds: "depStatus (state_at st) (deps_at (pe_deps env) i) = (ready, skip)"
    by fastforce
  have None: "rn_state st i = None" if "i \<in> rn_pending st" "rn_state st i \<noteq> Some StatusSkipped"
    using sched_invD(5) [OF inv that(1)] that(2) by auto
  have "deps_done env st i" if ready
    using depStatus_ready [of "state_at st" "deps_at (pe_deps env) i"] ds that
    by (auto simp: deps_done_def)
  with None show ?thesis
    using inv ds skip_preserves [OF inv, of i] skip_known_preserves [OF inv, of i]
      launch_preserves [OF inv, of i]
    by (auto simp: admit_step_def)
qed

lemma fold_preserves: "(\<And>x s. I s \<Longrightarrow> I (f x s)) \<Longrightarrow> I s \<Longrightarrow> I (fold f xs s)"
  by (induction xs arbitrary: s) auto

lemma admit_preserves: "sched_inv env st \<Longrightarrow> sched_inv env (admit env st)"
  unfolding admit_def by (rule fold_preserves) (rule admit_step_preserves)

lemma set_phase_view:
  assumes "task_in st k old" "active ((rn_tasks st ! k)\<lparr>t_phase := new\<rparr>) = active (rn_tasks st ! k)"
  shows "tview (set_phase k new st) = tview st"
proof -
  have "(map (\<lambda>t. (t_step t, active t)) (rn_tasks st))[k := (t_step (rn_tasks st ! k), active (rn_tasks st ! k))]
      = map (\<lambda>t. (t_step t, active t)) (rn_tasks st)"
    using assms(1) by (simp add: list_update_same_conv task_in_def)
  with assms show ?thesis by (simp add: tview_def set_phase_def map_update)
qed

lemma sched_inv_cong:
  assumes "tview st' = tview st" "rn_pending st' = rn_pending st" "rn_state st' = rn_state st"
    "rn_failure st' = rn_failure st" "rn_scope st' = rn_scope st"
  shows "sched_inv env st' = sched_inv env st"
  using assms by (simp add: sched_inv_def started_def deps_done_def task_ok_def launched_tview)

lemma sched_inv_phase [simp]: "sched_inv env (st\<lparr>rn_phase := ph\<rparr>) = sched_inv env st"
  by (rule sched_inv_cong) (simp_all add: tview_def)

text \<open>The targets of a router depend on it.\<close>

lemma env_deps:
  assumes "env_ok env"
  shows "d \<in> set (deps_at (pe_deps env) i) \<longleftrightarrow> depends_on (pe_pipeline env) i d"
  using Deps_spec(2) [of "pe_pipeline env" "pe_deps env"] assms
  by (auto simp: env_ok_def dep_rel_def set_eq_iff)

lemma routes_depend:
  assumes "env_ok env" "i \<in> ids env" "step_Router (step_at (pe_pipeline env) i)"
    and "rt \<in> set (step_Routes (step_at (pe_pipeline env) i))"
  shows "i \<in> set (deps_at (pe_deps env) (Goto rt))"
proof -
  let ?s = "step_at (pe_pipeline env) i"
  have "?s \<in> set (pl_Steps (pe_pipeline env))" "step_ID ?s = i"
    using assms(2) step_at_in_steps step_ID_step_at by auto
  then have "depends_on (pe_pipeline env) (Goto rt) i"
    using assms(3,4) unfolding depends_on_def by blast
  then show ?thesis by (simp add: env_deps [OF assms(1)])
qed

lemma steps_map_None: "steps_map p i = None \<longleftrightarrow> i \<notin> step_ids p"
  by (auto simp: steps_map_def step_ids_def map_of_eq_None_iff image_iff)

lemma routes_targets:
  assumes "env_ok env" "i \<in> ids env" "step_Router (step_at (pe_pipeline env) i)"
  shows "Goto ` set (step_Routes (step_at (pe_pipeline env) i)) \<subseteq> ids env"
proof -
  have "dep_rel (pe_deps env) \<subseteq> ids env \<times> ids env"
    using assms(1) Deps_spec(3) by (simp add: env_ok_def)
  then show ?thesis
    using routes_depend [OF assms] by (auto simp: dep_rel_def)
qed

text \<open>A completed step has had a task, and a skipped one never has one.\<close>

lemma completed_launched:
  assumes "sched_inv env st" "rn_state st i = Some StatusCompleted"
  shows "i \<in> set (launched st)"
proof (rule ccontr)
  assume "i \<notin> set (launched st)"
  moreover have "i \<in> ids env" using sched_invD(2) [OF assms(1)] assms(2) by blast
  ultimately show False
    using sched_invD(5,6) [OF assms(1), of i] assms(2) by auto
qed

lemma skipped_not_launched:
  assumes "sched_inv env st" "rn_state st i = Some StatusSkipped"
  shows "i \<notin> set (launched st)"
  using launched_state [OF assms(1), of i] assms(2) by auto

section \<open>Completions\<close>

lemma task_completion_facts:
  "c_stepID (task_completion env t ret) = step_ID (t_step t)"
  "so_StepID (c_out (task_completion env t ret)) = step_ID (t_step t)"
  "so_Status (c_out (task_completion env t ret)) \<in> {StatusCompleted, StatusFailed}"
  "c_gotoID (task_completion env t ret) \<noteq> [] \<Longrightarrow> step_Router (t_step t)"
  by (auto simp: task_completion_def router_completion_def agent_completion_def status_only_def
      stepStatus_def split: sum.splits prod.splits if_splits)

text \<open>The steps that a router's choice skips.\<close>

definition not_taken :: "penv \<Rightarrow> completion \<Rightarrow> string set" where
  "not_taken env c =
     (if so_Status (c_out c) = StatusCompleted \<and> c_gotoID c \<noteq> []
      then Goto ` set (step_Routes (step_at (pe_pipeline env) (c_stepID c))) - {c_gotoID c} else {})"

lemma skip_routes:
  "fold (\<lambda>rt s. if Goto rt \<noteq> g then s(Goto rt \<mapsto> StatusSkipped) else s) rts s j =
     (if j \<in> Goto ` set rts - {g} then Some StatusSkipped else s j)"
  by (induction rts arbitrary: s) auto

lemma receive_simps:
  "rn_pending (receive env c st) = rn_pending st"
  "rn_tasks (receive env c st) = rn_tasks st"
  "rn_phase (receive env c st) = rn_phase st"
  "rn_running (receive env c st) = rn_running st - 1"
  "rn_results (receive env c st) = (rn_results st)(c_stepID c \<mapsto> c_out c)"
  "rn_state (receive env c st) j =
     (if j \<in> not_taken env c then Some StatusSkipped
      else if j = c_stepID c then Some (so_Status (c_out c)) else rn_state st j)"
  "Inputs (rn_scope (receive env c st)) = Inputs (rn_scope st)"
  "Outputs (rn_scope (receive env c st)) j =
     (if so_Status (c_out c) = StatusCompleted \<and> j = c_stepID c
      then Some (if c_gotoID c \<noteq> [] then [] else so_Output (c_out c))
      else Outputs (rn_scope st) j)"
  "rn_failure (receive env c st) = None \<longleftrightarrow>
     so_Status (c_out c) = StatusCompleted \<and> rn_failure st = None"
  "rn_tokens (receive env c st) = rn_tokens st +
     (if so_Status (c_out c) = StatusCompleted \<and> c_gotoID c = [] then so_Tokens (c_out c) else 0)"
  by (auto simp: receive_def Let_def skip_routes not_taken_def split: option.splits)

lemma tview_launched: "tview st' = tview st \<Longrightarrow> launched st' = launched st"
  by (simp add: launched_tview)

lemma view_receive [simp]:
  "tview (receive env c st) = tview st" "launched (receive env c st) = launched st"
  by (simp_all add: tview_def launched_def receive_simps)

text \<open>The state after a completion was received, and what the sender's step was.\<close>

definition deliver :: "penv \<Rightarrow> nat \<Rightarrow> AgentResult \<times> goerr option \<Rightarrow> prun \<Rightarrow> prun" where
  "deliver env k ret st =
     receive env (task_completion env (rn_tasks st ! k) ret) (set_phase k Releasing st)"

definition sender :: "prun \<Rightarrow> nat \<Rightarrow> Step" where
  "sender st k = t_step (rn_tasks st ! k)"

abbreviation sent :: "penv \<Rightarrow> nat \<Rightarrow> AgentResult \<times> goerr option \<Rightarrow> prun \<Rightarrow> completion" where
  "sent env k ret st \<equiv> task_completion env (rn_tasks st ! k) ret"

lemma deliver_simps:
  "rn_pending (deliver env k ret st) = rn_pending st"
  "rn_state (deliver env k ret st) j =
     (if j \<in> not_taken env (sent env k ret st) then Some StatusSkipped
      else if j = step_ID (sender st k) then Some (so_Status (c_out (sent env k ret st)))
      else rn_state st j)"
  "Outputs (rn_scope (deliver env k ret st)) j =
     (if so_Status (c_out (sent env k ret st)) = StatusCompleted \<and> j = step_ID (sender st k)
      then Some (if c_gotoID (sent env k ret st) \<noteq> [] then [] else so_Output (c_out (sent env k ret st)))
      else Outputs (rn_scope st) j)"
  "Inputs (rn_scope (deliver env k ret st)) = Inputs (rn_scope st)"
  "rn_failure (deliver env k ret st) = None \<longleftrightarrow>
     so_Status (c_out (sent env k ret st)) = StatusCompleted \<and> rn_failure st = None"
  "rn_running (deliver env k ret st) = rn_running st - 1"
  "rn_results (deliver env k ret st) = (rn_results st)(step_ID (sender st k) \<mapsto> c_out (sent env k ret st))"
  "rn_tasks (deliver env k ret st) = rn_tasks (set_phase k Releasing st)"
  "rn_tokens (deliver env k ret st) = rn_tokens st +
     (if so_Status (c_out (sent env k ret st)) = StatusCompleted \<and> c_gotoID (sent env k ret st) = []
      then so_Tokens (c_out (sent env k ret st)) else 0)"
  by (simp_all add: deliver_def receive_simps task_completion_facts sender_def set_phase_def)

lemma deliver_view:
  assumes "task_in st k Holding"
  shows "tview (deliver env k ret st) = (tview st)[k := (sender st k, False)]"
    and "launched (deliver env k ret st) = launched st"
    and "k < length (tview st)" and "tview st ! k = (sender st k, True)"
    and "(sender st k, True) \<in> set (tview st)" and "step_ID (sender st k) \<in> set (launched st)"
proof -
  show k: "k < length (tview st)" "tview st ! k = (sender st k, True)"
    using assms by (auto simp: task_in_def tview_def active_def sender_def)
  then show in_view: "(sender st k, True) \<in> set (tview st)" by (metis nth_mem)
  then show "step_ID (sender st k) \<in> set (launched st)" by (force simp: launched_tview)
  show view: "tview (deliver env k ret st) = (tview st)[k := (sender st k, False)]"
    by (simp add: tview_def deliver_simps set_phase_def map_update active_def sender_def)
  show "launched (deliver env k ret st) = launched st"
    using k by (simp add: launched_tview view map_update list_update_same_conv)
qed

lemma sender_ok:
  assumes "sched_inv env st" "task_in st k Holding"
  shows "sender st k = step_at (pe_pipeline env) (step_ID (sender st k))"
    and "step_ID (sender st k) \<in> ids env - rn_pending st"
    and "rn_state st (step_ID (sender st k)) = None"
  using sched_invD(4) [OF assms(1) deliver_view(5) [OF assms(2)]] by (auto simp: task_ok_def)

text \<open>The targets that a router did not take have not been started.\<close>

lemma not_taken_fresh:
  assumes ok: "env_ok env" and inv: "sched_inv env st" and t: "task_in st k Holding"
    and j: "j \<in> not_taken env (sent env k ret st)"
  shows "j \<in> ids env" "\<not> started st j" "rn_state st j \<in> {None, Some StatusSkipped}"
    and "j \<noteq> step_ID (sender st k)"
proof -
  note d = sched_invD [OF inv] and i = sender_ok [OF inv t]
  let ?i = "step_ID (sender st k)"
  obtain rt where rt: "j = Goto rt" "step_Router (sender st k)" "rt \<in> set (step_Routes (sender st k))"
    using task_completion_facts(4) i(1) j
    by (auto simp: not_taken_def task_completion_facts sender_def split: if_splits)
  have dep: "?i \<in> set (deps_at (pe_deps env) j)"
    using routes_depend [OF ok, of ?i rt] i rt by auto
  then show fresh: "\<not> started st j" using d(7) [of j] i(3) by (auto simp: deps_done_def)
  then show "rn_state st j \<in> {None, Some StatusSkipped}"
    using completed_launched [OF inv, of j] d(5,6) [of j] d(2)
    by (cases "j \<in> rn_pending st") (auto simp: started_def)
  show "j \<in> ids env" using dep ok Deps_spec(3) by (force simp: env_ok_def dep_rel_def)
  show "j \<noteq> ?i" using fresh deliver_view(6) [OF t] by (auto simp: started_def)
qed

lemma deliver_task_ok:
  assumes ok: "env_ok env" and inv: "sched_inv env st" and t: "task_in st k Holding"
    and v: "v \<in> set (tview (deliver env k ret st))"
  shows "task_ok env (deliver env k ret st) v"
proof -
  note d = sched_invD [OF inv] and i = sender_ok [OF inv t] and view = deliver_view [OF t]
  let ?i = "step_ID (sender st k)"
  have "distinct (tview st)" using d(3) by (auto simp: launched_tview distinct_map)
  from set_update_distinct [OF this view(3), of "(sender st k, False)"] v view(4)
  consider "v = (sender st k, False)" | "v \<in> set (tview st)" "v \<noteq> (sender st k, True)"
    by (auto simp: view(1))
  then show ?thesis
  proof cases
    case 1
    moreover have "?i \<notin> not_taken env (sent env k ret st)"
      using not_taken_fresh(4) [OF ok inv t] by blast
    ultimately show ?thesis
      using i task_completion_facts(3) [of env "rn_tasks st ! k" ret]
      by (simp add: task_ok_def deliver_simps)
  next
    case 2
    then have "step_ID (fst v) \<noteq> ?i"
      using d(3) view(5) by (fastforce simp: launched_tview distinct_map inj_on_def)
    moreover have "step_ID (fst v) \<notin> not_taken env (sent env k ret st)"
      using 2 not_taken_fresh(2) [OF ok inv t] by (fastforce simp: started_def launched_tview)
    ultimately have "rn_state (deliver env k ret st) (step_ID (fst v)) = rn_state st (step_ID (fst v))"
      by (simp add: deliver_simps)
    with d(4) [OF 2(1)] show ?thesis unfolding task_ok_def deliver_simps(1) by metis
  qed
qed

lemma deliver_keeps_completed:
  assumes "env_ok env" "sched_inv env st" "task_in st k Holding" "rn_state st j = Some StatusCompleted"
  shows "rn_state (deliver env k ret st) j = Some StatusCompleted"
  using not_taken_fresh(3) [OF assms(1-3), of j ret] sender_ok(3) [OF assms(2,3)] assms(4)
  by (auto simp: deliver_simps)

lemma deliver_preserves:
  assumes ok: "env_ok env" and inv: "sched_inv env st" and t: "task_in st k Holding"
  shows "sched_inv env (deliver env k ret st)" (is "sched_inv env ?st")
proof (rule sched_invI)
  note d = sched_invD [OF inv] and i = sender_ok [OF inv t] and view = deliver_view [OF t]
  note fresh = not_taken_fresh [OF ok inv t]
  let ?i = "step_ID (sender st k)"
  show "rn_pending ?st \<subseteq> ids env" using d(1) by (simp add: deliver_simps)
  show "dom (rn_state ?st) \<subseteq> ids env"
  proof
    fix j
    assume "j \<in> dom (rn_state ?st)"
    then consider "j \<in> not_taken env (sent env k ret st)" | "j = ?i" | "j \<in> dom (rn_state st)"
      unfolding domIff deliver_simps by presburger
    then show "j \<in> ids env" using fresh(1) i(2) d(2) by cases auto
  qed
  show "distinct (launched ?st)" using d(3) by (simp add: view)
  show "task_ok env ?st v" if "v \<in> set (tview ?st)" for v
    using that by (rule deliver_task_ok [OF ok inv t])
  show "rn_state ?st j \<in> {None, Some StatusSkipped}" if "j \<in> rn_pending ?st" for j
    using that d(5) [of j] i(2) by (auto simp: deliver_simps)
  show "rn_state ?st j \<in> {Some StatusSkipped, Some StatusFailed}"
    if "j \<in> ids env - rn_pending ?st" "j \<notin> set (launched ?st)" for j
    using that d(6) [of j] view(6) by (auto simp: deliver_simps view(2))
  show "deps_done env ?st j" if "started ?st j" for j
  proof -
    have "started st j"
      using that view(6) by (auto simp: started_def deliver_simps view(2) split: if_splits)
    with d(7) [OF this] deliver_keeps_completed [OF ok inv t] show ?thesis
      by (auto simp: deps_done_def)
  qed
  show "rn_failure ?st \<noteq> None" if "rn_state ?st j = Some StatusFailed" for j
    using that d(8) [of j] by (auto simp: deliver_simps split: if_splits)
  show "Outputs (rn_scope ?st) j \<noteq> None" if "rn_state ?st j = Some StatusCompleted" for j
    using that d(9) [of j] by (auto simp: deliver_simps split: if_splits)
qed

lemma sched_inv_exec:
  assumes "env_ok env" "sched_inv env st" "exec_event env ev st = Some st'"
  shows "sched_inv env st'"
proof (cases ev)
  case Iterate
  with assms(3) show ?thesis
    using assms(2) admit_preserves [OF assms(2)] by (auto simp: Let_def split: if_splits)
next
  case (Acquire k)
  with assms(3) have *: "task_in st k Waiting" "st' = set_phase k Holding st"
    by (auto split: if_splits)
  then have "tview st' = tview st"
    using set_phase_view [of st k Waiting Holding] by (auto simp: active_def task_in_def)
  with * assms(2) show ?thesis by (subst sched_inv_cong) (simp_all add: set_phase_def)
next
  case (Deliver k ret)
  with assms(3) have t: "task_in st k Holding" and st': "st' = (deliver env k ret st)\<lparr>rn_phase := LoopTop\<rparr>"
    by (auto simp: deliver_def split: if_splits)
  with deliver_preserves [OF assms(1,2) t] show ?thesis by simp
next
  case (Release k)
  with assms(3) have *: "task_in st k Releasing" "st' = set_phase k Exited st"
    by (auto split: if_splits)
  then have "tview st' = tview st"
    using set_phase_view [of st k Releasing Exited] by (auto simp: active_def task_in_def)
  with * assms(2) show ?thesis by (subst sched_inv_cong) (simp_all add: set_phase_def)
qed

end
