(* ===== verification/PipelineLive.thy ===== *)
theory PipelineLive
  imports PipelineSafety
begin

text \<open>
  Counting and results: the counter \<open>running\<close> and the semaphore, the table of outcomes and
  the token total, the end of every run, and the stall branch.
\<close>

section \<open>Counting\<close>

definition count_inv :: "penv \<Rightarrow> prun \<Rightarrow> bool" where
  "count_inv env st \<longleftrightarrow>
     rn_running st = int (length (filter active (rn_tasks st))) \<and>
     holders st \<le> parallelism env \<and>
     (rn_phase st = Receiving \<longrightarrow> 0 < rn_running st) \<and>
     (rn_phase st = LoopExit \<longrightarrow> rn_pending st = {} \<or> rn_failure st \<noteq> None \<and> rn_running st = 0)"

lemma launch_cases:
  obtains (fails) e where "Resolve (step_Input s) (rn_scope st) = Inl e"
      "rn_tasks (launch env s st) = rn_tasks st" "rn_running (launch env s st) = rn_running st"
      "rn_failure (launch env s st) \<noteq> None"
  | (starts) out where "Resolve (step_Input s) (rn_scope st) = Inr out"
      "rn_tasks (launch env s st) = rn_tasks st @ [\<lparr>t_step = s, t_decoded = out, t_phase = Waiting\<rparr>]"
      "rn_running (launch env s st) = rn_running st + 1"
      "rn_failure (launch env s st) = rn_failure st"
  by (cases "Resolve (step_Input s) (rn_scope st)") (auto simp: launch_def split: option.splits)

lemma launch_keeps:
  "rn_pending (launch env s st) = rn_pending st" "rn_scope (launch env s st) = rn_scope st"
  "rn_phase (launch env s st) = rn_phase st" "rn_tokens (launch env s st) = rn_tokens st"
  by (auto simp: launch_def split: sum.splits)

lemma skip_result_simps [simp]:
  "rn_tasks (skip_result i st) = rn_tasks st" "rn_running (skip_result i st) = rn_running st"
  "rn_failure (skip_result i st) = rn_failure st" "rn_pending (skip_result i st) = rn_pending st - {i}"
  "rn_state (skip_result i st) = rn_state st" "rn_scope (skip_result i st) = rn_scope st"
  "rn_phase (skip_result i st) = rn_phase st" "rn_tokens (skip_result i st) = rn_tokens st"
  "rn_results (skip_result i st) = (rn_results st)(i \<mapsto> status_only i StatusSkipped [])"
  by (simp_all add: skip_result_def)

text \<open>The four things that one iteration of the admission loop can do.\<close>

lemma admit_step_cases:
  assumes "sched_inv env st"
  obtains (unchanged) "admit_step env i st = st"
      "rn_failure st \<noteq> None \<or> i \<notin> rn_pending st
        \<or> depStatus (state_at st) (deps_at (pe_deps env) i) = (False, False)"
  | (known) "i \<in> rn_pending st" "rn_failure st = None" "rn_state st i = Some StatusSkipped"
      "admit_step env i st = skip_result i st"
  | (skipped) "i \<in> rn_pending st" "rn_failure st = None" "rn_state st i = None"
      "snd (depStatus (state_at st) (deps_at (pe_deps env) i))"
      "admit_step env i st = skip_result i (st\<lparr>rn_state := (rn_state st)(i \<mapsto> StatusSkipped)\<rparr>)"
  | (launched) "i \<in> rn_pending st" "rn_failure st = None" "rn_state st i = None" "deps_done env st i"
      "step_ID (step_at (pe_pipeline env) i) = i"
      "admit_step env i st
        = launch env (step_at (pe_pipeline env) i) (st\<lparr>rn_pending := rn_pending st - {i}\<rparr>)"
proof (cases "rn_failure st \<noteq> None \<or> i \<notin> rn_pending st")
  case True
  then show thesis by (intro unchanged) (auto simp: admit_step_def)
next
  case False
  then have i: "rn_failure st = None" "i \<in> rn_pending st" by auto
  obtain ready skip where ds: "depStatus (state_at st) (deps_at (pe_deps env) i) = (ready, skip)"
    by fastforce
  have sid: "step_ID (step_at (pe_pipeline env) i) = i"
    using i(2) sched_invD(1) [OF assms] step_ID_step_at by blast
  show thesis
  proof (cases "rn_state st i = Some StatusSkipped")
    case True
    with i known show thesis by (simp add: admit_step_def)
  next
    case False
    then have none: "rn_state st i = None" using sched_invD(5) [OF assms i(2)] by auto
    consider skip | "\<not> skip" "\<not> ready" | "\<not> skip" ready by blast
    then show thesis
    proof cases
      case 1
      then show thesis using i none ds by (intro skipped) (simp_all add: admit_step_def)
    next
      case 2
      then show thesis using i none ds by (intro unchanged) (simp_all add: admit_step_def)
    next
      case 3
      then have "deps_done env st i"
        using depStatus_ready [of "state_at st" "deps_at (pe_deps env) i"] ds
        by (auto simp: deps_done_def)
      with 3 show thesis using i none ds sid by (intro launched) (simp_all add: admit_step_def)
    qed
  qed
qed

definition tasks_counted :: "penv \<Rightarrow> prun \<Rightarrow> bool" where
  "tasks_counted env st \<longleftrightarrow>
     rn_running st = int (length (filter active (rn_tasks st))) \<and> holders st \<le> parallelism env"

lemma launch_counted: "tasks_counted env st \<Longrightarrow> tasks_counted env (launch env s st)"
  by (rule launch_cases [of s st env]) (auto simp: tasks_counted_def holders_def active_def)

lemma admit_step_counted:
  assumes "sched_inv env st" "tasks_counted env st"
  shows "tasks_counted env (admit_step env i st)"
proof (cases rule: admit_step_cases [OF assms(1), of i, case_names unchanged known skipped launched])
  case launched
  then show ?thesis
    using launch_counted [of env "st\<lparr>rn_pending := rn_pending st - {i}\<rparr>"] assms(2)
    by (simp add: tasks_counted_def holders_def)
qed (use assms(2) in \<open>auto simp: tasks_counted_def holders_def\<close>)

lemma admit_counted:
  assumes "sched_inv env st" "tasks_counted env st"
  shows "tasks_counted env (admit env st)"
proof -
  have "sched_inv env (admit env st) \<and> tasks_counted env (admit env st)"
    unfolding admit_def
    by (rule fold_preserves [where I = "\<lambda>s. sched_inv env s \<and> tasks_counted env s"])
      (use assms admit_step_counted admit_step_preserves in auto)
  then show ?thesis by simp
qed

lemma holders_set_phase:
  assumes "task_in st k old"
  shows "holders (set_phase k new st) + of_bool (old \<in> {Holding, Releasing})
    = holders st + of_bool (new \<in> {Holding, Releasing})"
  using length_filter_update [of k "rn_tasks st" "\<lambda>t. t_phase t \<in> {Holding, Releasing}"
      "(rn_tasks st ! k)\<lparr>t_phase := new\<rparr>"] assms
  by (simp add: holders_def set_phase_def task_in_def)

lemma active_set_phase:
  assumes "task_in st k old"
  shows "length (filter active (rn_tasks (set_phase k new st))) + of_bool (old \<in> {Waiting, Holding})
    = length (filter active (rn_tasks st)) + of_bool (new \<in> {Waiting, Holding})"
  using length_filter_update [of k "rn_tasks st" active "(rn_tasks st ! k)\<lparr>t_phase := new\<rparr>"] assms
  by (simp add: set_phase_def task_in_def active_def)

lemma holders_deliver [simp]: "holders (deliver env k ret st) = holders (set_phase k Releasing st)"
  by (simp add: holders_def deliver_simps)

lemma count_inv_exec:
  assumes "sched_inv env st" "count_inv env st" "exec_event env ev st = Some st'"
  shows "count_inv env st'"
proof (cases ev)
  case Iterate
  show ?thesis
  proof (cases "rn_pending st = {}")
    case True
    with Iterate assms(2,3) show ?thesis by (auto simp: count_inv_def holders_def split: if_splits)
  next
    case False
    let ?st = "admit env st"
    have "tasks_counted env ?st"
      using assms(1,2) by (intro admit_counted) (auto simp: tasks_counted_def count_inv_def)
    moreover have "st' = ?st\<lparr>rn_phase := after_admit ?st\<rparr>"
      using False Iterate assms(3) by (auto simp: Let_def split: if_splits)
    ultimately show ?thesis
      by (auto simp: count_inv_def tasks_counted_def holders_def after_admit_def)
  qed
next
  case (Acquire k)
  with assms(2,3) show ?thesis
    using holders_set_phase [of st k Waiting Holding] active_set_phase [of st k Waiting Holding]
    by (auto simp: count_inv_def split: if_splits) (auto simp: set_phase_def)
next
  case (Deliver k ret)
  then have t: "task_in st k Holding" and st': "st' = (deliver env k ret st)\<lparr>rn_phase := LoopTop\<rparr>"
    using assms(3) by (auto simp: deliver_def split: if_splits)
  have "holders st' = holders (deliver env k ret st)" by (simp add: st' holders_def)
  then show ?thesis
    using assms(2) holders_set_phase [OF t, of Releasing] active_set_phase [OF t, of Releasing]
    by (auto simp: count_inv_def st' deliver_simps)
next
  case (Release k)
  with assms(2,3) show ?thesis
    using holders_set_phase [of st k Releasing Exited] active_set_phase [of st k Releasing Exited]
    by (auto simp: count_inv_def split: if_splits) (auto simp: set_phase_def)
qed

section \<open>Every run ends\<close>

definition task_weight :: "task \<Rightarrow> nat" where
  "task_weight t = (case t_phase t of Waiting \<Rightarrow> 4 | Holding \<Rightarrow> 3 | Releasing \<Rightarrow> 1 | Exited \<Rightarrow> 0)"

definition work_left :: "prun \<Rightarrow> nat" where
  "work_left st = 5 * card (rn_pending st) + sum_list (map task_weight (rn_tasks st))"

definition run_size :: "prun \<Rightarrow> nat" where
  "run_size st = work_left st + of_bool (rn_phase st = LoopTop)"

definition finished :: "prun \<Rightarrow> bool" where
  "finished st \<longleftrightarrow> rn_phase st = LoopExit \<or> rn_phase st = Stalled"

definition run_inv :: "penv \<Rightarrow> prun \<Rightarrow> bool" where
  "run_inv env st \<longleftrightarrow> env_ok env \<and> sched_inv env st \<and> count_inv env st"

lemma finite_ids [simp]: "finite (step_ids p)"
  by (simp add: step_ids_def)

lemma finite_pending: "sched_inv env st \<Longrightarrow> finite (rn_pending st)"
  by (rule finite_subset [OF sched_invD(1) finite_ids])

lemma work_left_set_phase:
  assumes "task_in st k old"
  shows "work_left (set_phase k new st) + task_weight (rn_tasks st ! k)
    = work_left st + task_weight ((rn_tasks st ! k)\<lparr>t_phase := new\<rparr>)"
proof -
  have k: "k < length (map task_weight (rn_tasks st))" using assms by (simp add: task_in_def)
  have "map task_weight (rn_tasks st) ! k \<le> sum_list (map task_weight (rn_tasks st))"
    using k elem_le_sum_list by blast
  with k show ?thesis
    by (simp add: work_left_def set_phase_def map_update sum_list_update)
qed

lemma admit_step_work:
  assumes "sched_inv env st"
  shows "work_left (admit_step env i st) \<le> work_left st"
proof (cases rule: admit_step_cases [OF assms, of i, case_names unchanged known skipped launched])
  case launched
  have "0 < card (rn_pending st)" using launched(1) finite_pending [OF assms] by (auto simp: card_gt_0_iff)
  then show ?thesis
    using launched(1) finite_pending [OF assms] launched(6)
    by (cases rule: launch_cases [of "step_at (pe_pipeline env) i" "st\<lparr>rn_pending := rn_pending st - {i}\<rparr>" env])
      (auto simp: work_left_def launch_keeps task_weight_def)
qed (use finite_pending [OF assms] in \<open>auto simp: work_left_def card_Diff_subset\<close>)

lemma admit_work: "sched_inv env st \<Longrightarrow> work_left (admit env st) \<le> work_left st"
proof -
  have "sched_inv env s \<Longrightarrow> work_left (fold (admit_step env) is s) \<le> work_left s" for "is" s
    by (induction "is" arbitrary: s)
      (auto intro: order_trans [OF _ admit_step_work] admit_step_preserves)
  then show "sched_inv env st \<Longrightarrow> ?thesis" by (simp add: admit_def)
qed

lemma run_size_exec:
  assumes "sched_inv env st" "exec_event env ev st = Some st'"
  shows "run_size st' < run_size st"
proof (cases ev)
  case Iterate
  have "work_left (st\<lparr>rn_phase := ph\<rparr>) = work_left st" for st ph by (simp add: work_left_def)
  with Iterate assms admit_work [OF assms(1)] show ?thesis
    by (auto simp: run_size_def Let_def after_admit_def split: if_splits)
next
  case (Acquire k)
  with assms(2) have "task_in st k Waiting" "st' = set_phase k Holding st" by (auto split: if_splits)
  with work_left_set_phase [of st k Waiting Holding] show ?thesis
    by (simp add: run_size_def task_weight_def task_in_def set_phase_def)
next
  case (Deliver k ret)
  with assms(2) have t: "task_in st k Holding" "rn_phase st = Receiving"
    and st': "st' = (deliver env k ret st)\<lparr>rn_phase := LoopTop\<rparr>"
    by (auto simp: deliver_def split: if_splits)
  have "work_left st' = work_left (set_phase k Releasing st)"
    by (simp add: st' work_left_def deliver_simps set_phase_def)
  with work_left_set_phase [OF t(1), of Releasing] t show ?thesis
    by (simp add: run_size_def task_weight_def task_in_def st')
next
  case (Release k)
  with assms(2) have "task_in st k Releasing" "st' = set_phase k Exited st" by (auto split: if_splits)
  with work_left_set_phase [of st k Releasing Exited] show ?thesis
    by (simp add: run_size_def task_weight_def task_in_def set_phase_def)
qed

lemma parallelism_pos: "0 < parallelism env"
  by (simp add: parallelism_def)

lemma run_progress:
  assumes "count_inv env st" "\<not> finished st"
  shows "\<exists>ev st'. exec_event env ev st = Some st'"
proof (cases "rn_phase st = LoopTop")
  case True
  then have "exec_event env Iterate st \<noteq> None" by (simp add: Let_def)
  then show ?thesis by blast
next
  case False
  then have recv: "rn_phase st = Receiving"
    using assms(2) by (cases "rn_phase st") (auto simp: finished_def)
  then obtain k where k: "k < length (rn_tasks st)" "active (rn_tasks st ! k)"
    using assms(1) by (auto simp: count_inv_def filter_empty_conv in_set_conv_nth)
  consider (hold) j where "task_in st j Holding" | (rel) j where "task_in st j Releasing"
    | (none) "\<forall>j<length (rn_tasks st). t_phase (rn_tasks st ! j) \<notin> {Holding, Releasing}"
    by (auto simp: task_in_def)
  then show ?thesis
  proof cases
    case hold
    with recv have "exec_event env (Deliver j ret) st \<noteq> None" for ret by simp
    then show ?thesis by blast
  next
    case rel
    then have "exec_event env (Release j) st \<noteq> None" by simp
    then show ?thesis by blast
  next
    case none
    then have "holders st = 0" by (auto simp: holders_def filter_empty_conv in_set_conv_nth)
    moreover from none k have "task_in st k Waiting" by (auto simp: active_def task_in_def)
    ultimately have "exec_event env (Acquire k) st \<noteq> None" using parallelism_pos by simp
    then show ?thesis by blast
  qed
qed

text \<open>A pipeline run is a machine whose runs are bounded and do not deadlock.\<close>

interpretation pl: live_machine "exec_event env" "run_inv env" run_size finished for env
proof unfold_locales
  show "run_inv env st'" if "run_inv env st" "exec_event env ev st = Some st'" for st ev st'
    using that sched_inv_exec count_inv_exec by (auto simp: run_inv_def)
  show "run_size st' < run_size st" if "run_inv env st" "exec_event env ev st = Some st'" for st ev st'
    using that run_size_exec by (auto simp: run_inv_def)
  show "\<exists>ev st'. exec_event env ev st = Some st'" if "run_inv env st" "\<not> finished st" for st
    using that run_progress by (auto simp: run_inv_def)
qed

lemma run_inv_start:
  assumes "RunPipeline_start pipelines mp re text pid inputs = Inr (env, st)"
  shows "run_inv env st" "pipelines pid = Some (pe_pipeline env)" "env_ok env"
    and "\<exists>ins. bind_inputs pid inputs (pl_Inputs (pe_pipeline env)) = Inr ins \<and>
      st = start_state (pe_pipeline env) ins"
proof -
  from assms obtain p deps ins where *: "pipelines pid = Some p" "Deps p = Inr deps"
    "bind_inputs pid inputs (pl_Inputs p) = Inr ins" "st = start_state p ins"
    "env = \<lparr>pe_ID = pid, pe_pipeline = p, pe_deps = deps, pe_maxParallel = mp, pe_regexp = re, pe_text = text\<rparr>"
    by (auto simp: RunPipeline_start_def go_error split: option.splits sum.splits)
  then show "pipelines pid = Some (pe_pipeline env)" "env_ok env"
    "\<exists>ins. bind_inputs pid inputs (pl_Inputs (pe_pipeline env)) = Inr ins \<and>
      st = start_state (pe_pipeline env) ins"
    by (auto simp: env_ok_def)
  from * show "run_inv env st"
    by (auto simp: run_inv_def env_ok_def sched_inv_def count_inv_def start_state_def launched_def
        tview_def started_def holders_def)
qed

end
