(* ===== verification/PipelineProps.thy ===== *)
theory PipelineProps
  imports PipelineLive
begin

text \<open>
  The properties of pipeline runs: dependencies, branches, failures, outcomes, tokens, the
  end of a run, and the two ways in which a run ends before its steps do.
\<close>

section \<open>States of a step are final\<close>

lemma admit_step_state:
  assumes "sched_inv env st" "rn_state st j = Some s"
  shows "rn_state (admit_step env i st) j = Some s"
proof (cases rule: admit_step_cases [OF assms(1), of i, case_names unchanged known skipped launched])
  case launched
  then show ?thesis using assms(2) by (auto simp: launch_def split: sum.split)
qed (use assms(2) in auto)

lemma admit_state:
  assumes "sched_inv env st" "rn_state st j = Some s"
  shows "rn_state (admit env st) j = Some s"
proof -
  have "sched_inv env (admit env st) \<and> rn_state (admit env st) j = Some s"
    unfolding admit_def
    by (rule fold_preserves [where I = "\<lambda>st. sched_inv env st \<and> rn_state st j = Some s"])
      (use assms admit_step_state admit_step_preserves in auto)
  then show ?thesis by simp
qed

lemma exec_state:
  assumes "run_inv env st" "exec_event env ev st = Some st'" "rn_state st j = Some s"
  shows "rn_state st' j = Some s"
proof (cases ev)
  case (Deliver k ret)
  then have t: "task_in st k Holding" and st': "st' = (deliver env k ret st)\<lparr>rn_phase := LoopTop\<rparr>"
    using assms(2) by (auto simp: deliver_def split: if_splits)
  then show ?thesis
    using assms(1,3) not_taken_fresh(3) [of env st k j ret] sender_ok(3) [of env st k]
    by (auto simp: deliver_simps run_inv_def)
qed (use assms admit_state in \<open>auto simp: Let_def run_inv_def set_phase_def split: if_splits\<close>)

lemma reachable_state:
  "reachable (exec_event env) st st' \<Longrightarrow> run_inv env st \<Longrightarrow> rn_state st j = Some s \<Longrightarrow>
     rn_state st' j = Some s"
  by (induction rule: reachable.induct) (auto intro: exec_state dest: pl.inv_reachable)

section \<open>Outcomes and tokens\<close>

definition completed_steps :: "prun \<Rightarrow> string set" where
  "completed_steps st = {i. rn_state st i = Some StatusCompleted}"

definition step_tokens :: "prun \<Rightarrow> string \<Rightarrow> goint" where
  "step_tokens st i = so_Tokens (the (rn_results st i))"

definition res_inv :: "penv \<Rightarrow> prun \<Rightarrow> bool" where
  "res_inv env st \<longleftrightarrow>
     (\<forall>i r. rn_results st i = Some r \<longrightarrow> so_StepID r = i \<and> rn_state st i = Some (so_Status r)) \<and>
     (\<forall>i. i \<notin> rn_pending st \<longrightarrow> rn_state st i \<noteq> None \<longrightarrow> rn_results st i \<noteq> None) \<and>
     rn_tokens st = sum (step_tokens st) (completed_steps st)"

lemma status_only_simps [simp]:
  "so_StepID (status_only i s e) = i" "so_Status (status_only i s e) = s"
  "so_Output (status_only i s e) = []" "so_Error (status_only i s e) = e"
  "so_Tokens (status_only i s e) = 0"
  by (simp_all add: status_only_def)

lemma res_inv_update:
  assumes "res_inv env st" "rn_state st i \<noteq> Some StatusCompleted"
    and "rn_state st' = (rn_state st)(i \<mapsto> so_Status r)" "rn_results st' = (rn_results st)(i \<mapsto> r)"
    and "so_Status r \<noteq> StatusCompleted" "so_StepID r = i"
    and "rn_pending st' = rn_pending st - {i}" "rn_tokens st' = rn_tokens st"
  shows "res_inv env st'"
proof -
  have "completed_steps st' = completed_steps st"
    using assms(2,3,5) by (auto simp: completed_steps_def)
  moreover have "sum (step_tokens st') (completed_steps st) = sum (step_tokens st) (completed_steps st)"
    using assms(2,4) by (intro sum.cong) (auto simp: step_tokens_def completed_steps_def)
  ultimately show ?thesis
    using assms(1,3-8) by (auto simp: res_inv_def)
qed

lemma res_inv_cong:
  assumes "rn_state st' = rn_state st" "rn_results st' = rn_results st" "rn_tokens st' = rn_tokens st"
    and "rn_pending st' = rn_pending st \<or> (\<exists>i. rn_pending st' = rn_pending st - {i} \<and> rn_state st i = None)"
  shows "res_inv env st \<Longrightarrow> res_inv env st'"
proof -
  have "step_tokens st' = step_tokens st" "completed_steps st' = completed_steps st"
    using assms(1,2) by (simp_all add: step_tokens_def [abs_def] completed_steps_def)
  then show "res_inv env st \<Longrightarrow> res_inv env st'"
    using assms unfolding res_inv_def by auto
qed

lemma admit_step_results:
  assumes "sched_inv env st" "res_inv env st"
  shows "res_inv env (admit_step env i st)"
proof (cases rule: admit_step_cases [OF assms(1), of i, case_names unchanged known skipped launched])
  case known
  show ?thesis
    by (rule res_inv_update [where st = st and i = i and r = "status_only i StatusSkipped []"])
      (use known assms(2) in \<open>simp_all add: map_upd_triv\<close>)
next
  case skipped
  show ?thesis
    by (rule res_inv_update [where st = st and i = i and r = "status_only i StatusSkipped []"])
      (use skipped assms(2) in simp_all)
next
  case launched
  show ?thesis
  proof (cases "Resolve (step_Input (step_at (pe_pipeline env) i)) (rn_scope st)")
    case (Inl e)
    show ?thesis
      by (rule res_inv_update [where st = st and i = i
            and r = "status_only i StatusFailed (pe_text env e)"]) (use launched Inl assms(2) in \<open>simp_all add: launch_def\<close>)
  next
    case (Inr out)
    show ?thesis
      by (rule res_inv_cong [where st = st]) (use launched Inr assms(2) in \<open>auto simp: launch_def\<close>)
  qed
qed (use assms(2) in simp)

lemma admit_results:
  assumes "sched_inv env st" "res_inv env st"
  shows "res_inv env (admit env st)"
proof -
  have "sched_inv env (admit env st) \<and> res_inv env (admit env st)"
    unfolding admit_def
    by (rule fold_preserves [where I = "\<lambda>st. sched_inv env st \<and> res_inv env st"])
      (use assms admit_step_results admit_step_preserves in auto)
  then show ?thesis by simp
qed

lemma router_tokens:
  "c_gotoID (task_completion env t ret) \<noteq> [] \<Longrightarrow> so_Tokens (c_out (task_completion env t ret)) = 0"
  by (auto simp: task_completion_def router_completion_def agent_completion_def
      split: sum.splits prod.splits if_splits)

lemma completed_steps_deliver:
  assumes "env_ok env" "sched_inv env st" "task_in st k Holding"
  shows "completed_steps (deliver env k ret st) =
    (if so_Status (c_out (sent env k ret st)) = StatusCompleted
     then insert (step_ID (sender st k)) (completed_steps st) else completed_steps st)"
proof -
  have "rn_state (deliver env k ret st) j = Some StatusCompleted \<longleftrightarrow>
      (j = step_ID (sender st k) \<and> so_Status (c_out (sent env k ret st)) = StatusCompleted
       \<or> rn_state st j = Some StatusCompleted)" for j
    using not_taken_fresh(3,4) [OF assms, of j ret] sender_ok(3) [OF assms(2,3)]
    by (auto simp: deliver_simps)
  then show ?thesis by (auto simp: completed_steps_def)
qed

lemma deliver_results:
  assumes ok: "env_ok env" and inv: "sched_inv env st" and t: "task_in st k Holding"
    and res: "res_inv env st"
  shows "res_inv env (deliver env k ret st)" (is "res_inv env ?st")
proof -
  let ?c = "sent env k ret st" and ?i = "step_ID (sender st k)"
  have fresh: "?i \<notin> completed_steps st" "finite (completed_steps st)"
  proof -
    show "?i \<notin> completed_steps st" using sender_ok(3) [OF inv t] by (simp add: completed_steps_def)
    have "completed_steps st \<subseteq> ids env"
      using sched_invD(2) [OF inv] by (auto simp: completed_steps_def)
    then show "finite (completed_steps st)" by (rule finite_subset) simp
  qed
  have taken: "j \<noteq> ?i \<and> rn_state st j \<in> {None, Some StatusSkipped}"
    if "j \<in> not_taken env ?c" for j
    using that not_taken_fresh(3,4) [OF ok inv t] by blast
  have old: "so_StepID r = j \<and> rn_state st j = Some (so_Status r)" if "rn_results st j = Some r" for j r
    using res that by (simp add: res_inv_def)
  have "so_StepID r = j \<and> rn_state ?st j = Some (so_Status r)" if "rn_results ?st j = Some r" for j r
    using that taken [of j] old [of j r] task_completion_facts(2) [of env "rn_tasks st ! k" ret]
    by (auto simp: deliver_simps sender_def split: if_splits)
  moreover have "rn_results ?st j \<noteq> None" if "j \<notin> rn_pending ?st" "rn_state ?st j \<noteq> None" for j
  proof (cases "j \<in> not_taken env ?c")
    case True
    then have "j \<in> ids env" "\<not> started st j" using not_taken_fresh(1,2) [OF ok inv t] by blast+
    then have "rn_state st j \<noteq> None"
      using that(1) sched_invD(6) [OF inv, of j] by (auto simp: deliver_simps started_def)
    with res that(1) show ?thesis by (auto simp: res_inv_def deliver_simps)
  next
    case False
    with res that show ?thesis by (auto simp: res_inv_def deliver_simps split: if_splits)
  qed
  moreover have "rn_tokens ?st = sum (step_tokens ?st) (completed_steps ?st)"
  proof -
    have "sum (step_tokens ?st) (completed_steps st) = sum (step_tokens st) (completed_steps st)"
      using fresh(1) by (intro sum.cong) (auto simp: step_tokens_def deliver_simps)
    moreover have "step_tokens ?st ?i = so_Tokens (c_out ?c)"
      by (simp add: step_tokens_def deliver_simps)
    ultimately show ?thesis
      using res fresh router_tokens [of env "rn_tasks st ! k" ret]
      by (auto simp: completed_steps_deliver [OF ok inv t] deliver_simps res_inv_def)
  qed
  ultimately show ?thesis by (simp add: res_inv_def)
qed

lemma res_inv_exec:
  assumes "run_inv env st" "res_inv env st" "exec_event env ev st = Some st'"
  shows "res_inv env st'"
proof (cases ev)
  case Iterate
  with assms show ?thesis
    using admit_results [of env st]
      res_inv_cong [of "(admit env st)\<lparr>rn_phase := after_admit (admit env st)\<rparr>" "admit env st"]
      res_inv_cong [of "st\<lparr>rn_phase := LoopExit\<rparr>" st]
    by (auto simp: Let_def run_inv_def split: if_splits)
next
  case (Deliver k ret)
  with assms show ?thesis
    using deliver_results [of env st k ret]
      res_inv_cong [of "(deliver env k ret st)\<lparr>rn_phase := LoopTop\<rparr>" "deliver env k ret st"]
    by (auto simp: deliver_def run_inv_def split: if_splits)
next
  case (Acquire k)
  with assms show ?thesis
    by (auto split: if_splits intro!: res_inv_cong [of "set_phase k Holding st" st]) (auto simp: set_phase_def)
next
  case (Release k)
  with assms show ?thesis
    by (auto split: if_splits intro!: res_inv_cong [of "set_phase k Exited st" st]) (auto simp: set_phase_def)
qed

interpretation plr: invariant_machine "exec_event env" "\<lambda>st. run_inv env st \<and> res_inv env st" for env
  by unfold_locales (auto intro: res_inv_exec pl.preserved)

section \<open>Runs\<close>

text \<open>The states that a call of \<open>RunPipeline\<close> goes through.\<close>

definition run_reaches :: "penv \<Rightarrow> prun \<Rightarrow> bool" where
  "run_reaches env st \<longleftrightarrow>
     (\<exists>pipelines inputs st0.
        RunPipeline_start pipelines (pe_maxParallel env) (pe_regexp env) (pe_text env) (pe_ID env) inputs
          = Inr (env, st0)
        \<and> reachable (exec_event env) st0 st)"

lemma res_inv_start: "res_inv env (start_state p ins)"
  by (simp add: res_inv_def start_state_def completed_steps_def)

lemma run_reaches_inv:
  assumes "run_reaches env st"
  shows "run_inv env st" "res_inv env st" "env_ok env" "sched_inv env st" "count_inv env st"
proof -
  from assms obtain pipelines inputs st0 where
    start: "RunPipeline_start pipelines (pe_maxParallel env) (pe_regexp env) (pe_text env) (pe_ID env) inputs
      = Inr (env, st0)" and reach: "reachable (exec_event env) st0 st"
    by (auto simp: run_reaches_def)
  have "run_inv env st0 \<and> res_inv env st0"
    using run_inv_start(1,4) [OF start] res_inv_start by auto
  from plr.inv_reachable [OF reach this] show "run_inv env st" "res_inv env st" by auto
  then show "env_ok env" "sched_inv env st" "count_inv env st" by (auto simp: run_inv_def)
qed

lemma run_reaches_trans:
  "run_reaches env st \<Longrightarrow> reachable (exec_event env) st st' \<Longrightarrow> run_reaches env st'"
  unfolding run_reaches_def by (blast intro: reachable_trans)

text \<open>
  C1: a task exists only for a step of the pipeline whose dependencies have all completed and
  have stored their output, every step gets at most one task, and the semaphore lets at
  most \<open>maxParallel\<close> (at least 1) tasks run at a time, whatever the interleaving.
\<close>

theorem step_runs_after_dependencies:
  assumes "run_reaches env st" and "t \<in> set (rn_tasks st)"
  shows "(\<forall>d. depends_on (pe_pipeline env) (step_ID (t_step t)) d \<longrightarrow>
      rn_state st d = Some StatusCompleted \<and> Outputs (rn_scope st) d \<noteq> None)
    \<and> t_step t \<in> set (pl_Steps (pe_pipeline env))
    \<and> distinct (map (\<lambda>t. step_ID (t_step t)) (rn_tasks st))
    \<and> length (filter (\<lambda>t. t_phase t = Holding) (rn_tasks st)) \<le> nat (max 1 (sint (pe_maxParallel env)))"
proof -
  note inv = run_reaches_inv [OF assms(1)]
  let ?i = "step_ID (t_step t)"
  have view: "(t_step t, active t) \<in> set (tview st)" "?i \<in> set (launched st)"
    using assms(2) by (auto simp: tview_def launched_def)
  have "deps_done env st ?i" using sched_invD(7) [OF inv(4)] view(2) by (simp add: started_def)
  moreover have "t_step t \<in> set (pl_Steps (pe_pipeline env))"
    using sched_invD(4) [OF inv(4) view(1)] step_at_in_steps [of ?i "pe_pipeline env"]
    by (auto simp: task_ok_def)
  moreover have "distinct (map (\<lambda>t. step_ID (t_step t)) (rn_tasks st))"
    using sched_invD(3) [OF inv(4)] by (simp add: launched_def)
  moreover have "length (filter (\<lambda>t. t_phase t = Holding) (rn_tasks st)) \<le> holders st"
    unfolding holders_def by (rule length_filter_mono) simp
  moreover have "holders st \<le> nat (max 1 (sint (pe_maxParallel env)))"
    using inv(5) by (auto simp: count_inv_def parallelism_def split: if_splits)
  ultimately show ?thesis
    using sched_invD(9) [OF inv(4)] by (auto simp: deps_done_def env_deps [OF inv(3)])
qed

text \<open>A step that depends, directly or not, on a skipped or failed one is never started.\<close>

lemma blocked_forever:
  assumes "run_inv env st" "(x, y) \<in> {(x, y). depends_on (pe_pipeline env) x y}\<^sup>+"
    and "rn_state st y \<in> {Some StatusSkipped, Some StatusFailed}"
  shows "x \<notin> set (launched st)"
proof -
  have sched: "sched_inv env st" and ok: "env_ok env" using assms(1) by (auto simp: run_inv_def)
  have not_done: "rn_state st d \<noteq> Some StatusCompleted" if "d \<notin> set (launched st)" for d
    using that completed_launched [OF sched] by blast
  have blocked: "x \<notin> set (launched st)"
    if "depends_on (pe_pipeline env) x d" "rn_state st d \<noteq> Some StatusCompleted" for x d
    using that sched_invD(7) [OF sched, of x] env_deps [OF ok] by (auto simp: started_def deps_done_def)
  show ?thesis
    using assms(2)
  proof (induction rule: converse_trancl_induct)
    case (base x)
    then show ?case using blocked [of x y] assms(3) by auto
  next
    case (step x z)
    then show ?case using blocked [of x z] not_done by auto
  qed
qed

text \<open>
  C2: a router takes exactly one branch: when its task completes with target \<open>g\<close>, every other
  target of its routes is skipped for the rest of the run, and neither that step nor any
  step that depends on it, directly or through others, ever gets a task.
\<close>

theorem router_takes_one_branch:
  assumes "run_reaches env st" and "exec_event env (Deliver k ret) st = Some st1"
    and "step_Router (t_step (rn_tasks st ! k))"
    and "PickRoute (pe_regexp env) (step_Routes (t_step (rn_tasks st ! k))) (t_decoded (rn_tasks st ! k)) = Inr g"
    and "g \<noteq> []" and "rt \<in> set (step_Routes (t_step (rn_tasks st ! k)))" and "Goto rt \<noteq> g"
    and "reachable (exec_event env) st1 st2"
  shows "rn_state st2 (Goto rt) = Some StatusSkipped \<and> Goto rt \<notin> set (launched st2)
    \<and> (\<forall>x. (x, Goto rt) \<in> {(x, y). depends_on (pe_pipeline env) x y}\<^sup>+ \<longrightarrow> x \<notin> set (launched st2))"
proof -
  note inv = run_reaches_inv [OF assms(1)]
  let ?s = "t_step (rn_tasks st ! k)"
  have t: "task_in st k Holding" and st1: "st1 = (deliver env k ret st)\<lparr>rn_phase := LoopTop\<rparr>"
    using assms(2) by (auto simp: deliver_def split: if_splits)
  have s: "?s = step_at (pe_pipeline env) (step_ID ?s)" "step_ID ?s \<in> ids env"
    using sender_ok [OF inv(4) t] by (auto simp: sender_def)
  have "g \<in> ids env"
    using PickRoute_target [OF assms(4)] routes_targets [OF inv(3) s(2)] s(1) assms(3) by auto
  then have "c_gotoID (sent env k ret st) = g" "so_Status (c_out (sent env k ret st)) = StatusCompleted"
    using assms(3,4) by (simp_all add: task_completion_def router_completion_def steps_map_None)
  then have "Goto rt \<in> not_taken env (sent env k ret st)"
    using assms(5-7) s(1) by (simp add: not_taken_def task_completion_facts)
  then have "rn_state st1 (Goto rt) = Some StatusSkipped"
    by (simp add: st1 deliver_simps)
  moreover have "run_inv env st1" using pl.preserved [OF inv(1) assms(2)] .
  ultimately have st2: "rn_state st2 (Goto rt) = Some StatusSkipped" "run_inv env st2"
    using reachable_state [OF assms(8)] pl.inv_reachable [OF assms(8)] by auto
  then have "Goto rt \<notin> set (launched st2)"
    using skipped_not_launched by (auto simp: run_inv_def)
  with st2 blocked_forever [OF st2(2)] show ?thesis by simp
qed

section \<open>Failures\<close>

lemma admit_step_failed: "rn_failure st \<noteq> None \<Longrightarrow> admit_step env i st = st"
  by (simp add: admit_step_def)

lemma admit_failed: "rn_failure st \<noteq> None \<Longrightarrow> admit env st = st"
proof -
  assume "rn_failure st \<noteq> None"
  then have "fold (admit_step env) is st = st" for "is"
    by (induction "is") (auto simp: admit_step_failed)
  then show ?thesis by (simp add: admit_def)
qed

lemma receive_failure:
  "rn_failure st = Some e \<Longrightarrow> rn_failure (receive env c st) = Some e"
  by (auto simp: receive_def Let_def)

lemma failed_exec:
  assumes "run_inv env st" "rn_failure st = Some e" "exec_event env ev st = Some st'"
  shows "rn_failure st' = Some e \<and> launched st' = launched st"
proof (cases ev)
  case (Deliver k ret)
  then have t: "task_in st k Holding" and st': "st' = (deliver env k ret st)\<lparr>rn_phase := LoopTop\<rparr>"
    using assms(3) by (auto simp: deliver_def split: if_splits)
  have "launched st' = launched (deliver env k ret st)" by (simp add: st' launched_def)
  moreover have "rn_failure (deliver env k ret st) = Some e"
    unfolding deliver_def by (rule receive_failure) (simp add: set_phase_def assms(2))
  ultimately show ?thesis using deliver_view(2) [OF t] by (simp add: st')
next
  case Iterate
  with assms(2,3) show ?thesis
    by (auto simp: Let_def admit_failed launched_def split: if_splits)
next
  case (Acquire k)
  with assms(2,3) show ?thesis
    by (auto simp: set_phase_def launched_def map_update list_update_same_conv task_in_def split: if_splits)
next
  case (Release k)
  with assms(2,3) show ?thesis
    by (auto simp: set_phase_def launched_def map_update list_update_same_conv task_in_def split: if_splits)
qed


text \<open>The errors of \<open>resolveRef\<close> when every reference has an entry in the scope.\<close>

lemma resolve_loop_error:
  "for_each (put_replacement scope) refs m = Inl e \<Longrightarrow> \<exists>r\<in>set refs. resolveRef r scope = Inl e"
  by (induction refs arbitrary: m) (auto simp: put_replacement_def go_error)

lemma Resolve_error:
  assumes "Resolve s scope = Inl e" "ParseRefs s = Inr refs"
    and "\<And>r. r \<in> set refs \<Longrightarrow> Kind r = RefStepOutput \<Longrightarrow> Outputs scope (StepID r) \<noteq> None"
    and "\<And>r. r \<in> set refs \<Longrightarrow> Kind r = RefInput \<Longrightarrow> Inputs scope (Name r) \<noteq> None"
  shows "\<exists>r\<in>set refs. \<exists>raw. Outputs scope (StepID r) = Some raw \<and> Path r \<noteq> []
    \<and> lookupPath raw (Path r) = Inl e"
proof -
  have "for_each (put_replacement scope) refs Map.empty = Inl e"
    using assms(1,2) by (auto simp: Resolve_def go_error split: if_splits)
  then obtain r where r: "r \<in> set refs" "resolveRef r scope = Inl e"
    using resolve_loop_error by blast
  show ?thesis
  proof (cases "Kind r")
    case RefInput
    with r assms(4) [of r] show ?thesis by (auto simp: resolveRef_def)
  next
    case RefStepOutput
    with r assms(3) [of r] show ?thesis
      by (fastforce simp: resolveRef_def split: if_splits)
  qed
qed

text \<open>Every declared input has a value in the scope, throughout the run.\<close>

lemma bind_inputs_dom:
  "bind_inputs pid inputs names = Inr m \<Longrightarrow> dom m = set names"
proof -
  have "for_each (\<lambda>name m. case inputs name of
         None \<Rightarrow> Inl (Errorf ''engine: pipeline %q missing required input %q'' [pid, name])
       | Some val \<Rightarrow> Inr (m(name \<mapsto> val))) names m0 = Inr m \<Longrightarrow> dom m = dom m0 \<union> set names" for m0
    by (induction names arbitrary: m0) (auto simp: go_error split: option.splits)
  from this [of Map.empty] show "bind_inputs pid inputs names = Inr m \<Longrightarrow> dom m = set names"
    by (simp add: bind_inputs_def)
qed

definition inputs_bound :: "penv \<Rightarrow> prun \<Rightarrow> bool" where
  "inputs_bound env st \<longleftrightarrow> dom (Inputs (rn_scope st)) = set (pl_Inputs (pe_pipeline env))"

lemma admit_scope: "rn_scope (admit env st) = rn_scope st"
proof -
  have "rn_scope (admit_step env i s) = rn_scope s" for i s
    by (simp add: admit_step_def launch_keeps split: prod.split)
  then have "rn_scope (fold (admit_step env) is s) = rn_scope s" for "is" s
    by (induction "is" arbitrary: s) auto
  then show ?thesis by (simp add: admit_def)
qed

lemma exec_inputs:
  "exec_event env ev st = Some st' \<Longrightarrow> Inputs (rn_scope st') = Inputs (rn_scope st)"
  by (cases ev) (auto simp: Let_def admit_scope receive_simps set_phase_def split: if_splits)

interpretation pli: invariant_machine "exec_event env" "inputs_bound env" for env
proof unfold_locales
  show "inputs_bound env st'" if "inputs_bound env st" "exec_event env ev st = Some st'" for st ev st'
    using that exec_inputs [OF that(2)] by (simp add: inputs_bound_def)
qed

lemma run_reaches_inputs: "run_reaches env st \<Longrightarrow> inputs_bound env st"
proof -
  assume "run_reaches env st"
  then obtain pipelines inputs st0 where
    start: "RunPipeline_start pipelines (pe_maxParallel env) (pe_regexp env) (pe_text env) (pe_ID env) inputs
      = Inr (env, st0)" and reach: "reachable (exec_event env) st0 st"
    by (auto simp: run_reaches_def)
  have "inputs_bound env st0"
    using run_inv_start(4) [OF start] bind_inputs_dom
    by (metis Scope.select_convs(1) inputs_bound_def prun.select_convs(4) start_state_def)
  with reach show ?thesis by (rule pli.inv_reachable)
qed

text \<open>
  When a step is admitted, its input can fail to resolve only because of a JSON path into
  a step's output: references to inputs and to other steps always have a value, provided
  the step refers to declared inputs only (which the registry checks).
\<close>

theorem launch_fails_only_on_paths:
  assumes "run_reaches env st" and "s \<in> set (pl_Steps (pe_pipeline env))"
    and "fst (depStatus (state_at st) (deps_at (pe_deps env) (step_ID s)))"
    and "ParseRefs (step_Input s) = Inr refs"
    and "\<forall>r\<in>set refs. Kind r = RefInput \<longrightarrow> Name r \<in> set (pl_Inputs (pe_pipeline env))"
    and "Resolve (step_Input s) (rn_scope st) = Inl e"
  shows "\<exists>r\<in>set refs. \<exists>raw. Outputs (rn_scope st) (StepID r) = Some raw \<and> Path r \<noteq> []
    \<and> lookupPath raw (Path r) = Inl e"
proof (rule Resolve_error [OF assms(6,4)])
  note inv = run_reaches_inv [OF assms(1)]
  fix r
  assume r: "r \<in> set refs"
  show "Inputs (rn_scope st) (Name r) \<noteq> None" if "Kind r = RefInput"
    using that r assms(5) run_reaches_inputs [OF assms(1)] by (auto simp: inputs_bound_def)
  show "Outputs (rn_scope st) (StepID r) \<noteq> None" if "Kind r = RefStepOutput"
  proof -
    have "depends_on (pe_pipeline env) (step_ID s) (StepID r)"
      unfolding depends_on_def ref_steps_def using assms(2,4) r that by blast
    then have "StepID r \<in> set (deps_at (pe_deps env) (step_ID s))"
      by (simp add: env_deps [OF inv(3)])
    with assms(3) have "rn_state st (StepID r) = Some StatusCompleted"
      by (simp add: depStatus_ready)
    then show ?thesis using sched_invD(9) [OF inv(4)] by blast
  qed
qed

end
