(* ===== verification/PipelineEnd.thy ===== *)
theory PipelineEnd
  imports PipelineProps
begin

text \<open>
  How a run ends: in a bounded number of events, without stalling when the steps are declared
  in dependency order, with one outcome per step.  Concrete runs show that a run can stall
  for another order of declaration, and that it can return while steps are still running.
\<close>

section \<open>Termination\<close>

text \<open>
  C4: a run is finite and cannot deadlock: at most \<open>5 n + 1\<close> events happen for \<open>n\<close> steps,
  and when no further event is possible the loop has ended and \<open>RunPipeline\<close> returns.
\<close>

theorem RunPipeline_terminates:
  assumes "RunPipeline_start pipelines maxParallel re text pipelineID inputs = Inr (env, st0)"
    and "run_events (exec_event env) evs st0 = Some st"
  shows "length evs \<le> 5 * card (step_ids (pe_pipeline env)) + 1
    \<and> (halted (exec_event env) st \<longrightarrow> (\<exists>res err. RunPipeline_end env elapsed st = Some (res, err)))"
proof -
  note start = run_inv_start [OF assms(1)]
  have "run_size st0 \<le> 5 * card (step_ids (pe_pipeline env)) + 1"
    using start(4) by (auto simp: run_size_def work_left_def start_state_def)
  moreover have "length evs + run_size st \<le> run_size st0"
    by (rule pl.run_bounded [OF start(1) assms(2)])
  moreover have "\<exists>res err. RunPipeline_end env elapsed st = Some (res, err)" if "finished st"
    using that
    by (auto simp: finished_def RunPipeline_end_def Let_def split: option.split sum.split)
  moreover have "finished st" if "halted (exec_event env) st"
    using that pl.halted_final [OF start(1)] assms(2) reachable_run_events by metis
  ultimately show ?thesis by auto
qed

section \<open>The stall branch\<close>

text \<open>The steps are declared in dependency order: every dependency of a step precedes it.\<close>

fun declared_in_order :: "deps \<Rightarrow> string list \<Rightarrow> string list \<Rightarrow> bool" where
  "declared_in_order deps before [] \<longleftrightarrow> True"
| "declared_in_order deps before (i # is) \<longleftrightarrow>
     set (deps_at deps i) \<subseteq> set before \<and> declared_in_order deps (i # before) is"

definition some_active :: "prun \<Rightarrow> bool" where
  "some_active st \<longleftrightarrow> (\<exists>t\<in>set (rn_tasks st). active t)"

text \<open>During the admission loop, a step that was passed over waits for a running task.\<close>

definition waiting_ok :: "string list \<Rightarrow> prun \<Rightarrow> bool" where
  "waiting_ok before st \<longleftrightarrow>
     (rn_failure st = None \<longrightarrow> (\<forall>i\<in>set before. i \<in> rn_pending st \<longrightarrow> some_active st))"

lemma blocked_waits:
  assumes "sched_inv env st" "rn_failure st = None" "waiting_ok before st"
    and "depStatus (state_at st) (deps_at (pe_deps env) i) = (False, False)"
    and "set (deps_at (pe_deps env) i) \<subseteq> set before" "set before \<subseteq> ids env"
  shows "some_active st"
proof -
  obtain d where d: "d \<in> set (deps_at (pe_deps env) i)"
    "state_at st d \<notin> {StatusCompleted, StatusSkipped, StatusFailed}"
    using depStatus_blocked [OF assms(4)] by blast
  then have "d \<in> set before" "d \<in> ids env" using assms(5,6) by auto
  show ?thesis
  proof (cases "d \<in> rn_pending st")
    case True
    with assms(2,3) \<open>d \<in> set before\<close> show ?thesis by (auto simp: waiting_ok_def)
  next
    case False
    have state: "rn_state st d \<notin> {Some StatusCompleted, Some StatusSkipped, Some StatusFailed}"
      using d(2) by auto
    then have "d \<in> set (launched st)"
      using False \<open>d \<in> ids env\<close> sched_invD(6) [OF assms(1), of d] by auto
    then obtain t where t: "t \<in> set (rn_tasks st)" "d = step_ID (t_step t)"
      by (auto simp: launched_def)
    have "(t_step t, active t) \<in> set (tview st)" using t(1) by (auto simp: tview_def)
    from sched_invD(4) [OF assms(1) this] state t have "active t"
      by (auto simp: task_ok_def split: if_splits)
    with t(1) show ?thesis by (auto simp: some_active_def)
  qed
qed

lemma admit_step_waiting:
  assumes "sched_inv env st" "waiting_ok before st"
    and "set (deps_at (pe_deps env) i) \<subseteq> set before" "set before \<subseteq> ids env"
  shows "waiting_ok (i # before) (admit_step env i st)"
proof (cases rule: admit_step_cases [OF assms(1), of i, case_names unchanged known skipped launched])
  case unchanged
  then show ?thesis
    using assms(2) blocked_waits [OF assms(1) _ assms(2) _ assms(3,4)] by (auto simp: waiting_ok_def)
next
  case launched
  then show ?thesis
    by (cases rule: launch_cases [of "step_at (pe_pipeline env) i" "st\<lparr>rn_pending := rn_pending st - {i}\<rparr>" env])
      (auto simp: waiting_ok_def some_active_def active_def)
qed (use assms(2) in \<open>auto simp: waiting_ok_def some_active_def\<close>)

lemma admit_waiting:
  assumes "sched_inv env st" "waiting_ok before st" "declared_in_order (pe_deps env) before is"
    and "set before \<subseteq> ids env" "set is \<subseteq> ids env"
  shows "waiting_ok (rev is @ before) (fold (admit_step env) is st)"
  using assms
proof (induction "is" arbitrary: st before)
  case (Cons i "is")
  then show ?case
    using admit_step_waiting [of env st before i] admit_step_preserves [of env st i] by simp
qed simp

lemma admit_not_stalled:
  assumes "sched_inv env st" "tasks_counted env st"
    and "declared_in_order (pe_deps env) [] (order (pe_pipeline env))"
  shows "after_admit (admit env st) \<noteq> Stalled"
proof
  assume "after_admit (admit env st) = Stalled"
  then have st: "rn_running (admit env st) = 0" "rn_failure (admit env st) = None"
    "rn_pending (admit env st) \<noteq> {}"
    by (auto simp: after_admit_def split: if_splits)
  have "waiting_ok (rev (order (pe_pipeline env))) (admit env st)"
    using admit_waiting [OF assms(1) _ assms(3)]
    by (auto simp: admit_def waiting_ok_def order_def step_ids_def)
  moreover have "rn_pending (admit env st) \<subseteq> set (order (pe_pipeline env))"
    using sched_invD(1) [OF admit_preserves [OF assms(1)]] by (auto simp: order_def step_ids_def)
  ultimately have "some_active (admit env st)"
    using st(2,3) by (auto simp: waiting_ok_def)
  then have "filter active (rn_tasks (admit env st)) \<noteq> []"
    by (auto simp: some_active_def filter_empty_conv)
  with admit_counted [OF assms(1,2)] st(1) show False by (simp add: tasks_counted_def)
qed

text \<open>
  C38: when every step is declared after the steps it depends on, the run never takes the
  stall branch.
\<close>

theorem no_stall_in_declared_order:
  assumes "run_reaches env st" and "declared_in_order (pe_deps env) [] (order (pe_pipeline env))"
  shows "rn_phase st \<noteq> Stalled"
proof -
  obtain pipelines inputs st0 where
    start: "RunPipeline_start pipelines (pe_maxParallel env) (pe_regexp env) (pe_text env) (pe_ID env) inputs
      = Inr (env, st0)" and reach: "reachable (exec_event env) st0 st"
    using assms(1) by (auto simp: run_reaches_def)
  have step: "rn_phase st' \<noteq> Stalled"
    if "run_inv env st" "rn_phase st \<noteq> Stalled" "exec_event env ev st = Some st'" for st ev st'
  proof (cases ev)
    case Iterate
    with that admit_not_stalled [OF _ _ assms(2), of st] show ?thesis
      by (auto simp: Let_def run_inv_def count_inv_def tasks_counted_def split: if_splits)
  qed (use that in \<open>auto simp: set_phase_def split: if_splits\<close>)
  have "run_inv env st0" "rn_phase st0 \<noteq> Stalled"
    using run_inv_start(1,4) [OF start] by (auto simp: start_state_def)
  with reach have "run_inv env st \<and> rn_phase st \<noteq> Stalled"
  proof induction
    case (event s ev s')
    then show ?case using pl.preserved step by blast
  qed simp
  then show ?thesis by simp
qed

section \<open>Outcomes\<close>

lemma collectOutcomes_ids:
  assumes "res_inv env st"
  shows "map so_StepID (collectOutcomes is (rn_results st)) = is"
  using assms by (auto simp: collectOutcomes_def res_inv_def map_idI split: option.split)

lemma sum_list_collect:
  fixes f :: "StepOutcome \<Rightarrow> goint"
  assumes "distinct is"
  shows "sum_list (map f (collectOutcomes is m)) = sum (\<lambda>i. f (case m i of Some r \<Rightarrow> r | None \<Rightarrow> status_only i StatusSkipped [])) (set is)"
  using assms by (simp add: collectOutcomes_def sum_list_distinct_conv_sum_set comp_def)

lemma outcome_status:
  assumes "sched_inv env st" "res_inv env st" "rn_failure st = None"
    and "out \<in> set (collectOutcomes is (rn_results st))"
  shows "so_Status out \<in> {StatusCompleted, StatusSkipped}"
proof -
  have no_fail: "rn_state st i \<noteq> Some StatusFailed" for i
    using sched_invD(8) [OF assms(1)] assms(3) by blast
  have *: "so_Status r \<in> {StatusCompleted, StatusSkipped}" if "rn_results st i = Some r" for i r
  proof -
    have "rn_state st i = Some (so_Status r)" using that assms(2) by (auto simp: res_inv_def)
    moreover from this have "i \<in> ids env" using sched_invD(2) [OF assms(1)] by blast
    ultimately show ?thesis
      using no_fail [of i] launched_state [OF assms(1), of i] sched_invD(5,6) [OF assms(1), of i]
      by force
  qed
  from assms(4) obtain i where
    "out = (case rn_results st i of Some r \<Rightarrow> r | None \<Rightarrow> status_only i StatusSkipped [])"
    by (auto simp: collectOutcomes_def)
  then show ?thesis using * [of i] by (cases "rn_results st i") auto
qed

definition counted_tokens :: "StepOutcome \<Rightarrow> goint" where
  "counted_tokens out = (if so_Status out = StatusCompleted then so_Tokens out else 0)"

lemma counted_tokens_step:
  assumes "sched_inv env st" "res_inv env st"
  shows "counted_tokens (case rn_results st i of Some r \<Rightarrow> r | None \<Rightarrow> status_only i StatusSkipped [])
    = (if i \<in> completed_steps st then step_tokens st i else 0)"
proof (cases "rn_results st i")
  case None
  have "i \<notin> completed_steps st"
  proof
    assume "i \<in> completed_steps st"
    then have "rn_state st i = Some StatusCompleted" by (simp add: completed_steps_def)
    moreover from this have "i \<notin> rn_pending st"
      using pending_not_launched [OF assms(1)] completed_launched [OF assms(1)] by blast
    ultimately show False using assms(2) None by (auto simp: res_inv_def)
  qed
  with None show ?thesis by (simp add: counted_tokens_def)
next
  case (Some r)
  then have "rn_state st i = Some (so_Status r)" using assms(2) by (auto simp: res_inv_def)
  with Some show ?thesis by (simp add: completed_steps_def step_tokens_def counted_tokens_def)
qed

lemma tokens_total:
  assumes "sched_inv env st" "res_inv env st" "distinct (order (pe_pipeline env))"
  shows "rn_tokens st = sum_list (map counted_tokens (collectOutcomes (order (pe_pipeline env)) (rn_results st)))"
proof -
  let ?ids = "set (order (pe_pipeline env))"
  have "completed_steps st \<subseteq> ?ids"
    using sched_invD(2) [OF assms(1)] by (auto simp: completed_steps_def order_def step_ids_def)
  then have "sum (\<lambda>i. if i \<in> completed_steps st then step_tokens st i else 0) ?ids
      = sum (step_tokens st) (completed_steps st)"
    by (simp add: sum.inter_restrict [symmetric] Int_absorb1)
  then show ?thesis
    using assms(2)
    by (simp add: sum_list_collect [OF assms(3)] counted_tokens_step [OF assms(1,2)] res_inv_def)
qed


text \<open>
  The loop ends as soon as no step is pending, even if tasks are in flight; such a
  task's step is reported as skipped, although it was started and may still complete.
\<close>

theorem in_flight_reported_skipped:
  assumes "run_reaches env st" and "rn_phase st = LoopExit"
    and "t \<in> set (rn_tasks st)" and "t_phase t = Waiting \<or> t_phase t = Holding"
    and "RunPipeline_end env elapsed st = Some (res, err)"
  shows "\<exists>out\<in>set (pr_Steps res). so_StepID out = step_ID (t_step t) \<and> so_Status out = StatusSkipped"
proof -
  note inv = run_reaches_inv [OF assms(1)]
  let ?i = "step_ID (t_step t)"
  have "(t_step t, True) \<in> set (tview st)"
    using assms(3,4) by (force simp: tview_def active_def)
  then have "?i \<in> ids env" "rn_state st ?i = None"
    using sched_invD(4) [OF inv(4)] by (fastforce simp: task_ok_def)+
  then have "rn_results st ?i = None"
    using inv(2) by (cases "rn_results st ?i") (auto simp: res_inv_def)
  then have "status_only ?i StatusSkipped []
      \<in> set (collectOutcomes (order (pe_pipeline env)) (rn_results st))"
    using \<open>?i \<in> ids env\<close> by (force simp: collectOutcomes_def order_def step_ids_def)
  moreover have "pr_Steps res = collectOutcomes (order (pe_pipeline env)) (rn_results st)"
    using assms(5)
    by (auto simp: RunPipeline_end_def Let_def split: main_phase.splits option.splits sum.splits)
  ultimately show ?thesis by force
qed

end
