(* ===== verification/PipelineDemo.thy ===== *)
theory PipelineDemo
  imports PipelineEnd
begin

text \<open>
  Concrete runs, evaluated by the kernel: instances of the properties of pipeline runs, a
  run that stalls although the dependency graph is acyclic, and a run that returns while a
  step is still running.
\<close>

section \<open>Runs of small pipelines\<close>

definition demo_agent :: "string \<Rightarrow> string \<Rightarrow> string list \<Rightarrow> Step" where
  "demo_agent i input needs =
     \<lparr>step_ID = i, step_AgentID = ''m'', step_Input = input, step_Output = ''o'',
      step_Router = False, step_Routes = [], step_Needs = needs\<rparr>"

definition demo_exists :: "string \<Rightarrow> Route" where
  "demo_exists target =
     \<lparr>When = Some \<lparr>Field = ''f'', Equals = JNull, NotEquals = JNull, In = [], Matches = [], Exists = True\<rparr>,
      Default = False, Goto = target\<rparr>"

definition demo_default :: "string \<Rightarrow> Route" where
  "demo_default target = \<lparr>When = None, Default = True, Goto = target\<rparr>"

text \<open>A router that finds no field in its input and so takes the default.\<close>

definition demo_router :: "string \<Rightarrow> string list \<Rightarrow> string \<Rightarrow> string \<Rightarrow> Step" where
  "demo_router i needs other dflt =
     \<lparr>step_ID = i, step_AgentID = [], step_Input = ''null'', step_Output = [],
      step_Router = True, step_Routes = [demo_exists other, demo_default dflt], step_Needs = needs\<rparr>"

definition demo_start :: "Step list \<Rightarrow> (penv \<times> prun) res" where
  "demo_start steps =
     RunPipeline_start
       [''p'' \<mapsto> \<lparr>PipelineID = ''p'', pl_Version = 1, pl_Inputs = [], pl_Steps = steps, pl_Output = []\<rparr>]
       4 (\<lambda>_. Inl Stuck) (\<lambda>_. ''e'') ''p'' Map.empty"

definition demo_ok :: "AgentResult \<times> goerr option" where
  "demo_ok = (\<lparr>ar_AgentID = ''m'', ar_Output = ''y'', ar_Tokens = 1, ar_DurationMS = 0\<rparr>, None)"

definition demo_err :: "AgentResult \<times> goerr option" where
  "demo_err = (\<lparr>ar_AgentID = [], ar_Output = [], ar_Tokens = 0, ar_DurationMS = 0\<rparr>, Some Stuck)"

definition demo_run :: "Step list \<Rightarrow> pevent list \<Rightarrow> (penv \<times> prun) option" where
  "demo_run steps evs =
     (case demo_start steps of
        Inl _ \<Rightarrow> None
      | Inr (env, st0) \<Rightarrow> map_option (\<lambda>st. (env, st)) (run_events (exec_event env) evs st0))"

definition demo_check :: "Step list \<Rightarrow> pevent list \<Rightarrow> (penv \<Rightarrow> prun \<Rightarrow> bool) \<Rightarrow> bool" where
  "demo_check steps evs P =
     (case demo_run steps evs of None \<Rightarrow> False | Some (env, st) \<Rightarrow> P env st)"

lemma demo_start_env:
  assumes "demo_start steps = Inr (env, st0)"
  shows "RunPipeline_start
       [''p'' \<mapsto> \<lparr>PipelineID = ''p'', pl_Version = 1, pl_Inputs = [], pl_Steps = steps, pl_Output = []\<rparr>]
       (pe_maxParallel env) (pe_regexp env) (pe_text env) (pe_ID env) Map.empty = Inr (env, st0)"
    and "pl_Steps (pe_pipeline env) = steps"
  using assms by (auto simp: demo_start_def RunPipeline_start_def go_error split: sum.splits)

lemma demo_run_reaches:
  assumes "demo_run steps evs = Some (env, st)"
  shows "run_reaches env st"
  using assms demo_start_env(1) reachable_run_events
  by (fastforce simp: demo_run_def run_reaches_def split: sum.splits)

lemma demo_obtain:
  assumes "demo_check steps evs P"
  obtains env st st0 where "run_reaches env st" "P env st" "demo_run steps evs = Some (env, st)"
    "demo_start steps = Inr (env, st0)" "run_events (exec_event env) evs st0 = Some st"
    "pl_Steps (pe_pipeline env) = steps"
proof -
  obtain env st where *: "demo_run steps evs = Some (env, st)" "P env st"
    using assms by (auto simp: demo_check_def split: option.splits)
  moreover obtain st0 where "demo_start steps = Inr (env, st0)" "run_events (exec_event env) evs st0 = Some st"
    using *(1) by (auto simp: demo_run_def split: sum.splits)
  ultimately show thesis using that demo_run_reaches demo_start_env(2) by blast
qed

definition branch_steps :: "Step list" where
  "branch_steps = [demo_agent ''a'' ''x'' [], demo_router ''r'' [''a''] ''b'' ''c'',
     demo_agent ''b'' ''x'' [], demo_agent ''c'' ''x'' []]"

definition to_router :: "pevent list" where
  "to_router = [Iterate, Acquire 0, Deliver 0 demo_ok, Release 0, Iterate, Acquire 1]"

definition to_end :: "pevent list" where
  "to_end = to_router @ [Deliver 1 demo_ok, Release 1, Iterate, Acquire 2, Deliver 2 demo_ok, Iterate]"

section \<open>Instances\<close>

lemma branch_run:
  "demo_check branch_steps to_end (\<lambda>env st.
     map (\<lambda>t. step_ID (t_step t)) (rn_tasks st) = [''a'', ''r'', ''c''] \<and> rn_phase st = LoopExit
     \<and> declared_in_order (pe_deps env) [] (order (pe_pipeline env))
     \<and> RunPipeline_end env 0 st = Some
        (\<lparr>pr_PipelineID = ''p'', pr_Output = ''y'', pr_Tokens = 2, pr_DurationMS = 0,
          pr_Steps = collectOutcomes (order (pe_pipeline env)) (rn_results st)\<rparr>, None))"
  by code_simp

lemma branch_router_run:
  "demo_check branch_steps to_router (\<lambda>env st.
     map t_step (rn_tasks st) = [demo_agent ''a'' ''x'' [], demo_router ''r'' [''a''] ''b'' ''c'']
     \<and> PickRoute (pe_regexp env) (step_Routes (t_step (rn_tasks st ! 1))) (t_decoded (rn_tasks st ! 1)) = Inr ''c''
     \<and> (case exec_event env (Deliver 1 demo_ok) st of None \<Rightarrow> False | Some st1 \<Rightarrow> True))"
  by code_simp

lemma failed_run:
  "demo_check [demo_agent ''a'' ''x'' []] [Iterate, Acquire 0, Deliver 0 demo_err] (\<lambda>env st.
     rn_failure st = Some (Errorf ''engine: pipeline %q step %q: %s'' [''p'', ''a'', ''e''])
     \<and> (case exec_event env Iterate st of None \<Rightarrow> False | Some st' \<Rightarrow> rn_phase st' = LoopExit))"
  by code_simp

definition path_steps :: "Step list" where
  "path_steps = [demo_agent ''a'' ''x'' [], demo_agent ''b'' ''{{ steps.a.output.k }}'' []]"

lemma path_run:
  "demo_check path_steps [Iterate, Acquire 0, Deliver 0 demo_ok] (\<lambda>env st.
     fst (depStatus (state_at st) (deps_at (pe_deps env) ''b''))
     \<and> ParseRefs ''{{ steps.a.output.k }}'' = Inr [\<lparr>Kind = RefStepOutput, Name = [], StepID = ''a'',
          Path = [''k''], Raw = ''{{ steps.a.output.k }}''\<rparr>]
     \<and> Resolve ''{{ steps.a.output.k }}'' (rn_scope st)
        = Inl (ErrWrap ''path %s: output is not JSON: %w'' [''k''] ErrJSON))"
  by code_simp

theorem step_runs_after_dependencies_witness:
  "\<exists>env st t. run_reaches env st \<and> t \<in> set (rn_tasks st) \<and>
     depends_on (pe_pipeline env) (step_ID (t_step t)) ''r'' \<and> rn_state st ''r'' = Some StatusCompleted"
proof -
  obtain env st where st: "run_reaches env st" "pl_Steps (pe_pipeline env) = branch_steps"
    "map (\<lambda>t. step_ID (t_step t)) (rn_tasks st) = [''a'', ''r'', ''c'']"
    using branch_run by (auto elim!: demo_obtain)
  have "''c'' \<in> set (map (\<lambda>t. step_ID (t_step t)) (rn_tasks st))" by (simp add: st(3))
  then obtain t where t: "t \<in> set (rn_tasks st)" "step_ID (t_step t) = ''c''" by auto
  have "depends_on (pe_pipeline env) (step_ID (t_step t)) ''r''"
    by (simp add: depends_on_def st(2) branch_steps_def t(2) demo_agent_def demo_router_def
        demo_exists_def demo_default_def)
  with step_runs_after_dependencies [OF st(1) t(1)] st(1) t(1) show ?thesis by blast
qed

theorem router_takes_one_branch_witness:
  "\<exists>env st st1. run_reaches env st \<and> exec_event env (Deliver 1 demo_ok) st = Some st1
     \<and> rn_state st1 ''b'' = Some StatusSkipped \<and> ''b'' \<notin> set (launched st1)"
proof -
  obtain env st where st: "run_reaches env st"
    "map t_step (rn_tasks st) = [demo_agent ''a'' ''x'' [], demo_router ''r'' [''a''] ''b'' ''c'']"
    "PickRoute (pe_regexp env) (step_Routes (t_step (rn_tasks st ! 1))) (t_decoded (rn_tasks st ! 1)) = Inr ''c''"
    "\<exists>st1. exec_event env (Deliver 1 demo_ok) st = Some st1"
    using branch_router_run by (auto elim!: demo_obtain split: option.splits)
  then obtain st1 where st1: "exec_event env (Deliver 1 demo_ok) st = Some st1" by blast
  have "t_step (rn_tasks st ! 1) = map t_step (rn_tasks st) ! 1"
    using st(2) by (metis One_nat_def length_Cons length_map lessI list.size(3) nth_map)
  then have s: "t_step (rn_tasks st ! 1) = demo_router ''r'' [''a''] ''b'' ''c''" by (simp add: st(2))
  have "rn_state st1 (Goto (demo_exists ''b'')) = Some StatusSkipped \<and> Goto (demo_exists ''b'') \<notin> set (launched st1)"
    using router_takes_one_branch [OF st(1) st1 _ st(3) _ _ _ reachable.start, of "demo_exists ''b''"]
    unfolding s by (simp add: demo_router_def) (simp add: demo_exists_def)
  then have "rn_state st1 ''b'' = Some StatusSkipped \<and> ''b'' \<notin> set (launched st1)"
    by (simp add: demo_exists_def)
  with st(1) st1 show ?thesis by blast
qed


theorem launch_fails_only_on_paths_witness:
  "\<exists>env st raw. run_reaches env st \<and> Outputs (rn_scope st) ''a'' = Some raw
     \<and> lookupPath raw [''k''] = Inl (ErrWrap ''path %s: output is not JSON: %w'' [''k''] ErrJSON)"
proof -
  let ?s = "demo_agent ''b'' ''{{ steps.a.output.k }}'' []"
  let ?r = "\<lparr>Kind = RefStepOutput, Name = [], StepID = ''a'', Path = [''k''], Raw = ''{{ steps.a.output.k }}''\<rparr>"
  obtain env st where st: "run_reaches env st" "pl_Steps (pe_pipeline env) = path_steps"
    "fst (depStatus (state_at st) (deps_at (pe_deps env) ''b''))"
    "ParseRefs ''{{ steps.a.output.k }}'' = Inr [?r]"
    "Resolve ''{{ steps.a.output.k }}'' (rn_scope st)
        = Inl (ErrWrap ''path %s: output is not JSON: %w'' [''k''] ErrJSON)"
    using path_run by (auto elim!: demo_obtain)
  have "?s \<in> set (pl_Steps (pe_pipeline env))" by (simp add: st(2) path_steps_def)
  from launch_fails_only_on_paths [OF st(1) this, of "[?r]"] st(3-5)
  show ?thesis using st(1) by (auto simp: demo_agent_def)
qed

theorem RunPipeline_terminates_witness:
  "\<exists>env st0 st. demo_start branch_steps = Inr (env, st0) \<and> run_events (exec_event env) to_end st0 = Some st
     \<and> length to_end \<le> 5 * card (step_ids (pe_pipeline env)) + 1"
proof -
  obtain env st0 st where st: "demo_start branch_steps = Inr (env, st0)"
    "run_events (exec_event env) to_end st0 = Some st"
    using branch_run by (auto elim!: demo_obtain)
  from RunPipeline_terminates [OF demo_start_env(1) [OF st(1)] st(2)] st show ?thesis by blast
qed

theorem no_stall_in_declared_order_witness:
  "\<exists>env st. run_reaches env st \<and> declared_in_order (pe_deps env) [] (order (pe_pipeline env))
     \<and> rn_phase st \<noteq> Stalled"
proof -
  obtain env st where "run_reaches env st" "declared_in_order (pe_deps env) [] (order (pe_pipeline env))"
    using branch_run by (auto elim!: demo_obtain)
  with no_stall_in_declared_order show ?thesis by blast
qed


section \<open>A step that is still running is reported as skipped\<close>

lemma early_exit_run:
  "demo_check [demo_agent ''a'' ''x'' [], demo_agent ''b'' ''x'' []]
     [Iterate, Acquire 0, Acquire 1, Deliver 0 demo_ok, Iterate] (\<lambda>env st.
       rn_phase st = LoopExit \<and> map t_phase (rn_tasks st) = [Releasing, Holding]
       \<and> (case RunPipeline_end env 0 st of None \<Rightarrow> False | Some (res, err) \<Rightarrow> err = None))"
  by code_simp

theorem in_flight_reported_skipped_witness:
  "\<exists>env st t res. run_reaches env st \<and> t \<in> set (rn_tasks st) \<and> t_phase t = Holding
     \<and> RunPipeline_end env 0 st = Some (res, None)
     \<and> (\<exists>out\<in>set (pr_Steps res). so_StepID out = step_ID (t_step t) \<and> so_Status out = StatusSkipped)"
proof -
  obtain env st where st: "run_reaches env st" "rn_phase st = LoopExit"
    "map t_phase (rn_tasks st) = [Releasing, Holding]" "\<exists>res. RunPipeline_end env 0 st = Some (res, None)"
    using early_exit_run by (auto elim!: demo_obtain split: option.splits prod.splits)
  have "Holding \<in> set (map t_phase (rn_tasks st))" by (simp add: st(3))
  with st(4) obtain t res where t: "t \<in> set (rn_tasks st)" "t_phase t = Holding"
    "RunPipeline_end env 0 st = Some (res, None)"
    by auto
  with in_flight_reported_skipped [OF st(1,2) t(1) _ t(3)] st(1) show ?thesis by blast
qed

section \<open>A run that stalls\<close>

text \<open>
  A branch of four steps, declared from its end to its beginning, that is not taken: every
  pass of the admission loop skips one more of them, and passes happen only when a task
  completes.
\<close>

definition reversed_steps :: "Step list" where
  "reversed_steps = [demo_agent ''d'' ''x'' [''c''], demo_agent ''c'' ''x'' [''b''],
     demo_agent ''b'' ''x'' [''a''], demo_agent ''a'' ''x'' [],
     demo_router ''r'' [] ''a'' ''k'', demo_agent ''k'' ''x'' []]"

lemma stall_run:
  "demo_check reversed_steps
     [Iterate, Acquire 0, Deliver 0 demo_ok, Release 0, Iterate, Acquire 1, Deliver 1 demo_ok, Iterate]
     (\<lambda>env st. rn_phase st = Stalled \<and> rn_failure st = None)"
  by code_simp


section \<open>Instances of the properties of graphs and conditions\<close>

definition demo_graph :: "Step list \<Rightarrow> Pipeline" where
  "demo_graph steps =
     \<lparr>PipelineID = ''p'', pl_Version = 1, pl_Inputs = [], pl_Steps = steps, pl_Output = []\<rparr>"

theorem Deps_edges_witness:
  "\<exists>m. Deps (demo_graph branch_steps) = Inr m \<and> dom m = step_ids (demo_graph branch_steps)
     \<and> ''r'' \<in> set (deps_at m ''c'')"
proof -
  have "case Deps (demo_graph branch_steps) of Inl e \<Rightarrow> False | Inr m \<Rightarrow> True" by code_simp
  then obtain m where m: "Deps (demo_graph branch_steps) = Inr m" by (auto split: sum.splits)
  have "depends_on (demo_graph branch_steps) ''c'' ''r''"
    by (simp add: depends_on_def demo_graph_def branch_steps_def demo_agent_def demo_router_def
        demo_exists_def demo_default_def)
  with Deps_edges [OF m, of "''c''" "''r''"] m show ?thesis by blast
qed

theorem Deps_reports_cycle_witness:
  "\<exists>d. Deps (demo_graph [demo_agent ''a'' ''x'' [''b''], demo_agent ''b'' ''x'' [''a'']])
       = Inl (Errorf ''dependency cycle involving step %q'' [d])"
proof -
  let ?p = "demo_graph [demo_agent ''a'' ''x'' [''b''], demo_agent ''b'' ''x'' [''a'']]"
  have "case Deps ?p of Inl e \<Rightarrow> True | Inr m \<Rightarrow> False" by code_simp
  then obtain e where e: "Deps ?p = Inl e" by (auto split: sum.splits)
  have "ParseRefs ''x'' = Inr []" by code_simp
  then have "pipeline_deps_ok ?p"
    by (simp add: pipeline_deps_ok_def step_deps_ok_def demo_graph_def demo_agent_def step_ids_def
        ref_steps_def)
  from Deps_reports_cycle [OF e this] e show ?thesis by auto
qed

theorem EvaluateCondition_spec_witness:
  "\<exists>cond. EvaluateCondition (\<lambda>_. Inl Stuck) cond ''null'' = Inr False"
proof -
  let ?c = "\<lparr>Field = ''f'', Equals = JNull, NotEquals = JNull, In = [], Matches = [], Exists = True\<rparr>"
  have "json_Unmarshal (TrimSpace ''null'') = Inr JNull" "walkPath JNull (Field ?c) = Inr (JNull, False)"
    by code_simp+
  from EvaluateCondition_spec [OF this, of "\<lambda>_. Inl Stuck"] show ?thesis
    by (intro exI [of _ ?c]) (simp add: operators_set_def)
qed

theorem lookupPath_walkPath_witness:
  "lookupPath ''[true]'' [''0''] = Inr ''true''"
proof -
  have "json_Unmarshal (TrimSpace ''[true]'') = Inr (JArr [JBool True])" by code_simp
  moreover have "walkPath (JArr [JBool True]) (Join ''.'' [''0'']) = Inr (JBool True, True)"
    by (simp add: walkPath_def walk_seg_def atoi_def isDigit_def)
  moreover have "list_all plain_seg [''0'']" by (simp add: plain_seg_def isDigit_def)
  ultimately show ?thesis using lookupPath_walkPath [of "[''0'']" "''[true]''" "JArr [JBool True]" "''true''"] by simp
qed

end
