(* ===== verification/StoreSpec.thy ===== *)
theory StoreSpec
  imports Model "HOL-Library.Multiset"
begin

text \<open>
  \<open>internal/store/store.go\<close>: the interface \<open>Store\<close> as a record of operations on a state,
  and its contract as a locale.  The abstract state is the list of jobs in the order of
  their creation and the step results of every session in the order of insertion.
\<close>

section \<open>The interface\<close>

definition ErrNotFound :: goerr where
  "ErrNotFound = Sentinel ''store: not found''"

record 's store_ops =
  op_CreateJob :: "'s \<Rightarrow> Job \<Rightarrow> unit res \<times> 's"
  op_GetJob :: "'s \<Rightarrow> string \<Rightarrow> Job res \<times> 's"
  op_SetJobStatus :: "'s \<Rightarrow> string \<Rightarrow> JobStatus \<Rightarrow> string \<Rightarrow> string \<Rightarrow> unit res \<times> 's"
  op_ListJobsByStatus :: "'s \<Rightarrow> JobStatus \<Rightarrow> Job list res \<times> 's"
  op_AppendStepResult :: "'s \<Rightarrow> StepResult \<Rightarrow> unit res \<times> 's"
  op_ListStepResults :: "'s \<Rightarrow> string \<Rightarrow> StepResult list res \<times> 's"
  op_Ping :: "'s \<Rightarrow> unit res \<times> 's"

section \<open>The abstract store\<close>

record astore =
  as_jobs :: "Job list"
  as_steps :: "string \<Rightarrow> StepResult list"

definition job_of :: "astore \<Rightarrow> string \<Rightarrow> Job option" where
  "job_of a sid = find (\<lambda>j. SessionID j = sid) (as_jobs a)"

definition with_status :: "Job \<Rightarrow> Job" where
  "with_status job = (if job_Status job = [] then job\<lparr>job_Status := StatusPending\<rparr> else job)"

definition add_job :: "Job \<Rightarrow> astore \<Rightarrow> astore" where
  "add_job job a = a\<lparr>as_jobs := as_jobs a @ [with_status job]\<rparr>"

definition update_job :: "string \<Rightarrow> JobStatus \<Rightarrow> string \<Rightarrow> string \<Rightarrow> Job \<Rightarrow> Job" where
  "update_job sid status result err j =
     (if SessionID j = sid then j\<lparr>job_Status := status, job_Result := result, job_Error := err\<rparr> else j)"

definition set_status :: "string \<Rightarrow> JobStatus \<Rightarrow> string \<Rightarrow> string \<Rightarrow> astore \<Rightarrow> astore" where
  "set_status sid status result err a =
     a\<lparr>as_jobs := map (update_job sid status result err) (as_jobs a)\<rparr>"

definition jobs_in :: "JobStatus \<Rightarrow> astore \<Rightarrow> Job list" where
  "jobs_in status a = filter (\<lambda>j. job_Status j = status) (as_jobs a)"

definition add_step :: "string \<Rightarrow> StepResult \<Rightarrow> astore \<Rightarrow> astore" where
  "add_step sid sr a = a\<lparr>as_steps := (as_steps a)(sid := as_steps a sid @ [sr])\<rparr>"

text \<open>What \<open>CreateJob\<close> does: a blank or a used session id is refused and nothing changes.\<close>

definition create_spec :: "Job \<Rightarrow> unit res \<Rightarrow> astore \<Rightarrow> astore \<Rightarrow> bool" where
  "create_spec job r a a' \<longleftrightarrow>
     (if TrimSpace (SessionID job) = [] \<or> job_of a (SessionID job) \<noteq> None
      then (\<exists>e. r = Inl e) \<and> a' = a
      else r = Inr () \<and> a' = add_job job a)"

lemma job_of_Some: "job_of a sid = Some j \<Longrightarrow> SessionID j = sid \<and> j \<in> set (as_jobs a)"
  by (auto simp: job_of_def find_Some_iff)

lemma job_of_None: "job_of a sid = None \<longleftrightarrow> sid \<notin> SessionID ` set (as_jobs a)"
  by (auto simp: job_of_def find_None_iff)

lemma find_append: "find P (xs @ ys) = (case find P xs of None \<Rightarrow> find P ys | Some x \<Rightarrow> Some x)"
  by (induction xs) auto

lemma SessionID_with_status [simp]: "SessionID (with_status j) = SessionID j"
  by (simp add: with_status_def)

lemma SessionID_update_job [simp]: "SessionID (update_job sid st r e j) = SessionID j"
  by (simp add: update_job_def)

lemma job_of_add_job:
  "job_of a (SessionID job) = None \<Longrightarrow>
     job_of (add_job job a) sid = (if sid = SessionID job then Some (with_status job) else job_of a sid)"
  by (auto simp: job_of_def add_job_def find_append split: option.split)

lemma job_of_set_status:
  "job_of (set_status sid st r e a) sid' = map_option (update_job sid st r e) (job_of a sid')"
proof -
  have "find (\<lambda>j. SessionID j = sid') (map (update_job sid st r e) js)
      = map_option (update_job sid st r e) (find (\<lambda>j. SessionID j = sid') js)" for js
    by (induction js) auto
  then show ?thesis by (simp add: job_of_def set_status_def)
qed

lemma job_of_add_step [simp]: "job_of (add_step sid sr a) = job_of a"
  by (auto simp: job_of_def add_step_def)

definition distinct_jobs :: "astore \<Rightarrow> bool" where
  "distinct_jobs a \<longleftrightarrow> distinct (map SessionID (as_jobs a))"

lemma distinct_jobs_spec:
  "distinct_jobs a \<Longrightarrow> job_of a (SessionID job) = None \<Longrightarrow> distinct_jobs (add_job job a)"
  "distinct_jobs (set_status sid st r e a) = distinct_jobs a"
  "distinct_jobs (add_step sid sr a) = distinct_jobs a"
  by (auto simp: distinct_jobs_def add_job_def job_of_None set_status_def add_step_def comp_def)

section \<open>The contract\<close>

text \<open>
  \<open>canon\<close> is what a store gives back for a step result (a store that keeps them as JSON
  text replaces bytes that are not UTF-8); \<open>full\<close> says that the store can take no more jobs.
\<close>

locale job_store =
  fixes ops :: "'s store_ops" and inv :: "'s \<Rightarrow> bool" and abs :: "'s \<Rightarrow> astore"
    and canon :: "StepResult \<Rightarrow> StepResult" and full :: "'s \<Rightarrow> bool"
  assumes distinct: "inv s \<Longrightarrow> distinct_jobs (abs s)"
    and create: "inv s \<Longrightarrow> op_CreateJob ops s job = (r, s') \<Longrightarrow>
      inv s' \<and> (create_spec job r (abs s) (abs s') \<or> full s \<and> (\<exists>e. r = Inl e) \<and> abs s' = abs s)"
    and get: "inv s \<Longrightarrow> op_GetJob ops s sid = (rj, s') \<Longrightarrow>
      inv s' \<and> abs s' = abs s \<and>
      rj = (case job_of (abs s) sid of None \<Rightarrow> Inl ErrNotFound | Some j \<Rightarrow> Inr j)"
    and set_state: "inv s \<Longrightarrow> st \<noteq> [] \<Longrightarrow> op_SetJobStatus ops s sid st result err = (r, s') \<Longrightarrow>
      inv s' \<and> (if job_of (abs s) sid = None then r = Inl ErrNotFound \<and> abs s' = abs s
                else r = Inr () \<and> abs s' = set_status sid st result err (abs s))"
    and list_jobs: "inv s \<Longrightarrow> op_ListJobsByStatus ops s st = (rl, s') \<Longrightarrow>
      inv s' \<and> abs s' = abs s \<and> (\<exists>js. rl = Inr js \<and> mset js = mset (jobs_in st (abs s)))"
    and append: "inv s \<Longrightarrow> op_AppendStepResult ops s sr = (r, s') \<Longrightarrow>
      inv s' \<and> r = Inr () \<and> abs s' = add_step (sr_SessionID sr) (canon sr) (abs s)"
    and list_steps: "inv s \<Longrightarrow> op_ListStepResults ops s sid = (rs, s') \<Longrightarrow>
      inv s' \<and> abs s' = abs s \<and> rs = Inr (as_steps (abs s) sid)"
begin

text \<open>What a client can rely on: reads after writes.\<close>

lemma get_after_create:
  assumes "inv s" "op_CreateJob ops s job = (Inr (), s')"
  shows "fst (op_GetJob ops s' (SessionID job)) = Inr (with_status job)"
proof -
  have *: "inv s'" "create_spec job (Inr ()) (abs s) (abs s')" using create [OF assms] by auto
  then have "job_of (abs s) (SessionID job) = None" "abs s' = add_job job (abs s)"
    by (auto simp: create_spec_def split: if_splits)
  moreover obtain r s'' where r: "op_GetJob ops s' (SessionID job) = (r, s'')" by fastforce
  ultimately show ?thesis using get [OF *(1) r] by (simp add: job_of_add_job)
qed

lemma create_twice:
  assumes "inv s" "op_CreateJob ops s job = (Inr (), s')" "SessionID job' = SessionID job"
  shows "\<exists>e. fst (op_CreateJob ops s' job') = Inl e"
proof -
  have *: "inv s'" "create_spec job (Inr ()) (abs s) (abs s')" using create [OF assms(1,2)] by auto
  then have "job_of (abs s) (SessionID job) = None" "abs s' = add_job job (abs s)"
    by (auto simp: create_spec_def split: if_splits)
  then have "job_of (abs s') (SessionID job') \<noteq> None" by (simp add: job_of_add_job assms(3))
  moreover obtain r s'' where "op_CreateJob ops s' job' = (r, s'')" by fastforce
  ultimately show ?thesis using create [OF *(1), of job' r s''] by (auto simp: create_spec_def)
qed

lemma get_after_set_status:
  assumes "inv s" "st \<noteq> []" "op_SetJobStatus ops s sid st result err = (Inr (), s')"
  shows "\<exists>j. job_of (abs s) sid = Some j \<and> fst (op_GetJob ops s' sid) =
    Inr (j\<lparr>job_Status := st, job_Result := result, job_Error := err\<rparr>)"
proof -
  have *: "inv s'" "job_of (abs s) sid \<noteq> None" "abs s' = set_status sid st result err (abs s)"
    using set_state [OF assms] by (auto split: if_splits simp: ErrNotFound_def)
  then obtain j where j: "job_of (abs s) sid = Some j" by auto
  obtain r s'' where r: "op_GetJob ops s' sid = (r, s'')" by fastforce
  with get [OF *(1) r] j *(3) show ?thesis
    using job_of_Some [OF j] by (auto simp: job_of_set_status update_job_def)
qed

lemma steps_after_append:
  assumes "inv s" "op_AppendStepResult ops s sr = (r, s')"
  shows "fst (op_ListStepResults ops s' (sr_SessionID sr)) = Inr (as_steps (abs s) (sr_SessionID sr) @ [canon sr])"
proof -
  have *: "inv s'" "abs s' = add_step (sr_SessionID sr) (canon sr) (abs s)" using append [OF assms] by auto
  obtain rs s'' where r: "op_ListStepResults ops s' (sr_SessionID sr) = (rs, s'')" by fastforce
  with list_steps [OF *(1) r] *(2) show ?thesis by (simp add: add_step_def)
qed

lemma listing_after_set_status:
  assumes "inv s" "st \<noteq> []" "op_SetJobStatus ops s sid st result err = (Inr (), s')"
    and "op_ListJobsByStatus ops s' st' = (rl, s'')"
  shows "\<exists>js. rl = Inr js \<and> (sid \<in> SessionID ` set js \<longleftrightarrow> st' = st)"
proof -
  have *: "inv s'" "job_of (abs s) sid \<noteq> None" "abs s' = set_status sid st result err (abs s)"
    using set_state [OF assms(1-3)] by (auto split: if_splits simp: ErrNotFound_def)
  obtain js where js: "rl = Inr js" "mset js = mset (jobs_in st' (abs s'))"
    using list_jobs [OF *(1) assms(4)] by blast
  then have set: "set js = set (jobs_in st' (abs s'))" by (blast dest: mset_eq_setD)
  have status: "job_Status j = st" if mem: "j \<in> set (as_jobs (abs s'))" and "SessionID j = sid" for j
  proof -
    obtain i where "j = update_job sid st result err i" using mem unfolding *(3) set_status_def by auto
    with that(2) show ?thesis by (simp add: update_job_def split: if_splits)
  qed
  obtain i where i: "job_of (abs s) sid = Some i" using *(2) by auto
  have j: "update_job sid st result err i \<in> set (as_jobs (abs s'))" "SessionID (update_job sid st result err i) = sid"
    using job_of_Some [OF i] unfolding *(3) set_status_def by simp_all
  have "sid \<in> SessionID ` set js \<longleftrightarrow> st' = st"
  proof
    assume "sid \<in> SessionID ` set js"
    then show "st' = st" using set status by (auto simp: jobs_in_def)
  next
    assume "st' = st"
    with j status [OF j] set have "update_job sid st result err i \<in> set js" by (simp add: jobs_in_def)
    with j(2) show "sid \<in> SessionID ` set js" by (metis imageI)
  qed
  with js(1) show ?thesis by blast
qed

end

end
