(* ===== verification/JsonText.thy ===== *)
theory JsonText
  imports Json
begin

text \<open>
  The decoder reads back what the encoder prints: string literals of valid UTF-8, decimal
  integers, and objects whose members are such scalars.  The Redis store relies on it for
  its step results, the API and the clients for the strings of their documents.
\<close>

section \<open>Valid UTF-8\<close>

lemma rune_len_0: "rune_len [] = 0"
  by (simp add: rune_len_def)

function valid_utf8 :: "string \<Rightarrow> bool" where
  "valid_utf8 s =
     (if s = [] then True else if rune_len s = 0 then False else valid_utf8 (drop (rune_len s) s))"
  by pat_completeness auto
termination by (relation "measure length") auto

declare valid_utf8.simps [simp del]

lemma valid_utf8_Nil [simp]: "valid_utf8 []"
  by (subst valid_utf8.simps) simp

lemma rune_len_bounds:
  "rune_len s \<le> length s" "rune_len s \<le> 4"
  by (auto simp: rune_len_def split: list.splits)

lemma rune_len_one: "rune_len (c # s) = 1 \<longleftrightarrow> of_char c < (128 :: nat)"
  by (auto simp: rune_len_def byte_in_def split: list.splits)

lemma rune_len_ascii: "of_char c < (128 :: nat) \<Longrightarrow> rune_len (c # s) = 1"
  by (simp only: rune_len_one)

text \<open>What the encodings of two, three and four bytes look like.\<close>

definition two_bytes :: "char \<Rightarrow> char \<Rightarrow> bool" where
  "two_bytes a b \<longleftrightarrow> byte_in 0xC2 0xDF a \<and> cont_byte b"

definition three_bytes :: "char \<Rightarrow> char \<Rightarrow> char \<Rightarrow> bool" where
  "three_bytes a b c \<longleftrightarrow> byte_in 0xE0 0xEF a \<and>
     (if byte_in 0xE0 0xE0 a then byte_in 0xA0 0xBF b
      else if byte_in 0xED 0xED a then byte_in 0x80 0x9F b else cont_byte b) \<and> cont_byte c"

definition four_bytes :: "char \<Rightarrow> char \<Rightarrow> char \<Rightarrow> char \<Rightarrow> bool" where
  "four_bytes a b c d \<longleftrightarrow> byte_in 0xF0 0xF4 a \<and>
     (if byte_in 0xF0 0xF0 a then byte_in 0x90 0xBF b
      else if byte_in 0xF4 0xF4 a then byte_in 0x80 0x8F b else cont_byte b) \<and>
     cont_byte c \<and> cont_byte d"

lemma lead_ranges:
  "byte_in 0xC2 0xDF a \<Longrightarrow> \<not> byte_in 0 0x7F a"
  "byte_in 0xE0 0xEF a \<Longrightarrow> \<not> byte_in 0 0x7F a \<and> \<not> byte_in 0xC2 0xDF a"
  "byte_in 0xF0 0xF4 a \<Longrightarrow> \<not> byte_in 0 0x7F a \<and> \<not> byte_in 0xC2 0xDF a \<and> \<not> byte_in 0xE0 0xEF a"
  by (auto simp: byte_in_def)

lemma rune_len_eqs:
  "byte_in 0 0x7F a \<Longrightarrow> rune_len (a # t) = 1"
  "two_bytes a b \<Longrightarrow> rune_len (a # b # t) = 2"
  "three_bytes a b c \<Longrightarrow> rune_len (a # b # c # t) = 3"
  "four_bytes a b c d \<Longrightarrow> rune_len (a # b # c # d # t) = 4"
  by (simp_all add: rune_len_def two_bytes_def three_bytes_def four_bytes_def lead_ranges)

lemma rune_len_forms:
  assumes "rune_len s \<noteq> 0"
  obtains a t where "s = a # t" "byte_in 0 0x7F a"
  | a b t where "s = a # b # t" "two_bytes a b"
  | a b c t where "s = a # b # c # t" "three_bytes a b c"
  | a b c d t where "s = a # b # c # d # t" "four_bytes a b c d"
proof -
  consider "s = []" | a where "s = [a]" | a b where "s = [a, b]" | a b c where "s = [a, b, c]"
    | a b c d t where "s = a # b # c # d # t"
    by (metis list.exhaust)
  then show thesis
  proof cases
    case 1
    with assms show thesis by (simp add: rune_len_def)
  next
    case (2 a)
    with assms that(1) show thesis by (simp add: rune_len_def split: if_splits)
  next
    case (3 a b)
    with assms that(1,2) show thesis by (simp add: rune_len_def two_bytes_def split: if_splits)
  next
    case (4 a b c)
    from assms have "byte_in 0 0x7F a \<or> two_bytes a b \<or> three_bytes a b c"
      by (auto simp: 4 rune_len_def two_bytes_def three_bytes_def split: if_split_asm)
    then show thesis using that(1-3) [OF 4] by (elim disjE)
  next
    case (5 a b c d t)
    from assms have "byte_in 0 0x7F a \<or> two_bytes a b \<or> three_bytes a b c \<or> four_bytes a b c d"
      by (auto simp: 5 rune_len_def two_bytes_def three_bytes_def four_bytes_def split: if_split_asm)
    then show thesis using that [OF 5] by (elim disjE)
  qed
qed

lemma rune_len_take:
  assumes "rune_len s \<noteq> 0"
  shows "rune_len (take (rune_len s) s @ t) = rune_len s"
  using assms by (cases rule: rune_len_forms) (simp_all add: rune_len_eqs numeral_eq_Suc)

lemma rune_len_lead:
  assumes "2 \<le> rune_len (c # s)"
  shows "194 \<le> (of_char c :: nat)"
proof -
  have "rune_len (c # s) \<noteq> 0" using assms by simp
  then show ?thesis
    by (cases rule: rune_len_forms)
      (use assms in \<open>auto simp: rune_len_eqs two_bytes_def three_bytes_def four_bytes_def byte_in_def\<close>)
qed

lemma valid_utf8_step:
  assumes "valid_utf8 s" "s \<noteq> []"
  shows "rune_len s \<noteq> 0" "valid_utf8 (drop (rune_len s) s)"
  using assms by (auto simp: valid_utf8.simps [of s] split: if_splits)

text \<open>
  \<open>strings.ToValidUTF8\<close> with U+FFFD for each invalid byte, which is what is left of a string
  after encoding and decoding.
\<close>

definition first_rune :: "string \<Rightarrow> string" where
  "first_rune s = (if rune_len s = 0 then replacement else take (rune_len s) s)"

definition after_rune :: "string \<Rightarrow> string" where
  "after_rune s = drop (max 1 (rune_len s)) s"

function to_valid :: "string \<Rightarrow> string" where
  "to_valid s = (if s = [] then [] else first_rune s @ to_valid (after_rune s))"
  by pat_completeness auto
termination by (relation "measure length") (auto simp: after_rune_def)

declare to_valid.simps [simp del]

lemma to_valid_Nil [simp]: "to_valid [] = []"
  by (subst to_valid.simps) simp

lemma to_valid_id: "valid_utf8 s \<Longrightarrow> to_valid s = s"
proof (induction s rule: to_valid.induct)
  case (1 s)
  show ?case
  proof (cases "s = []")
    case False
    with valid_utf8_step [OF "1.prems"] have "rune_len s \<noteq> 0" "valid_utf8 (after_rune s)"
      by (auto simp: after_rune_def max_def)
    moreover from this 1 False have "to_valid (after_rune s) = after_rune s" by simp
    ultimately show ?thesis
      by (subst to_valid.simps) (auto simp: first_rune_def after_rune_def max_def)
  qed simp
qed

lemma valid_utf8_ascii: "\<forall>c\<in>set s. of_char c < (128 :: nat) \<Longrightarrow> valid_utf8 s"
proof (induction s)
  case (Cons c s)
  then show ?case by (subst valid_utf8.simps) (simp add: rune_len_ascii)
qed simp

section \<open>String literals\<close>

definition prepend :: "string \<Rightarrow> (string \<times> string) option \<Rightarrow> (string \<times> string) option" where
  "prepend out = map_option (\<lambda>(t, r). (out @ t, r))"

lemma hex_value_digit: "n < 16 \<Longrightarrow> hex_value (hex_digit n) = Some n"
  by (auto simp: hex_value_def hex_digit_def isDigit_def byte_in_def)

lemma hex4_byte:
  "n < 256 \<Longrightarrow> hex4 (CHR ''0'' # CHR ''0'' # hex_digit (n div 16) # hex_digit (n mod 16) # r) = Some (n, r)"
  using hex_value_digit [of "n div 16"] hex_value_digit [of "n mod 16"]
  by (simp add: hex_value_def isDigit_def)

lemma json_string_byte:
  assumes "of_char c < (128 :: nat)"
  shows "json_string (Suc n) (json_byte c @ r) = prepend [c] (json_string n r)"
proof -
  let ?esc = "{CHR 0x22, CHR 0x5C, CHR 0x08, CHR 0x0C, CHR 0x0A, CHR 0x0D, CHR 0x09}"
  let ?html = "{CHR ''<'', CHR ''>'', CHR ''&''}"
  consider (esc) "c \<in> ?esc" | (hex) "c \<notin> ?esc" "of_char c < (32 :: nat) \<or> c \<in> ?html"
    | (plain) "c \<notin> ?esc" "\<not> of_char c < (32 :: nat)" "c \<notin> ?html"
    by argo
  then show ?thesis
  proof cases
    case esc
    then show ?thesis
      by (auto simp: json_byte_def json_string.simps(2) simple_escape_def prepend_def)
  next
    case hex
    then have "json_byte c = CHR 0x5C # CHR ''u'' # CHR ''0'' # CHR ''0'' #
        [hex_digit (of_char c div 16), hex_digit (of_char c mod 16)]"
      by (auto simp: json_byte_def)
    with assms show ?thesis
      using hex4_byte [of "of_char c" r]
      by (simp add: json_string.simps(2) unicode_escape_def utf8_def prepend_def)
  next
    case plain
    then have "json_byte c = [c]" by (simp add: json_byte_def)
    with plain assms show ?thesis
      by (simp add: json_string.simps(2) rune_len_ascii prepend_def Let_def)
  qed
qed

lemma json_string_rune:
  assumes "2 \<le> rune_len s"
  shows "json_string (Suc n) (take (rune_len s) s @ r) = prepend (take (rune_len s) s) (json_string n r)"
proof -
  let ?w = "take (rune_len s) s"
  obtain c cs where s: "s = c # cs" using assms by (cases s) (auto simp: rune_len_def)
  then obtain w where w: "?w = c # w" using assms by (cases "rune_len s") auto
  have c: "194 \<le> (of_char c :: nat)" using assms rune_len_lead s by simp
  then have "c \<noteq> CHR 0x22" "c \<noteq> CHR 0x5C" "\<not> of_char c < (32 :: nat)" by auto
  moreover have "rune_len (?w @ r) = rune_len s" "length ?w = rune_len s"
    using rune_len_take [of s r] assms rune_len_bounds(1) [of s] by auto
  moreover from this have "take (rune_len s) (c # w @ r) = c # w" "drop (rune_len s) (c # w @ r) = r"
    unfolding w by (metis append_Cons append_eq_conv_conj)+
  ultimately show ?thesis
    using assms unfolding w by (simp add: json_string.simps(2) prepend_def Let_def)
qed

lemma json_string_line_separators:
  "json_string (Suc n) ([CHR 0x5C] @ ''u2028'' @ r) = prepend [CHR 0xE2, CHR 0x80, CHR 0xA8] (json_string n r)"
  "json_string (Suc n) ([CHR 0x5C] @ ''u2029'' @ r) = prepend [CHR 0xE2, CHR 0x80, CHR 0xA9] (json_string n r)"
proof -
  have "char_of (226 :: nat) = CHR 0xE2" "char_of (128 :: nat) = CHR 0x80"
    "char_of (168 :: nat) = CHR 0xA8" "char_of (169 :: nat) = CHR 0xA9"
    by (simp_all add: char_of_eq_iff)
  then have "utf8 0x2028 = [CHR 0xE2, CHR 0x80, CHR 0xA8]" "utf8 0x2029 = [CHR 0xE2, CHR 0x80, CHR 0xA9]"
    by (simp_all add: utf8_def)
  then show
    "json_string (Suc n) ([CHR 0x5C] @ ''u2028'' @ r) = prepend [CHR 0xE2, CHR 0x80, CHR 0xA8] (json_string n r)"
    "json_string (Suc n) ([CHR 0x5C] @ ''u2029'' @ r) = prepend [CHR 0xE2, CHR 0x80, CHR 0xA9] (json_string n r)"
    by (simp_all add: json_string.simps(2) hex_value_def isDigit_def unicode_escape_def prepend_def)
qed

lemma json_string_replacement:
  "json_string (Suc n) ([CHR 0x5C] @ ''ufffd'' @ r) = prepend replacement (json_string n r)"
proof -
  have "char_of (239 :: nat) = CHR 0xEF" "char_of (191 :: nat) = CHR 0xBF" "char_of (189 :: nat) = CHR 0xBD"
    by (simp_all add: char_of_eq_iff)
  then have "utf8 0xFFFD = replacement" by (simp add: utf8_def replacement_def)
  then show ?thesis
    by (simp add: json_string.simps(2) hex_value_def isDigit_def byte_in_def unicode_escape_def prepend_def)
qed

lemma json_quote_step:
  assumes "s \<noteq> []"
  obtains e where "json_quote_fuel (Suc m) s = e @ json_quote_fuel m (after_rune s)" "e \<noteq> []"
    "\<And>n r. json_string (Suc n) (e @ r) = prepend (first_rune s) (json_string n r)"
proof -
  obtain c cs where s: "s = c # cs" using assms by (cases s) auto
  consider "rune_len s = 0" | "rune_len s = 1" | "2 \<le> rune_len s" by linarith
  then show thesis
  proof cases
    case 1
    with s json_string_replacement show thesis
      by (intro that [of "[CHR 0x5C] @ ''ufffd''"]) (auto simp: first_rune_def after_rune_def)
  next
    case 2
    then have "of_char c < (128 :: nat)" using rune_len_one s by simp
    with 2 s json_string_byte show thesis
      by (intro that [of "json_byte c"]) (auto simp: json_byte_def first_rune_def after_rune_def)
  next
    case 3
    have after: "first_rune s = take (rune_len s) s" "after_rune s = drop (rune_len s) s"
      using 3 by (auto simp: first_rune_def after_rune_def max_def)
    let ?w = "take (rune_len s) s"
    have w: "length ?w = rune_len s" "?w \<noteq> []" using rune_len_bounds(1) [of s] 3 by auto
    consider (ls) "?w = [CHR 0xE2, CHR 0x80, CHR 0xA8]" | (ps) "?w = [CHR 0xE2, CHR 0x80, CHR 0xA9]"
      | (other) "?w \<noteq> [CHR 0xE2, CHR 0x80, CHR 0xA8]" "?w \<noteq> [CHR 0xE2, CHR 0x80, CHR 0xA9]"
      by blast
    then show thesis
    proof cases
      case ls
      then have three: "rune_len s = 3" using w by simp
      have "json_quote_fuel (Suc m) s = ([CHR 0x5C] @ ''u2028'') @ json_quote_fuel m (after_rune s)"
        using 3 s after ls three by simp
      then show thesis
        using ls after json_string_line_separators(1) by (intro that [of "[CHR 0x5C] @ ''u2028''"]) auto
    next
      case ps
      then have three: "rune_len s = 3" using w by simp
      have "json_quote_fuel (Suc m) s = ([CHR 0x5C] @ ''u2029'') @ json_quote_fuel m (after_rune s)"
        using 3 s after ps three by simp
      then show thesis
        using ps after json_string_line_separators(2) by (intro that [of "[CHR 0x5C] @ ''u2029''"]) auto
    next
      case other
      have "json_quote_fuel (Suc m) s = ?w @ json_quote_fuel m (after_rune s)"
        using 3 s after other by (simp add: Let_def)
      then show thesis using after json_string_rune [OF 3] w(2) by (intro that [of ?w]) auto
    qed
  qed
qed

lemma json_string_quote_fuel:
  assumes "length s \<le> m" "length (json_quote_fuel m s) < n"
  shows "json_string n (json_quote_fuel m s @ CHR 0x22 # r) = Some (to_valid s, r)"
  using assms
proof (induction "length s" arbitrary: s m n rule: less_induct)
  case less
  show ?case
  proof (cases "s = []")
    case True
    with less.prems(2) show ?thesis
      by (cases n; cases m) (auto simp: json_string.simps(2))
  next
    case False
    have shorter: "length (after_rune s) < length s" using False by (simp add: after_rune_def)
    obtain m' where m: "m = Suc m'" using False less.prems(1) by (cases m) auto
    obtain e where e: "json_quote_fuel (Suc m') s = e @ json_quote_fuel m' (after_rune s)" "e \<noteq> []"
      "\<And>n r. json_string (Suc n) (e @ r) = prepend (first_rune s) (json_string n r)"
      using json_quote_step [OF False] by blast
    obtain n' where n: "n = Suc n'" using less.prems(2) by (cases n) auto
    have "json_string n' (json_quote_fuel m' (after_rune s) @ CHR 0x22 # r)
        = Some (to_valid (after_rune s), r)"
    proof (rule less.hyps [OF shorter])
      show "length (after_rune s) \<le> m'" using less.prems(1) m shorter by simp
      show "length (json_quote_fuel m' (after_rune s)) < n'"
        using less.prems(2) unfolding m e(1) n by (cases e) (use e(2) in auto)
    qed
    with e(1,3) m n False show ?thesis by (simp add: prepend_def to_valid.simps [of s])
  qed
qed

lemma json_quote_eq: "json_quote s = CHR 0x22 # json_quote_fuel (length s) s @ [CHR 0x22]"
  by (simp add: json_quote_def)

lemma json_string_quote:
  "json_string (Suc (length (json_quote_fuel (length s) s @ CHR 0x22 # r)))
      (json_quote_fuel (length s) s @ CHR 0x22 # r) = Some (to_valid s, r)"
  using json_string_quote_fuel [OF order.refl] by simp

section \<open>Numbers\<close>

text \<open>What may follow a value inside an object or array.\<close>

definition delimited :: "string \<Rightarrow> bool" where
  "delimited r \<longleftrightarrow> r = [] \<or> hd r = CHR '','' \<or> hd r = CHR ''}'' \<or> hd r = CHR '']'' \<or> json_ws (hd r)"

lemma delimited_no_digit: "delimited r \<Longrightarrow> r \<noteq> [] \<Longrightarrow> \<not> isDigit (hd r)"
  by (auto simp: delimited_def isDigit_def json_ws_def)

lemma takeWhile_digits:
  assumes "list_all isDigit ds" "delimited r"
  shows "takeWhile isDigit (ds @ r) = ds" "dropWhile isDigit (ds @ r) = r"
proof -
  have "takeWhile isDigit r = []" "dropWhile isDigit r = r"
    using delimited_no_digit [OF assms(2)] by (cases r; simp)+
  with assms(1) show "takeWhile isDigit (ds @ r) = ds" "dropWhile isDigit (ds @ r) = r"
    by (simp_all add: list_all_iff)
qed

lemma nat_digits_hd: "0 < n \<Longrightarrow> hd (nat_digits n) \<noteq> CHR ''0''"
proof (induction n rule: nat_digits.induct)
  case (1 n)
  show ?case
  proof (cases "n < 10")
    case True
    have "(of_char (char_of (48 + n) :: char) :: nat) = 48 + n" using True by simp
    then have "(of_char (char_of (48 + n) :: char) :: nat) \<noteq> of_char (CHR ''0'')" using 1(2) by simp
    then have "char_of (48 + n) \<noteq> CHR ''0''" by metis
    with True show ?thesis by (subst nat_digits.simps) simp
  next
    case False
    with 1 show ?thesis by (subst nat_digits.simps) simp
  qed
qed

lemma scan_rest:
  assumes "delimited r"
  shows "json_fraction r = Some ([], r)" "json_exponent r = Some (0, r)"
  using assms by (auto simp: delimited_def json_fraction_def json_exponent_def json_ws_def split: list.split)

lemma nat_digits_zero: "nat_digits 0 = ''0''"
  by (subst nat_digits.simps) (simp add: char_of_eq_iff)

lemma scan_digits:
  assumes "delimited r"
  shows "\<exists>ip. scan_number (nat_digits n @ r) = Some ((False, ip, [], 0), r)
    \<and> scan_number (CHR ''-'' # nat_digits n @ r) = Some ((True, ip, [], 0), r)"
proof (cases "n = 0")
  case True
  with scan_rest [OF assms] show ?thesis by (simp add: scan_number_def nat_digits_zero)
next
  case False
  let ?ds = "nat_digits n"
  have ds: "?ds \<noteq> []" "hd ?ds \<noteq> CHR ''0''" "hd ?ds \<noteq> CHR ''-''"
    using False nat_digits_hd [of n] nat_digits_isDigit [of n]
    by (auto simp: isDigit_def list_all_iff hd_in_set dest!: bspec [OF _ hd_in_set])
  with takeWhile_digits [OF nat_digits_isDigit assms, of n] scan_rest [OF assms] show ?thesis
    by (simp add: scan_number_def Let_def)
qed

lemma json_literal_Itoa:
  assumes "delimited r"
  shows "json_literal (Itoa i @ r) = Some (Itoa i, r)"
  using scan_digits [OF assms, of "nat \<bar>i\<bar>"]
  by (cases "i < 0") (auto simp: Itoa_def json_literal_def)

section \<open>Objects of scalars\<close>

fun scalar_text :: "raw \<Rightarrow> string" where
  "scalar_text RNull = ''null''"
| "scalar_text (RBool b) = (if b then ''true'' else ''false'')"
| "scalar_text (RNum lit) = lit"
| "scalar_text (RStr s) = json_quote s"
| "scalar_text v = []"

fun scalar_ok :: "raw \<Rightarrow> bool" where
  "scalar_ok (RNum lit) \<longleftrightarrow> (\<exists>i. lit = Itoa i)"
| "scalar_ok (RArr vs) \<longleftrightarrow> False"
| "scalar_ok (RObj kvs) \<longleftrightarrow> False"
| "scalar_ok v \<longleftrightarrow> True"

fun read_back :: "raw \<Rightarrow> raw" where
  "read_back (RStr s) = RStr (to_valid s)"
| "read_back v = v"

definition read_member :: "string \<times> raw \<Rightarrow> string \<times> raw" where
  "read_member m = (fst m, read_back (snd m))"

definition member_text :: "string \<times> raw \<Rightarrow> string" where
  "member_text m = json_quote (fst m) @ '':'' @ scalar_text (snd m)"

definition object_text :: "(string \<times> raw) list \<Rightarrow> string" where
  "object_text ms = ''{'' @ Join '','' (map member_text ms) @ ''}''"

lemma skip_ws_Cons: "\<not> json_ws c \<Longrightarrow> skip_ws (c # s) = c # s"
  by (simp add: skip_ws_def)

lemma Itoa_first:
  obtains c cs where "Itoa i = c # cs" "isDigit c \<or> c = CHR ''-''"
proof (cases "i < 0")
  case True
  then show thesis using that by (simp add: Itoa_def)
next
  case False
  obtain c cs where c: "nat_digits (nat i) = c # cs" by (metis list.exhaust nat_digits_nonempty)
  moreover have "isDigit c" using nat_digits_isDigit [of "nat i"] c by simp
  ultimately show thesis using that False by (simp add: Itoa_def)
qed

lemma json_value_scalar:
  assumes "scalar_ok v" "delimited r"
  shows "json_value (Suc n) d (scalar_text v @ r) = Some (read_back v, r)"
proof (cases v)
  case (RNum lit)
  then obtain i where i: "lit = Itoa i" using assms(1) by auto
  obtain c cs where c: "Itoa i = c # cs" "isDigit c \<or> c = CHR ''-''" by (rule Itoa_first)
  then have "\<not> json_ws c" "c \<noteq> CHR 0x22" "c \<noteq> CHR ''[''" "c \<noteq> CHR ''{''" "c \<noteq> CHR ''t''"
    "c \<noteq> CHR ''f''" "c \<noteq> CHR ''n''"
    by (auto simp: json_ws_def isDigit_def)
  with c(1) json_literal_Itoa [OF assms(2), of i] show ?thesis
    by (simp add: RNum i json_value.simps(2) skip_ws_Cons)
next
  case (RStr s)
  from json_string_quote [of s r] show ?thesis
    by (simp add: RStr json_quote_eq json_value.simps(2) skip_ws_Cons json_ws_def)
qed (use assms(1) in \<open>auto simp: json_value.simps(2) skip_ws_Cons json_ws_def\<close>)

lemma json_members_text:
  assumes "ms \<noteq> []" "\<forall>m\<in>set ms. valid_utf8 (fst m) \<and> scalar_ok (snd m)" "length ms < n"
  shows "json_members n d acc (Join '','' (map member_text ms) @ CHR ''}'' # r) = Some (RObj (acc @ map read_member ms), r)"
  using assms
proof (induction ms arbitrary: acc n)
  case (Cons m ms)
  obtain k v where m: "m = (k, v)" by fastforce
  have ok: "valid_utf8 k" "scalar_ok v" using Cons.prems(2) m by auto
  obtain n' where n: "n = Suc (Suc n')" using Cons.prems(3) by (cases n; cases "n - 1") auto
  let ?rest = "(if ms = [] then [] else CHR '','' # Join '','' (map member_text ms)) @ CHR ''}'' # r"
  have txt_eq: "Join '','' (map member_text (m # ms)) @ CHR ''}'' # r =
      CHR 0x22 # json_quote_fuel (length k) k @ CHR 0x22 # CHR '':'' # scalar_text v @ ?rest"
    by (simp add: m member_text_def Join_Cons json_quote_eq)
  have "delimited ?rest" by (simp add: delimited_def)
  note val = json_value_scalar [OF ok(2) this, of n' d]
  note key = json_string_quote [of k "CHR '':'' # scalar_text v @ ?rest", unfolded to_valid_id [OF ok(1)]]
  have IH: "json_members (Suc n') d (acc @ [(k, read_back v)]) (Join '','' (map member_text ms) @ CHR ''}'' # r)
      = Some (RObj (acc @ (k, read_back v) # map read_member ms), r)" if "ms \<noteq> []"
    using Cons.IH [OF that, of "Suc n'" "acc @ [(k, read_back v)]"] Cons.prems n by simp
  show ?case
    unfolding n txt_eq using key val IH
    by (cases "ms = []") (auto simp: m read_member_def json_members.simps(2) skip_ws_Cons json_ws_def)
qed simp

lemma json_document_object:
  assumes "\<forall>m\<in>set ms. valid_utf8 (fst m) \<and> scalar_ok (snd m)"
  shows "json_document (object_text ms) = Some (RObj (map read_member ms))"
proof (cases "ms = []")
  case True
  have "json_document ''{}'' = Some (RObj [])" by code_simp
  with True show ?thesis by (simp add: object_text_def)
next
  case False
  let ?body = "Join '','' (map member_text ms) @ ''}''"
  have len: "length ms \<le> length (Join '','' (map member_text ms))"
  proof (induction ms)
    case (Cons m ms)
    then show ?case by (auto simp: Join_Cons member_text_def json_quote_def)
  qed simp
  obtain k v ms' where ms: "ms = (k, v) # ms'" using False by (cases ms) auto
  then have body: "\<exists>t. ?body = CHR 0x22 # t"
    by (auto simp: Join_Cons member_text_def json_quote_def)
  then obtain t where t: "?body = CHR 0x22 # t" by blast
  define n where "n = 2 * length ?body + 3"
  have "json_members n (Suc 0) [] ?body = Some (RObj (map read_member ms), [])"
    using json_members_text [OF False assms, of n "Suc 0" "[]" "[]"] len by (simp add: n_def)
  then have "json_value (Suc n) 0 (CHR ''{'' # ?body) = Some (RObj (map read_member ms), [])"
    unfolding t by (simp add: json_value.simps(2) skip_ws_Cons json_ws_def max_depth_def)
  moreover have "2 * length (object_text ms) + 2 = Suc n"
    by (simp add: object_text_def n_def)
  ultimately show ?thesis
    unfolding json_document_def by (simp add: object_text_def skip_ws_def del: add_2_eq_Suc')
qed

section \<open>Decoded strings are valid\<close>

lemma rune_len_append: "rune_len s \<noteq> 0 \<Longrightarrow> rune_len (s @ t) = rune_len s"
  using rune_len_take [of s "drop (rune_len s) s @ t"] by (simp flip: append_assoc)

lemma valid_utf8_append: "valid_utf8 s \<Longrightarrow> valid_utf8 t \<Longrightarrow> valid_utf8 (s @ t)"
proof (induction s rule: valid_utf8.induct)
  case (1 s)
  show ?case
  proof (cases "s = []")
    case False
    with valid_utf8_step [OF "1.prems"(1)] have *: "rune_len s \<noteq> 0" "valid_utf8 (drop (rune_len s) s)" by auto
    with 1 False have "valid_utf8 (drop (rune_len s) s @ t)" by auto
    with * False rune_len_bounds(1) [of s] show ?thesis
      by (subst valid_utf8.simps) (simp add: rune_len_append)
  qed (use 1 in simp)
qed

lemma valid_utf8_rune: "rune_len s = length s \<Longrightarrow> valid_utf8 s"
  by (subst valid_utf8.simps) simp

lemma byte_in_char_of: "n < 256 \<Longrightarrow> byte_in lo hi (char_of n) \<longleftrightarrow> lo \<le> n \<and> n \<le> hi"
  by (simp add: byte_in_def)

lemma base64_digits:
  fixes u :: nat
  shows "u = 64 * (u div 64) + u mod 64" "u = 4096 * (u div 4096) + 64 * (u div 64 mod 64) + u mod 64"
    "u = 262144 * (u div 262144) + 4096 * (u div 4096 mod 64) + 64 * (u div 64 mod 64) + u mod 64"
proof -
  have *: "u div 4096 = u div 64 div 64" "u div 262144 = u div 64 div 64 div 64" by (simp_all flip: div_mult2_eq)
  show one: "u = 64 * (u div 64) + u mod 64" by simp
  have two: "u div 64 = 64 * (u div 64 div 64) + u div 64 mod 64" by simp
  have three: "u div 64 div 64 = 64 * (u div 64 div 64 div 64) + u div 64 div 64 mod 64" by simp
  show "u = 4096 * (u div 4096) + 64 * (u div 64 mod 64) + u mod 64" using one two unfolding * by linarith
  show "u = 262144 * (u div 262144) + 4096 * (u div 4096 mod 64) + 64 * (u div 64 mod 64) + u mod 64"
    using one two three unfolding * by linarith
qed

lemma utf8_two:
  fixes u :: nat
  assumes "0x80 \<le> u" "u < 0x800"
  shows "two_bytes (char_of (0xC0 + u div 64)) (char_of (0x80 + u mod 64))"
proof -
  have m: "u mod 64 < 64" by simp
  with base64_digits(1) [of u] assms have d: "2 \<le> u div 64" "u div 64 \<le> 31" by linarith+
  from m d have b: "0xC0 + u div 64 < 256" "0x80 + u mod 64 < 256" by linarith+
  show ?thesis unfolding two_bytes_def cont_byte_def byte_in_char_of [OF b(1)] byte_in_char_of [OF b(2)] using m d by linarith
qed

lemma utf8_three:
  fixes u :: nat
  assumes "0x800 \<le> u" "u < 0x10000" "u < 0xD800 \<or> 0xDFFF < u"
  shows "three_bytes (char_of (0xE0 + u div 4096)) (char_of (0x80 + u div 64 mod 64)) (char_of (0x80 + u mod 64))"
proof -
  have m: "u mod 64 < 64" "u div 64 mod 64 < 64" by simp_all
  with base64_digits(2) [of u] assms have d: "u div 4096 \<le> 15" "u div 4096 = 0 \<Longrightarrow> 32 \<le> u div 64 mod 64"
    "u div 4096 = 13 \<Longrightarrow> u div 64 mod 64 \<le> 31" by linarith+
  from m d have b: "0xE0 + u div 4096 < 256" "0x80 + u div 64 mod 64 < 256" "0x80 + u mod 64 < 256" by linarith+
  show ?thesis unfolding three_bytes_def cont_byte_def byte_in_char_of [OF b(1)] byte_in_char_of [OF b(2)] byte_in_char_of [OF b(3)]
    using m d by auto
qed

lemma utf8_four:
  fixes u :: nat
  assumes "0x10000 \<le> u" "u < 0x110000"
  shows "four_bytes (char_of (0xF0 + u div 262144)) (char_of (0x80 + u div 4096 mod 64))
    (char_of (0x80 + u div 64 mod 64)) (char_of (0x80 + u mod 64))"
proof -
  have m: "u mod 64 < 64" "u div 64 mod 64 < 64" "u div 4096 mod 64 < 64" by simp_all
  with base64_digits(3) [of u] assms have d: "u div 262144 \<le> 4" "u div 262144 = 0 \<Longrightarrow> 16 \<le> u div 4096 mod 64"
    "u div 262144 = 4 \<Longrightarrow> u div 4096 mod 64 \<le> 15" by linarith+
  from m d have b: "0xF0 + u div 262144 < 256" "0x80 + u div 4096 mod 64 < 256" "0x80 + u div 64 mod 64 < 256" "0x80 + u mod 64 < 256"
    by linarith+
  show ?thesis unfolding four_bytes_def cont_byte_def byte_in_char_of [OF b(1)] byte_in_char_of [OF b(2)]
      byte_in_char_of [OF b(3)] byte_in_char_of [OF b(4)] using m d by auto
qed

lemma valid_utf8_utf8:
  assumes "u < 0x110000" "u < 0xD800 \<or> 0xDFFF < u"
  shows "valid_utf8 (utf8 u)"
proof (rule valid_utf8_rune)
  consider "u < 0x80" | "0x80 \<le> u" "u < 0x800" | "0x800 \<le> u" "u < 0x10000" | "0x10000 \<le> u" by linarith
  then show "rune_len (utf8 u) = length (utf8 u)"
  proof cases
    case 1
    then show ?thesis by (simp add: utf8_def rune_len_ascii)
  next
    case 2
    with rune_len_eqs(2) [OF utf8_two [OF 2], of "[]"] show ?thesis by (simp add: utf8_def)
  next
    case 3
    with rune_len_eqs(3) [OF utf8_three [OF 3 assms(2)], of "[]"] show ?thesis by (simp add: utf8_def)
  next
    case 4
    with rune_len_eqs(4) [OF utf8_four [OF 4 assms(1)], of "[]"] show ?thesis by (simp add: utf8_def)
  qed
qed

lemma hex_value_less: "hex_value c = Some n \<Longrightarrow> n < 16"
  by (auto simp: hex_value_def byte_in_def isDigit_def digit_value.simps split: if_splits)

lemma hex4_less: "hex4 s = Some (n, r) \<Longrightarrow> n < 0x10000"
  by (cases s rule: hex4.cases) (auto split: option.splits dest!: hex_value_less)

lemma getu4_less: "getu4 s = Some (n, r) \<Longrightarrow> n < 0x10000"
  by (cases s rule: getu4.cases) (auto dest: hex4_less split: if_splits)

lemma valid_utf8_replacement: "valid_utf8 replacement"
  by (rule valid_utf8_rune) (simp add: replacement_def rune_len_def byte_in_def cont_byte_def)

lemma valid_unicode_escape: "u < 0x10000 \<Longrightarrow> valid_utf8 (fst (unicode_escape u r))"
  by (auto simp: unicode_escape_def valid_utf8_replacement split: option.split prod.split intro!: valid_utf8_utf8)

lemma valid_simple_escape: "simple_escape c = Some b \<Longrightarrow> valid_utf8 [b]"
  by (rule valid_utf8_ascii) (auto simp: simple_escape_def split: if_splits)

text \<open>A decoded string is valid UTF-8.\<close>

lemma json_string_valid: "json_string n s = Some (t, r) \<Longrightarrow> valid_utf8 t"
proof (induction n arbitrary: s t r)
  case (Suc n)
  have emit: "valid_utf8 t'" if "map_option (\<lambda>(t, r'). (out @ t, r')) (json_string n q) = Some (t', r')" "valid_utf8 out" for out q t' r'
    using that Suc.IH valid_utf8_append by auto
  have run: "valid_utf8 (take (rune_len x) x)" if "rune_len x \<noteq> 0" for x
    using rune_len_take [OF that, of "[]"] rune_len_bounds(1) [of x] by (intro valid_utf8_rune) simp
  show ?case
  proof (cases s)
    case (Cons c cs)
    note prems = Suc.prems [unfolded json_string.simps(2) Let_def Cons list.case]
    show ?thesis
    proof (cases "c = CHR 0x5C")
      case True
      with prems obtain e q where cs: "cs = e # q" by (cases cs) auto
      show ?thesis
      proof (cases "e = CHR ''u''")
        case u: True
        obtain v q' where "hex4 q = Some (v, q')" using prems True cs u by (cases "hex4 q") auto
        with prems True cs u emit valid_unicode_escape [OF hex4_less [OF this], of q'] show ?thesis
          by (auto simp del: map_option_eq_Some split: prod.splits)
      next
        case False
        then obtain b where "simple_escape e = Some b" using prems True cs by (cases "simple_escape e") auto
        with prems True cs False emit [OF _ valid_simple_escape [OF this]] show ?thesis
          by (auto simp del: map_option_eq_Some)
      qed
    next
      case False
      with prems emit [OF _ valid_utf8_replacement] emit [OF _ run [of s]] Cons show ?thesis
        by (auto simp del: map_option_eq_Some split: if_splits)
    qed
  qed (use Suc.prems in \<open>simp add: json_string.simps(2)\<close>)
qed simp

text \<open>So are all the strings of a decoded value.\<close>

fun raw_valid :: "raw \<Rightarrow> bool" where
  "raw_valid (RStr s) \<longleftrightarrow> valid_utf8 s"
| "raw_valid (RArr vs) \<longleftrightarrow> list_all raw_valid vs"
| "raw_valid (RObj kvs) \<longleftrightarrow> list_all (\<lambda>(k, v). valid_utf8 k \<and> raw_valid v) kvs"
| "raw_valid _ \<longleftrightarrow> True"

lemma json_value_valid:
  "json_value n d s = Some (v, r) \<Longrightarrow> raw_valid v"
  "json_elems n d acc s = Some (v, r) \<Longrightarrow> list_all raw_valid acc \<Longrightarrow> raw_valid v"
  "json_members n d ms s = Some (v, r) \<Longrightarrow> list_all (\<lambda>(k, v). valid_utf8 k \<and> raw_valid v) ms \<Longrightarrow> raw_valid v"
proof (induction n arbitrary: d s v r acc ms)
  case (Suc n)
  note IH = Suc
  {
    case 1
    then show ?case
      unfolding json_value.simps by (auto split: list.splits if_splits dest: json_string_valid IH(2) IH(3))
  next
    case 2
    then show ?case
      unfolding json_elems.simps by (auto split: list.splits if_splits option.splits dest!: IH(1) elim!: IH(2))
  next
    case 3
    then show ?case
      unfolding json_members.simps
      by (auto split: list.splits if_splits option.splits dest!: json_string_valid IH(1) elim!: IH(3))
  }
qed simp_all

end
