(* ===== verification/JsonStruct.thy ===== *)
theory JsonStruct
  imports JsonText Model
begin

text \<open>
  Decoding into a struct and encoding of one, as the sources use it: members whose name
  matches a field up to letter case are assigned in the order of the document, \<open>null\<close>
  leaves a field alone, a member of another type is an error and other members are ignored.
\<close>

section \<open>Field names\<close>

text \<open>
  The folding of names: ASCII letters, and the two other runes that fold to one, U+017F
  and U+212A.
\<close>

definition ascii_lower :: "char \<Rightarrow> char" where
  "ascii_lower c = (if byte_in 0x41 0x5A c then char_of ((of_char c :: nat) + 32) else c)"

fun fold_name :: "string \<Rightarrow> string" where
  "fold_name [] = []"
| "fold_name (c # s) =
     (if c = CHR 0xC5 \<and> s \<noteq> [] \<and> hd s = CHR 0xBF then CHR ''s'' # fold_name (tl s)
      else if c = CHR 0xE2 \<and> take 2 s = [CHR 0x84, CHR 0xAA] then CHR ''k'' # fold_name (drop 2 s)
      else ascii_lower c # fold_name s)"

definition plain_name :: "string \<Rightarrow> bool" where
  "plain_name f \<longleftrightarrow> (\<forall>c\<in>set f. byte_in 0x61 0x7A c \<or> c = CHR ''_'')"

lemma fold_plain_name: "plain_name f \<Longrightarrow> fold_name f = f"
proof (induction f)
  case (Cons c f)
  then have "byte_in 0x61 0x7A c \<or> c = CHR ''_''" "fold_name f = f" by (auto simp: plain_name_def)
  then show ?case by (auto simp: ascii_lower_def byte_in_def)
qed simp

section \<open>Fields\<close>

type_synonym members = "(string \<times> raw) list"

definition field_values :: "string \<Rightarrow> members \<Rightarrow> raw list" where
  "field_values f ms = map snd (filter (\<lambda>(k, v). fold_name k = f) ms)"

definition string_field :: "string \<Rightarrow> members \<Rightarrow> string res" where
  "string_field f ms =
     for_each (\<lambda>v acc. case v of RNull \<Rightarrow> Inr acc | RStr s \<Rightarrow> Inr s | _ \<Rightarrow> Inl ErrJSON)
       (field_values f ms) []"

definition int_field :: "string \<Rightarrow> members \<Rightarrow> goint res" where
  "int_field f ms =
     for_each (\<lambda>v acc. case v of
         RNull \<Rightarrow> Inr acc
       | RNum lit \<Rightarrow> (case Atoi lit of Some n \<Rightarrow> Inr (word_of_int n) | None \<Rightarrow> Inl ErrJSON)
       | _ \<Rightarrow> Inl ErrJSON)
       (field_values f ms) 0"

text \<open>The members of the document: \<open>null\<close> assigns nothing.\<close>

definition json_object :: "string \<Rightarrow> members res" where
  "json_object s =
     (case json_document s of
        Some (RObj ms) \<Rightarrow> Inr ms | Some RNull \<Rightarrow> Inr [] | _ \<Rightarrow> Inl ErrJSON)"

lemma field_values_simps [simp]:
  "field_values f [] = []"
  "field_values f (m # ms) = (if fold_name (fst m) = f then [snd m] else []) @ field_values f ms"
  "field_values f (ms @ ns) = field_values f ms @ field_values f ns"
  by (auto simp: field_values_def split: prod.split)

section \<open>Step results\<close>

text \<open>\<open>json.Marshal\<close> of a step result, by the tags of the struct.\<close>

definition string_member :: "string \<Rightarrow> string \<Rightarrow> members" where
  "string_member f s = [(f, RStr s)]"

definition omit_string :: "string \<Rightarrow> string \<Rightarrow> members" where
  "omit_string f s = (if s = [] then [] else [(f, RStr s)])"

definition omit_int :: "string \<Rightarrow> goint \<Rightarrow> members" where
  "omit_int f n = (if n = 0 then [] else [(f, RNum (Itoa (sint n)))])"

definition StepResult_members :: "StepResult \<Rightarrow> members" where
  "StepResult_members sr =
     string_member ''session_id'' (sr_SessionID sr) @ string_member ''step_id'' (sr_StepID sr) @
     string_member ''status'' (sr_Status sr) @ omit_string ''output'' (sr_Output sr) @
     omit_string ''error'' (sr_Error sr) @ omit_int ''tokens'' (sr_Tokens sr) @
     omit_int ''duration_ms'' (sr_DurationMS sr)"

definition Marshal_StepResult :: "StepResult \<Rightarrow> string" where
  "Marshal_StepResult sr = object_text (StepResult_members sr)"

definition Unmarshal_StepResult :: "string \<Rightarrow> StepResult res" where
  "Unmarshal_StepResult s =
     bind_res (json_object s) (\<lambda>ms.
     bind_res (string_field ''session_id'' ms) (\<lambda>sid.
     bind_res (string_field ''step_id'' ms) (\<lambda>step.
     bind_res (string_field ''status'' ms) (\<lambda>status.
     bind_res (string_field ''output'' ms) (\<lambda>out.
     bind_res (string_field ''error'' ms) (\<lambda>err.
     bind_res (int_field ''tokens'' ms) (\<lambda>tokens.
     bind_res (int_field ''duration_ms'' ms) (\<lambda>dur.
       Inr \<lparr>sr_SessionID = sid, sr_StepID = step, sr_Status = status, sr_Output = out,
            sr_Error = err, sr_Tokens = tokens, sr_DurationMS = dur\<rparr>))))))))"

definition valid_StepResult :: "StepResult \<Rightarrow> StepResult" where
  "valid_StepResult sr = sr\<lparr>sr_SessionID := to_valid (sr_SessionID sr), sr_StepID := to_valid (sr_StepID sr),
     sr_Status := to_valid (sr_Status sr), sr_Output := to_valid (sr_Output sr),
     sr_Error := to_valid (sr_Error sr)\<rparr>"

lemma Atoi_sint: "Atoi (Itoa (sint (n :: goint))) = Some (sint n)"
  using sint_ge [of n] sint_less [of n] by (intro Atoi_Itoa) simp_all

lemmas member_defs = string_member_def omit_string_def omit_int_def

lemma plain_name_valid: "plain_name f \<Longrightarrow> valid_utf8 f"
  by (rule valid_utf8_ascii) (auto simp: plain_name_def byte_in_def)

definition members_ok :: "members \<Rightarrow> bool" where
  "members_ok ms \<longleftrightarrow> (\<forall>m\<in>set ms. valid_utf8 (fst m) \<and> scalar_ok (snd m))"

lemma members_ok_simps:
  "members_ok (ms @ ns) \<longleftrightarrow> members_ok ms \<and> members_ok ns"
  "plain_name f \<Longrightarrow> members_ok (string_member f s)"
  "plain_name f \<Longrightarrow> members_ok (omit_string f s)"
  "plain_name f \<Longrightarrow> members_ok (omit_int f n)"
  by (auto simp: members_ok_def member_defs dest: plain_name_valid)

text \<open>The values of a field in a document that was encoded.\<close>

definition encoded_values :: "string \<Rightarrow> members \<Rightarrow> raw list" where
  "encoded_values f ms = field_values f (map read_member ms)"

lemma encoded_values_simps:
  "encoded_values f (ms @ ns) = encoded_values f ms @ encoded_values f ns"
  "plain_name g \<Longrightarrow> encoded_values f (string_member g s) = (if g = f then [RStr (to_valid s)] else [])"
  "plain_name g \<Longrightarrow> encoded_values f (omit_string g s) =
     (if g = f then if s = [] then [] else [RStr (to_valid s)] else [])"
  "plain_name g \<Longrightarrow> encoded_values f (omit_int g n) =
     (if g = f then if n = 0 then [] else [RNum (Itoa (sint n))] else [])"
  by (auto simp: encoded_values_def member_defs read_member_def fold_plain_name)

lemma field_encoded:
  "encoded_values f ms = [RStr s] \<Longrightarrow> string_field f (map read_member ms) = Inr s"
  "encoded_values f ms = (if s = [] then [] else [RStr (to_valid s)]) \<Longrightarrow>
     string_field f (map read_member ms) = Inr (to_valid s)"
  "encoded_values f ms = (if n = 0 then [] else [RNum (Itoa (sint n))]) \<Longrightarrow>
     int_field f (map read_member ms) = Inr n"
  by (simp_all add: encoded_values_def string_field_def int_field_def Atoi_sint split: if_splits)

lemma json_object_text: "members_ok ms \<Longrightarrow> json_object (object_text ms) = Inr (map read_member ms)"
  by (simp add: json_object_def members_ok_def json_document_object)

lemma step_field_names:
  "plain_name ''session_id''" "plain_name ''step_id''" "plain_name ''status''" "plain_name ''output''"
  "plain_name ''error''" "plain_name ''tokens''" "plain_name ''duration_ms''"
  by (simp_all add: plain_name_def byte_in_def)

lemma StepResult_values:
  "encoded_values ''session_id'' (StepResult_members sr) = [RStr (to_valid (sr_SessionID sr))]"
  "encoded_values ''step_id'' (StepResult_members sr) = [RStr (to_valid (sr_StepID sr))]"
  "encoded_values ''status'' (StepResult_members sr) = [RStr (to_valid (sr_Status sr))]"
  "encoded_values ''output'' (StepResult_members sr) =
     (if sr_Output sr = [] then [] else [RStr (to_valid (sr_Output sr))])"
  "encoded_values ''error'' (StepResult_members sr) =
     (if sr_Error sr = [] then [] else [RStr (to_valid (sr_Error sr))])"
  "encoded_values ''tokens'' (StepResult_members sr) =
     (if sr_Tokens sr = 0 then [] else [RNum (Itoa (sint (sr_Tokens sr)))])"
  "encoded_values ''duration_ms'' (StepResult_members sr) =
     (if sr_DurationMS sr = 0 then [] else [RNum (Itoa (sint (sr_DurationMS sr)))])"
  unfolding StepResult_members_def
  by (simp_all only: encoded_values_simps step_field_names) simp_all

lemma Unmarshal_Marshal_StepResult:
  "Unmarshal_StepResult (Marshal_StepResult sr) = Inr (valid_StepResult sr)"
proof -
  have "members_ok (StepResult_members sr)"
    by (simp only: StepResult_members_def members_ok_simps step_field_names)
  note obj = json_object_text [OF this]
  note fields = StepResult_values(1-3) [of sr, THEN field_encoded(1)] StepResult_values(4,5) [of sr, THEN field_encoded(2)]
    StepResult_values(6,7) [of sr, THEN field_encoded(3)]
  show ?thesis
    unfolding Marshal_StepResult_def Unmarshal_StepResult_def obj bind_res_simps fields
    by (simp add: valid_StepResult_def)
qed

end
