(* ===== verification/Metrics.thy ===== *)
theory Metrics
  imports Json
begin

text \<open>
  \<open>internal/metrics\<close>: named counters.  A counter is an \<open>atomic.Int64\<close>, which wraps around;
  the map of counters is given by its entries, and a nil \<open>*Metrics\<close> is \<open>None\<close>.  The
  operations are atomic, so a concurrent run is a sequence of them.
\<close>

type_synonym counters = "(string \<times> 64 word) list"

definition JobsSubmitted :: string where "JobsSubmitted = ''harness_jobs_submitted_total''"
definition JobsCompleted :: string where "JobsCompleted = ''harness_jobs_completed_total''"
definition JobsFailed :: string where "JobsFailed = ''harness_jobs_failed_total''"
definition LLMRetries :: string where "LLMRetries = ''harness_llm_retries_total''"
definition SchemaFailures :: string where "SchemaFailures = ''harness_schema_failures_total''"

lemmas metric_names = JobsSubmitted_def JobsCompleted_def JobsFailed_def LLMRetries_def SchemaFailures_def

definition metrics_New :: counters where
  "metrics_New = map (\<lambda>name. (name, 0)) [JobsSubmitted, JobsCompleted, JobsFailed, LLMRetries, SchemaFailures]"

text \<open>\<open>counter\<close> registers a name on its first use.\<close>

definition counter :: "string \<Rightarrow> counters \<Rightarrow> 64 word \<times> counters" where
  "counter name m = (case map_of m name of Some c \<Rightarrow> (c, m) | None \<Rightarrow> (0, obj_put name 0 m))"

definition metrics_Add :: "string \<Rightarrow> 64 word \<Rightarrow> counters option \<Rightarrow> counters option" where
  "metrics_Add name n om =
     map_option (\<lambda>m. case counter name m of (c, m') \<Rightarrow> obj_put name (c + n) m') om"

definition metrics_Inc :: "string \<Rightarrow> counters option \<Rightarrow> counters option" where
  "metrics_Inc name om = metrics_Add name 1 om"

definition metrics_Get :: "string \<Rightarrow> counters option \<Rightarrow> 64 word \<times> counters option" where
  "metrics_Get name om =
     (case om of None \<Rightarrow> (0, None) | Some m \<Rightarrow> (case counter name m of (c, m') \<Rightarrow> (c, Some m')))"

definition metric_line :: "string \<times> 64 word \<Rightarrow> string" where
  "metric_line p = ''# TYPE '' @ fst p @ '' counter'' @ [CHR 0x0A] @ fst p @ '' '' @ Itoa (sint (snd p)) @ [CHR 0x0A]"

definition Render :: "counters option \<Rightarrow> string" where
  "Render om =
     (case om of None \<Rightarrow> []
      | Some m \<Rightarrow> concat (map (\<lambda>name. metric_line (name, fst (counter name m))) (sort (map fst m))))"

lemma counter_fst: "fst (counter name m) = (case map_of m name of None \<Rightarrow> 0 | Some c \<Rightarrow> c)"
  by (simp add: counter_def split: option.split)

lemma map_of_Add:
  "map_of (the (metrics_Add name n (Some m))) x =
     (if x = name then Some (fst (counter name m) + n) else map_of m x)"
  by (simp add: metrics_Add_def counter_def map_of_obj_put split: option.split)

lemma Get_value: "fst (metrics_Get name (Some m)) = fst (counter name m)"
  by (simp add: metrics_Get_def split: prod.split)

lemma Get_Add:
  "fst (metrics_Get x (metrics_Add name n (Some m))) =
     fst (metrics_Get x (Some m)) + (if x = name then n else 0)"
proof -
  obtain m' where m': "metrics_Add name n (Some m) = Some m'" by (simp add: metrics_Add_def)
  with map_of_Add [of name n m x] show ?thesis by (simp add: Get_value counter_fst)
qed

text \<open>
  However the increments of concurrent goroutines are ordered, a counter reads what it
  was plus the number of its increments, and no other counter moves.
\<close>

theorem metrics_count:
  "fst (metrics_Get x (fold metrics_Inc names (Some m))) =
     fst (metrics_Get x (Some m)) + of_nat (count_list names x)"
proof (induction names arbitrary: m)
  case (Cons name names)
  obtain m' where m': "metrics_Inc name (Some m) = Some m'" by (simp add: metrics_Inc_def metrics_Add_def)
  then have "fst (metrics_Get x (Some m')) = fst (metrics_Get x (Some m)) + (if x = name then 1 else 0)"
    using Get_Add [of x name 1 m] by (simp add: metrics_Inc_def)
  with Cons m' show ?case by auto
qed simp

end
