(* ===== verification/Worker.thy ===== *)
theory Worker
  imports PipelineRun StoreSpec JsonStruct Metrics
begin

text \<open>
  \<open>internal/engine/worker.go\<close>: the worker pool.  The pool is a machine; one event is one
  atomic action (an operation on the store, on the queue or on the quit channel) of a
  worker, of a goroutine that submits a job or of \<open>RequeueOrphans\<close>.  What the engine
  returns for a job is part of the event.
\<close>

section \<open>Executing one job\<close>

definition ErrQueueFull :: goerr where
  "ErrQueueFull = Sentinel ''engine: job queue is full''"

text \<open>Decoding into a \<open>map[string]string\<close>: a null is the empty string.\<close>

definition string_map :: "members \<Rightarrow> (string \<times> string) list res" where
  "string_map ms =
     for_each (\<lambda>(k, v) m. case v of RNull \<Rightarrow> Inr (obj_put k [] m) | RStr s \<Rightarrow> Inr (obj_put k s m)
                          | _ \<Rightarrow> Inl ErrJSON) ms []"

definition parseJobInput :: "string \<Rightarrow> (string \<times> string) list" where
  "parseJobInput raw =
     (let trimmed = TrimSpace raw in
      if prefix ''{'' trimmed
      then (case bind_res (json_object trimmed) string_map of
              Inr m \<Rightarrow> m | Inl _ \<Rightarrow> [(''input'', raw)])
      else [(''input'', raw)])"

record engine_ops =
  eo_RunAgent :: "string \<Rightarrow> string \<Rightarrow> AgentResult \<times> goerr option"
  eo_RunPipeline :: "string \<Rightarrow> (string \<times> string) list \<Rightarrow> PipelineResult \<times> goerr option"

definition agent_record :: "error_text \<Rightarrow> Job \<Rightarrow> AgentResult \<Rightarrow> goerr option \<Rightarrow> StepResult" where
  "agent_record text job res err =
     \<lparr>sr_SessionID = SessionID job, sr_StepID = TargetID job, sr_Status = stepStatus err,
      sr_Output = ar_Output res, sr_Error = errString text err, sr_Tokens = ar_Tokens res,
      sr_DurationMS = ar_DurationMS res\<rparr>"

definition step_record :: "Job \<Rightarrow> StepOutcome \<Rightarrow> StepResult" where
  "step_record job s =
     \<lparr>sr_SessionID = SessionID job, sr_StepID = so_StepID s, sr_Status = so_Status s,
      sr_Output = so_Output s, sr_Error = so_Error s, sr_Tokens = so_Tokens s,
      sr_DurationMS = so_DurationMS s\<rparr>"

text \<open>\<open>execute\<close>: the step results to record, the result and the error message.\<close>

definition execute :: "error_text \<Rightarrow> engine_ops \<Rightarrow> Job \<Rightarrow> StepResult list \<times> string \<times> string" where
  "execute text eng job =
     (if job_Kind job = KindAgent then
        (case eo_RunAgent eng (TargetID job) (job_Input job) of
           (res, err) \<Rightarrow> ([agent_record text job res err],
             case err of Some e \<Rightarrow> ([], text e) | None \<Rightarrow> (ar_Output res, [])))
      else if job_Kind job = KindPipeline then
        (case eo_RunPipeline eng (TargetID job) (parseJobInput (job_Input job)) of
           (res, err) \<Rightarrow> (map (step_record job) (pr_Steps res),
             case err of Some e \<Rightarrow> ([], text e) | None \<Rightarrow> (pr_Output res, [])))
      else ([], [], text (Errorf ''engine: unsupported job kind %q'' [job_Kind job])))"

section \<open>The pool\<close>

text \<open>
  Where a worker is: waiting in its \<open>select\<close>; in \<open>run\<close> with a session id; after \<open>GetJob\<close>;
  after the job is marked running; recording step results; returned.
\<close>

datatype wstate =
    WIdle
  | WTaken string
  | WLoaded string Job
  | WRunning string Job
  | WStoring string "StepResult list" string string
  | WExited

text \<open>
  \<open>p_sending\<close> are the sessions of \<open>Submit\<close> calls between \<open>CreateJob\<close> and the send on the
  queue; \<open>p_orphans\<close> is what the loop of \<open>RequeueOrphans\<close> still has to do.
\<close>

record 's pool =
  p_store :: 's
  p_metrics :: "counters option"
  p_queue :: "string list"
  p_workers :: "wstate list"
  p_quit :: bool
  p_sending :: "string list"
  p_orphans :: "string list"

record 's pool_env =
  pv_ops :: "'s store_ops"
  pv_cap :: nat
  pv_text :: error_text

text \<open>\<open>NewPool\<close>: the size of the queue and the number of workers.\<close>

definition pool_workers :: "int \<Rightarrow> int" where
  "pool_workers workers = (if workers < 1 then 1 else workers)"

definition pool_cap :: "int \<Rightarrow> int \<Rightarrow> int" where
  "pool_cap workers queue = (if queue < 1 then pool_workers workers * 4 else queue)"

definition NewPool :: "'s \<Rightarrow> counters option \<Rightarrow> int \<Rightarrow> 's pool" where
  "NewPool store m workers =
     \<lparr>p_store = store, p_metrics = m, p_queue = [], p_workers = replicate (nat (pool_workers workers)) WIdle,
      p_quit = False, p_sending = [], p_orphans = []\<rparr>"

datatype event =
    Submit Job
  | Send nat
  | Orphans
  | Orphan bool
  | Close
  | Take nat
  | Quit nat
  | Load nat
  | MarkRunning nat
  | Execute nat engine_ops
  | Record nat
  | Finish nat

definition set_worker :: "nat \<Rightarrow> wstate \<Rightarrow> 's pool \<Rightarrow> 's pool" where
  "set_worker w x p = p\<lparr>p_workers := (p_workers p)[w := x]\<rparr>"

definition worker_at :: "'s pool \<Rightarrow> nat \<Rightarrow> wstate" where
  "worker_at p w = (if w < length (p_workers p) then p_workers p ! w else WExited)"

text \<open>\<open>Submit\<close> up to its send, with the error it returns by then.\<close>

definition submit :: "'s pool_env \<Rightarrow> Job \<Rightarrow> 's pool \<Rightarrow> unit res \<times> 's pool" where
  "submit env job p =
     (case op_CreateJob (pv_ops env) (p_store p) (with_status job) of
        (Inl err, s) \<Rightarrow> (Inl err, p\<lparr>p_store := s\<rparr>)
      | (Inr _, s) \<Rightarrow>
          (Inr (), p\<lparr>p_store := s, p_metrics := metrics_Inc JobsSubmitted (p_metrics p),
                     p_sending := p_sending p @ [SessionID job]\<rparr>))"

text \<open>The non-blocking send that ends \<open>Submit\<close>.\<close>

definition send_queue :: "'s pool_env \<Rightarrow> nat \<Rightarrow> 's pool \<Rightarrow> unit res \<times> 's pool" where
  "send_queue env i p =
     (let sid = p_sending p ! i;
          p' = p\<lparr>p_sending := take i (p_sending p) @ drop (Suc i) (p_sending p)\<rparr>
      in if length (p_queue p) < pv_cap env then (Inr (), p'\<lparr>p_queue := p_queue p @ [sid]\<rparr>)
         else (Inl ErrQueueFull, p'))"

text \<open>\<open>Enqueue\<close>; with the quit channel closed, \<open>select\<close> may pick either ready case.\<close>

definition Enqueue :: "'s pool_env \<Rightarrow> bool \<Rightarrow> string \<Rightarrow> 's pool \<Rightarrow> bool \<times> 's pool" where
  "Enqueue env pick_quit sid p =
     (if length (p_queue p) < pv_cap env \<and> \<not> (p_quit p \<and> pick_quit)
      then (True, p\<lparr>p_queue := p_queue p @ [sid]\<rparr>) else (False, p))"

text \<open>\<open>RequeueOrphans\<close>: the listing, and one round of its loop.\<close>

definition list_orphans :: "'s pool_env \<Rightarrow> 's pool \<Rightarrow> 's pool" where
  "list_orphans env p =
     (case op_ListJobsByStatus (pv_ops env) (p_store p) StatusRunning of
        (Inl err, s) \<Rightarrow> p\<lparr>p_store := s\<rparr>
      | (Inr jobs, s) \<Rightarrow> p\<lparr>p_store := s, p_orphans := map SessionID jobs\<rparr>)"

definition requeue_orphan :: "'s pool_env \<Rightarrow> bool \<Rightarrow> string \<Rightarrow> string list \<Rightarrow> 's pool \<Rightarrow> 's pool" where
  "requeue_orphan env pick_quit sid rest p =
     (case op_SetJobStatus (pv_ops env) (p_store p) sid StatusPending [] [] of
        (Inl err, s) \<Rightarrow> p\<lparr>p_store := s, p_orphans := []\<rparr>
      | (Inr _, s) \<Rightarrow> snd (Enqueue env pick_quit sid (p\<lparr>p_store := s, p_orphans := rest\<rparr>)))"

text \<open>The parts of \<open>run\<close>.\<close>

definition run_load :: "'s pool_env \<Rightarrow> nat \<Rightarrow> string \<Rightarrow> 's pool \<Rightarrow> 's pool" where
  "run_load env w sid p =
     (case op_GetJob (pv_ops env) (p_store p) sid of
        (Inl err, s) \<Rightarrow> set_worker w WIdle (p\<lparr>p_store := s\<rparr>)
      | (Inr job, s) \<Rightarrow>
          set_worker w (if job_Status job \<noteq> StatusPending then WIdle else WLoaded sid job) (p\<lparr>p_store := s\<rparr>))"

definition run_mark :: "'s pool_env \<Rightarrow> nat \<Rightarrow> string \<Rightarrow> Job \<Rightarrow> 's pool \<Rightarrow> 's pool" where
  "run_mark env w sid job p =
     (case op_SetJobStatus (pv_ops env) (p_store p) sid StatusRunning [] [] of
        (Inl err, s) \<Rightarrow> set_worker w WIdle (p\<lparr>p_store := s\<rparr>)
      | (Inr _, s) \<Rightarrow> set_worker w (WRunning sid job) (p\<lparr>p_store := s\<rparr>))"

definition run_execute :: "'s pool_env \<Rightarrow> nat \<Rightarrow> string \<Rightarrow> Job \<Rightarrow> engine_ops \<Rightarrow> 's pool \<Rightarrow> 's pool" where
  "run_execute env w sid job eng p =
     (case execute (pv_text env) eng job of (steps, result, errMsg) \<Rightarrow>
        set_worker w (WStoring sid steps result errMsg) p)"

definition run_record :: "'s pool_env \<Rightarrow> nat \<Rightarrow> string \<Rightarrow> StepResult \<Rightarrow> StepResult list \<Rightarrow> string \<Rightarrow> string \<Rightarrow> 's pool \<Rightarrow> 's pool" where
  "run_record env w sid sr steps result errMsg p =
     (case op_AppendStepResult (pv_ops env) (p_store p) sr of
        (_, s) \<Rightarrow> set_worker w (WStoring sid steps result errMsg) (p\<lparr>p_store := s\<rparr>))"

definition run_finish :: "'s pool_env \<Rightarrow> nat \<Rightarrow> string \<Rightarrow> string \<Rightarrow> string \<Rightarrow> 's pool \<Rightarrow> 's pool" where
  "run_finish env w sid result errMsg p =
     (let failed = (errMsg \<noteq> []);
          m = metrics_Inc (if failed then JobsFailed else JobsCompleted) (p_metrics p)
      in case op_SetJobStatus (pv_ops env) (p_store p) sid
                (if failed then StatusFailed else StatusCompleted) result (if failed then errMsg else []) of
           (_, s) \<Rightarrow> set_worker w WIdle (p\<lparr>p_metrics := m, p_store := s\<rparr>))"

fun pool_event :: "'s pool_env \<Rightarrow> event \<Rightarrow> 's pool \<Rightarrow> 's pool option" where
  "pool_event env (Submit job) p = Some (snd (submit env job p))"
| "pool_event env (Send i) p = (if i < length (p_sending p) then Some (snd (send_queue env i p)) else None)"
| "pool_event env Orphans p = (if p_queue p = [] \<and> p_sending p = [] \<and> p_orphans p = [] \<and>
      (\<forall>x\<in>set (p_workers p). x = WIdle \<or> x = WExited) then Some (list_orphans env p) else None)"
| "pool_event env (Orphan b) p =
     (case p_orphans p of [] \<Rightarrow> None | sid # rest \<Rightarrow> Some (requeue_orphan env b sid rest p))"
| "pool_event env Close p = Some (p\<lparr>p_quit := True\<rparr>)"
| "pool_event env (Take w) p =
     (case (worker_at p w, p_queue p) of
        (WIdle, sid # q) \<Rightarrow> Some (set_worker w (WTaken sid) (p\<lparr>p_queue := q\<rparr>)) | _ \<Rightarrow> None)"
| "pool_event env (Quit w) p =
     (if worker_at p w = WIdle \<and> p_quit p then Some (set_worker w WExited p) else None)"
| "pool_event env (Load w) p =
     (case worker_at p w of WTaken sid \<Rightarrow> Some (run_load env w sid p) | _ \<Rightarrow> None)"
| "pool_event env (MarkRunning w) p =
     (case worker_at p w of WLoaded sid job \<Rightarrow> Some (run_mark env w sid job p) | _ \<Rightarrow> None)"
| "pool_event env (Execute w eng) p =
     (case worker_at p w of WRunning sid job \<Rightarrow> Some (run_execute env w sid job eng p) | _ \<Rightarrow> None)"
| "pool_event env (Record w) p =
     (case worker_at p w of
        WStoring sid (sr # steps) result errMsg \<Rightarrow> Some (run_record env w sid sr steps result errMsg p)
      | _ \<Rightarrow> None)"
| "pool_event env (Finish w) p =
     (case worker_at p w of
        WStoring sid [] result errMsg \<Rightarrow> Some (run_finish env w sid result errMsg p) | _ \<Rightarrow> None)"

end
