(* ===== verification/FilePath.thy ===== *)
theory FilePath
  imports Prelude
begin

text \<open>
  What the registry uses of \<open>path/filepath\<close> on Unix, and \<open>safeRel\<close> of
  \<open>internal/registry/registry.go\<close>, which keeps paths inside the registry.
\<close>

definition IsAbs :: "string \<Rightarrow> bool" where
  "IsAbs p \<longleftrightarrow> prefix ''/'' p"

text \<open>The names of a path, without empty ones and \<open>.\<close>.\<close>

definition path_names :: "string \<Rightarrow> string list" where
  "path_names p = filter (\<lambda>w. w \<noteq> [] \<and> w \<noteq> ''.'') (Split (CHR ''/'') p)"

text \<open>
  One name of \<open>Clean\<close>: \<open>..\<close> removes the name in front of it; at the front it is dropped from
  an absolute path and kept in a relative one.
\<close>

definition clean_name :: "bool \<Rightarrow> string \<Rightarrow> string list \<Rightarrow> string list" where
  "clean_name rooted w acc =
     (if w = ''..'' then
        (if acc \<noteq> [] \<and> last acc \<noteq> ''..'' then butlast acc else if rooted then acc else acc @ [w])
      else acc @ [w])"

definition clean_names :: "bool \<Rightarrow> string list \<Rightarrow> string list" where
  "clean_names rooted ws = fold (clean_name rooted) ws []"

definition Clean :: "string \<Rightarrow> string" where
  "Clean p =
     (let ns = clean_names (IsAbs p) (path_names p) in
      if IsAbs p then CHR ''/'' # Join ''/'' ns else if ns = [] then ''.'' else Join ''/'' ns)"

definition path_Join :: "string list \<Rightarrow> string" where
  "path_Join elems =
     (let es = dropWhile (\<lambda>e. e = []) elems in if es = [] then [] else Clean (Join ''/'' es))"

definition safeRel :: "string \<Rightarrow> string res" where
  "safeRel p =
     (if IsAbs p then Inl (Errorf ''absolute paths are not allowed'' [])
      else let clean = Clean p in
        if clean = ''..'' \<or> prefix ''../'' clean then Inl (Errorf ''path escapes registry root'' [])
        else Inr clean)"

section \<open>Clean paths\<close>

lemma path_names_elem: "w \<in> set (path_names p) \<Longrightarrow> w \<noteq> [] \<and> w \<noteq> ''.'' \<and> CHR ''/'' \<notin> set w"
  by (auto simp: path_names_def dest: Split_sep_free)

lemma path_names_Join:
  assumes "\<And>w. w \<in> set ws \<Longrightarrow> w \<noteq> [] \<and> w \<noteq> ''.'' \<and> CHR ''/'' \<notin> set w"
  shows "path_names (Join ''/'' ws) = ws"
proof (cases "ws = []")
  case False
  have "filter (\<lambda>w. w \<noteq> [] \<and> w \<noteq> ''.'') ws = ws" using assms by (simp add: filter_id_conv)
  with False assms show ?thesis by (simp add: path_names_def Split_Join)
qed (simp add: path_names_def)

lemma Split_append:
  "Split d (s @ d # t) = Split d s @ Split d t"
  by (induction s) (auto split: list.split)

lemma path_names_append: "path_names (s @ CHR ''/'' # t) = path_names s @ path_names t"
  by (simp add: path_names_def Split_append)

lemma clean_name_set: "set (clean_name r w acc) \<subseteq> insert w (set acc)"
  by (auto simp: clean_name_def dest: in_set_butlastD)

lemma fold_clean_set: "set (fold (clean_name r) ws acc) \<subseteq> set ws \<union> set acc"
proof (induction ws arbitrary: acc)
  case (Cons w ws)
  show ?case using Cons [of "clean_name r w acc"] clean_name_set [of r w acc] by auto
qed simp

text \<open>A clean relative path is a run of \<open>..\<close> in front of names that are not \<open>..\<close>.\<close>

definition dots_first :: "string list \<Rightarrow> bool" where
  "dots_first ns \<longleftrightarrow> ''..'' \<notin> set (dropWhile (\<lambda>w. w = ''..'') ns)"

lemma dots_first_snoc: "dots_first acc \<Longrightarrow> w \<noteq> ''..'' \<Longrightarrow> dots_first (acc @ [w])"
  by (induction acc) (auto simp: dots_first_def split: if_splits)

lemma dots_first_butlast: "dots_first acc \<Longrightarrow> dots_first (butlast acc)"
  by (induction acc) (auto simp: dots_first_def dest: in_set_butlastD split: if_splits)

lemma dots_first_dots: "dots_first acc \<Longrightarrow> acc = [] \<or> last acc = ''..'' \<Longrightarrow> dots_first (acc @ [''..''])"
  by (induction acc) (auto simp: dots_first_def dest: last_in_set split: if_splits)

lemma dots_first_clean_name: "dots_first acc \<Longrightarrow> dots_first (clean_name r w acc)"
  using dots_first_dots [of acc] by (simp add: clean_name_def dots_first_snoc dots_first_butlast) auto

lemma dots_first_clean: "dots_first (clean_names r ws)"
proof -
  have "dots_first acc \<Longrightarrow> dots_first (fold (clean_name r) ws acc)" for acc
    by (induction ws arbitrary: acc) (simp_all add: dots_first_clean_name)
  then show ?thesis by (simp add: clean_names_def dots_first_def)
qed

lemma dots_first_hd: "dots_first ns \<Longrightarrow> ns = [] \<or> hd ns \<noteq> ''..'' \<Longrightarrow> ''..'' \<notin> set ns"
  by (cases ns) (auto simp: dots_first_def)

lemma clean_names_append: "''..'' \<notin> set b \<Longrightarrow> clean_names r (a @ b) = clean_names r a @ b"
proof -
  have "''..'' \<notin> set b \<Longrightarrow> fold (clean_name r) b acc = acc @ b" for acc
    by (induction b arbitrary: acc) (auto simp: clean_name_def)
  then show "''..'' \<notin> set b \<Longrightarrow> ?thesis" by (simp add: clean_names_def)
qed

lemma clean_names_elem: "w \<in> set (clean_names r (path_names p)) \<Longrightarrow> w \<noteq> [] \<and> w \<noteq> ''.'' \<and> CHR ''/'' \<notin> set w"
  using fold_clean_set [of r "path_names p" "[]"] path_names_elem by (auto simp: clean_names_def)

lemma path_names_Clean: "path_names (Clean p) = clean_names (IsAbs p) (path_names p)"
proof -
  let ?ns = "clean_names (IsAbs p) (path_names p)"
  have "path_names (Join ''/'' ?ns) = ?ns" by (rule path_names_Join) (rule clean_names_elem)
  moreover have "path_names (CHR ''/'' # t) = path_names t" for t by (simp add: path_names_def)
  moreover have "path_names ''.'' = []" by (simp add: path_names_def)
  ultimately show ?thesis by (auto simp: Clean_def Let_def)
qed

lemma Clean_relative: "\<not> IsAbs p \<Longrightarrow> \<not> IsAbs (Clean p)"
proof -
  assume p: "\<not> IsAbs p"
  let ?ns = "clean_names False (path_names p)"
  show ?thesis
  proof (cases ?ns)
    case (Cons w ws)
    then have "w \<noteq> [] \<and> CHR ''/'' \<notin> set w" using clean_names_elem [of w False p] by simp
    then have "\<not> IsAbs (Join ''/'' ?ns)" using Cons by (cases w) (auto simp: IsAbs_def Join_Cons)
    with Cons p show ?thesis by (simp add: Clean_def)
  qed (use p in \<open>simp add: Clean_def IsAbs_def\<close>)
qed

lemma safeRel_names:
  assumes "safeRel p = Inr rel"
  shows "path_names rel = clean_names False (path_names p)" "''..'' \<notin> set (path_names rel)" "\<not> IsAbs rel" "rel \<noteq> []"
proof -
  from assms have p: "\<not> IsAbs p" and rel: "rel = Clean p" and ok: "rel \<noteq> ''..''" "\<not> prefix ''../'' rel"
    by (auto simp: safeRel_def Let_def split: if_splits)
  let ?ns = "clean_names False (path_names p)"
  show names: "path_names rel = ?ns" using path_names_Clean [of p] p rel by simp
  have "?ns = [] \<or> hd ?ns \<noteq> ''..''"
  proof (cases ?ns)
    case (Cons w ws)
    with p rel have "rel = Join ''/'' (w # ws)" by (simp add: Clean_def)
    with ok Cons show ?thesis by (auto simp: Join_Cons split: if_splits)
  qed simp
  with dots_first_clean show "''..'' \<notin> set (path_names rel)" unfolding names by (rule dots_first_hd)
  show "\<not> IsAbs rel" using Clean_relative [OF p] rel by simp
  show "rel \<noteq> []"
  proof (cases ?ns)
    case (Cons w ws)
    then show ?thesis using clean_names_elem [of w False p] p rel by (auto simp: Clean_def Join_Cons)
  qed (use p rel in \<open>simp add: Clean_def\<close>)
qed

text \<open>
  C28: a path that \<open>safeRel\<close> lets through stays inside the registry: joined to a root it
  names a place below the root, by names none of which is \<open>..\<close>.
\<close>

theorem safeRel_stays_inside:
  assumes "safeRel p = Inr rel" and "root \<noteq> []"
  shows "path_names (path_Join [root, rel]) = path_names (Clean root) @ path_names rel \<and>
    ''..'' \<notin> set (path_names rel) \<and> IsAbs (path_Join [root, rel]) = IsAbs root"
proof -
  note rel = safeRel_names [OF assms(1)]
  have j: "path_Join [root, rel] = Clean (root @ CHR ''/'' # rel)" using assms(2) by (simp add: path_Join_def)
  have a: "IsAbs (root @ CHR ''/'' # rel) = IsAbs root" using assms(2) by (cases root) (simp_all add: IsAbs_def)
  have "path_names (path_Join [root, rel]) = path_names (Clean root) @ path_names rel"
    unfolding j path_names_Clean a path_names_append by (rule clean_names_append [OF rel(2)])
  moreover have "IsAbs (Clean q) = IsAbs q" for q
    using Clean_relative [of q] by (auto simp: Clean_def IsAbs_def Let_def)
  ultimately show ?thesis using rel(2) a j by simp
qed

theorem safeRel_stays_inside_witness:
  "path_names (path_Join [''/srv/reg/'', ''prompts/a.md'']) = [''srv'', ''reg'', ''prompts'', ''a.md''] \<and>
   safeRel ''x/../../etc'' = Inl (Errorf ''path escapes registry root'' [])"
proof
  have "safeRel ''x/../prompts/./a.md'' = Inr ''prompts/a.md''" by code_simp
  from safeRel_stays_inside [OF this, of "''/srv/reg/''"]
  have "path_names (path_Join [''/srv/reg/'', ''prompts/a.md'']) = path_names (Clean ''/srv/reg/'') @ path_names ''prompts/a.md''"
    by simp
  moreover have "path_names (Clean ''/srv/reg/'') = [''srv'', ''reg'']" by code_simp
  moreover have "path_names ''prompts/a.md'' = [''prompts'', ''a.md'']" by code_simp
  ultimately show "path_names (path_Join [''/srv/reg/'', ''prompts/a.md'']) = [''srv'', ''reg'', ''prompts'', ''a.md'']"
    by simp
  show "safeRel ''x/../../etc'' = Inl (Errorf ''path escapes registry root'' [])" by code_simp
qed

end
