(* ===== verification/Schema.thy ===== *)
theory Schema
  imports Json
begin

text \<open>
  \<open>internal/schema\<close>: the validator for a subset of JSON Schema.  A node is the map of its
  keywords, given by its entries; a missing key is nil, that is \<open>JNull\<close>.  Go does not fix
  the order in which \<open>range\<close> visits a map: here it is the order of the entries, and
  whether a document is accepted does not depend on it.  Operands of the \<open>%v\<close> verbs are left
  out of the error values.
\<close>

type_synonym node = "(string \<times> json) list"

definition keyword :: "node \<Rightarrow> string \<Rightarrow> json" where
  "keyword raw k = (case map_of raw k of None \<Rightarrow> JNull | Some v \<Rightarrow> v)"

section \<open>Helpers\<close>

definition knownType :: "string \<Rightarrow> bool" where
  "knownType name \<longleftrightarrow>
     name \<in> set [''object'', ''array'', ''string'', ''number'', ''integer'', ''boolean'', ''null'']"

fun typeNames :: "json \<Rightarrow> string list" where
  "typeNames (JStr t) = [t]"
| "typeNames (JArr t) = concat (map (\<lambda>item. case item of JStr name \<Rightarrow> [name] | _ \<Rightarrow> []) t)"
| "typeNames _ = []"

fun toFloat :: "json \<Rightarrow> f64 option" where
  "toFloat (JNum n) = Some n"
| "toFloat _ = None"

definition matchesType :: "string \<Rightarrow> json \<Rightarrow> bool" where
  "matchesType name doc =
     (if name = ''object'' then (case doc of JObj _ \<Rightarrow> True | _ \<Rightarrow> False)
      else if name = ''array'' then (case doc of JArr _ \<Rightarrow> True | _ \<Rightarrow> False)
      else if name = ''string'' then (case doc of JStr _ \<Rightarrow> True | _ \<Rightarrow> False)
      else if name = ''number'' then toFloat doc \<noteq> None
      else if name = ''integer'' then
        (case toFloat doc of Some n \<Rightarrow> f64_eq n (f64_of_int (int64_of_f64 n)) | None \<Rightarrow> False)
      else if name = ''boolean'' then (case doc of JBool _ \<Rightarrow> True | _ \<Rightarrow> False)
      else if name = ''null'' then doc = JNull
      else False)"

fun jsonType :: "json \<Rightarrow> string" where
  "jsonType JNull = ''null''"
| "jsonType (JBool b) = ''boolean''"
| "jsonType (JStr s) = ''string''"
| "jsonType (JNum n) = ''number''"
| "jsonType (JArr vs) = ''array''"
| "jsonType (JObj kvs) = ''object''"

definition jsonEqual :: "json \<Rightarrow> json \<Rightarrow> bool" where
  "jsonEqual a b \<longleftrightarrow> json_Marshal a = json_Marshal b"

definition compact :: "json \<Rightarrow> string" where
  "compact v = json_Marshal v"

definition loc :: "string \<Rightarrow> string" where
  "loc path = (if path = [] then ''$'' else ''$'' @ path)"

definition joinPath :: "string \<Rightarrow> string \<Rightarrow> string" where
  "joinPath path name = (if path = [] then ''.'' @ name else path @ ''.'' @ name)"

section \<open>Checking a schema\<close>

definition check_type_keyword :: "node \<Rightarrow> string \<Rightarrow> unit res" where
  "check_type_keyword node path =
     (case map_of node ''type'' of
        None \<Rightarrow> Inr ()
      | Some (JStr v) \<Rightarrow>
          if \<not> knownType v then Inl (Errorf ''schema%s: unknown type %q'' [path, v]) else Inr ()
      | Some (JArr v) \<Rightarrow>
          check_each (\<lambda>item. case item of
              JStr name \<Rightarrow> if \<not> knownType name then Inl (Errorf ''schema%s: unknown type %q'' [path, name]) else Inr ()
            | _ \<Rightarrow> Inl (Errorf ''schema%s: unknown type %q'' [path])) v
      | Some _ \<Rightarrow> Inl (Errorf ''schema%s: type must be a string or array of strings'' [path]))"

definition prop_nodes :: "node \<Rightarrow> node" where
  "prop_nodes raw = (case keyword raw ''properties'' of JObj props \<Rightarrow> props | _ \<Rightarrow> [])"

definition items_node :: "node \<Rightarrow> node option" where
  "items_node raw = (case keyword raw ''items'' of JObj items \<Rightarrow> Some items | _ \<Rightarrow> None)"

abbreviation node_size :: "node \<Rightarrow> nat" where
  "node_size raw \<equiv> size_list (size_prod (\<lambda>_. 0) size) raw"

lemma map_of_size: "map_of kvs k = Some v \<Longrightarrow> size v < node_size kvs"
proof -
  assume "map_of kvs k = Some v"
  then have "(k, v) \<in> set kvs" by (rule map_of_SomeD)
  then show ?thesis by (induction kvs) auto
qed

lemma prop_size: "(k, JObj child) \<in> set (prop_nodes raw) \<Longrightarrow> node_size child < node_size raw"
proof -
  assume a: "(k, JObj child) \<in> set (prop_nodes raw)"
  then obtain props where p: "map_of raw ''properties'' = Some (JObj props)" "(k, JObj child) \<in> set props"
    by (auto simp: prop_nodes_def keyword_def split: option.splits json.splits)
  from p(2) have "size (JObj child) < node_size props" by (induction props) auto
  with map_of_size [OF p(1)] show ?thesis by simp
qed

lemma items_size: "items_node raw = Some items \<Longrightarrow> node_size items < node_size raw"
proof -
  assume "items_node raw = Some items"
  then have "map_of raw ''items'' = Some (JObj items)"
    by (auto simp: items_node_def keyword_def split: option.splits json.splits)
  from map_of_size [OF this] show ?thesis by simp
qed

lemma check_each_cong [fundef_cong]:
  assumes "xs = ys" and "\<And>x. x \<in> set ys \<Longrightarrow> f x = g x"
  shows "check_each f xs = check_each g ys"
  using assms by (intro for_each_cong) auto

definition prop_path :: "string \<Rightarrow> string \<Rightarrow> string" where
  "prop_path path name = path @ ''.properties.'' @ name"

function checkNode :: "node \<Rightarrow> string \<Rightarrow> unit res" where
  "checkNode node path =
     bind_res (check_type_keyword node path) (\<lambda>_.
     bind_res (check_each (\<lambda>(name, sub). case sub of
         JObj child \<Rightarrow> checkNode child (prop_path path name)
       | _ \<Rightarrow> Inl (Errorf ''schema%s.properties.%s: must be an object'' [path, name])) (prop_nodes node)) (\<lambda>_.
       case items_node node of
         Some items \<Rightarrow> checkNode items (path @ ''.items'')
       | None \<Rightarrow> Inr ()))"
  by pat_completeness auto
termination
  by (relation "measure (\<lambda>(node, path). node_size node)") (auto simp: prop_size items_size)

declare checkNode.simps [simp del]

text \<open>\<open>Compile\<close>.\<close>

definition Compile :: "string \<Rightarrow> node res" where
  "Compile raw =
     (case json_Unmarshal raw of
        Inl err \<Rightarrow> Inl (ErrWrap ''schema: %w'' [] err)
      | Inr (JObj obj) \<Rightarrow> bind_res (checkNode obj []) (\<lambda>_. Inr obj)
      | Inr _ \<Rightarrow> Inl (Errorf ''schema: root must be a JSON object'' []))"

section \<open>Validating a document\<close>

definition checkType :: "node \<Rightarrow> json \<Rightarrow> string \<Rightarrow> unit res" where
  "checkType raw doc path =
     (let allowed = typeNames (keyword raw ''type'') in
      if allowed = [] then Inr ()
      else if \<exists>name\<in>set allowed. matchesType name doc then Inr ()
      else Inl (Errorf ''%s: expected %s, got %s'' [loc path, Join '' or '' allowed, jsonType doc]))"

definition checkEnum :: "node \<Rightarrow> json \<Rightarrow> string \<Rightarrow> unit res" where
  "checkEnum raw doc path =
     (case keyword raw ''enum'' of
        JArr values \<Rightarrow>
          if \<exists>candidate\<in>set values. jsonEqual candidate doc then Inr ()
          else Inl (Errorf ''%s: %s is not one of %s'' [loc path, compact doc, compact (JArr values)])
      | _ \<Rightarrow> Inr ())"

text \<open>A lower and an upper limit, each only when its keyword is a number.\<close>

definition below :: "f64 \<Rightarrow> json \<Rightarrow> bool" where
  "below n limit = (case toFloat limit of Some x \<Rightarrow> f64_less n x | None \<Rightarrow> False)"

definition above :: "f64 \<Rightarrow> json \<Rightarrow> bool" where
  "above n limit = (case toFloat limit of Some x \<Rightarrow> f64_less x n | None \<Rightarrow> False)"

definition checkNumber :: "node \<Rightarrow> json \<Rightarrow> string \<Rightarrow> unit res" where
  "checkNumber raw doc path =
     (case toFloat doc of
        None \<Rightarrow> Inr ()
      | Some n \<Rightarrow>
          if below n (keyword raw ''minimum'') then Inl (Errorf ''%s: %v is less than minimum %v'' [loc path])
          else if above n (keyword raw ''maximum'') then Inl (Errorf ''%s: %v is greater than maximum %v'' [loc path])
          else Inr ())"

definition checkString :: "node \<Rightarrow> json \<Rightarrow> string \<Rightarrow> unit res" where
  "checkString raw doc path =
     (case doc of
        JStr str \<Rightarrow>
          (let len = int (rune_count str) in
           if below (f64_of_int len) (keyword raw ''minLength'')
           then Inl (Errorf ''%s: length %d is less than minLength %v'' [loc path, Itoa len])
           else if above (f64_of_int len) (keyword raw ''maxLength'')
           then Inl (Errorf ''%s: length %d is greater than maxLength %v'' [loc path, Itoa len])
           else Inr ())
      | _ \<Rightarrow> Inr ())"

definition check_count :: "node \<Rightarrow> json list \<Rightarrow> string \<Rightarrow> unit res" where
  "check_count raw arr path =
     (let n = int (length arr) in
      if below (f64_of_int n) (keyword raw ''minItems'')
      then Inl (Errorf ''%s: has %d items, fewer than minItems %v'' [loc path, Itoa n])
      else if above (f64_of_int n) (keyword raw ''maxItems'')
      then Inl (Errorf ''%s: has %d items, more than maxItems %v'' [loc path, Itoa n])
      else Inr ())"

definition check_required :: "node \<Rightarrow> (string \<times> json) list \<Rightarrow> string \<Rightarrow> unit res" where
  "check_required raw obj path =
     (case keyword raw ''required'' of
        JArr req \<Rightarrow>
          check_each (\<lambda>item. case item of
              JStr name \<Rightarrow> if map_of obj name = None
                then Inl (Errorf ''%s: missing required property %q'' [loc path, name]) else Inr ()
            | _ \<Rightarrow> Inr ()) req
      | _ \<Rightarrow> Inr ())"

definition unknown_names :: "node \<Rightarrow> (string \<times> json) list \<Rightarrow> string list" where
  "unknown_names props obj = filter (\<lambda>name. map_of props name = None) (map fst obj)"

definition check_additional :: "node \<Rightarrow> (string \<times> json) list \<Rightarrow> string \<Rightarrow> unit res" where
  "check_additional raw obj path =
     (if keyword raw ''additionalProperties'' = JBool False then
        (let unknown = unknown_names (prop_nodes raw) obj in
         if unknown \<noteq> [] then Inl (Errorf ''%s: unexpected property %q'' [loc path, hd (sort unknown)]) else Inr ())
      else Inr ())"

definition checkArray :: "(node \<Rightarrow> json \<Rightarrow> string \<Rightarrow> unit res) \<Rightarrow> node \<Rightarrow> json \<Rightarrow> string \<Rightarrow> unit res" where
  "checkArray rec raw doc path =
     (case doc of
        JArr arr \<Rightarrow>
          bind_res (check_count raw arr path) (\<lambda>_.
            case items_node raw of
              Some items \<Rightarrow>
                check_each (\<lambda>(i, item). rec items item (path @ ''['' @ Itoa (int i) @ '']'')) (enumerate 0 arr)
            | None \<Rightarrow> Inr ())
      | _ \<Rightarrow> Inr ())"

definition checkObject :: "(node \<Rightarrow> json \<Rightarrow> string \<Rightarrow> unit res) \<Rightarrow> node \<Rightarrow> json \<Rightarrow> string \<Rightarrow> unit res" where
  "checkObject rec raw doc path =
     (case doc of
        JObj obj \<Rightarrow>
          bind_res (check_required raw obj path) (\<lambda>_.
          bind_res (check_each (\<lambda>(name, sub). case (map_of obj name, sub) of
              (Some v, JObj child) \<Rightarrow> rec child v (joinPath path name)
            | _ \<Rightarrow> Inr ()) (prop_nodes raw)) (\<lambda>_.
            check_additional raw obj path))
      | _ \<Rightarrow> Inr ())"

lemma checkArray_cong [fundef_cong]:
  assumes "raw = raw'" "doc = doc'" "path = path'"
    and "\<And>items v p. items_node raw' = Some items \<Longrightarrow> f items v p = g items v p"
  shows "checkArray f raw doc path = checkArray g raw' doc' path'"
  using assms by (auto simp: checkArray_def split: json.split option.split)

lemma checkObject_cong [fundef_cong]:
  assumes "raw = raw'" "doc = doc'" "path = path'"
    and "\<And>name child v p. (name, JObj child) \<in> set (prop_nodes raw') \<Longrightarrow> f child v p = g child v p"
  shows "checkObject f raw doc path = checkObject g raw' doc' path'"
proof -
  have "check_each (\<lambda>(name, sub). case (map_of obj name, sub) of
          (Some v, JObj child) \<Rightarrow> f child v (joinPath path' name) | _ \<Rightarrow> Inr ()) (prop_nodes raw') =
        check_each (\<lambda>(name, sub). case (map_of obj name, sub) of
          (Some v, JObj child) \<Rightarrow> g child v (joinPath path' name) | _ \<Rightarrow> Inr ()) (prop_nodes raw')" for obj
    by (rule check_each_cong) (auto simp: assms(4) split: json.split option.split)
  with assms(1-3) show ?thesis by (simp add: checkObject_def split: json.split)
qed

function validate :: "node \<Rightarrow> json \<Rightarrow> string \<Rightarrow> unit res" where
  "validate raw doc path =
     bind_res (checkType raw doc path) (\<lambda>_.
     bind_res (checkEnum raw doc path) (\<lambda>_.
     bind_res (checkNumber raw doc path) (\<lambda>_.
     bind_res (checkString raw doc path) (\<lambda>_.
     bind_res (checkArray validate raw doc path) (\<lambda>_.
       checkObject validate raw doc path)))))"
  by pat_completeness auto
termination
  by (relation "measure (\<lambda>(raw, doc, path). node_size raw)") (auto simp: prop_size items_size)

declare validate.simps [simp del]

text \<open>\<open>Validate\<close>.\<close>

definition Validate :: "node \<Rightarrow> string \<Rightarrow> unit res" where
  "Validate raw document =
     (case json_Unmarshal document of
        Inl err \<Rightarrow> Inl (ErrWrap ''not valid JSON: %w'' [] err)
      | Inr doc \<Rightarrow> validate raw doc [])"

section \<open>The meaning of a schema\<close>

text \<open>
  What the keywords say about a document, without the order of the checks, the early
  returns and the paths.
\<close>

definition limits_ok :: "node \<Rightarrow> string \<Rightarrow> string \<Rightarrow> f64 \<Rightarrow> bool" where
  "limits_ok raw lo hi n \<longleftrightarrow>
     (\<forall>x. keyword raw lo = JNum x \<longrightarrow> \<not> f64_less n x) \<and> (\<forall>x. keyword raw hi = JNum x \<longrightarrow> \<not> f64_less x n)"

definition scalar_conforms :: "node \<Rightarrow> json \<Rightarrow> bool" where
  "scalar_conforms raw doc \<longleftrightarrow>
     (typeNames (keyword raw ''type'') = [] \<or> (\<exists>t\<in>set (typeNames (keyword raw ''type'')). matchesType t doc)) \<and>
     (\<forall>values. keyword raw ''enum'' = JArr values \<longrightarrow> (\<exists>c\<in>set values. json_Marshal c = json_Marshal doc)) \<and>
     (\<forall>n. doc = JNum n \<longrightarrow> limits_ok raw ''minimum'' ''maximum'' n) \<and>
     (\<forall>s. doc = JStr s \<longrightarrow> limits_ok raw ''minLength'' ''maxLength'' (f64_of_int (int (rune_count s))))"

definition names_conform :: "node \<Rightarrow> (string \<times> json) list \<Rightarrow> bool" where
  "names_conform raw obj \<longleftrightarrow>
     (\<forall>req name. keyword raw ''required'' = JArr req \<and> JStr name \<in> set req \<longrightarrow> name \<in> fst ` set obj) \<and>
     (keyword raw ''additionalProperties'' = JBool False \<longrightarrow> fst ` set obj \<subseteq> fst ` set (prop_nodes raw))"

function conforms :: "node \<Rightarrow> json \<Rightarrow> bool" where
  "conforms raw doc \<longleftrightarrow> scalar_conforms raw doc \<and>
     (case doc of
        JArr arr \<Rightarrow> limits_ok raw ''minItems'' ''maxItems'' (f64_of_int (int (length arr))) \<and>
          (case items_node raw of Some items \<Rightarrow> \<forall>v\<in>set arr. conforms items v | None \<Rightarrow> True)
      | JObj obj \<Rightarrow> names_conform raw obj \<and>
          (\<forall>(name, sub)\<in>set (prop_nodes raw). case (map_of obj name, sub) of
             (Some v, JObj child) \<Rightarrow> conforms child v | _ \<Rightarrow> True)
      | _ \<Rightarrow> True)"
  by pat_completeness auto
termination
  by (relation "measure (\<lambda>(raw, doc). node_size raw)") (auto simp: prop_size items_size)

declare conforms.simps [simp del]

lemma limit_iff:
  "below n v \<longleftrightarrow> (\<exists>x. v = JNum x \<and> f64_less n x)" "above n v \<longleftrightarrow> (\<exists>x. v = JNum x \<and> f64_less x n)"
  by (cases v; simp add: below_def above_def)+

lemma limits_ok_iff: "limits_ok raw lo hi n \<longleftrightarrow> \<not> below n (keyword raw lo) \<and> \<not> above n (keyword raw hi)"
  by (auto simp: limits_ok_def limit_iff)

lemma scalar_checks:
  "checkType raw doc path = Inr u \<longleftrightarrow> typeNames (keyword raw ''type'') = [] \<or>
     (\<exists>t\<in>set (typeNames (keyword raw ''type'')). matchesType t doc)"
  "checkEnum raw doc path = Inr u \<longleftrightarrow>
     (\<forall>values. keyword raw ''enum'' = JArr values \<longrightarrow> (\<exists>c\<in>set values. json_Marshal c = json_Marshal doc))"
  "checkNumber raw doc path = Inr u \<longleftrightarrow> (\<forall>n. doc = JNum n \<longrightarrow> limits_ok raw ''minimum'' ''maximum'' n)"
  "checkString raw doc path = Inr u \<longleftrightarrow>
     (\<forall>s. doc = JStr s \<longrightarrow> limits_ok raw ''minLength'' ''maxLength'' (f64_of_int (int (rune_count s))))"
  "check_count raw arr path = Inr u \<longleftrightarrow> limits_ok raw ''minItems'' ''maxItems'' (f64_of_int (int (length arr)))"
proof -
  show "checkType raw doc path = Inr u \<longleftrightarrow> typeNames (keyword raw ''type'') = [] \<or>
     (\<exists>t\<in>set (typeNames (keyword raw ''type'')). matchesType t doc)"
    by (auto simp: checkType_def Let_def)
  show "checkEnum raw doc path = Inr u \<longleftrightarrow>
     (\<forall>values. keyword raw ''enum'' = JArr values \<longrightarrow> (\<exists>c\<in>set values. json_Marshal c = json_Marshal doc))"
    by (cases "keyword raw ''enum''") (simp_all add: checkEnum_def jsonEqual_def)
  show "checkNumber raw doc path = Inr u \<longleftrightarrow> (\<forall>n. doc = JNum n \<longrightarrow> limits_ok raw ''minimum'' ''maximum'' n)"
    by (cases doc) (simp_all add: checkNumber_def limits_ok_iff)
  show "checkString raw doc path = Inr u \<longleftrightarrow>
     (\<forall>s. doc = JStr s \<longrightarrow> limits_ok raw ''minLength'' ''maxLength'' (f64_of_int (int (rune_count s))))"
    by (cases doc) (simp_all add: checkString_def limits_ok_iff Let_def)
  show "check_count raw arr path = Inr u \<longleftrightarrow> limits_ok raw ''minItems'' ''maxItems'' (f64_of_int (int (length arr)))"
    by (simp add: check_count_def limits_ok_iff Let_def)
qed

lemma name_checks:
  "check_required raw obj path = Inr u \<and> check_additional raw obj path = Inr u' \<longleftrightarrow> names_conform raw obj"
proof -
  have "check_required raw obj path = Inr u \<longleftrightarrow>
      (\<forall>req name. keyword raw ''required'' = JArr req \<and> JStr name \<in> set req \<longrightarrow> name \<in> fst ` set obj)"
  proof (cases "keyword raw ''required''")
    case (JArr req)
    have "(case item of JStr name \<Rightarrow> if map_of obj name = None
          then Inl (Errorf ''%s: missing required property %q'' [loc path, name]) else Inr ()
        | _ \<Rightarrow> Inr ()) = Inr () \<longleftrightarrow> (\<forall>name. item = JStr name \<longrightarrow> name \<in> fst ` set obj)" for item
      by (cases item) (auto simp: map_of_eq_None_iff)
    then show ?thesis unfolding check_required_def JArr by (auto simp: go_error)
  qed (simp_all add: check_required_def)
  moreover have "check_additional raw obj path = Inr u' \<longleftrightarrow>
      (keyword raw ''additionalProperties'' = JBool False \<longrightarrow> fst ` set obj \<subseteq> fst ` set (prop_nodes raw))"
    by (auto simp: check_additional_def unknown_names_def Let_def filter_empty_conv map_of_eq_None_iff)
  ultimately show ?thesis by (simp add: names_conform_def)
qed

lemma enumerate_snd: "(\<forall>(i, x)\<in>set (enumerate n xs). P x) \<longleftrightarrow> (\<forall>x\<in>set xs. P x)"
  by (induction xs arbitrary: n) auto

lemma validate_Inr:
  "validate raw doc path = Inr () \<longleftrightarrow> conforms raw doc"
proof (induction "node_size raw" arbitrary: raw doc path rule: less_induct)
  case less
  have items: "check_each (\<lambda>(i, item). validate items item (path @ ''['' @ Itoa (int i) @ '']'')) (enumerate 0 arr) = Inr ()
      \<longleftrightarrow> (\<forall>v\<in>set arr. conforms items v)" if "items_node raw = Some items" for items arr
  proof -
    have "validate items v p = Inr () \<longleftrightarrow> conforms items v" for v p
      using less.hyps [OF items_size [OF that]] .
    then show ?thesis
      using enumerate_snd [of 0 arr "conforms items"] by (simp add: go_error case_prod_unfold)
  qed
  have props: "(case (map_of obj name, sub) of (Some v, JObj child) \<Rightarrow> validate child v (joinPath path name) | _ \<Rightarrow> Inr ()) = Inr ()
      \<longleftrightarrow> (case (map_of obj name, sub) of (Some v, JObj child) \<Rightarrow> conforms child v | _ \<Rightarrow> True)"
    if "(name, sub) \<in> set (prop_nodes raw)" for name sub obj
    using less.hyps prop_size [of name _ raw] that by (auto split: option.split json.split)
  show ?case
  proof (cases doc)
    case (JArr arr)
    with items show ?thesis
      by (auto simp: validate.simps [of raw] checkArray_def checkObject_def conforms.simps [of raw] scalar_conforms_def scalar_checks go_error
          split: option.split)
  next
    case (JObj obj)
    have "check_each (\<lambda>(name, sub). case (map_of obj name, sub) of
         (Some v, JObj child) \<Rightarrow> validate child v (joinPath path name) | _ \<Rightarrow> Inr ()) (prop_nodes raw) = Inr ()
       \<longleftrightarrow> (\<forall>(name, sub)\<in>set (prop_nodes raw). case (map_of obj name, sub) of
             (Some v, JObj child) \<Rightarrow> conforms child v | _ \<Rightarrow> True)"
      unfolding check_each_Inr
    proof (rule ball_cong [OF refl])
      fix m assume "m \<in> set (prop_nodes raw)"
      moreover obtain name sub where "m = (name, sub)" by fastforce
      ultimately show "(case m of (name, sub) \<Rightarrow> case (map_of obj name, sub) of
           (Some v, JObj child) \<Rightarrow> validate child v (joinPath path name) | _ \<Rightarrow> Inr ()) = Inr ()
         \<longleftrightarrow> (case m of (name, sub) \<Rightarrow> case (map_of obj name, sub) of
             (Some v, JObj child) \<Rightarrow> conforms child v | _ \<Rightarrow> True)"
        using props [of name sub obj] by simp
    qed
    with name_checks [of raw obj path "()" "()"] JObj show ?thesis
      by (simp add: validate.simps [of raw] checkArray_def checkObject_def conforms.simps [of raw] scalar_conforms_def scalar_checks bind_res_Inr) blast
  qed (auto simp: validate.simps [of raw] checkArray_def checkObject_def conforms.simps [of raw] scalar_conforms_def scalar_checks go_error)
qed

text \<open>
  C18: \<open>validate\<close> accepts exactly the documents that conform to the schema, at any depth: the
  order of the checks, the visiting order of the maps and the paths play no role.
\<close>

theorem validate_iff_conforms:
  "validate raw doc path = Inr () \<longleftrightarrow> conforms raw doc"
  by (rule validate_Inr)

section \<open>Well-formed schemas\<close>

definition type_keyword_ok :: "node \<Rightarrow> bool" where
  "type_keyword_ok node \<longleftrightarrow>
     (case map_of node ''type'' of
        None \<Rightarrow> True
      | Some (JStr t) \<Rightarrow> knownType t
      | Some (JArr ts) \<Rightarrow> (\<forall>t\<in>set ts. \<exists>name. t = JStr name \<and> knownType name)
      | Some _ \<Rightarrow> False)"

function schema_wf :: "node \<Rightarrow> bool" where
  "schema_wf node \<longleftrightarrow> type_keyword_ok node \<and>
     (\<forall>(name, sub)\<in>set (prop_nodes node). case sub of JObj child \<Rightarrow> schema_wf child | _ \<Rightarrow> False) \<and>
     (case items_node node of Some items \<Rightarrow> schema_wf items | None \<Rightarrow> True)"
  by pat_completeness auto
termination
  by (relation "measure node_size") (auto simp: prop_size items_size)

declare schema_wf.simps [simp del]

lemma check_type_iff: "check_type_keyword node path = Inr u \<longleftrightarrow> type_keyword_ok node"
proof (cases "map_of node ''type''")
  case (Some t)
  show ?thesis
  proof (cases t)
    case (JArr ts)
    have "(case item of
        JStr name \<Rightarrow> if \<not> knownType name then Inl (Errorf ''schema%s: unknown type %q'' [path, name]) else Inr ()
      | _ \<Rightarrow> Inl (Errorf ''schema%s: unknown type %q'' [path])) = Inr () \<longleftrightarrow>
      (\<exists>name. item = JStr name \<and> knownType name)" for item
      by (cases item) auto
    with Some JArr show ?thesis by (simp add: check_type_keyword_def type_keyword_ok_def check_each_Inr)
  qed (simp_all add: Some check_type_keyword_def type_keyword_ok_def)
qed (simp add: check_type_keyword_def type_keyword_ok_def)

lemma checkNode_iff: "checkNode node path = Inr () \<longleftrightarrow> schema_wf node"
proof (induction "node_size node" arbitrary: node path rule: less_induct)
  case less
  have props: "(case sub of JObj child \<Rightarrow> checkNode child (prop_path path name)
       | _ \<Rightarrow> Inl (Errorf ''schema%s.properties.%s: must be an object'' [path, name])) = Inr () \<longleftrightarrow>
     (case sub of JObj child \<Rightarrow> schema_wf child | _ \<Rightarrow> False)"
    if "(name, sub) \<in> set (prop_nodes node)" for name sub
    using less.hyps prop_size [of name _ node] that by (auto split: json.split)
  have "check_each (\<lambda>(name, sub). case sub of JObj child \<Rightarrow> checkNode child (prop_path path name)
       | _ \<Rightarrow> Inl (Errorf ''schema%s.properties.%s: must be an object'' [path, name])) (prop_nodes node) = Inr () \<longleftrightarrow>
     (\<forall>(name, sub)\<in>set (prop_nodes node). case sub of JObj child \<Rightarrow> schema_wf child | _ \<Rightarrow> False)"
    unfolding check_each_Inr
  proof (rule ball_cong [OF refl])
    fix m assume "m \<in> set (prop_nodes node)"
    moreover obtain name sub where "m = (name, sub)" by fastforce
    ultimately show "(case m of (name, sub) \<Rightarrow> case sub of JObj child \<Rightarrow> checkNode child (prop_path path name)
        | _ \<Rightarrow> Inl (Errorf ''schema%s.properties.%s: must be an object'' [path, name])) = Inr () \<longleftrightarrow>
      (case m of (name, sub) \<Rightarrow> case sub of JObj child \<Rightarrow> schema_wf child | _ \<Rightarrow> False)"
      using props [of name sub] by (simp only: prod.case)
  qed
  moreover have "checkNode items (path @ ''.items'') = Inr () \<longleftrightarrow> schema_wf items" if "items_node node = Some items" for items
    using less.hyps [OF items_size [OF that]] .
  ultimately show ?case
    by (simp add: checkNode.simps [of node] schema_wf.simps [of node] bind_res_Inr check_type_iff split: option.split)
qed

lemma Compile_Inr:
  "Compile raw = Inr node \<longleftrightarrow> json_Unmarshal raw = Inr (JObj node) \<and> schema_wf node"
  by (auto simp: Compile_def go_error checkNode_iff split: sum.splits json.splits)

text \<open>
  \<open>Compile\<close> succeeds exactly on JSON objects that are well-formed schemas at every depth
  (only known type names, every property an object), so a schema that is in use never meets
  the case of an unknown type.
\<close>

theorem Compile_wf:
  "Compile raw = Inr node \<longleftrightarrow> json_Unmarshal raw = Inr (JObj node) \<and> schema_wf node"
  by (rule Compile_Inr)

end
