(* ===== verification/Eval.thy ===== *)
theory Eval
  imports Json
begin

text \<open>
  \<open>internal/tools/eval.go\<close>: the evaluator of arithmetic expressions behind the tool
  \<open>math_eval\<close>.  The parser's position is kept as the text that is left; \<open>n\<close> is the length
  of the whole text, for the positions in error messages.
\<close>

section \<open>The parser\<close>

text \<open>\<open>unicode.IsSpace\<close> of one byte: the Latin-1 spaces.\<close>

definition space_byte :: "char \<Rightarrow> bool" where
  "space_byte c \<longleftrightarrow> c \<in> {CHR 0x09, CHR 0x0A, CHR 0x0B, CHR 0x0C, CHR 0x0D, CHR 0x20, CHR 0x85, CHR 0xA0}"

definition skipSpace :: "string \<Rightarrow> string" where
  "skipSpace s = dropWhile space_byte s"

text \<open>\<open>strconv.ParseFloat\<close> on a text of digits and points.\<close>

definition ParseFloat :: "string \<Rightarrow> f64 res" where
  "ParseFloat s =
     (let ip = takeWhile isDigit s; r = dropWhile isDigit s; fp = tl r;
          err = Inl (Errorf ''strconv.ParseFloat: parsing %q'' [s])
      in if r \<noteq> [] \<and> \<not> list_all isDigit fp \<or> ip @ fp = [] then err
         else case decimal_f64 False ip fp 0 of None \<Rightarrow> err | Some v \<Rightarrow> Inr v)"

definition number_char :: "char \<Rightarrow> bool" where
  "number_char c \<longleftrightarrow> isDigit c \<or> c = CHR ''.''"

definition parseNumber :: "nat \<Rightarrow> string \<Rightarrow> (f64 \<times> string) res" where
  "parseNumber n s =
     (let num = takeWhile number_char s in
      if num = [] then Inl (Errorf ''expected a number at position %d'' [Itoa (int n - int (length s))])
      else bind_res (ParseFloat num) (\<lambda>v. Inr (v, dropWhile number_char s)))"

text \<open>
  The methods \<open>parseExpr\<close>, \<open>parseTerm\<close>, \<open>parseFactor\<close> and the loops of the first two, by a
  recursion with a bound; the equations without it are \<open>parse_eqs\<close> below.
\<close>

datatype goal = Expr | ExprLoop f64 | Term | TermLoop f64 | Factor

primrec parse :: "nat \<Rightarrow> goal \<Rightarrow> nat \<Rightarrow> string \<Rightarrow> (f64 \<times> string) res" where
  "parse 0 g n s = Inl Stuck"
| "parse (Suc f) g n s =
     (case g of
        Expr \<Rightarrow> bind_res (parse f Term n s) (\<lambda>(left, r). parse f (ExprLoop left) n r)
      | ExprLoop left \<Rightarrow>
          (case skipSpace s of
             [] \<Rightarrow> Inr (left, [])
           | c # cs \<Rightarrow>
               if c = CHR ''+'' then
                 bind_res (parse f Term n cs) (\<lambda>(right, r). parse f (ExprLoop (f64_add left right)) n r)
               else if c = CHR ''-'' then
                 bind_res (parse f Term n cs) (\<lambda>(right, r). parse f (ExprLoop (f64_sub left right)) n r)
               else Inr (left, c # cs))
      | Term \<Rightarrow> bind_res (parse f Factor n s) (\<lambda>(left, r). parse f (TermLoop left) n r)
      | TermLoop left \<Rightarrow>
          (case skipSpace s of
             [] \<Rightarrow> Inr (left, [])
           | c # cs \<Rightarrow>
               if c = CHR ''*'' then
                 bind_res (parse f Factor n cs) (\<lambda>(right, r). parse f (TermLoop (f64_mul left right)) n r)
               else if c = CHR ''/'' then
                 bind_res (parse f Factor n cs) (\<lambda>(right, r).
                   if f64_eq right (Fin 0) then Inl (Errorf ''division by zero'' [])
                   else parse f (TermLoop (f64_div left right)) n r)
               else Inr (left, c # cs))
      | Factor \<Rightarrow>
          (case skipSpace s of
             [] \<Rightarrow> Inl (Errorf ''unexpected end of expression'' [])
           | c # cs \<Rightarrow>
               if c = CHR ''-'' then bind_res (parse f Factor n cs) (\<lambda>(v, r). Inr (f64_neg v, r))
               else if c = CHR ''+'' then parse f Factor n cs
               else if c = CHR ''('' then
                 bind_res (parse f Expr n cs) (\<lambda>(v, r).
                   case skipSpace r of
                     [] \<Rightarrow> Inl (Errorf ''missing closing parenthesis'' [])
                   | d # r' \<Rightarrow>
                       if d \<noteq> CHR '')'' then Inl (Errorf ''missing closing parenthesis'' []) else Inr (v, r'))
               else parseNumber n (c # cs)))"

declare parse.simps(2) [simp del]

text \<open>The methods \<open>parseExpr\<close>, \<open>parseTerm\<close> and \<open>parseFactor\<close> with a bound that is enough.\<close>

fun bound :: "goal \<Rightarrow> string \<Rightarrow> nat" where
  "bound Expr s = 4 * length s + 3"
| "bound Term s = 4 * length s + 2"
| "bound _ s = 4 * length s + 1"

definition parseExpr :: "nat \<Rightarrow> string \<Rightarrow> (f64 \<times> string) res" where
  "parseExpr n s = parse (bound Expr s) Expr n s"

definition parseTerm :: "nat \<Rightarrow> string \<Rightarrow> (f64 \<times> string) res" where
  "parseTerm n s = parse (bound Term s) Term n s"

definition parseFactor :: "nat \<Rightarrow> string \<Rightarrow> (f64 \<times> string) res" where
  "parseFactor n s = parse (bound Factor s) Factor n s"

definition exprLoop :: "nat \<Rightarrow> f64 \<Rightarrow> string \<Rightarrow> (f64 \<times> string) res" where
  "exprLoop n left s = parse (bound (ExprLoop left) s) (ExprLoop left) n s"

definition termLoop :: "nat \<Rightarrow> f64 \<Rightarrow> string \<Rightarrow> (f64 \<times> string) res" where
  "termLoop n left s = parse (bound (TermLoop left) s) (TermLoop left) n s"

definition eval :: "string \<Rightarrow> f64 res" where
  "eval expr =
     bind_res (parseExpr (length expr) expr) (\<lambda>(v, r).
       let r' = skipSpace r in
       if r' \<noteq> [] then Inl (Errorf ''unexpected %q at position %d'' [r', Itoa (int (length expr) - int (length r'))])
       else Inr v)"

section \<open>The bound\<close>

lemma skipSpace_le: "length (skipSpace s) \<le> length s"
  by (simp add: skipSpace_def length_dropWhile_le)

lemma skipSpace_Cons: "skipSpace s = c # cs \<Longrightarrow> length cs < length s"
  using skipSpace_le [of s] by simp

text \<open>
  A parse is good for a length when it is not stuck and leaves a text shorter than that.
\<close>

definition good :: "nat \<Rightarrow> (f64 \<times> string) res \<Rightarrow> bool" where
  "good k m \<longleftrightarrow> m \<noteq> Inl Stuck \<and> (\<forall>v r. m = Inr (v, r) \<longrightarrow> length r < k)"

named_theorems good_intros \<open>rules that show a parse good\<close>

lemma good_Inl [good_intros]: "e \<noteq> Stuck \<Longrightarrow> good k (Inl e)"
  by (simp add: good_def)

lemma good_Inr [good_intros]: "length r < k \<Longrightarrow> good k (Inr (v, r))"
  by (simp add: good_def)

lemma good_le: "good j m \<Longrightarrow> j \<le> k \<Longrightarrow> good k m"
  by (auto simp: good_def)

lemma good_bind:
  assumes "good j m" and "\<And>v r. length r < j \<Longrightarrow> good k (g v r)"
  shows "good k (bind_res m (\<lambda>(v, r). g v r))"
  using assms by (cases m) (auto simp: good_def)

lemma bind_res_shorter:
  assumes "good j m" and "m' = m" and "\<And>v r. length r < j \<Longrightarrow> g v r = h v r"
  shows "bind_res m' (\<lambda>(v, r). g v r) = bind_res m (\<lambda>(v, r). h v r)"
  using assms by (cases m) (auto simp: good_def)

lemma parseNumber_good: "good (length s) (parseNumber n s)"
proof -
  have "length (takeWhile number_char s) + length (dropWhile number_char s) = length s"
    by (metis length_append takeWhile_dropWhile_id)
  then have "takeWhile number_char s \<noteq> [] \<Longrightarrow> length (dropWhile number_char s) < length s"
    by (cases "takeWhile number_char s") auto
  then show ?thesis
    by (auto simp: good_def parseNumber_def ParseFloat_def Let_def bind_res_def split: sum.splits option.splits if_splits)
qed

fun left_of :: "goal \<Rightarrow> string \<Rightarrow> nat" where
  "left_of (ExprLoop v) s = Suc (length s)"
| "left_of (TermLoop v) s = Suc (length s)"
| "left_of _ s = length s"

lemma parse_good: "bound g s \<le> f \<Longrightarrow> good (left_of g s) (parse f g n s)"
proof (induction f arbitrary: g s)
  case 0
  then show ?case by (cases g) auto
next
  case (Suc f)
  note step = good_le [OF Suc.IH]
  note cons = skipSpace_Cons [of s]
  have later: "good k (parse f g' n r)" if "bound g' r \<le> f" "left_of g' r \<le> k" for g' r k
    using step [OF that] .
  show ?case
  proof (cases g)
    case Expr
    have "good (length s) (parse f (ExprLoop v) n r)" if "length r < length s" for v r
      using that Suc.prems Expr by (intro later) auto
    with Suc.prems show ?thesis unfolding Expr
      by (auto simp: parse.simps(2) intro!: good_bind [OF later [of Term s "length s"]])
  next
    case Term
    have "good (length s) (parse f (TermLoop v) n r)" if "length r < length s" for v r
      using that Suc.prems Term by (intro later) auto
    with Suc.prems show ?thesis unfolding Term
      by (auto simp: parse.simps(2) intro!: good_bind [OF later [of Factor s "length s"]])
  next
    case (ExprLoop left)
    show ?thesis
    proof (cases "skipSpace s")
      case (Cons c cs)
      have "good (Suc (length s)) (parse f (ExprLoop v) n r)" if "length r < length cs" for v r
        using that Suc.prems ExprLoop cons [OF Cons] by (intro later) auto
      moreover have "good (length cs) (parse f Term n cs)"
        using Suc.prems ExprLoop cons [OF Cons] by (intro later) auto
      ultimately show ?thesis unfolding ExprLoop using Cons cons [OF Cons]
        by (auto simp: parse.simps(2) intro!: good_bind [of "length cs"] good_intros)
    qed (simp add: ExprLoop parse.simps(2) good_intros)
  next
    case (TermLoop left)
    show ?thesis
    proof (cases "skipSpace s")
      case (Cons c cs)
      have "good (Suc (length s)) (parse f (TermLoop v) n r)" if "length r < length cs" for v r
        using that Suc.prems TermLoop cons [OF Cons] by (intro later) auto
      moreover have "good (length cs) (parse f Factor n cs)"
        using Suc.prems TermLoop cons [OF Cons] by (intro later) auto
      ultimately show ?thesis unfolding TermLoop using Cons cons [OF Cons]
        by (auto simp: parse.simps(2) intro!: good_bind [of "length cs"] good_intros)
    qed (simp add: TermLoop parse.simps(2) good_intros)
  next
    case Factor
    show ?thesis
    proof (cases "skipSpace s")
      case (Cons c cs)
      note len = cons [OF Cons]
      have e: "good (length cs) (parse f Expr n cs)" and f: "good (length cs) (parse f Factor n cs)"
        using Suc.prems Factor len by (auto intro!: later)
      have "good (length s) (parseNumber n (c # cs))"
        using parseNumber_good [of "c # cs" n] skipSpace_le [of s] Cons by (auto elim: good_le)
      moreover have "good (length s) (case skipSpace r of
            [] \<Rightarrow> Inl (Errorf ''missing closing parenthesis'' [])
          | d # r' \<Rightarrow> if d \<noteq> CHR '')'' then Inl (Errorf ''missing closing parenthesis'' []) else Inr (v, r'))"
        if "length r < length cs" for v r
        using that skipSpace_Cons [of r] len by (force split: list.split intro: good_intros)
      ultimately show ?thesis unfolding Factor using Cons len
        by (auto simp: parse.simps(2) intro!: good_bind [OF e] good_bind [OF f] good_intros good_le [OF f])
    qed (simp add: Factor parse.simps(2) good_intros)
  qed
qed

text \<open>Any amount of fuel from the bound on gives the same result.\<close>

lemma parse_more: "bound g s \<le> f \<Longrightarrow> parse (Suc f) g n s = parse f g n s"
proof (induction f arbitrary: g s)
  case 0
  then show ?case by (cases g) auto
next
  case (Suc f)
  note cons = skipSpace_Cons [of s]
  show ?case
  proof (cases g)
    case Expr
    show ?thesis unfolding Expr parse.simps(2) [of _ Expr] goal.case
      using Suc.prems Expr by (intro bind_res_shorter [OF parse_good Suc.IH] Suc.IH) auto
  next
    case Term
    show ?thesis unfolding Term parse.simps(2) [of _ Term] goal.case
      using Suc.prems Term by (intro bind_res_shorter [OF parse_good Suc.IH] Suc.IH) auto
  next
    case (ExprLoop left)
    show ?thesis
    proof (cases "skipSpace s")
      case (Cons c cs)
      have "bind_res (parse (Suc f) Term n cs) (\<lambda>(right, r). parse (Suc f) (ExprLoop (op right)) n r) =
            bind_res (parse f Term n cs) (\<lambda>(right, r). parse f (ExprLoop (op right)) n r)" for op
        using Suc.prems ExprLoop cons [OF Cons] by (intro bind_res_shorter [OF parse_good Suc.IH] Suc.IH) auto
      then show ?thesis unfolding ExprLoop parse.simps(2) [of _ "ExprLoop left"] goal.case Cons list.case by simp
    qed (simp add: ExprLoop parse.simps(2))
  next
    case (TermLoop left)
    show ?thesis
    proof (cases "skipSpace s")
      case (Cons c cs)
      have "bind_res (parse (Suc f) Factor n cs) (\<lambda>(right, r). if stop right then e else parse (Suc f) (TermLoop (op right)) n r) =
            bind_res (parse f Factor n cs) (\<lambda>(right, r). if stop right then e else parse f (TermLoop (op right)) n r)" for op stop e
        using Suc.prems TermLoop cons [OF Cons]
        by (intro bind_res_shorter [OF parse_good Suc.IH] if_cong refl Suc.IH) auto
      note this [of "\<lambda>_. False"] this [of "\<lambda>v. f64_eq v (Fin 0)"]
      then show ?thesis unfolding TermLoop parse.simps(2) [of _ "TermLoop left"] goal.case Cons list.case by simp
    qed (simp add: TermLoop parse.simps(2))
  next
    case Factor
    show ?thesis
    proof (cases "skipSpace s")
      case (Cons c cs)
      have "parse (Suc f) Factor n cs = parse f Factor n cs" "parse (Suc f) Expr n cs = parse f Expr n cs"
        using Suc.prems Factor cons [OF Cons] by (auto intro!: Suc.IH)
      then show ?thesis unfolding Factor parse.simps(2) [of _ Factor] goal.case Cons list.case by simp
    qed (simp add: Factor parse.simps(2))
  qed
qed

lemma parse_enough: "bound g s \<le> f \<Longrightarrow> parse f g n s = parse (bound g s) g n s"
  by (induction rule: dec_induct) (simp_all add: parse_more)

lemmas parser_defs = parseExpr_def parseTerm_def parseFactor_def exprLoop_def termLoop_def

lemma parser_enough:
  "4 * length s + 2 < f \<Longrightarrow> parse f Expr n s = parseExpr n s"
  "4 * length s + 1 < f \<Longrightarrow> parse f Term n s = parseTerm n s"
  "4 * length s < f \<Longrightarrow> parse f Factor n s = parseFactor n s"
  "4 * length s < f \<Longrightarrow> parse f (ExprLoop v) n s = exprLoop n v s"
  "4 * length s < f \<Longrightarrow> parse f (TermLoop v) n s = termLoop n v s"
  unfolding parser_defs by (rule parse_enough, simp)+

lemma parser_good:
  "good (length s) (parseTerm n s)" "good (length s) (parseFactor n s)" "good (length s) (parseExpr n s)"
  using parse_good [of Term s "bound Term s" n] parse_good [of Factor s "bound Factor s" n]
    parse_good [of Expr s "bound Expr s" n] by (simp_all add: parser_defs)

text \<open>The equations of the methods, as the code has them.\<close>

lemma parseExpr_eq: "parseExpr n s = bind_res (parseTerm n s) (\<lambda>(left, r). exprLoop n left r)"
proof -
  have "parseExpr n s = parse (Suc (4 * length s + 2)) Expr n s" by (simp add: parser_enough)
  also have "\<dots> = bind_res (parseTerm n s) (\<lambda>(left, r). exprLoop n left r)"
    unfolding parse.simps(2) goal.case
    by (rule bind_res_shorter [OF parser_good(1)]) (auto simp: parser_enough)
  finally show ?thesis .
qed

lemma parseTerm_eq: "parseTerm n s = bind_res (parseFactor n s) (\<lambda>(left, r). termLoop n left r)"
proof -
  have "parseTerm n s = parse (Suc (4 * length s + 1)) Term n s" by (simp add: parser_enough)
  also have "\<dots> = bind_res (parseFactor n s) (\<lambda>(left, r). termLoop n left r)"
    unfolding parse.simps(2) goal.case
    by (rule bind_res_shorter [OF parser_good(2)]) (auto simp: parser_enough)
  finally show ?thesis .
qed

lemma exprLoop_eq:
  "exprLoop n left s =
     (case skipSpace s of
        [] \<Rightarrow> Inr (left, [])
      | c # cs \<Rightarrow>
          if c = CHR ''+'' then bind_res (parseTerm n cs) (\<lambda>(right, r). exprLoop n (f64_add left right) r)
          else if c = CHR ''-'' then bind_res (parseTerm n cs) (\<lambda>(right, r). exprLoop n (f64_sub left right) r)
          else Inr (left, c # cs))"
proof (cases "skipSpace s")
  case (Cons c cs)
  have "bind_res (parse (4 * length s) Term n cs) (\<lambda>(right, r). parse (4 * length s) (ExprLoop (op right)) n r) =
        bind_res (parseTerm n cs) (\<lambda>(right, r). exprLoop n (op right) r)" for op
    using skipSpace_Cons [OF Cons]
    by (intro bind_res_shorter [OF parser_good(1)]) (auto simp: parser_enough)
  with Cons show ?thesis by (simp add: exprLoop_def [of n left s] parse.simps(2))
qed (simp add: exprLoop_def parse.simps(2))

lemma termLoop_eq:
  "termLoop n left s =
     (case skipSpace s of
        [] \<Rightarrow> Inr (left, [])
      | c # cs \<Rightarrow>
          if c = CHR ''*'' then bind_res (parseFactor n cs) (\<lambda>(right, r). termLoop n (f64_mul left right) r)
          else if c = CHR ''/'' then
            bind_res (parseFactor n cs) (\<lambda>(right, r).
              if f64_eq right (Fin 0) then Inl (Errorf ''division by zero'' [])
              else termLoop n (f64_div left right) r)
          else Inr (left, c # cs))"
proof (cases "skipSpace s")
  case (Cons c cs)
  have "bind_res (parse (4 * length s) Factor n cs) (\<lambda>(right, r). if stop right then e else parse (4 * length s) (TermLoop (op right)) n r) =
        bind_res (parseFactor n cs) (\<lambda>(right, r). if stop right then e else termLoop n (op right) r)" for op stop e
    using skipSpace_Cons [OF Cons]
    by (intro bind_res_shorter [OF parser_good(2)]) (auto simp: parser_enough)
  note this [of "\<lambda>_. False"] this [of "\<lambda>v. f64_eq v (Fin 0)"]
  with Cons show ?thesis by (simp add: termLoop_def [of n left s] parse.simps(2))
qed (simp add: termLoop_def parse.simps(2))

lemma parseFactor_eq:
  "parseFactor n s =
     (case skipSpace s of
        [] \<Rightarrow> Inl (Errorf ''unexpected end of expression'' [])
      | c # cs \<Rightarrow>
          if c = CHR ''-'' then bind_res (parseFactor n cs) (\<lambda>(v, r). Inr (f64_neg v, r))
          else if c = CHR ''+'' then parseFactor n cs
          else if c = CHR ''('' then
            bind_res (parseExpr n cs) (\<lambda>(v, r).
              case skipSpace r of
                [] \<Rightarrow> Inl (Errorf ''missing closing parenthesis'' [])
              | d # r' \<Rightarrow>
                  if d \<noteq> CHR '')'' then Inl (Errorf ''missing closing parenthesis'' []) else Inr (v, r'))
          else parseNumber n (c # cs))"
proof (cases "skipSpace s")
  case (Cons c cs)
  have "parse (4 * length s) Factor n cs = parseFactor n cs" "parse (4 * length s) Expr n cs = parseExpr n cs"
    using skipSpace_Cons [OF Cons] by (auto simp: parser_enough)
  with Cons show ?thesis by (simp add: parseFactor_def [of n s] parse.simps(2))
qed (simp add: parseFactor_def parse.simps(2))

section \<open>The grammar\<close>

text \<open>
  Expressions with the usual precedence and association to the left, each with the spaces in
  front of its tokens.
\<close>

datatype sum_expr = Single prod_expr | Plus sum_expr string prod_expr | Minus sum_expr string prod_expr
  and prod_expr = Alone atom | Times prod_expr string atom | Over prod_expr string atom
  and atom = Lit string string | Neg string atom | Pos string atom | Paren string sum_expr string

primrec show_sum :: "sum_expr \<Rightarrow> string" and show_prod :: "prod_expr \<Rightarrow> string" and show_atom :: "atom \<Rightarrow> string" where
  "show_sum (Single t) = show_prod t"
| "show_sum (Plus e w t) = show_sum e @ w @ CHR ''+'' # show_prod t"
| "show_sum (Minus e w t) = show_sum e @ w @ CHR ''-'' # show_prod t"
| "show_prod (Alone a) = show_atom a"
| "show_prod (Times t w a) = show_prod t @ w @ CHR ''*'' # show_atom a"
| "show_prod (Over t w a) = show_prod t @ w @ CHR ''/'' # show_atom a"
| "show_atom (Lit w d) = w @ d"
| "show_atom (Neg w a) = w @ CHR ''-'' # show_atom a"
| "show_atom (Pos w a) = w @ CHR ''+'' # show_atom a"
| "show_atom (Paren w e w') = w @ CHR ''('' # show_sum e @ w' @ [CHR '')'']"

abbreviation spaces :: "string \<Rightarrow> bool" where
  "spaces w \<equiv> list_all space_byte w"

primrec wf_sum :: "sum_expr \<Rightarrow> bool" and wf_prod :: "prod_expr \<Rightarrow> bool" and wf_atom :: "atom \<Rightarrow> bool" where
  "wf_sum (Single t) \<longleftrightarrow> wf_prod t"
| "wf_sum (Plus e w t) \<longleftrightarrow> wf_sum e \<and> spaces w \<and> wf_prod t"
| "wf_sum (Minus e w t) \<longleftrightarrow> wf_sum e \<and> spaces w \<and> wf_prod t"
| "wf_prod (Alone a) \<longleftrightarrow> wf_atom a"
| "wf_prod (Times t w a) \<longleftrightarrow> wf_prod t \<and> spaces w \<and> wf_atom a"
| "wf_prod (Over t w a) \<longleftrightarrow> wf_prod t \<and> spaces w \<and> wf_atom a"
| "wf_atom (Lit w d) \<longleftrightarrow> spaces w \<and> d \<noteq> [] \<and> list_all number_char d"
| "wf_atom (Neg w a) \<longleftrightarrow> spaces w \<and> wf_atom a"
| "wf_atom (Pos w a) \<longleftrightarrow> spaces w \<and> wf_atom a"
| "wf_atom (Paren w e w') \<longleftrightarrow> spaces w \<and> wf_sum e \<and> spaces w'"

text \<open>The value, from left to right; only literals and divisions can fail.\<close>

definition divide :: "f64 \<Rightarrow> f64 \<Rightarrow> f64 res" where
  "divide x y = (if f64_eq y (Fin 0) then Inl (Errorf ''division by zero'' []) else Inr (f64_div x y))"

primrec sum_value :: "sum_expr \<Rightarrow> f64 res" and prod_value :: "prod_expr \<Rightarrow> f64 res" and atom_value :: "atom \<Rightarrow> f64 res" where
  "sum_value (Single t) = prod_value t"
| "sum_value (Plus e w t) = bind_res (sum_value e) (\<lambda>x. bind_res (prod_value t) (\<lambda>y. Inr (f64_add x y)))"
| "sum_value (Minus e w t) = bind_res (sum_value e) (\<lambda>x. bind_res (prod_value t) (\<lambda>y. Inr (f64_sub x y)))"
| "prod_value (Alone a) = atom_value a"
| "prod_value (Times t w a) = bind_res (prod_value t) (\<lambda>x. bind_res (atom_value a) (\<lambda>y. Inr (f64_mul x y)))"
| "prod_value (Over t w a) = bind_res (prod_value t) (\<lambda>x. bind_res (atom_value a) (\<lambda>y. divide x y))"
| "atom_value (Lit w d) = ParseFloat d"
| "atom_value (Neg w a) = bind_res (atom_value a) (\<lambda>x. Inr (f64_neg x))"
| "atom_value (Pos w a) = atom_value a"
| "atom_value (Paren w e w') = sum_value e"

subsection \<open>Texts of the grammar are evaluated\<close>

definition delim :: "string \<Rightarrow> bool" where
  "delim r \<longleftrightarrow> r = [] \<or> \<not> number_char (hd r)"

definition no_product :: "string \<Rightarrow> bool" where
  "no_product r \<longleftrightarrow> skipSpace r = [] \<or> hd (skipSpace r) \<notin> {CHR ''*'', CHR ''/''}"

lemma skipSpace_spaces: "spaces w \<Longrightarrow> skipSpace (w @ r) = skipSpace r"
  by (induction w) (simp_all add: skipSpace_def)

lemma skipSpace_idem [simp]: "skipSpace (skipSpace r) = skipSpace r"
  by (simp add: skipSpace_def)

lemma skipSpace_nonspace: "\<not> space_byte c \<Longrightarrow> skipSpace (c # r) = c # r"
  by (simp add: skipSpace_def)

lemma bind_res_assoc: "bind_res (bind_res m f) g = bind_res m (\<lambda>x. bind_res (f x) g)"
  by (cases m) simp_all

lemma number_char_not_space: "number_char c \<Longrightarrow> \<not> space_byte c"
  by (auto simp: number_char_def space_byte_def isDigit_def)

lemma number_char_not_op: "number_char c \<Longrightarrow> c \<notin> {CHR ''-'', CHR ''+'', CHR ''(''}"
  by (auto simp: number_char_def isDigit_def)

lemma space_not_number: "space_byte c \<Longrightarrow> \<not> number_char c"
  using number_char_not_space by blast

lemma delim_spaces: "spaces w \<Longrightarrow> delim r \<Longrightarrow> delim (w @ r)"
  by (cases w) (simp_all add: delim_def space_not_number)

lemma exprLoop_skip: "exprLoop n v (skipSpace r) = exprLoop n v r"
  by (simp add: exprLoop_eq [of n v r] exprLoop_eq [of n v "skipSpace r"])

lemma termLoop_stops: "no_product r \<Longrightarrow> termLoop n v r = Inr (v, skipSpace r)"
  by (auto simp: no_product_def termLoop_eq [of n v r] split: list.split)

lemma parseNumber_lit:
  assumes "d \<noteq> []" "list_all number_char d" "delim r"
  shows "parseNumber n (d @ r) = bind_res (ParseFloat d) (\<lambda>v. Inr (v, r))"
proof -
  have "takeWhile number_char (d @ r) = d" "dropWhile number_char (d @ r) = r"
    using assms by (cases r; simp add: list_all_iff delim_def)+
  with assms(1) show ?thesis by (simp add: parseNumber_def)
qed

lemma delim_simps [simp]: "delim []" "delim (c # r) \<longleftrightarrow> \<not> number_char c"
  by (simp_all add: delim_def)

lemma operator_bytes [simp]:
  "\<not> number_char (CHR ''+'')" "\<not> number_char (CHR ''-'')" "\<not> number_char (CHR ''*'')"
  "\<not> number_char (CHR ''/'')" "\<not> number_char (CHR '')'')"
  "\<not> space_byte (CHR ''+'')" "\<not> space_byte (CHR ''-'')" "\<not> space_byte (CHR ''*'')"
  "\<not> space_byte (CHR ''/'')" "\<not> space_byte (CHR '')'')" "\<not> space_byte (CHR ''('')"
  by (simp_all add: number_char_def space_byte_def isDigit_def)

lemma no_product_Cons: "\<not> space_byte c \<Longrightarrow> c \<noteq> CHR ''*'' \<Longrightarrow> c \<noteq> CHR ''/'' \<Longrightarrow> spaces w \<Longrightarrow> no_product (w @ c # r)"
  by (simp add: no_product_def skipSpace_spaces skipSpace_nonspace)

lemma parse_shown:
  "wf_sum e \<Longrightarrow> delim r \<Longrightarrow> no_product r \<Longrightarrow>
     parseExpr n (show_sum e @ r) = bind_res (sum_value e) (\<lambda>v. exprLoop n v r)"
  "wf_prod t \<Longrightarrow> delim r \<Longrightarrow> parseTerm n (show_prod t @ r) = bind_res (prod_value t) (\<lambda>v. termLoop n v r)"
  "wf_atom a \<Longrightarrow> delim r \<Longrightarrow> parseFactor n (show_atom a @ r) = bind_res (atom_value a) (\<lambda>v. Inr (v, r))"
proof (induction e and t and a arbitrary: r and r and r)
  case (Single t)
  then show ?case by (simp add: parseExpr_eq bind_res_assoc termLoop_stops exprLoop_skip)
next
  case (Plus e w t)
  then show ?case
    by (simp add: delim_spaces no_product_Cons bind_res_assoc exprLoop_eq [of n _ "w @ _"]
        skipSpace_spaces skipSpace_nonspace termLoop_stops exprLoop_skip)
next
  case (Minus e w t)
  then show ?case
    by (simp add: delim_spaces no_product_Cons bind_res_assoc exprLoop_eq [of n _ "w @ _"]
        skipSpace_spaces skipSpace_nonspace termLoop_stops exprLoop_skip)
next
  case (Alone a)
  then show ?case by (simp add: parseTerm_eq bind_res_assoc)
next
  case (Times t w a)
  then show ?case
    by (simp add: delim_spaces bind_res_assoc termLoop_eq [of n _ "w @ _"] skipSpace_spaces skipSpace_nonspace)
next
  case (Over t w a)
  then show ?case
    by (simp add: delim_spaces bind_res_assoc termLoop_eq [of n _ "w @ _"] skipSpace_spaces skipSpace_nonspace divide_def
        if_distrib [of "\<lambda>m. bind_res m _"] cong: if_cong)
next
  case (Lit w d)
  then obtain c cs where d: "d = c # cs" by (cases d) auto
  with Lit have "number_char c" by simp
  with Lit d show ?case
    using number_char_not_space [of c] number_char_not_op [of c] parseNumber_lit [of d r n]
    by (simp add: parseFactor_eq [of n "w @ _"] skipSpace_spaces skipSpace_nonspace)
next
  case (Neg w a)
  then show ?case by (simp add: parseFactor_eq [of n "w @ _"] skipSpace_spaces skipSpace_nonspace bind_res_assoc)
next
  case (Pos w a)
  then show ?case by (simp add: parseFactor_eq [of n "w @ _"] skipSpace_spaces skipSpace_nonspace)
next
  case (Paren w e w')
  then show ?case
    by (simp add: parseFactor_eq [of n "w @ _"] skipSpace_spaces skipSpace_nonspace bind_res_assoc
        delim_spaces no_product_Cons exprLoop_eq [of n _ "w' @ _"])
qed

lemma eval_shown:
  assumes "wf_sum e" "spaces w"
  shows "eval (show_sum e @ w) = sum_value e"
proof -
  have s: "skipSpace w = []" using skipSpace_spaces [OF assms(2), of "[]"] by (simp add: skipSpace_def)
  have "delim w" using delim_spaces [OF assms(2), of "[]"] by simp
  with s parse_shown(1) [OF assms(1), of w] show ?thesis
    by (cases "sum_value e") (simp_all add: eval_def no_product_def exprLoop_eq skipSpace_def [of "[]"])
qed

subsection \<open>Only texts of the grammar are evaluated\<close>

lemma skipSpace_split: obtains w where "spaces w" "s = w @ skipSpace s"
proof
  show "spaces (takeWhile space_byte s)" by (auto simp: list_all_iff dest: set_takeWhileD)
  show "s = takeWhile space_byte s @ skipSpace s" by (simp add: skipSpace_def)
qed

lemma bind_pair_Inr: "bind_res m (\<lambda>(x, r). f x r) = Inr y \<longleftrightarrow> (\<exists>x r. m = Inr (x, r) \<and> f x r = Inr y)"
  by (cases m) auto

lemma close_Inr:
  "(case xs of [] \<Rightarrow> Inl e | d # r' \<Rightarrow> if d \<noteq> c then Inl e' else Inr (x, r')) = Inr (v, r) \<longleftrightarrow> xs = c # r \<and> v = x"
  by (auto split: list.split)

text \<open>What a parse that succeeds has read.\<close>

definition read_atom :: "string \<Rightarrow> f64 \<Rightarrow> string \<Rightarrow> bool" where
  "read_atom s v r \<longleftrightarrow> (\<exists>a. wf_atom a \<and> s = show_atom a @ r \<and> atom_value a = Inr v)"

definition read_prod :: "string \<Rightarrow> f64 \<Rightarrow> string \<Rightarrow> bool" where
  "read_prod s v r \<longleftrightarrow> (\<exists>t w. wf_prod t \<and> spaces w \<and> s = show_prod t @ w @ r \<and> prod_value t = Inr v)"

definition read_sum :: "string \<Rightarrow> f64 \<Rightarrow> string \<Rightarrow> bool" where
  "read_sum s v r \<longleftrightarrow> (\<exists>e w. wf_sum e \<and> spaces w \<and> s = show_sum e @ w @ r \<and> sum_value e = Inr v)"

lemma parseNumber_read:
  assumes "parseNumber n s = Inr (v, r)" and "spaces w"
  shows "read_atom (w @ s) v r"
proof -
  define d where "d = takeWhile number_char s"
  from assms(1) have "d \<noteq> []" "ParseFloat d = Inr v" "r = dropWhile number_char s"
    by (auto simp: parseNumber_def d_def Let_def bind_res_Inr split: if_splits)
  moreover have "list_all number_char d" by (auto simp: d_def list_all_iff dest: set_takeWhileD)
  moreover have "s = d @ dropWhile number_char s" by (simp add: d_def)
  ultimately show ?thesis using assms(2)
    unfolding read_atom_def by (intro exI [of _ "Lit w d"]) simp
qed

lemma read_atom_intros:
  assumes w: "spaces w"
  shows "read_atom cs v r \<Longrightarrow> read_atom (w @ CHR ''-'' # cs) (f64_neg v) r"
    and "read_atom cs v r \<Longrightarrow> read_atom (w @ CHR ''+'' # cs) v r"
    and "read_sum cs v r' \<Longrightarrow> skipSpace r' = CHR '')'' # r \<Longrightarrow> read_atom (w @ CHR ''('' # cs) v r"
proof -
  show "read_atom (w @ CHR ''-'' # cs) (f64_neg v) r" if "read_atom cs v r"
  proof -
    from that obtain a where "wf_atom a" "cs = show_atom a @ r" "atom_value a = Inr v" by (auto simp: read_atom_def)
    with w show ?thesis unfolding read_atom_def by (intro exI [of _ "Neg w a"]) simp
  qed
  show "read_atom (w @ CHR ''+'' # cs) v r" if "read_atom cs v r"
  proof -
    from that obtain a where "wf_atom a" "cs = show_atom a @ r" "atom_value a = Inr v" by (auto simp: read_atom_def)
    with w show ?thesis unfolding read_atom_def by (intro exI [of _ "Pos w a"]) simp
  qed
  show "read_atom (w @ CHR ''('' # cs) v r" if rd: "read_sum cs v r'" and close: "skipSpace r' = CHR '')'' # r"
  proof -
    obtain u where "spaces u" "r' = u @ CHR '')'' # r" using skipSpace_split [of r'] close by metis
    moreover from rd obtain e w' where "wf_sum e" "spaces w'" "cs = show_sum e @ w' @ r'" "sum_value e = Inr v"
      by (auto simp: read_sum_def)
    ultimately show ?thesis using w unfolding read_atom_def by (intro exI [of _ "Paren w e (w' @ u)"]) simp
  qed
qed

text \<open>A loop extends the expression that it has on its left.\<close>

definition extends_prod :: "f64 \<Rightarrow> string \<Rightarrow> f64 \<Rightarrow> string \<Rightarrow> bool" where
  "extends_prod left s v r \<longleftrightarrow> (\<forall>t. wf_prod t \<and> prod_value t = Inr left \<longrightarrow> read_prod (show_prod t @ s) v r)"

definition extends_sum :: "f64 \<Rightarrow> string \<Rightarrow> f64 \<Rightarrow> string \<Rightarrow> bool" where
  "extends_sum left s v r \<longleftrightarrow> (\<forall>e w. wf_sum e \<and> spaces w \<and> sum_value e = Inr left \<longrightarrow> read_sum (show_sum e @ w @ s) v r)"

lemma termLoop_read:
  assumes "\<And>s' v r. length s' < length s \<Longrightarrow> parseFactor n s' = Inr (v, r) \<Longrightarrow> read_atom s' v r"
    and "termLoop n left s = Inr (v, r)"
  shows "extends_prod left s v r"
  using assms
proof (induction "length s" arbitrary: s left rule: less_induct)
  case less
  obtain w where w: "spaces w" "s = w @ skipSpace s" by (rule skipSpace_split)
  show ?case
  proof (cases "skipSpace s = r \<and> v = left")
    case True
    with w show ?thesis by (auto simp: extends_prod_def read_prod_def)
  next
    case False
    with less.prems(2) obtain c cs x r' where c: "skipSpace s = c # cs" "parseFactor n cs = Inr (x, r')"
      and op: "c = CHR ''*'' \<and> termLoop n (f64_mul left x) r' = Inr (v, r) \<or>
        c = CHR ''/'' \<and> divide left x = Inr (f64_div left x) \<and> termLoop n (f64_div left x) r' = Inr (v, r)"
      by (auto simp: termLoop_eq [of n left s] bind_pair_Inr divide_def split: list.splits if_splits)
    have len: "length cs < length s" by (rule skipSpace_Cons [OF c(1)])
    have len': "length r' < length cs" using parser_good(2) [of cs n] c(2) by (simp add: good_def)
    obtain a where a: "wf_atom a" "cs = show_atom a @ r'" "atom_value a = Inr x"
      using less.prems(1) [OF len c(2)] by (auto simp: read_atom_def)
    have IH: "extends_prod y r' v r" if "termLoop n y r' = Inr (v, r)" for y
      using less.hyps [of r' y] less.prems(1) len len' that by simp
    have s: "s = w @ c # show_atom a @ r'" using w(2) c(1) a(2) by simp
    show ?thesis unfolding extends_prod_def
    proof (intro allI impI)
      fix t assume t: "wf_prod t \<and> prod_value t = Inr left"
      from op show "read_prod (show_prod t @ s) v r"
      proof
        assume o: "c = CHR ''*'' \<and> termLoop n (f64_mul left x) r' = Inr (v, r)"
        then have "read_prod (show_prod (Times t w a) @ r') v r"
          using IH [of "f64_mul left x"] t w(1) a by (auto simp: extends_prod_def dest: spec [of _ "Times t w a"])
        with s o show ?thesis by simp
      next
        assume o: "c = CHR ''/'' \<and> divide left x = Inr (f64_div left x) \<and> termLoop n (f64_div left x) r' = Inr (v, r)"
        then have "read_prod (show_prod (Over t w a) @ r') v r"
          using IH [of "f64_div left x"] t w(1) a by (auto simp: extends_prod_def dest: spec [of _ "Over t w a"])
        with s o show ?thesis by simp
      qed
    qed
  qed
qed

lemma exprLoop_read:
  assumes "\<And>s' v r. length s' < length s \<Longrightarrow> parseTerm n s' = Inr (v, r) \<Longrightarrow> read_prod s' v r"
    and "exprLoop n left s = Inr (v, r)"
  shows "extends_sum left s v r"
  using assms
proof (induction "length s" arbitrary: s left rule: less_induct)
  case less
  obtain w where w: "spaces w" "s = w @ skipSpace s" by (rule skipSpace_split)
  show ?case
  proof (cases "skipSpace s = r \<and> v = left")
    case True
    have "read_sum (show_sum e @ u @ s) v r" if "wf_sum e" "spaces u" "sum_value e = Inr left" for e u
      unfolding read_sum_def using that w True by (intro exI [of _ e] exI [of _ "u @ w"]) simp
    then show ?thesis by (simp add: extends_sum_def)
  next
    case False
    with less.prems(2) obtain c cs x r' where c: "skipSpace s = c # cs" "parseTerm n cs = Inr (x, r')"
      and op: "c = CHR ''+'' \<and> exprLoop n (f64_add left x) r' = Inr (v, r) \<or>
        c = CHR ''-'' \<and> exprLoop n (f64_sub left x) r' = Inr (v, r)"
      by (auto simp: exprLoop_eq [of n left s] bind_pair_Inr split: list.splits if_splits)
    have len: "length cs < length s" by (rule skipSpace_Cons [OF c(1)])
    have len': "length r' < length cs" using parser_good(1) [of cs n] c(2) by (simp add: good_def)
    obtain t u where t: "wf_prod t" "spaces u" "cs = show_prod t @ u @ r'" "prod_value t = Inr x"
      using less.prems(1) [OF len c(2)] by (auto simp: read_prod_def)
    have IH: "extends_sum y r' v r" if "exprLoop n y r' = Inr (v, r)" for y
      using less.hyps [of r' y] less.prems(1) len len' that by simp
    have s: "s = w @ c # show_prod t @ u @ r'" using w(2) c(1) t(3) by simp
    show ?thesis unfolding extends_sum_def
    proof (intro allI impI)
      fix e u' assume e: "wf_sum e \<and> spaces u' \<and> sum_value e = Inr left"
      from op show "read_sum (show_sum e @ u' @ s) v r"
      proof
        assume o: "c = CHR ''+'' \<and> exprLoop n (f64_add left x) r' = Inr (v, r)"
        then have "read_sum (show_sum (Plus e (u' @ w) t) @ u @ r') v r"
          using IH [of "f64_add left x"] e w(1) t by (auto simp: extends_sum_def dest!: spec [of _ "Plus e (u' @ w) t"] spec [of _ u])
        with s o show ?thesis by simp
      next
        assume o: "c = CHR ''-'' \<and> exprLoop n (f64_sub left x) r' = Inr (v, r)"
        then have "read_sum (show_sum (Minus e (u' @ w) t) @ u @ r') v r"
          using IH [of "f64_sub left x"] e w(1) t by (auto simp: extends_sum_def dest!: spec [of _ "Minus e (u' @ w) t"] spec [of _ u])
        with s o show ?thesis by simp
      qed
    qed
  qed
qed

lemma parse_read:
  "parseFactor n s = Inr (v, r) \<Longrightarrow> read_atom s v r"
  "parseTerm n s = Inr (v, r) \<Longrightarrow> read_prod s v r"
  "parseExpr n s = Inr (v, r) \<Longrightarrow> read_sum s v r"
proof (induction "length s" arbitrary: s v r rule: less_induct)
  case less
  have atom: "read_atom s v r" if res: "parseFactor n s = Inr (v, r)" for v r
  proof -
    obtain w where w: "spaces w" "s = w @ skipSpace s" by (rule skipSpace_split)
    from res obtain c cs where c: "skipSpace s = c # cs"
      by (cases "skipSpace s") (simp_all add: parseFactor_eq [of n s])
    note short = less.hyps [OF skipSpace_Cons [OF c]]
    from res c consider
        (neg) x where "c = CHR ''-''" "parseFactor n cs = Inr (x, r)" "v = f64_neg x"
      | (pos) "c = CHR ''+''" "parseFactor n cs = Inr (v, r)"
      | (paren) r' where "c = CHR ''(''" "parseExpr n cs = Inr (v, r')" "skipSpace r' = CHR '')'' # r"
      | (num) "parseNumber n (c # cs) = Inr (v, r)"
      by (auto simp: parseFactor_eq [of n s] bind_pair_Inr close_Inr split: if_splits)
    then show ?thesis
      using w(1) c read_atom_intros [OF w(1), of cs] parseNumber_read [of n "c # cs" v r w] short
      by cases (simp_all add: w(2) [unfolded c])
  qed
  have prod: "read_prod s v r" if res: "parseTerm n s = Inr (v, r)" for v r
  proof -
    from res obtain x r' where x: "parseFactor n s = Inr (x, r')" "termLoop n x r' = Inr (v, r)"
      by (auto simp: parseTerm_eq [of n s] bind_pair_Inr)
    have "length r' < length s" using parser_good(2) [of s n] x(1) by (simp add: good_def)
    then have "extends_prod x r' v r" using less.hyps(1) x(2) by (intro termLoop_read) simp_all
    moreover from atom [OF x(1)] obtain a where "wf_atom a" "s = show_atom a @ r'" "atom_value a = Inr x"
      by (auto simp: read_atom_def)
    ultimately show ?thesis by (auto simp: extends_prod_def dest: spec [of _ "Alone a"])
  qed
  have "read_sum s v r" if res: "parseExpr n s = Inr (v, r)" for v r
  proof -
    from res obtain x r' where x: "parseTerm n s = Inr (x, r')" "exprLoop n x r' = Inr (v, r)"
      by (auto simp: parseExpr_eq [of n s] bind_pair_Inr)
    have "length r' < length s" using parser_good(1) [of s n] x(1) by (simp add: good_def)
    then have "extends_sum x r' v r" using less.hyps(2) x(2) by (intro exprLoop_read) simp_all
    moreover from prod [OF x(1)] obtain t u where "wf_prod t" "spaces u" "s = show_prod t @ u @ r'" "prod_value t = Inr x"
      by (auto simp: read_prod_def)
    ultimately show ?thesis unfolding extends_sum_def by (metis show_sum.simps(1) sum_value.simps(1) wf_sum.simps(1))
  qed
  note sum = this
  { case 1 then show ?case by (rule atom) }
  { case 2 then show ?case by (rule prod) }
  { case 3 then show ?case by (rule sum) }
qed

text \<open>
  C26: the evaluator ends on every text, and returns a value exactly for the texts of the
  arithmetic grammar (products before sums, operators of one kind from the left, signs,
  parentheses, spaces between tokens), the value being the one that the expression has; in
  particular every division by zero and every malformed number is reported.
\<close>

theorem eval_grammar:
  "eval s \<noteq> Inl Stuck \<and>
   (eval s = Inr v \<longleftrightarrow> (\<exists>e w. wf_sum e \<and> spaces w \<and> s = show_sum e @ w \<and> sum_value e = Inr v))"
proof
  show "eval s \<noteq> Inl Stuck"
    using parser_good(3) [of s "length s"] by (auto simp: eval_def good_def Let_def bind_res_def split: sum.splits)
  show "eval s = Inr v \<longleftrightarrow> (\<exists>e w. wf_sum e \<and> spaces w \<and> s = show_sum e @ w \<and> sum_value e = Inr v)"
  proof
    assume "eval s = Inr v"
    then obtain r where r: "parseExpr (length s) s = Inr (v, r)" "skipSpace r = []"
      by (auto simp: eval_def bind_pair_Inr Let_def split: if_splits)
    obtain w where "spaces w" "r = w @ skipSpace r" by (rule skipSpace_split)
    with r(2) parse_read(3) [OF r(1)] show "\<exists>e w. wf_sum e \<and> spaces w \<and> s = show_sum e @ w \<and> sum_value e = Inr v"
      unfolding read_sum_def by (metis append_Nil2 list_all_append)
  qed (auto simp: eval_shown)
qed

section \<open>Printing a result\<close>

fun f64_trunc :: "f64 \<Rightarrow> f64" where
  "f64_trunc (Fin q) = (if q < 0 \<and> trunc_rat q = 0 then NegZero else Fin (of_int (trunc_rat q)))"
| "f64_trunc v = v"

fun f64_abs :: "f64 \<Rightarrow> f64" where
  "f64_abs (Fin q) = Fin \<bar>q\<bar>"
| "f64_abs NegZero = Fin 0"
| "f64_abs NegInf = PosInf"
| "f64_abs v = v"

definition formatFloat :: "f64 \<Rightarrow> string" where
  "formatFloat v =
     (if f64_eq v (f64_trunc v) \<and> f64_less (f64_abs v) (f64_of_int (10 ^ 15)) then Itoa (int64_of_f64 v)
      else FormatFloat_g v)"

end
