(* ===== verification/Tools.thy ===== *)
theory Tools
  imports Eval JsonStruct
begin

text \<open>
  \<open>internal/tools/tools.go\<close>: the built-in tools of an agent and the registry of the enabled
  ones.  A registry is the map of its entries; a nil registry is \<open>None\<close>.  The clock is an
  argument of the tools: the text of the current UTC time.
\<close>

record Func =
  fn_Name :: string
  fn_Description :: string
  fn_Parameters :: json
  fn_Run :: "string \<Rightarrow> string \<Rightarrow> string res"

type_synonym tool_registry = "(string \<times> Func) list"

section \<open>The tools\<close>

text \<open>\<open>strings.Fields\<close>: the words between the encodings of white space.\<close>

definition at_space :: "string \<Rightarrow> bool" where
  "at_space s \<longleftrightarrow> (\<exists>w\<in>set space_encodings. prefix w s)"

fun cut_space :: "string \<Rightarrow> string \<times> string" where
  "cut_space [] = ([], [])"
| "cut_space (c # s) = (if at_space (c # s) then ([], c # s) else case cut_space s of (w, r) \<Rightarrow> (c # w, r))"

lemma cut_space_append: "cut_space s = (w, r) \<Longrightarrow> s = w @ r"
  by (induction s arbitrary: w) (auto split: if_splits prod.splits)

lemma TrimLeftSpace_not_space: "\<not> at_space (TrimLeftSpace s)"
  by (auto simp: at_space_def TrimLeftSpace_stops)

lemma TrimLeftSpace_length: "length (TrimLeftSpace s) \<le> length s"
  using strip_words_suffix [of "length s" space_encodings s] by (auto simp: TrimLeftSpace_def dest: suffix_length_le)

function Fields :: "string \<Rightarrow> string list" where
  "Fields s =
     (let t = TrimLeftSpace s in
      if t = [] then [] else case cut_space t of (w, r) \<Rightarrow> w # Fields r)"
  by pat_completeness auto
termination
proof (relation "measure length")
  fix s t w r assume t: "t = TrimLeftSpace s" "t \<noteq> []" and wr: "(w, r) = cut_space t"
  obtain c u where c: "t = c # u" using t(2) by (cases t) auto
  moreover have "\<not> at_space t" using TrimLeftSpace_not_space t(1) by simp
  ultimately have "length r < length t"
    using wr cut_space_append [of u] by (auto split: prod.splits)
  with TrimLeftSpace_length [of s] t(1) show "(r, s) \<in> measure length" by simp
qed simp

declare Fields.simps [simp del]

definition run_current_time :: "string \<Rightarrow> string \<Rightarrow> string res" where
  "run_current_time now arguments = Inr now"

definition run_word_count :: "string \<Rightarrow> string \<Rightarrow> string res" where
  "run_word_count now arguments =
     (case bind_res (json_object arguments) (string_field ''text'') of
        Inl err \<Rightarrow> Inl (ErrWrap ''word_count: %w'' [] err)
      | Inr text \<Rightarrow> Inr (Itoa (int (length (Fields text)))))"

definition run_math_eval :: "string \<Rightarrow> string \<Rightarrow> string res" where
  "run_math_eval now arguments =
     (case bind_res (json_object arguments) (string_field ''expression'') of
        Inl err \<Rightarrow> Inl (ErrWrap ''math_eval: %w'' [] err)
      | Inr expression \<Rightarrow>
          (case eval expression of
             Inl err \<Rightarrow> Inl (ErrWrap ''math_eval: %w'' [] err)
           | Inr v \<Rightarrow> Inr (formatFloat v)))"

section \<open>The registry\<close>

definition one_string_param :: "string \<Rightarrow> string \<Rightarrow> json" where
  "one_string_param name descr =
     JObj [(''type'', JStr ''object''),
           (''properties'', JObj [(name, JObj [(''type'', JStr ''string''), (''description'', JStr descr)])]),
           (''required'', JArr [JStr name])]"

definition builtins :: "(string \<times> Func) list" where
  "builtins =
     [(''current_time'',
       \<lparr>fn_Name = ''current_time'', fn_Description = ''Return the current UTC time in RFC 3339 format.'',
        fn_Parameters = JObj [(''type'', JStr ''object''), (''properties'', JObj [])],
        fn_Run = run_current_time\<rparr>),
      (''word_count'',
       \<lparr>fn_Name = ''word_count'', fn_Description = ''Count the whitespace-separated words in the given text.'',
        fn_Parameters = one_string_param ''text'' ''Text to count.'', fn_Run = run_word_count\<rparr>),
      (''math_eval'',
       \<lparr>fn_Name = ''math_eval'',
        fn_Description = ''Evaluate a basic arithmetic expression using +, -, *, / and parentheses.'',
        fn_Parameters = one_string_param ''expression'' ''Arithmetic expression.'', fn_Run = run_math_eval\<rparr>)]"

definition add_tool :: "string \<Rightarrow> tool_registry \<Rightarrow> tool_registry res" where
  "add_tool name r =
     (case map_of builtins name of
        None \<Rightarrow> Inl (Errorf ''tools: unknown tool %q'' [name])
      | Some fn \<Rightarrow> Inr (obj_put name fn r))"

definition tools_New :: "string list \<Rightarrow> tool_registry res" where
  "tools_New names = for_each add_tool names []"

definition tools_Get :: "tool_registry option \<Rightarrow> string \<Rightarrow> Func option" where
  "tools_Get r name = (case r of None \<Rightarrow> None | Some tools \<Rightarrow> map_of tools name)"

definition IsBuiltin :: "string \<Rightarrow> bool" where
  "IsBuiltin name \<longleftrightarrow> map_of builtins name \<noteq> None"

definition tools_Names :: "tool_registry option \<Rightarrow> string list" where
  "tools_Names r = (case r of None \<Rightarrow> [] | Some tools \<Rightarrow> sort (map fst tools))"

definition tools_Len :: "tool_registry option \<Rightarrow> nat" where
  "tools_Len r = (case r of None \<Rightarrow> 0 | Some tools \<Rightarrow> length tools)"

text \<open>The state of the loop of \<open>New\<close> after some names.\<close>

definition holds_tools :: "string list \<Rightarrow> tool_registry \<Rightarrow> bool" where
  "holds_tools names r \<longleftrightarrow> distinct (map fst r) \<and> set names \<subseteq> {x. IsBuiltin x} \<and>
     (\<forall>x. map_of r x = (if x \<in> set names then map_of builtins x else None))"

lemma holds_tools_put:
  assumes "holds_tools names r" and "map_of builtins x = Some fn"
  shows "holds_tools (names @ [x]) (obj_put x fn r)"
  using assms by (auto simp: holds_tools_def IsBuiltin_def distinct_obj_put map_of_obj_put)

lemma holds_tools_keys: "holds_tools names r \<Longrightarrow> fst ` set r = set names"
proof -
  assume h: "holds_tools names r"
  have "x \<in> fst ` set r \<longleftrightarrow> map_of r x \<noteq> None" for x by (simp add: map_of_eq_None_iff)
  then have "x \<in> fst ` set r \<longleftrightarrow> x \<in> set names" for x
    using h by (auto simp: holds_tools_def IsBuiltin_def)
  then show ?thesis by blast
qed

definition unknown_tool :: "string list \<Rightarrow> goerr \<Rightarrow> bool" where
  "unknown_tool names e \<longleftrightarrow>
     (\<exists>pre x post. names = pre @ x # post \<and> set pre \<subseteq> {y. IsBuiltin y} \<and> \<not> IsBuiltin x \<and>
        e = Errorf ''tools: unknown tool %q'' [x])"

lemma unknown_tool_Cons:
  "\<not> IsBuiltin x \<Longrightarrow> unknown_tool (x # names) (Errorf ''tools: unknown tool %q'' [x])"
  "IsBuiltin x \<Longrightarrow> unknown_tool names e \<Longrightarrow> unknown_tool (x # names) e"
proof -
  show "unknown_tool (x # names) (Errorf ''tools: unknown tool %q'' [x])" if "\<not> IsBuiltin x"
    unfolding unknown_tool_def using that by (intro exI [of _ "[]"] exI [of _ x] exI [of _ names]) simp
  show "unknown_tool (x # names) e" if "IsBuiltin x" "unknown_tool names e"
  proof -
    from that(2) obtain pre y post where "names = pre @ y # post" "set pre \<subseteq> {y. IsBuiltin y}" "\<not> IsBuiltin y"
      "e = Errorf ''tools: unknown tool %q'' [y]" by (auto simp: unknown_tool_def)
    with that(1) show ?thesis unfolding unknown_tool_def by (intro exI [of _ "x # pre"]) simp
  qed
qed

lemma tools_New_loop:
  "holds_tools seen r \<Longrightarrow>
   case for_each add_tool names r of
     Inr r' \<Rightarrow> holds_tools (seen @ names) r' | Inl e \<Rightarrow> unknown_tool names e"
proof (induction names arbitrary: seen r)
  case (Cons x names)
  show ?case
  proof (cases "map_of builtins x")
    case None
    then show ?thesis by (simp add: add_tool_def unknown_tool_Cons IsBuiltin_def)
  next
    case (Some fn)
    with Cons.IH [OF holds_tools_put [OF Cons.prems Some]] show ?thesis
      by (simp add: add_tool_def unknown_tool_Cons IsBuiltin_def split: sum.splits)
  qed
qed simp

text \<open>
  \<open>New\<close> builds a registry that holds exactly the named tools, each with the definition of
  the built-in of that name, and nothing else; it fails exactly when a name is unknown, and
  then reports the first such name.
\<close>

theorem tools_New_allowlist:
  "case tools_New names of
     Inr r \<Rightarrow> set names \<subseteq> {x. IsBuiltin x} \<and>
       (\<forall>x. tools_Get (Some r) x = (if x \<in> set names then map_of builtins x else None)) \<and>
       tools_Names (Some r) = sorted_list_of_set (set names) \<and> tools_Len (Some r) = card (set names)
   | Inl e \<Rightarrow> \<exists>pre x post. names = pre @ x # post \<and> set pre \<subseteq> {y. IsBuiltin y} \<and> \<not> IsBuiltin x \<and>
       e = Errorf ''tools: unknown tool %q'' [x]"
proof (cases "tools_New names")
  case (Inl e)
  then show ?thesis
    using tools_New_loop [of "[]" "[]" names] by (simp add: holds_tools_def tools_New_def unknown_tool_def)
next
  case (Inr r)
  then have h: "holds_tools names r"
    using tools_New_loop [of "[]" "[]" names] by (simp add: holds_tools_def tools_New_def)
  then have d: "distinct (map fst r)" and k: "set (map fst r) = set names"
    using holds_tools_keys [OF h] by (auto simp: holds_tools_def)
  have "sort (map fst r) = sorted_list_of_set (set names)"
    unfolding k [symmetric] by (metis d sorted_list_of_set_sort_remdups distinct_remdups_id)
  moreover have "length r = card (set names)" using d k distinct_card [of "map fst r"] by simp
  ultimately show ?thesis using h Inr by (simp add: holds_tools_def tools_Get_def tools_Names_def tools_Len_def)
qed

end
