(* ===== verification/Registry.thy ===== *)
theory Registry
  imports PipelineRun FilePath Schema Tools
begin

text \<open>
  \<open>internal/registry/registry.go\<close>: the snapshot of the registry, its accessors and the
  validation of blueprints and pipelines.  The Go maps are given by their entries.
\<close>

record Registry =
  rg_root :: string
  rg_blueprints :: "(string \<times> AgentBlueprint) list"
  rg_prompts :: "(string \<times> string) list"
  rg_pipelines :: "(string \<times> Pipeline) list"
  rg_schemas :: "(string \<times> node) list"

definition reg_Blueprint :: "Registry \<Rightarrow> string \<Rightarrow> AgentBlueprint option" where
  "reg_Blueprint r i = map_of (rg_blueprints r) i"

definition reg_Prompt :: "Registry \<Rightarrow> string \<Rightarrow> string option" where
  "reg_Prompt r i = map_of (rg_prompts r) i"

definition reg_Pipeline :: "Registry \<Rightarrow> string \<Rightarrow> Pipeline option" where
  "reg_Pipeline r i = map_of (rg_pipelines r) i"

definition reg_OutputSchema :: "Registry \<Rightarrow> string \<Rightarrow> node option" where
  "reg_OutputSchema r i = map_of (rg_schemas r) i"

definition sortedKeys :: "(string \<times> 'v) list \<Rightarrow> string list" where
  "sortedKeys m = sort (map fst m)"

definition BlueprintIDs :: "Registry \<Rightarrow> string list" where
  "BlueprintIDs r = sortedKeys (rg_blueprints r)"

definition PipelineIDs :: "Registry \<Rightarrow> string list" where
  "PipelineIDs r = sortedKeys (rg_pipelines r)"

section \<open>Validation\<close>

text \<open>\<open>reject c e\<close> is \<open>if c { return e }\<close>.\<close>

definition reject :: "bool \<Rightarrow> goerr \<Rightarrow> unit res" where
  "reject c e = (if c then Inl e else Inr ())"

text \<open>\<open>wrap\<close> is \<open>if err != nil { return fmt.Errorf(... %w) }\<close>.\<close>

definition wrap_err :: "string \<Rightarrow> string list \<Rightarrow> 'a res \<Rightarrow> 'a res" where
  "wrap_err f as r = (case r of Inl e \<Rightarrow> Inl (ErrWrap f as e) | Inr x \<Rightarrow> Inr x)"

definition seq :: "unit res \<Rightarrow> unit res \<Rightarrow> unit res" where
  "seq a b = bind_res a (\<lambda>_. b)"

lemma seq_Inr [simp]: "seq a b = Inr u \<longleftrightarrow> a = Inr () \<and> b = Inr ()"
  by (auto simp: seq_def go_error)

lemma reject_Inr [simp]: "reject c e = Inr u \<longleftrightarrow> \<not> c"
  by (simp add: reject_def)

lemma wrap_err_Inr [simp]: "wrap_err f as r = Inr x \<longleftrightarrow> r = Inr x"
  by (auto simp: wrap_err_def split: sum.splits)

definition validateBlueprint :: "string \<Rightarrow> AgentBlueprint \<Rightarrow> unit res" where
  "validateBlueprint filenameID bp =
     seq (reject (bp_Version bp \<noteq> SchemaVersion)
            (Errorf ''unsupported version %d (want %d)'' [Itoa (sint (bp_Version bp)), Itoa (sint SchemaVersion)]))
     (seq (reject (\<not> idPattern (bp_ID bp)) (Errorf ''invalid id %q'' [bp_ID bp]))
     (seq (reject (filenameID \<noteq> bp_ID bp) (Errorf ''id %q does not match filename %q'' [bp_ID bp, filenameID]))
     (seq (reject (TrimSpace (bp_PromptPath bp) = []) (Errorf ''prompt_path is required'' []))
     (seq (wrap_err ''prompt_path: %w'' [] (bind_res (safeRel (bp_PromptPath bp)) (\<lambda>_. Inr ())))
     (seq (reject (TrimSpace (bp_Model bp) = []) (Errorf ''model is required'' []))
     (seq (check_each (\<lambda>tool. reject (\<not> IsBuiltin tool) (Errorf ''unknown tool %q'' [tool])) (bp_Tools bp))
     (seq (reject (bp_OutputFormat bp \<notin> {[], OutputText, OutputJSON})
            (Errorf ''invalid output_format %q'' [bp_OutputFormat bp]))
       (if bp_OutputSchema bp \<noteq> [] then
          seq (reject (bp_OutputFormat bp \<noteq> OutputJSON) (Errorf ''output_schema requires output_format \"json\"'' []))
            (wrap_err ''output_schema: %w'' [] (bind_res (safeRel (bp_OutputSchema bp)) (\<lambda>_. Inr ())))
        else Inr ()))))))))"

definition checkRef :: "Ref \<Rightarrow> string set \<Rightarrow> string set \<Rightarrow> string \<Rightarrow> unit res" where
  "checkRef ref inputs stepIDs stepID =
     (case Kind ref of
        RefInput \<Rightarrow> reject (Name ref \<notin> inputs) (Errorf ''unknown input %q'' [Name ref])
      | RefStepOutput \<Rightarrow>
          if StepID ref \<notin> stepIDs then
            (if stepID \<noteq> [] then Inl (Errorf ''references step %q output before it is produced'' [StepID ref])
             else Inl (Errorf ''references unknown step %q'' [StepID ref]))
          else Inr ())"

text \<open>The loop that collects the step ids.\<close>

definition collect_id :: "Step \<Rightarrow> string set \<Rightarrow> string set res" where
  "collect_id st allIDs =
     (if \<not> idPattern (step_ID st) then Inl (Errorf ''step %q: invalid id'' [step_ID st])
      else if step_ID st \<in> allIDs then Inl (Errorf ''duplicate step id %q'' [step_ID st])
      else Inr (insert (step_ID st) allIDs))"

text \<open>The loop over the routes of a router, which counts the default ones.\<close>

definition check_route :: "string set \<Rightarrow> Step \<Rightarrow> Route \<Rightarrow> nat \<Rightarrow> nat res" where
  "check_route allIDs st rt defaults =
     (if Goto rt = [] then Inl (Errorf ''router step %q: route missing goto'' [step_ID st])
      else if Goto rt \<notin> allIDs
      then Inl (Errorf ''router step %q: goto %q is not a step in this pipeline'' [step_ID st, Goto rt])
      else if Default rt then Inr (defaults + 1)
      else if (case When rt of None \<Rightarrow> True | Some c \<Rightarrow> Operator c = [])
      then Inl (Errorf ''router step %q: route must set exactly one operator or default'' [step_ID st])
      else Inr defaults)"

definition check_router :: "string set \<Rightarrow> Step \<Rightarrow> unit res" where
  "check_router allIDs st =
     seq (reject (step_Routes st = []) (Errorf ''router step %q has no routes'' [step_ID st]))
       (bind_res (for_each (check_route allIDs st) (step_Routes st) 0) (\<lambda>defaults.
          reject (defaults > 1) (Errorf ''router step %q has multiple default routes'' [step_ID st])))"

definition check_agent_step :: "Registry \<Rightarrow> Step \<Rightarrow> unit res" where
  "check_agent_step r st =
     seq (reject (step_AgentID st = []) (Errorf ''step %q has neither agent_id nor router'' [step_ID st]))
     (seq (reject (map_of (rg_blueprints r) (step_AgentID st) = None)
            (Errorf ''step %q references unknown agent %q'' [step_ID st, step_AgentID st]))
     (seq (reject (step_Output st = []) (Errorf ''step %q must declare an output name'' [step_ID st]))
       (reject (\<not> idPattern (step_Output st)) (Errorf ''step %q: invalid output name %q'' [step_ID st, step_Output st]))))"

definition check_step :: "Registry \<Rightarrow> string set \<Rightarrow> string set \<Rightarrow> Step \<Rightarrow> unit res" where
  "check_step r inputs allIDs st =
     bind_res (wrap_err ''step %q input: %w'' [step_ID st] (ParseRefs (step_Input st))) (\<lambda>refs.
     seq (check_each (\<lambda>ref. wrap_err ''step %q input: %w'' [step_ID st] (checkRef ref inputs allIDs [])) refs)
     (seq (check_each (\<lambda>need. reject (need \<notin> allIDs) (Errorf ''step %q needs unknown step %q'' [step_ID st, need]))
            (step_Needs st))
       (if step_Router st then check_router allIDs st else check_agent_step r st)))"

definition check_output :: "string set \<Rightarrow> string set \<Rightarrow> string \<Rightarrow> unit res" where
  "check_output inputs allIDs out =
     (if out \<noteq> [] then
        bind_res (wrap_err ''pipeline output: %w'' [] (ParseRefs out)) (\<lambda>refs.
          check_each (\<lambda>ref. wrap_err ''pipeline output: %w'' [] (checkRef ref inputs allIDs [])) refs)
      else Inr ())"

definition validatePipeline :: "Registry \<Rightarrow> string \<Rightarrow> Pipeline \<Rightarrow> unit res" where
  "validatePipeline r filenameID p =
     seq (reject (pl_Version p \<noteq> SchemaVersion)
            (Errorf ''unsupported version %d (want %d)'' [Itoa (sint (pl_Version p)), Itoa (sint SchemaVersion)]))
     (seq (reject (\<not> idPattern (PipelineID p)) (Errorf ''invalid pipeline_id %q'' [PipelineID p]))
     (seq (reject (filenameID \<noteq> PipelineID p)
            (Errorf ''pipeline_id %q does not match filename %q'' [PipelineID p, filenameID]))
     (seq (reject (pl_Steps p = []) (Errorf ''pipeline has no steps'' []))
     (seq (check_each (\<lambda>i. reject (\<not> idPattern i) (Errorf ''invalid input name %q'' [i])) (pl_Inputs p))
     (bind_res (for_each collect_id (pl_Steps p) {}) (\<lambda>allIDs.
      seq (check_each (check_step r (set (pl_Inputs p)) allIDs) (pl_Steps p))
      (seq (bind_res (Deps p) (\<lambda>_. Inr ()))
        (check_output (set (pl_Inputs p)) allIDs (pl_Output p)))))))))"

section \<open>What a valid definition is\<close>

definition ref_known :: "string set \<Rightarrow> string set \<Rightarrow> Ref \<Rightarrow> bool" where
  "ref_known inputs ids ref \<longleftrightarrow>
     (case Kind ref of RefInput \<Rightarrow> Name ref \<in> inputs | RefStepOutput \<Rightarrow> StepID ref \<in> ids)"

definition route_ok :: "string set \<Rightarrow> Route \<Rightarrow> bool" where
  "route_ok ids rt \<longleftrightarrow> Goto rt \<noteq> [] \<and> Goto rt \<in> ids \<and>
     (Default rt \<or> (\<exists>c op. When rt = Some c \<and> operators_set c = [op]))"

definition router_ok :: "string set \<Rightarrow> Step \<Rightarrow> bool" where
  "router_ok ids st \<longleftrightarrow> step_Routes st \<noteq> [] \<and> (\<forall>rt\<in>set (step_Routes st). route_ok ids rt) \<and>
     length (filter Default (step_Routes st)) \<le> 1"

definition agent_step_ok :: "Registry \<Rightarrow> Step \<Rightarrow> bool" where
  "agent_step_ok r st \<longleftrightarrow> step_AgentID st \<noteq> [] \<and> step_AgentID st \<in> fst ` set (rg_blueprints r) \<and> idPattern (step_Output st)"

definition step_ok :: "Registry \<Rightarrow> string set \<Rightarrow> string set \<Rightarrow> Step \<Rightarrow> bool" where
  "step_ok r inputs ids st \<longleftrightarrow>
     (\<exists>refs. ParseRefs (step_Input st) = Inr refs \<and> (\<forall>ref\<in>set refs. ref_known inputs ids ref)) \<and>
     set (step_Needs st) \<subseteq> ids \<and>
     (if step_Router st then router_ok ids st else agent_step_ok r st)"

definition output_ok :: "string set \<Rightarrow> string set \<Rightarrow> string \<Rightarrow> bool" where
  "output_ok inputs ids out \<longleftrightarrow> out = [] \<or>
     (\<exists>refs. ParseRefs out = Inr refs \<and> (\<forall>ref\<in>set refs. ref_known inputs ids ref))"

definition pipeline_valid :: "Registry \<Rightarrow> Pipeline \<Rightarrow> bool" where
  "pipeline_valid r p \<longleftrightarrow>
     pl_Version p = SchemaVersion \<and> idPattern (PipelineID p) \<and> pl_Steps p \<noteq> [] \<and>
     (\<forall>i\<in>set (pl_Inputs p). idPattern i) \<and> (\<forall>i\<in>step_ids p. idPattern i) \<and> distinct (map step_ID (pl_Steps p)) \<and>
     (\<forall>st\<in>set (pl_Steps p). step_ok r (set (pl_Inputs p)) (step_ids p) st \<and> step_ID st \<notin> set (step_Needs st)) \<and>
     acyclic {(x, y). depends_on p x y} \<and> output_ok (set (pl_Inputs p)) (step_ids p) (pl_Output p)"

lemma idPattern_nonempty: "idPattern i \<Longrightarrow> i \<noteq> []"
  by (auto simp: idPattern_def)

lemma checkRef_Inr: "checkRef ref inputs ids s = Inr u \<longleftrightarrow> ref_known inputs ids ref"
  by (auto simp: checkRef_def ref_known_def split: RefKind.split)

lemma check_route_loop:
  "for_each (check_route ids st) rts n = Inr m \<longleftrightarrow>
     (\<forall>rt\<in>set rts. route_ok ids rt) \<and> m = n + length (filter Default rts)"
proof (induction rts arbitrary: n)
  case (Cons rt rts)
  have "check_route ids st rt n = Inr k \<longleftrightarrow> route_ok ids rt \<and> k = (if Default rt then n + 1 else n)" for k
    by (cases "When rt") (auto simp: check_route_def route_ok_def Operator_nonempty_iff [symmetric])
  with Cons show ?case by (auto simp: go_error)
qed auto

lemma check_router_Inr: "check_router ids st = Inr u \<longleftrightarrow> router_ok ids st"
  by (auto simp: check_router_def router_ok_def go_error check_route_loop)

lemma check_agent_step_Inr: "check_agent_step r st = Inr u \<longleftrightarrow> agent_step_ok r st"
  by (auto simp: check_agent_step_def agent_step_ok_def map_of_eq_None_iff dest: idPattern_nonempty)

lemma check_step_Inr: "check_step r inputs ids st = Inr u \<longleftrightarrow> step_ok r inputs ids st"
  by (auto simp: check_step_def step_ok_def bind_res_Inr check_each_Inr checkRef_Inr check_router_Inr check_agent_step_Inr)

lemma check_output_Inr: "check_output inputs ids out = Inr u \<longleftrightarrow> output_ok inputs ids out"
  by (auto simp: check_output_def output_ok_def bind_res_Inr check_each_Inr checkRef_Inr)

lemma collect_id_loop:
  "for_each collect_id sts ids = Inr all \<longleftrightarrow>
     (\<forall>st\<in>set sts. idPattern (step_ID st)) \<and> distinct (map step_ID sts) \<and> step_ID ` set sts \<inter> ids = {} \<and>
     all = ids \<union> step_ID ` set sts"
proof (induction sts arbitrary: ids)
  case (Cons st sts)
  have "collect_id st ids = Inr x \<longleftrightarrow> idPattern (step_ID st) \<and> step_ID st \<notin> ids \<and> x = insert (step_ID st) ids" for x
    by (auto simp: collect_id_def)
  with Cons show ?case by (auto simp: go_error)
qed auto

lemma validatePipeline_Inr:
  "validatePipeline r name p = Inr () \<longleftrightarrow> name = PipelineID p \<and> pipeline_valid r p"
proof -
  have ids: "step_ID ` set (pl_Steps p) = step_ids p" by (simp add: step_ids_def)
  have pat: "(\<forall>i\<in>step_ids p. idPattern i) \<longleftrightarrow> (\<forall>st\<in>set (pl_Steps p). idPattern (step_ID st))"
    by (simp add: step_ids_def)
  have deps: "(\<forall>st\<in>set (pl_Steps p). step_ok r inputs (step_ids p) st) \<Longrightarrow>
      pipeline_deps_ok p \<longleftrightarrow> (\<forall>st\<in>set (pl_Steps p). step_ID st \<notin> set (step_Needs st))" for inputs
    by (fastforce simp: pipeline_deps_ok_def step_deps_ok_def step_ok_def router_ok_def route_ok_def ref_known_def ref_steps_def
        split: if_splits RefKind.splits)
  have "validatePipeline r name p = Inr () \<longleftrightarrow>
     pl_Version p = SchemaVersion \<and> idPattern (PipelineID p) \<and> name = PipelineID p \<and> pl_Steps p \<noteq> [] \<and>
     (\<forall>i\<in>set (pl_Inputs p). idPattern i) \<and> (\<forall>i\<in>step_ids p. idPattern i) \<and> distinct (map step_ID (pl_Steps p)) \<and>
     (\<forall>st\<in>set (pl_Steps p). step_ok r (set (pl_Inputs p)) (step_ids p) st) \<and>
     (\<exists>m. Deps p = Inr m) \<and> output_ok (set (pl_Inputs p)) (step_ids p) (pl_Output p)"
    by (auto simp: validatePipeline_def bind_res_Inr check_each_Inr check_step_Inr check_output_Inr collect_id_loop ids pat)
  then show ?thesis
    using deps [of "set (pl_Inputs p)"] unfolding Deps_Inr_iff pipeline_valid_def by blast
qed


end
