(* ===== verification/Llm.thy ===== *)
theory Llm
  imports Model
begin

text \<open>
  \<open>internal/llm/client.go\<close> and \<open>retry.go\<close>: the boundary to the models and the client that
  retries.  What lies outside the process (the network, the clock, the random source) is a
  state of any type \<open>'s\<close> that every call passes on.  A context is what has been attached to
  it: the deadlines and the overrides of the rate limiter.
\<close>

section \<open>Messages, requests and responses\<close>

record ToolFunction =
  tf_Name :: string
  tf_Description :: string
  tf_Parameters :: json

record Tool =
  tool_Type :: string
  tool_Function :: ToolFunction

record ToolCallFunction =
  tcf_Name :: string
  tcf_Arguments :: string

record ToolCall =
  tc_ID :: string
  tc_Type :: string
  tc_Function :: ToolCallFunction

record Message =
  msg_Role :: string
  msg_Content :: string
  msg_ToolCalls :: "ToolCall list"
  msg_ToolCallID :: string

record Request =
  rq_Model :: string
  rq_BaseURL :: string
  rq_SystemPrompt :: string
  rq_UserInput :: string
  rq_Messages :: "Message list"
  rq_Tools :: "Tool list"
  rq_Temperature :: "f64 option"
  rq_MaxTokens :: goint
  rq_JSONOutput :: bool

record Response =
  rs_Content :: string
  rs_ToolCalls :: "ToolCall list"
  rs_PromptTokens :: goint
  rs_OutputTokens :: goint
  rs_TotalTokens :: goint

definition zero_Response :: Response where
  "zero_Response = \<lparr>rs_Content = [], rs_ToolCalls = [], rs_PromptTokens = 0, rs_OutputTokens = 0, rs_TotalTokens = 0\<rparr>"

text \<open>A message with a role and a content, the other fields zero.\<close>

definition plain_Message :: "string \<Rightarrow> string \<Rightarrow> Message" where
  "plain_Message role content = \<lparr>msg_Role = role, msg_Content = content, msg_ToolCalls = [], msg_ToolCallID = []\<rparr>"

record Ctx =
  cx_Timeouts :: "goint list"
  cx_Override :: "(goint \<times> string) option"

type_synonym 's client = "Ctx \<Rightarrow> Request \<Rightarrow> 's \<Rightarrow> Response res \<times> 's"

section \<open>Retrying\<close>

definition Canceled :: goerr where "Canceled = Sentinel ''context canceled''"
definition DeadlineExceeded :: goerr where "DeadlineExceeded = Sentinel ''context deadline exceeded''"

record 's Retry =
  MaxAttempts :: goint
  BaseDelay :: goint
  MaxDelay :: goint
  OnRetry :: "('s \<Rightarrow> 's) option"

text \<open>
  The random source, and the wait for a timer or for the end of the context: \<open>rt_wait\<close> is
  \<open>Inr\<close> when the timer fires first and the error of the context otherwise.
\<close>

record 's runtime =
  rt_Int64N :: "goint \<Rightarrow> 's \<Rightarrow> goint \<times> 's"
  rt_wait :: "Ctx \<Rightarrow> goint \<Rightarrow> 's \<Rightarrow> unit res \<times> 's"

definition Retryable :: "goerr \<Rightarrow> bool" where
  "Retryable err =
     (if errors_Is err Canceled \<or> errors_Is err DeadlineExceeded then False
      else case errors_As_HTTP err of
        Some code \<Rightarrow> code = 429 \<or> code \<ge> 500
      | None \<Rightarrow> True)"

fun backoff_loop :: "nat \<Rightarrow> goint \<Rightarrow> goint \<Rightarrow> goint" where
  "backoff_loop 0 maxDelay d = d"
| "backoff_loop (Suc n) maxDelay d =
     (let d = d * 2 in if sint d \<ge> sint maxDelay then maxDelay else backoff_loop n maxDelay d)"

definition backoff :: "'s runtime \<Rightarrow> 's Retry \<Rightarrow> int \<Rightarrow> 's \<Rightarrow> goint \<times> 's" where
  "backoff rt cfg attempt s =
     (let d = backoff_loop (nat (attempt - 1)) (MaxDelay cfg) (BaseDelay cfg) in
      if sint d \<le> 0 then (0, s)
      else let half = word_of_int (sint d div 2) in
        case rt_Int64N rt (half + 1) s of (j, s') \<Rightarrow> (half + j, s'))"

definition sleep :: "'s runtime \<Rightarrow> Ctx \<Rightarrow> goint \<Rightarrow> 's \<Rightarrow> unit res \<times> 's" where
  "sleep rt ctx d s = (if sint d \<le> 0 then (Inr (), s) else rt_wait rt ctx d s)"

text \<open>What happens between two attempts: the callback, then the pause.\<close>

definition between :: "'s runtime \<Rightarrow> 's Retry \<Rightarrow> Ctx \<Rightarrow> int \<Rightarrow> 's \<Rightarrow> unit res \<times> 's" where
  "between rt cfg ctx attempt s =
     (let s = (case OnRetry cfg of None \<Rightarrow> s | Some f \<Rightarrow> f s) in
      case backoff rt cfg attempt s of (d, s) \<Rightarrow> sleep rt ctx d s)"

text \<open>
  The loop of \<open>RetryClient.Complete\<close>.  The counter does not overflow: the loop returns in
  the round in which it reaches \<open>MaxAttempts\<close>.
\<close>

function retry_loop ::
  "'s runtime \<Rightarrow> 's client \<Rightarrow> 's Retry \<Rightarrow> Ctx \<Rightarrow> Request \<Rightarrow> int \<Rightarrow> goerr option \<Rightarrow> 's \<Rightarrow> Response res \<times> 's"
where
  "retry_loop rt client cfg ctx req attempt lastErr s =
     (if attempt \<le> sint (MaxAttempts cfg) then
        case client ctx req s of
          (Inr resp, s) \<Rightarrow> (Inr resp, s)
        | (Inl err, s) \<Rightarrow>
            if \<not> Retryable err \<or> attempt = sint (MaxAttempts cfg) then (Inl err, s)
            else case between rt cfg ctx attempt s of
              (Inl e, s) \<Rightarrow> (Inl e, s)
            | (Inr _, s) \<Rightarrow> retry_loop rt client cfg ctx req (attempt + 1) (Some err) s
      else case lastErr of None \<Rightarrow> (Inr zero_Response, s) | Some err \<Rightarrow> (Inl err, s))"
  by pat_completeness auto
termination
  by (relation "measure (\<lambda>(rt, client, cfg, ctx, req, attempt, lastErr, s). nat (sint (MaxAttempts cfg) + 1 - attempt))") auto

declare retry_loop.simps [simp del]

definition retry_Complete :: "'s runtime \<Rightarrow> 's client \<Rightarrow> 's Retry \<Rightarrow> 's client" where
  "retry_Complete rt client cfg ctx req s = retry_loop rt client cfg ctx req 1 None s"

definition NewRetry :: "'s runtime \<Rightarrow> 's client \<Rightarrow> 's Retry \<Rightarrow> 's client" where
  "NewRetry rt client cfg =
     (if sint (MaxAttempts cfg) \<le> 1 then client
      else
        let cfg = (if sint (BaseDelay cfg) \<le> 0 then cfg\<lparr>BaseDelay := 250000000\<rparr> else cfg);
            cfg = (if sint (MaxDelay cfg) \<le> 0 then cfg\<lparr>MaxDelay := 5000000000\<rparr> else cfg)
        in retry_Complete rt client cfg)"

section \<open>How long it waits\<close>

lemma sint_goint_eq: "- (2 ^ 63) \<le> i \<Longrightarrow> i < 2 ^ 63 \<Longrightarrow> sint (word_of_int i :: goint) = i"
  by (simp add: sint_sbintrunc' signed_take_bit_int_eq_self)

lemma sint_double: "0 \<le> sint d \<Longrightarrow> sint d < 2 ^ 62 \<Longrightarrow> sint (d * 2 :: goint) = 2 * sint d"
proof -
  assume d: "0 \<le> sint d" "sint d < 2 ^ 62"
  have "d * 2 = word_of_int (2 * sint d)" by simp
  with d show ?thesis using sint_goint_eq [of "2 * sint d"] by (simp add: mult.commute)
qed

text \<open>The delay before the jitter: doubled for every retry after the first, up to the limit.\<close>

definition full_delay :: "'s Retry \<Rightarrow> int \<Rightarrow> int" where
  "full_delay cfg attempt =
     (if attempt \<le> 1 then sint (BaseDelay cfg)
      else min (sint (BaseDelay cfg) * 2 ^ nat (attempt - 1)) (sint (MaxDelay cfg)))"

lemma backoff_loop_eq:
  assumes "0 < sint d" "sint d < 2 ^ 62" "sint m \<le> 2 ^ 62"
  shows "sint (backoff_loop n m d) = (if n = 0 then sint d else min (sint d * 2 ^ n) (sint m))"
  using assms
proof (induction n arbitrary: d)
  case (Suc n)
  note dd = sint_double [of d]
  show ?case
  proof (cases "sint (d * 2) \<ge> sint m")
    case True
    have "sint d * 2 \<le> sint d * 2 ^ Suc n" using Suc.prems(1) by (intro mult_left_mono) (auto simp: self_le_power)
    moreover have "sint m \<le> sint d * 2" using True dd Suc.prems by (simp add: mult.commute)
    ultimately have "sint m \<le> sint d * 2 ^ Suc n" by linarith
    with True show ?thesis by (simp add: min_def)
  next
    case False
    with dd Suc.prems have d2: "sint (d * 2) = 2 * sint d" by simp
    with False Suc.prems have "sint (backoff_loop n m (d * 2)) = (if n = 0 then sint (d * 2) else min (sint (d * 2) * 2 ^ n) (sint m))"
      by (intro Suc.IH) auto
    with False d2 show ?thesis by (auto simp: mult.commute mult.left_commute)
  qed
qed simp

lemma full_delay_loop:
  assumes "0 < sint (BaseDelay cfg)" "sint (BaseDelay cfg) < 2 ^ 62" "sint (MaxDelay cfg) \<le> 2 ^ 62"
  shows "sint (backoff_loop (nat (attempt - 1)) (MaxDelay cfg) (BaseDelay cfg)) = full_delay cfg attempt"
  using backoff_loop_eq [OF assms, of "nat (attempt - 1)"] by (simp add: full_delay_def)

text \<open>
  C33: The pause after the \<open>n\<close>th attempt is between half of and the whole of the delay
  \<open>full_delay\<close>, both ends included: the base delay after the first attempt, doubled after
  every further one, and from the second on never above \<open>MaxDelay\<close>.
\<close>

theorem backoff_bounds:
  assumes base: "0 < sint (BaseDelay cfg)" "sint (BaseDelay cfg) < 2 ^ 62"
    and limit: "0 < sint (MaxDelay cfg)" "sint (MaxDelay cfg) \<le> 2 ^ 62"
    and Int64N: "\<And>n s. 0 < sint n \<Longrightarrow> sint (fst (rt_Int64N rt n s)) \<in> {0..<sint n}"
  shows "sint (fst (backoff rt cfg attempt s)) \<in> {full_delay cfg attempt div 2..full_delay cfg attempt}"
proof -
  define d where "d = full_delay cfg attempt"
  have pos: "0 < d" and small: "d < 2 ^ 63"
    using base limit by (auto simp: d_def full_delay_def min_def)
  define half :: goint where "half = word_of_int (d div 2)"
  have half: "sint half = d div 2" "sint (half + 1) = d div 2 + 1"
  proof -
    show "sint half = d div 2" unfolding half_def using pos small by (intro sint_goint_eq) auto
    have "half + 1 = word_of_int (d div 2 + 1)" by (simp add: half_def)
    then show "sint (half + 1) = d div 2 + 1" using pos small sint_goint_eq [of "d div 2 + 1"] by simp
  qed
  obtain j s' where j: "rt_Int64N rt (half + 1) s = (j, s')" by fastforce
  have jr: "0 \<le> sint j" "sint j \<le> d div 2"
    using Int64N [of "half + 1" s] half(2) pos j by auto
  have "half + j = word_of_int (d div 2 + sint j)" by (simp add: half_def)
  then have "sint (half + j) = d div 2 + sint j" using jr pos small sint_goint_eq [of "d div 2 + sint j"] by simp
  moreover have "fst (backoff rt cfg attempt s) = half + j"
    using pos full_delay_loop [OF base limit(2), of attempt] j by (simp add: backoff_def Let_def half_def d_def)
  ultimately show ?thesis using jr by (simp add: d_def)
qed

section \<open>What decides the result\<close>

text \<open>The state after \<open>k\<close> attempts that failed with a transient error, each followed by its pause.\<close>

fun after_failures :: "'s runtime \<Rightarrow> 's client \<Rightarrow> 's Retry \<Rightarrow> Ctx \<Rightarrow> Request \<Rightarrow> nat \<Rightarrow> 's \<Rightarrow> 's option" where
  "after_failures rt client cfg ctx req 0 s = Some s"
| "after_failures rt client cfg ctx req (Suc k) s =
     (case after_failures rt client cfg ctx req k s of
        None \<Rightarrow> None
      | Some s \<Rightarrow>
          (case client ctx req s of
             (Inr resp, s) \<Rightarrow> None
           | (Inl err, s) \<Rightarrow>
               if Retryable err then
                 (case between rt cfg ctx (int k + 1) s of (Inl e, s) \<Rightarrow> None | (Inr _, s) \<Rightarrow> Some s)
               else None))"

definition decided :: "'s runtime \<Rightarrow> 's client \<Rightarrow> 's Retry \<Rightarrow> Ctx \<Rightarrow> Request \<Rightarrow> nat \<Rightarrow> 's \<Rightarrow> Response res \<times> 's \<Rightarrow> bool" where
  "decided rt client cfg ctx req k s out \<longleftrightarrow>
     (case client ctx req s of
        (Inr resp, s) \<Rightarrow> out = (Inr resp, s)
      | (Inl err, s) \<Rightarrow>
          if Retryable err \<and> int k + 1 < sint (MaxAttempts cfg)
          then \<exists>e s'. between rt cfg ctx (int k + 1) s = (Inl e, s') \<and> out = (Inl e, s')
          else out = (Inl err, s))"

lemma retry_loop_decided:
  assumes "after_failures rt client cfg ctx req k s = Some s1" and "int k < sint (MaxAttempts cfg)"
  shows "\<exists>n s2. int n < sint (MaxAttempts cfg) \<and> after_failures rt client cfg ctx req n s = Some s2 \<and>
    decided rt client cfg ctx req n s2 (retry_loop rt client cfg ctx req (int k + 1) lastErr s1)"
  using assms
proof (induction "nat (sint (MaxAttempts cfg) - int k)" arbitrary: k s1 lastErr)
  case 0
  then show ?case by simp
next
  case (Suc m)
  obtain r s2 where c: "client ctx req s1 = (r, s2)" by fastforce
  show ?case
  proof (cases r)
    case (Inr resp)
    with c Suc.prems show ?thesis
      by (intro exI [of _ k] exI [of _ s1]) (simp add: decided_def retry_loop.simps [of rt client cfg])
  next
    case (Inl err)
    obtain b s3 where b: "between rt cfg ctx (int k + 1) s2 = (b, s3)" by fastforce
    show ?thesis
    proof (cases "Retryable err \<and> int k + 1 < sint (MaxAttempts cfg) \<and> b = Inr ()")
      case True
      have eq: "retry_loop rt client cfg ctx req (int k + 1) lastErr s1 =
          retry_loop rt client cfg ctx req (int (Suc k) + 1) (Some err) s3"
        using True c Inl b Suc.prems by (subst retry_loop.simps) (simp add: add.commute)
      have "after_failures rt client cfg ctx req (Suc k) s = Some s3" using True c Inl b Suc.prems by simp
      moreover have "m = nat (sint (MaxAttempts cfg) - int (Suc k))" "int (Suc k) < sint (MaxAttempts cfg)"
        using True Suc.hyps(2) by auto
      ultimately show ?thesis unfolding eq using Suc.hyps(1) by blast
    next
      case False
      with c Inl b Suc.prems show ?thesis
        by (intro exI [of _ k] exI [of _ s1])
          (auto simp: decided_def retry_loop.simps [of rt client cfg] split: sum.splits)
    qed
  qed
qed

text \<open>
  C32: \<open>RetryClient.Complete\<close> makes at most \<open>MaxAttempts\<close> calls.  Its result is the response or
  the error of the first attempt that succeeds, fails for good or is the last one; all
  attempts before it failed with a transient error and were followed by their pause.  The
  one other result is the error of the context when a pause is cut short.
\<close>

theorem retry_result:
  assumes "1 \<le> sint (MaxAttempts cfg)"
  shows "\<exists>k s'. int k < sint (MaxAttempts cfg) \<and> after_failures rt client cfg ctx req k s = Some s' \<and>
    decided rt client cfg ctx req k s' (retry_Complete rt client cfg ctx req s)"
  using retry_loop_decided [of rt client cfg ctx req 0 s s None] assms by (simp add: retry_Complete_def)

section \<open>An example\<close>

text \<open>A server that is overloaded twice and answers then; the state counts the calls.\<close>

definition demo_cfg :: "nat Retry" where
  "demo_cfg = \<lparr>MaxAttempts = 3, BaseDelay = 250000000, MaxDelay = 5000000000, OnRetry = None\<rparr>"

definition demo_rt :: "nat runtime" where
  "demo_rt = \<lparr>rt_Int64N = (\<lambda>n s. (n - 1, s)), rt_wait = (\<lambda>ctx d s. (Inr (), s))\<rparr>"

definition demo_client :: "nat client" where
  "demo_client ctx req s = (if s < 2 then Inl (HTTPError 503 ''busy'') else Inr zero_Response, Suc s)"

definition demo_ctx :: Ctx where
  "demo_ctx = \<lparr>cx_Timeouts = [], cx_Override = None\<rparr>"

definition demo_req :: Request where
  "demo_req = \<lparr>rq_Model = ''m'', rq_BaseURL = [], rq_SystemPrompt = [], rq_UserInput = ''hi'', rq_Messages = [],
     rq_Tools = [], rq_Temperature = None, rq_MaxTokens = 0, rq_JSONOutput = False\<rparr>"

lemma sint_minus_one: "0 < sint n \<Longrightarrow> sint (n - 1 :: goint) = sint n - 1"
proof -
  assume n: "0 < sint n"
  have "n - 1 = word_of_int (sint n - 1)" by simp
  moreover have "sint n < 2 ^ 63" using sint_lt [of n] by simp
  ultimately show ?thesis using n sint_goint_eq [of "sint n - 1"] by simp
qed

theorem backoff_bounds_witness:
  "sint (fst (backoff demo_rt demo_cfg 3 0)) \<in> {full_delay demo_cfg 3 div 2..full_delay demo_cfg 3} \<and>
   full_delay demo_cfg 3 = 1000000000"
  using backoff_bounds [of demo_cfg demo_rt 3 0]
  by (simp add: demo_cfg_def demo_rt_def sint_minus_one full_delay_def)

theorem retry_result_witness:
  "(\<exists>k s'. int k < 3 \<and> after_failures demo_rt demo_client demo_cfg demo_ctx demo_req k 0 = Some s' \<and>
     decided demo_rt demo_client demo_cfg demo_ctx demo_req k s' (retry_Complete demo_rt demo_client demo_cfg demo_ctx demo_req 0)) \<and>
   retry_Complete demo_rt demo_client demo_cfg demo_ctx demo_req 0 = (Inr zero_Response, 3)"
proof
  show "\<exists>k s'. int k < 3 \<and> after_failures demo_rt demo_client demo_cfg demo_ctx demo_req k 0 = Some s' \<and>
     decided demo_rt demo_client demo_cfg demo_ctx demo_req k s' (retry_Complete demo_rt demo_client demo_cfg demo_ctx demo_req 0)"
    using retry_result [of demo_cfg demo_rt demo_client demo_ctx demo_req 0] by (simp add: demo_cfg_def)
  have "between demo_rt demo_cfg demo_ctx n s = (Inr (), s)" for n s
    by (simp add: between_def demo_cfg_def demo_rt_def backoff_def sleep_def Let_def)
  then show "retry_Complete demo_rt demo_client demo_cfg demo_ctx demo_req 0 = (Inr zero_Response, 3)"
    by (simp add: retry_Complete_def retry_loop.simps demo_client_def demo_cfg_def [THEN arg_cong, of MaxAttempts]
        Retryable_def Canceled_def DeadlineExceeded_def)
qed

end
