(* ===== verification/Engine.thy ===== *)
theory Engine
  imports Registry Llm Metrics
begin

text \<open>
  \<open>internal/engine/engine.go\<close> and \<open>tools.go\<close>: running one agent.  The client, the clock and the
  rendering of formatted text are the record \<open>world\<close>; what they act on is a state of any
  type.  Deadlines and rate overrides are attached to the context that the client gets.
\<close>

record 's world =
  w_Complete :: "'s client"
  w_millis :: "'s \<Rightarrow> int"
  w_utc :: "'s \<Rightarrow> string"
  w_text :: error_text

record Engine =
  en_registry :: Registry
  en_maxParallel :: goint
  en_tools :: "tool_registry option"
  en_metrics :: "counters option"

definition engine_New :: "Registry option \<Rightarrow> 's client option \<Rightarrow> goint \<Rightarrow> Engine res" where
  "engine_New reg client maxprocs =
     (case reg of
        None \<Rightarrow> Inl (Errorf ''engine: registry is required'' [])
      | Some r \<Rightarrow>
          if client = None then Inl (Errorf ''engine: llm client is required'' [])
          else Inr \<lparr>en_registry = r, en_maxParallel = maxprocs, en_tools = None, en_metrics = None\<rparr>)"

definition SetTools :: "tool_registry option \<Rightarrow> Engine \<Rightarrow> Engine" where
  "SetTools reg e = e\<lparr>en_tools := reg\<rparr>"

definition SetMetrics :: "counters option \<Rightarrow> Engine \<Rightarrow> Engine" where
  "SetMetrics m e = e\<lparr>en_metrics := m\<rparr>"

definition SetRegistry :: "Registry option \<Rightarrow> Engine \<Rightarrow> Engine" where
  "SetRegistry reg e = (case reg of None \<Rightarrow> e | Some r \<Rightarrow> e\<lparr>en_registry := r\<rparr>)"

section \<open>Tools\<close>

definition maxToolRounds :: nat where
  "maxToolRounds = 5"

definition resolveTools :: "Engine \<Rightarrow> AgentBlueprint \<Rightarrow> Tool list res" where
  "resolveTools e bp =
     (if bp_Tools bp = [] then Inr []
      else if en_tools e = None \<or> tools_Len (en_tools e) = 0
      then Inl (Errorf ''engine: agent %q requests tools but tools are disabled (set ENABLE_TOOLS=true)'' [bp_ID bp])
      else for_each (\<lambda>name out. case tools_Get (en_tools e) name of
          None \<Rightarrow> Inl (Errorf ''engine: agent %q requests unknown tool %q'' [bp_ID bp, name])
        | Some fn \<Rightarrow> Inr (out @ [\<lparr>tool_Type = ''function'', tool_Function =
            \<lparr>tf_Name = fn_Name fn, tf_Description = fn_Description fn, tf_Parameters = fn_Parameters fn\<rparr>\<rparr>]))
        (bp_Tools bp) [])"

definition runTool :: "'s world \<Rightarrow> Engine \<Rightarrow> ToolCall \<Rightarrow> string set \<Rightarrow> 's \<Rightarrow> string" where
  "runTool W e call allowed s =
     (let name = tcf_Name (tc_Function call) in
      if name \<notin> allowed then w_text W (Errorf ''error: tool %q is not enabled for this agent'' [name])
      else case tools_Get (en_tools e) name of
        None \<Rightarrow> w_text W (Errorf ''error: unknown tool %q'' [name])
      | Some fn \<Rightarrow>
          (let args = TrimSpace (tcf_Arguments (tc_Function call));
               args = (if args = [] then ''{}'' else args)
           in case fn_Run fn (w_utc W s) args of
                Inl err \<Rightarrow> ''error: '' @ w_text W err
              | Inr out \<Rightarrow> out))"

definition tool_reply :: "'s world \<Rightarrow> Engine \<Rightarrow> string set \<Rightarrow> 's \<Rightarrow> ToolCall \<Rightarrow> Message" where
  "tool_reply W e allowed s call =
     \<lparr>msg_Role = ''tool'', msg_Content = runTool W e call allowed s, msg_ToolCalls = [], msg_ToolCallID = tc_ID call\<rparr>"

definition add_usage :: "Response \<Rightarrow> Response \<Rightarrow> Response" where
  "add_usage usage resp = usage\<lparr>rs_PromptTokens := rs_PromptTokens usage + rs_PromptTokens resp,
     rs_OutputTokens := rs_OutputTokens usage + rs_OutputTokens resp,
     rs_TotalTokens := rs_TotalTokens usage + rs_TotalTokens resp\<rparr>"

text \<open>The loop of \<open>completeWithTools\<close>, with the number of rounds that are left.\<close>

primrec tool_rounds ::
  "'s world \<Rightarrow> Engine \<Rightarrow> Ctx \<Rightarrow> string set \<Rightarrow> nat \<Rightarrow> Request \<Rightarrow> Response \<Rightarrow> 's \<Rightarrow> (Response \<times> goerr option) \<times> 's"
where
  "tool_rounds W e ctx allowed 0 req usage s =
     ((usage, Some (Errorf ''engine: exceeded %d tool rounds'' [Itoa (int maxToolRounds)])), s)"
| "tool_rounds W e ctx allowed (Suc n) req usage s =
     (case w_Complete W ctx req s of
        (Inl err, s) \<Rightarrow> ((usage, Some err), s)
      | (Inr resp, s) \<Rightarrow>
          (let usage = add_usage usage resp in
           if rs_ToolCalls resp = [] then ((usage\<lparr>rs_Content := rs_Content resp\<rparr>, None), s)
           else
             let said = \<lparr>msg_Role = ''assistant'', msg_Content = rs_Content resp,
                          msg_ToolCalls = rs_ToolCalls resp, msg_ToolCallID = []\<rparr>;
                 req = req\<lparr>rq_Messages := rq_Messages req @ said # map (tool_reply W e allowed s) (rs_ToolCalls resp)\<rparr>
             in tool_rounds W e ctx allowed n req usage s))"

definition completeWithTools ::
  "'s world \<Rightarrow> Engine \<Rightarrow> Ctx \<Rightarrow> Request \<Rightarrow> string set \<Rightarrow> 's \<Rightarrow> (Response \<times> goerr option) \<times> 's" where
  "completeWithTools W e ctx req allowed s = tool_rounds W e ctx allowed maxToolRounds req zero_Response s"

definition buildToolMessages :: "string \<Rightarrow> string \<Rightarrow> Message list" where
  "buildToolMessages systemPrompt input =
     (if systemPrompt \<noteq> [] then [plain_Message ''system'' systemPrompt] else []) @ [plain_Message ''user'' input]"

section \<open>Output\<close>

definition TrimPrefix :: "string \<Rightarrow> string \<Rightarrow> string" where
  "TrimPrefix s p = (if prefix p s then drop (length p) s else s)"

definition TrimSuffix :: "string \<Rightarrow> string \<Rightarrow> string" where
  "TrimSuffix s p = (if suffix p s then take (length s - length p) s else s)"

definition fence :: string where
  "fence = replicate 3 (CHR 0x60)"

definition stripCodeFence :: "string \<Rightarrow> string" where
  "stripCodeFence s =
     (let s = TrimSpace s in
      if \<not> prefix fence s then s
      else
        let s = TrimPrefix s (fence @ ''json'');
            s = TrimPrefix s (fence @ ''JSON'');
            s = TrimPrefix s fence;
            s = TrimSuffix (TrimSpace s) fence
        in TrimSpace s)"

definition validateJSONObject :: "string \<Rightarrow> unit res" where
  "validateJSONObject content =
     (case json_Unmarshal (stripCodeFence content) of
        Inl err \<Rightarrow> Inl err
      | Inr (JObj obj) \<Rightarrow> Inr ()
      | Inr JNull \<Rightarrow> Inl (Errorf ''not a JSON object'' [])
      | Inr _ \<Rightarrow> Inl ErrJSON)"

definition repair_text :: "'s world \<Rightarrow> goerr \<Rightarrow> string" where
  "repair_text W verr =
     ''Your previous reply did not satisfy the required JSON schema. Problem: '' @ w_text W verr @
     ''. Reply with only a corrected JSON object that satisfies the schema.''"

definition repairSchema ::
  "'s world \<Rightarrow> Ctx \<Rightarrow> Request \<Rightarrow> node \<Rightarrow> string \<Rightarrow> goerr \<Rightarrow> 's \<Rightarrow> (string \<times> goint) res \<times> 's" where
  "repairSchema W ctx base outSchema content verr s =
     (let req = base\<lparr>rq_Messages :=
            [plain_Message ''system'' (rq_SystemPrompt base), plain_Message ''user'' (rq_UserInput base),
             plain_Message ''assistant'' content, plain_Message ''user'' (repair_text W verr)],
          rq_Tools := [], rq_JSONOutput := True\<rparr>
      in case w_Complete W ctx req s of
           (Inl err, s) \<Rightarrow> (Inl err, s)
         | (Inr resp, s) \<Rightarrow>
             (let out = TrimSpace (rs_Content resp); trimmed = stripCodeFence out in
              case validateJSONObject trimmed of
                Inl err \<Rightarrow> (Inl err, s)
              | Inr _ \<Rightarrow>
                  (case Validate outSchema trimmed of
                     Inl err \<Rightarrow> (Inl err, s)
                   | Inr _ \<Rightarrow> (Inr (out, rs_TotalTokens resp), s))))"

section \<open>Running an agent\<close>

definition WithTimeout :: "goint \<Rightarrow> Ctx \<Rightarrow> Ctx" where
  "WithTimeout d ctx = ctx\<lparr>cx_Timeouts := d # cx_Timeouts ctx\<rparr>"

definition WithOverride :: "goint \<Rightarrow> string \<Rightarrow> Ctx \<Rightarrow> Ctx" where
  "WithOverride concurrency rate ctx = ctx\<lparr>cx_Override := Some (concurrency, rate)\<rparr>"

text \<open>The context of a run: the agent's deadline and its overrides.\<close>

definition run_ctx :: "AgentBlueprint \<Rightarrow> Ctx \<Rightarrow> Ctx" where
  "run_ctx bp ctx =
     WithOverride (bp_Concurrency bp) (bp_RateLimit bp)
       (if sint (bp_TimeoutSeconds bp) > 0 then WithTimeout (bp_TimeoutSeconds bp * 1000000000) ctx else ctx)"

definition zero_AgentResult :: AgentResult where
  "zero_AgentResult = \<lparr>ar_AgentID = [], ar_Output = [], ar_Tokens = 0, ar_DurationMS = 0\<rparr>"

text \<open>The request that an agent's blueprint, prompt and input give.\<close>

definition agent_request :: "AgentBlueprint \<Rightarrow> string \<Rightarrow> string \<Rightarrow> Tool list \<Rightarrow> Request" where
  "agent_request bp prompt input toolDefs =
     \<lparr>rq_Model = bp_Model bp, rq_BaseURL = bp_BaseURL bp, rq_SystemPrompt = prompt, rq_UserInput = input,
      rq_Messages = (if toolDefs \<noteq> [] then buildToolMessages prompt input else []), rq_Tools = toolDefs,
      rq_Temperature = bp_Temperature bp, rq_MaxTokens = bp_MaxTokens bp,
      rq_JSONOutput = (bp_OutputFormat bp = OutputJSON \<and> toolDefs = [])\<rparr>"

definition agent_complete ::
  "'s world \<Rightarrow> Engine \<Rightarrow> Ctx \<Rightarrow> AgentBlueprint \<Rightarrow> Request \<Rightarrow> 's \<Rightarrow> Response res \<times> 's" where
  "agent_complete W e ctx bp req s =
     (if rq_Tools req \<noteq> [] then
        case completeWithTools W e ctx req (set (bp_Tools bp)) s of
          ((resp, None), s) \<Rightarrow> (Inr resp, s)
        | ((resp, Some err), s) \<Rightarrow> (Inl err, s)
      else w_Complete W ctx req s)"

text \<open>
  The checks on the output of an agent: its content and tokens, or an error and whether it is
  to be counted as a schema failure.
\<close>

definition check_agent_output ::
  "'s world \<Rightarrow> Ctx \<Rightarrow> Registry \<Rightarrow> string \<Rightarrow> AgentBlueprint \<Rightarrow> Request \<Rightarrow> Response \<Rightarrow> 's \<Rightarrow>
     ((string \<times> goint) res \<times> bool) \<times> 's" where
  "check_agent_output W ctx reg agentID bp req resp s =
     (let tokens = rs_TotalTokens resp; content = TrimSpace (rs_Content resp) in
      if bp_OutputFormat bp \<noteq> OutputJSON then ((Inr (content, tokens), False), s)
      else case validateJSONObject content of
        Inl err \<Rightarrow> ((Inl (ErrWrap ''engine: agent %q returned invalid JSON: %w'' [agentID] err), False), s)
      | Inr _ \<Rightarrow>
          (case reg_OutputSchema reg agentID of
             None \<Rightarrow> ((Inr (content, tokens), False), s)
           | Some outSchema \<Rightarrow>
               (case Validate outSchema (stripCodeFence content) of
                  Inr _ \<Rightarrow> ((Inr (content, tokens), False), s)
                | Inl err \<Rightarrow>
                    (case repairSchema W ctx req outSchema content err s of
                       (Inl _, s) \<Rightarrow> ((Inl (ErrWrap ''engine: agent %q output does not match schema: %w'' [agentID] err), True), s)
                     | (Inr (repaired, repairTokens), s) \<Rightarrow> ((Inr (repaired, tokens + repairTokens), False), s)))))"

definition since :: "'s world \<Rightarrow> 's \<Rightarrow> 's \<Rightarrow> goint" where
  "since W start s = word_of_int (w_millis W s - w_millis W start)"

definition RunAgent ::
  "'s world \<Rightarrow> Engine \<Rightarrow> Ctx \<Rightarrow> string \<Rightarrow> string \<Rightarrow> 's \<Rightarrow> (AgentResult \<times> goerr option) \<times> Engine \<times> 's" where
  "RunAgent W e ctx agentID input start =
     (let reg = en_registry e; failed = (\<lambda>s err. (zero_AgentResult\<lparr>ar_DurationMS := since W start s\<rparr>, Some err)) in
      case reg_Blueprint reg agentID of
        None \<Rightarrow> ((zero_AgentResult, Some (Errorf ''engine: unknown agent %q'' [agentID])), e, start)
      | Some bp \<Rightarrow>
          (case reg_Prompt reg agentID of
             None \<Rightarrow> ((zero_AgentResult, Some (Errorf ''engine: missing prompt for agent %q'' [agentID])), e, start)
           | Some prompt \<Rightarrow>
               (let ctx = run_ctx bp ctx in
                case resolveTools e bp of
                  Inl err \<Rightarrow> (failed start err, e, start)
                | Inr toolDefs \<Rightarrow>
                    (let req = agent_request bp prompt input toolDefs in
                     case agent_complete W e ctx bp req start of
                       (Inl err, s) \<Rightarrow> (failed s err, e, s)
                     | (Inr resp, s) \<Rightarrow>
                         (case check_agent_output W ctx reg agentID bp req resp s of
                            ((Inl err, count), s) \<Rightarrow>
                              (failed s err, if count then e\<lparr>en_metrics := metrics_Inc SchemaFailures (en_metrics e)\<rparr> else e, s)
                          | ((Inr (content, tokens), _), s) \<Rightarrow>
                              ((\<lparr>ar_AgentID = agentID, ar_Output = content, ar_Tokens = tokens,
                                 ar_DurationMS = since W start s\<rparr>, None), e, s))))))"

end
