(* ===== verification/RegistryLoad.thy ===== *)
theory RegistryLoad
  imports Registry
begin

text \<open>
  The loader of \<open>internal/registry/registry.go\<close>: the strict JSON decoder of the definition
  files and \<open>Load\<close>.  The file system is a record of operations on a state of any type.  A
  field of a document that occurs twice has the value of its last occurrence.
\<close>

section \<open>Decoding structs\<close>

text \<open>The last value of a field, decoded; \<open>null\<close> leaves the zero value.\<close>

definition field :: "string \<Rightarrow> members \<Rightarrow> 'a \<Rightarrow> (raw \<Rightarrow> 'a res) \<Rightarrow> 'a res" where
  "field f ms zero dec =
     for_each (\<lambda>v acc. case v of RNull \<Rightarrow> Inr acc | _ \<Rightarrow> dec v) (field_values f ms) zero"

definition dec_bool :: "raw \<Rightarrow> bool res" where
  "dec_bool v = (case v of RBool b \<Rightarrow> Inr b | _ \<Rightarrow> Inl ErrJSON)"

definition dec_f64 :: "raw \<Rightarrow> f64 option res" where
  "dec_f64 v =
     (case v of RNum lit \<Rightarrow> (case literal_f64 lit of None \<Rightarrow> Inl ErrJSON | Some x \<Rightarrow> Inr (Some x))
      | _ \<Rightarrow> Inl ErrJSON)"

definition dec_any :: "raw \<Rightarrow> json res" where
  "dec_any v = (case to_any v of None \<Rightarrow> Inl ErrJSON | Some x \<Rightarrow> Inr x)"

definition dec_list :: "'a \<Rightarrow> (raw \<Rightarrow> 'a res) \<Rightarrow> raw \<Rightarrow> 'a list res" where
  "dec_list zero dec v =
     (case v of
        RArr vs \<Rightarrow>
          for_each (\<lambda>v acc. bind_res (case v of RNull \<Rightarrow> Inr zero | _ \<Rightarrow> dec v) (\<lambda>x. Inr (acc @ [x]))) vs []
      | _ \<Rightarrow> Inl ErrJSON)"

definition dec_string :: "raw \<Rightarrow> string res" where
  "dec_string v = (case v of RStr s \<Rightarrow> Inr s | _ \<Rightarrow> Inl ErrJSON)"

text \<open>The members of an object, all of them fields of the struct (\<open>DisallowUnknownFields\<close>).\<close>

definition struct_members :: "string list \<Rightarrow> raw \<Rightarrow> members res" where
  "struct_members names v =
     (case v of
        RObj ms \<Rightarrow> if list_all (\<lambda>m. fold_name (fst m) \<in> set names) ms then Inr ms else Inl ErrJSON
      | RNull \<Rightarrow> Inr []
      | _ \<Rightarrow> Inl ErrJSON)"

definition dec_AgentBlueprint :: "raw \<Rightarrow> AgentBlueprint res" where
  "dec_AgentBlueprint v =
     bind_res (struct_members [''id'', ''description'', ''prompt_path'', ''model'', ''base_url'', ''temperature'',
       ''max_tokens'', ''timeout_seconds'', ''output_format'', ''output_schema'', ''tools'', ''concurrency'',
       ''rate_limit'', ''version''] v) (\<lambda>ms.
     bind_res (string_field ''id'' ms) (\<lambda>i.
     bind_res (string_field ''description'' ms) (\<lambda>description.
     bind_res (string_field ''prompt_path'' ms) (\<lambda>prompt.
     bind_res (string_field ''model'' ms) (\<lambda>model.
     bind_res (string_field ''base_url'' ms) (\<lambda>base.
     bind_res (field ''temperature'' ms None dec_f64) (\<lambda>temperature.
     bind_res (int_field ''max_tokens'' ms) (\<lambda>max_tokens.
     bind_res (int_field ''timeout_seconds'' ms) (\<lambda>timeout.
     bind_res (string_field ''output_format'' ms) (\<lambda>format.
     bind_res (string_field ''output_schema'' ms) (\<lambda>schema.
     bind_res (field ''tools'' ms [] (dec_list [] dec_string)) (\<lambda>tools.
     bind_res (int_field ''concurrency'' ms) (\<lambda>concurrency.
     bind_res (string_field ''rate_limit'' ms) (\<lambda>rate.
     bind_res (int_field ''version'' ms) (\<lambda>version.
       Inr \<lparr>bp_ID = i, bp_Description = description, bp_PromptPath = prompt, bp_Model = model, bp_BaseURL = base,
            bp_Temperature = temperature, bp_MaxTokens = max_tokens, bp_TimeoutSeconds = timeout,
            bp_OutputFormat = format, bp_OutputSchema = schema, bp_Tools = tools, bp_Concurrency = concurrency,
            bp_RateLimit = rate, bp_Version = version\<rparr>)))))))))))))))"

definition dec_Condition :: "raw \<Rightarrow> Condition res" where
  "dec_Condition v =
     bind_res (struct_members [''field'', ''equals'', ''not_equals'', ''in'', ''matches'', ''exists''] v) (\<lambda>ms.
     bind_res (string_field ''field'' ms) (\<lambda>fld.
     bind_res (field ''equals'' ms JNull dec_any) (\<lambda>eq.
     bind_res (field ''not_equals'' ms JNull dec_any) (\<lambda>neq.
     bind_res (field ''in'' ms [] (dec_list JNull dec_any)) (\<lambda>among.
     bind_res (string_field ''matches'' ms) (\<lambda>re.
     bind_res (field ''exists'' ms False dec_bool) (\<lambda>ex.
       Inr \<lparr>Field = fld, Equals = eq, NotEquals = neq, In = among, Matches = re, Exists = ex\<rparr>)))))))"

definition dec_Route :: "raw \<Rightarrow> Route res" where
  "dec_Route v =
     bind_res (struct_members [''when'', ''default'', ''goto''] v) (\<lambda>ms.
     bind_res (field ''when'' ms None (\<lambda>v. bind_res (dec_Condition v) (\<lambda>c. Inr (Some c)))) (\<lambda>cond.
     bind_res (field ''default'' ms False dec_bool) (\<lambda>default.
     bind_res (string_field ''goto'' ms) (\<lambda>goto.
       Inr \<lparr>When = cond, Default = default, Goto = goto\<rparr>))))"

definition zero_Route :: Route where
  "zero_Route = \<lparr>When = None, Default = False, Goto = []\<rparr>"

definition dec_Step :: "raw \<Rightarrow> Step res" where
  "dec_Step v =
     bind_res (struct_members [''id'', ''agent_id'', ''input'', ''output'', ''router'', ''routes'', ''needs''] v) (\<lambda>ms.
     bind_res (string_field ''id'' ms) (\<lambda>i.
     bind_res (string_field ''agent_id'' ms) (\<lambda>agent.
     bind_res (string_field ''input'' ms) (\<lambda>input.
     bind_res (string_field ''output'' ms) (\<lambda>out.
     bind_res (field ''router'' ms False dec_bool) (\<lambda>router.
     bind_res (field ''routes'' ms [] (dec_list zero_Route dec_Route)) (\<lambda>routes.
     bind_res (field ''needs'' ms [] (dec_list [] dec_string)) (\<lambda>needs.
       Inr \<lparr>step_ID = i, step_AgentID = agent, step_Input = input, step_Output = out, step_Router = router,
            step_Routes = routes, step_Needs = needs\<rparr>))))))))"

definition zero_Step :: Step where
  "zero_Step = \<lparr>step_ID = [], step_AgentID = [], step_Input = [], step_Output = [], step_Router = False,
     step_Routes = [], step_Needs = []\<rparr>"

definition dec_Pipeline :: "raw \<Rightarrow> Pipeline res" where
  "dec_Pipeline v =
     bind_res (struct_members [''pipeline_id'', ''version'', ''inputs'', ''steps'', ''output''] v) (\<lambda>ms.
     bind_res (string_field ''pipeline_id'' ms) (\<lambda>i.
     bind_res (int_field ''version'' ms) (\<lambda>version.
     bind_res (field ''inputs'' ms [] (dec_list [] dec_string)) (\<lambda>inputs.
     bind_res (field ''steps'' ms [] (dec_list zero_Step dec_Step)) (\<lambda>steps.
     bind_res (string_field ''output'' ms) (\<lambda>out.
       Inr \<lparr>PipelineID = i, pl_Version = version, pl_Inputs = inputs, pl_Steps = steps, pl_Output = out\<rparr>))))))"

section \<open>Reading files\<close>

definition ErrNotExist :: goerr where
  "ErrNotExist = Sentinel ''file does not exist''"

record dir_entry =
  de_Name :: string
  de_IsDir :: bool

record 's fs =
  fs_ReadDir :: "string \<Rightarrow> 's \<Rightarrow> dir_entry list res"
  fs_ReadFile :: "string \<Rightarrow> 's \<Rightarrow> string res"
  fs_Stat :: "string \<Rightarrow> 's \<Rightarrow> unit res"
  fs_MkdirAll :: "string \<Rightarrow> 's \<Rightarrow> unit res \<times> 's"
  fs_CreateTemp :: "string \<Rightarrow> 's \<Rightarrow> string res \<times> 's"
  fs_Write :: "string \<Rightarrow> string \<Rightarrow> 's \<Rightarrow> unit res \<times> 's"
  fs_Sync :: "string \<Rightarrow> 's \<Rightarrow> unit res \<times> 's"
  fs_Close :: "string \<Rightarrow> 's \<Rightarrow> unit res \<times> 's"
  fs_Chmod :: "string \<Rightarrow> 's \<Rightarrow> unit res \<times> 's"
  fs_Rename :: "string \<Rightarrow> string \<Rightarrow> 's \<Rightarrow> unit res \<times> 's"
  fs_Remove :: "string \<Rightarrow> 's \<Rightarrow> unit res \<times> 's"

text \<open>
  One value of a stream, and the rest of the stream: \<open>Decoder.Decode\<close>.
\<close>

definition stream_value :: "string \<Rightarrow> (raw \<times> string) option" where
  "stream_value s = json_value (2 * length s + 2) 0 s"

text \<open>
  \<open>decodeStrict\<close>: only a second value is trailing data; text behind the value that is no JSON
  value makes the second \<open>Decode\<close> fail and is ignored.
\<close>

definition decodeStrict :: "(raw \<Rightarrow> 'a res) \<Rightarrow> string \<Rightarrow> string res \<Rightarrow> 'a res" where
  "decodeStrict dec path content =
     bind_res content (\<lambda>text.
       case stream_value text of
         None \<Rightarrow> Inl (ErrWrap ''%s: %w'' [path] ErrJSON)
       | Some (v, rest) \<Rightarrow>
           (case dec v of
              Inl err \<Rightarrow> Inl (ErrWrap ''%s: %w'' [path] err)
            | Inr x \<Rightarrow>
                (case Option.bind (stream_value rest) (\<lambda>(w, _). to_any w) of
                   Some _ \<Rightarrow> Inl (Errorf ''%s: unexpected trailing data'' [path])
                 | None \<Rightarrow> Inr x)))"

definition BlueprintsDir :: string where "BlueprintsDir = ''blueprints''"
definition PipelinesDir :: string where "PipelinesDir = ''pipelines''"

definition compileOutputSchema :: "'s fs \<Rightarrow> string \<Rightarrow> AgentBlueprint \<Rightarrow> 's \<Rightarrow> node res" where
  "compileOutputSchema fs root_dir bp s =
     bind_res (wrap_err ''output_schema: %w'' [] (safeRel (bp_OutputSchema bp))) (\<lambda>rel.
     bind_res (wrap_err ''output_schema: %w'' [] (fs_ReadFile fs (path_Join [root_dir, rel]) s)) (\<lambda>raw.
       Compile raw))"

definition json_stem :: "string \<Rightarrow> string" where
  "json_stem name = take (length name - 5) name"

definition load_blueprint :: "'s fs \<Rightarrow> 's \<Rightarrow> string \<Rightarrow> dir_entry \<Rightarrow> Registry \<Rightarrow> Registry res" where
  "load_blueprint fs s dir e r =
     (if de_IsDir e \<or> \<not> suffix ''.json'' (de_Name e) then Inr r
      else
        let name = json_stem (de_Name e); path = path_Join [dir, de_Name e] in
        bind_res (decodeStrict dec_AgentBlueprint path (fs_ReadFile fs path s)) (\<lambda>bp.
        bind_res (wrap_err ''blueprint %s: %w'' [de_Name e] (validateBlueprint name bp)) (\<lambda>_.
        bind_res (wrap_err ''blueprint %s: prompt_path: %w'' [de_Name e] (safeRel (bp_PromptPath bp))) (\<lambda>rel.
        bind_res (wrap_err ''blueprint %s: read prompt: %w'' [de_Name e] (fs_ReadFile fs (path_Join [rg_root r, rel]) s)) (\<lambda>prompt.
        let r = r\<lparr>rg_prompts := obj_put (bp_ID bp) prompt (rg_prompts r)\<rparr> in
        bind_res (if bp_OutputSchema bp \<noteq> [] then
                    bind_res (wrap_err ''blueprint %s: %w'' [de_Name e] (compileOutputSchema fs (rg_root r) bp s)) (\<lambda>compiled.
                      Inr (r\<lparr>rg_schemas := obj_put (bp_ID bp) compiled (rg_schemas r)\<rparr>))
                  else Inr r) (\<lambda>r.
        Inr (r\<lparr>rg_blueprints := obj_put (bp_ID bp) bp (rg_blueprints r)\<rparr>)))))))"

definition load_dir :: "'s fs \<Rightarrow> 's \<Rightarrow> string \<Rightarrow> string \<Rightarrow> (dir_entry \<Rightarrow> Registry \<Rightarrow> Registry res) \<Rightarrow> Registry \<Rightarrow> Registry res" where
  "load_dir fs s what dir body r =
     (case fs_ReadDir fs dir s of
        Inl err \<Rightarrow> if errors_Is err ErrNotExist then Inr r else Inl (ErrWrap ''read %s dir: %w'' [what] err)
      | Inr entries \<Rightarrow> for_each body entries r)"

definition loadBlueprints :: "'s fs \<Rightarrow> 's \<Rightarrow> Registry \<Rightarrow> Registry res" where
  "loadBlueprints fs s r =
     (let dir = path_Join [rg_root r, BlueprintsDir] in load_dir fs s ''blueprints'' dir (load_blueprint fs s dir) r)"

definition load_pipeline :: "'s fs \<Rightarrow> 's \<Rightarrow> string \<Rightarrow> dir_entry \<Rightarrow> Registry \<Rightarrow> Registry res" where
  "load_pipeline fs s dir e r =
     (if de_IsDir e \<or> \<not> suffix ''.json'' (de_Name e) then Inr r
      else
        let name = json_stem (de_Name e); path = path_Join [dir, de_Name e] in
        bind_res (decodeStrict dec_Pipeline path (fs_ReadFile fs path s)) (\<lambda>p.
        bind_res (wrap_err ''pipeline %s: %w'' [de_Name e] (validatePipeline r name p)) (\<lambda>_.
        Inr (r\<lparr>rg_pipelines := obj_put (PipelineID p) p (rg_pipelines r)\<rparr>))))"

definition loadPipelines :: "'s fs \<Rightarrow> 's \<Rightarrow> Registry \<Rightarrow> Registry res" where
  "loadPipelines fs s r =
     (let dir = path_Join [rg_root r, PipelinesDir] in load_dir fs s ''pipelines'' dir (load_pipeline fs s dir) r)"

definition empty_registry :: "string \<Rightarrow> Registry" where
  "empty_registry root_dir = \<lparr>rg_root = root_dir, rg_blueprints = [], rg_prompts = [], rg_pipelines = [], rg_schemas = []\<rparr>"

definition Load :: "'s fs \<Rightarrow> string \<Rightarrow> 's \<Rightarrow> Registry res" where
  "Load fs root_dir s =
     bind_res (loadBlueprints fs s (empty_registry root_dir)) (\<lambda>r. loadPipelines fs s r)"

section \<open>The snapshot that \<open>Load\<close> returns\<close>

definition agent_ok :: "Registry \<Rightarrow> string \<Rightarrow> AgentBlueprint \<Rightarrow> bool" where
  "agent_ok r i bp \<longleftrightarrow> i = bp_ID bp \<and> validateBlueprint i bp = Inr () \<and> reg_Prompt r i \<noteq> None \<and>
     (reg_OutputSchema r i \<noteq> None \<longleftrightarrow> bp_OutputSchema bp \<noteq> []) \<and>
     (\<forall>node. reg_OutputSchema r i = Some node \<longrightarrow> schema_wf node)"

definition agents_ok :: "Registry \<Rightarrow> bool" where
  "agents_ok r \<longleftrightarrow> (\<forall>i. case reg_Blueprint r i of
       Some bp \<Rightarrow> agent_ok r i bp
     | None \<Rightarrow> reg_Prompt r i = None \<and> reg_OutputSchema r i = None)"

definition pipelines_ok :: "Registry \<Rightarrow> bool" where
  "pipelines_ok r \<longleftrightarrow> (\<forall>i p. reg_Pipeline r i = Some p \<longrightarrow> i = PipelineID p \<and> pipeline_valid r p)"

lemmas reg_defs = reg_Blueprint_def reg_Prompt_def reg_Pipeline_def reg_OutputSchema_def

definition put_agent :: "AgentBlueprint \<Rightarrow> string \<Rightarrow> node option \<Rightarrow> Registry \<Rightarrow> Registry" where
  "put_agent bp prompt schema r = r\<lparr>rg_prompts := obj_put (bp_ID bp) prompt (rg_prompts r),
     rg_schemas := (case schema of None \<Rightarrow> rg_schemas r | Some n \<Rightarrow> obj_put (bp_ID bp) n (rg_schemas r)),
     rg_blueprints := obj_put (bp_ID bp) bp (rg_blueprints r)\<rparr>"

lemma put_agent_maps:
  "reg_Blueprint (put_agent bp prompt schema r) i = (if i = bp_ID bp then Some bp else reg_Blueprint r i)"
  "reg_Prompt (put_agent bp prompt schema r) i = (if i = bp_ID bp then Some prompt else reg_Prompt r i)"
  "reg_OutputSchema (put_agent bp prompt schema r) i =
     (if i = bp_ID bp \<and> schema \<noteq> None then schema else reg_OutputSchema r i)"
  "rg_pipelines (put_agent bp prompt schema r) = rg_pipelines r"
  by (auto simp: put_agent_def reg_defs map_of_obj_put split: option.split)

lemma agents_ok_put:
  assumes ok: "agents_ok r" and new: "reg_Blueprint r (bp_ID bp) = None" and valid: "validateBlueprint (bp_ID bp) bp = Inr ()"
    and wf: "\<And>n. schema = Some n \<Longrightarrow> schema_wf n" and sch: "schema \<noteq> None \<longleftrightarrow> bp_OutputSchema bp \<noteq> []"
  shows "agents_ok (put_agent bp prompt schema r)"
proof -
  have none: "reg_OutputSchema r (bp_ID bp) = None" using ok [unfolded agents_ok_def, rule_format, of "bp_ID bp"] new by simp
  have "case reg_Blueprint (put_agent bp prompt schema r) i of
      Some b \<Rightarrow> agent_ok (put_agent bp prompt schema r) i b
    | None \<Rightarrow> reg_Prompt (put_agent bp prompt schema r) i = None \<and> reg_OutputSchema (put_agent bp prompt schema r) i = None" for i
    using ok [unfolded agents_ok_def, rule_format, of i] none valid wf sch
    by (cases schema) (auto simp: agent_ok_def put_agent_maps split: option.split)
  then show ?thesis by (simp add: agents_ok_def)
qed

text \<open>A file that is loaded, and the id that it must have.\<close>

definition json_file :: "dir_entry \<Rightarrow> bool" where
  "json_file e \<longleftrightarrow> \<not> de_IsDir e \<and> suffix ''.json'' (de_Name e)"

lemma json_stem_inj: "suffix ''.json'' a \<Longrightarrow> suffix ''.json'' b \<Longrightarrow> json_stem a = json_stem b \<Longrightarrow> a = b"
  by (auto simp: json_stem_def elim!: suffixE)

lemma load_blueprint_Inr:
  assumes res: "load_blueprint fs s dir e r = Inr r'" and "json_file e"
  shows "\<exists>bp prompt schema. r' = put_agent bp prompt schema r \<and> validateBlueprint (json_stem (de_Name e)) bp = Inr () \<and>
    (\<forall>n. schema = Some n \<longrightarrow> schema_wf n) \<and> (schema \<noteq> None \<longleftrightarrow> bp_OutputSchema bp \<noteq> []) \<and>
    decodeStrict dec_AgentBlueprint (path_Join [dir, de_Name e]) (fs_ReadFile fs (path_Join [dir, de_Name e]) s) = Inr bp \<and>
    (\<exists>rel. safeRel (bp_PromptPath bp) = Inr rel \<and> fs_ReadFile fs (path_Join [rg_root r, rel]) s = Inr prompt)"
proof -
  from assms obtain bp prompt r2 rel where v: "validateBlueprint (json_stem (de_Name e)) bp = Inr ()"
    and d: "decodeStrict dec_AgentBlueprint (path_Join [dir, de_Name e]) (fs_ReadFile fs (path_Join [dir, de_Name e]) s) = Inr bp"
      "safeRel (bp_PromptPath bp) = Inr rel" "fs_ReadFile fs (path_Join [rg_root r, rel]) s = Inr prompt"
    and sch: "(if bp_OutputSchema bp \<noteq> [] then
         bind_res (wrap_err ''blueprint %s: %w'' [de_Name e] (compileOutputSchema fs (rg_root r) bp s)) (\<lambda>compiled.
           Inr (r\<lparr>rg_prompts := obj_put (bp_ID bp) prompt (rg_prompts r),
                  rg_schemas := obj_put (bp_ID bp) compiled (rg_schemas r)\<rparr>))
       else Inr (r\<lparr>rg_prompts := obj_put (bp_ID bp) prompt (rg_prompts r)\<rparr>)) = Inr r2"
    and r': "r' = r2\<lparr>rg_blueprints := obj_put (bp_ID bp) bp (rg_blueprints r2)\<rparr>"
    by (simp add: load_blueprint_def json_file_def Let_def bind_res_Inr cong: if_cong) blast
  show ?thesis
  proof (cases "bp_OutputSchema bp = []")
    case True
    with sch r' v d show ?thesis
      by (intro exI [of _ bp] exI [of _ prompt] exI [of _ None]) (auto simp: put_agent_def)
  next
    case False
    with sch obtain n where n: "compileOutputSchema fs (rg_root r) bp s = Inr n"
      and r2: "r2 = r\<lparr>rg_prompts := obj_put (bp_ID bp) prompt (rg_prompts r), rg_schemas := obj_put (bp_ID bp) n (rg_schemas r)\<rparr>"
      by (auto simp: bind_res_Inr)
    from n have "schema_wf n" by (auto simp: compileOutputSchema_def bind_res_Inr Compile_Inr)
    with r2 r' v d False show ?thesis
      by (intro exI [of _ bp] exI [of _ prompt] exI [of _ "Some n"]) (simp add: put_agent_def)
  qed
qed

lemma load_blueprint_ok:
  assumes res: "load_blueprint fs s dir e r = Inr r'" and ok: "agents_ok r"
    and new: "json_file e \<Longrightarrow> reg_Blueprint r (json_stem (de_Name e)) = None"
  shows "agents_ok r' \<and> rg_pipelines r' = rg_pipelines r \<and>
    (\<forall>i. reg_Blueprint r' i \<noteq> None \<longrightarrow> reg_Blueprint r i \<noteq> None \<or> json_file e \<and> i = json_stem (de_Name e))"
proof (cases "json_file e")
  case False
  with res have "r' = r" by (auto simp: load_blueprint_def json_file_def split: if_splits)
  with ok show ?thesis by simp
next
  case True
  obtain bp prompt schema where r': "r' = put_agent bp prompt schema r"
    and v: "validateBlueprint (json_stem (de_Name e)) bp = Inr ()"
    and wf: "\<And>n. schema = Some n \<Longrightarrow> schema_wf n" "schema \<noteq> None \<longleftrightarrow> bp_OutputSchema bp \<noteq> []"
    using load_blueprint_Inr [OF res True] by metis
  have i: "bp_ID bp = json_stem (de_Name e)" using v by (simp add: validateBlueprint_def)
  with v new True have "validateBlueprint (bp_ID bp) bp = Inr ()" "reg_Blueprint r (bp_ID bp) = None" by simp_all
  from agents_ok_put [OF ok this(2,1) wf] have "agents_ok r'" unfolding r' .
  then show ?thesis using i True by (auto simp: r' put_agent_maps split: if_splits)
qed

lemma loadBlueprints_loop:
  assumes "for_each (load_blueprint fs s dir) es r = Inr r'" and "agents_ok r" and "rg_pipelines r = []"
    and "distinct (map de_Name es)" and "\<And>e. e \<in> set es \<Longrightarrow> json_file e \<Longrightarrow> reg_Blueprint r (json_stem (de_Name e)) = None"
  shows "agents_ok r' \<and> rg_pipelines r' = []"
  using assms
proof (induction es arbitrary: r)
  case (Cons e es)
  from Cons.prems(1) obtain r1 where r1: "load_blueprint fs s dir e r = Inr r1"
    and rest: "for_each (load_blueprint fs s dir) es r1 = Inr r'" by (auto simp: go_error)
  note one = load_blueprint_ok [OF r1 Cons.prems(2) Cons.prems(5) [of e], simplified]
  have "reg_Blueprint r1 (json_stem (de_Name x)) = None" if x: "x \<in> set es" "json_file x" for x
  proof (rule ccontr)
    assume "reg_Blueprint r1 (json_stem (de_Name x)) \<noteq> None"
    with one Cons.prems(5) [of x] x have "json_file e" "json_stem (de_Name x) = json_stem (de_Name e)" by auto
    then have "de_Name x = de_Name e" using x(2) by (auto simp: json_file_def intro: json_stem_inj)
    with x(1) Cons.prems(4) show False by (metis distinct.simps(2) image_eqI list.set_map list.simps(9))
  qed
  with Cons.IH [OF rest] one Cons.prems(3,4) show ?case by simp
qed simp

lemma pipeline_valid_cong: "rg_blueprints r = rg_blueprints r' \<Longrightarrow> pipeline_valid r p = pipeline_valid r' p"
  by (simp add: pipeline_valid_def step_ok_def agent_step_ok_def)

lemma load_pipeline_ok:
  assumes res: "load_pipeline fs s dir e r = Inr r'" and ok: "agents_ok r" "pipelines_ok r"
  shows "agents_ok r' \<and> pipelines_ok r'"
proof (cases "r' = r")
  case False
  with res obtain p name where r': "r' = r\<lparr>rg_pipelines := obj_put (PipelineID p) p (rg_pipelines r)\<rparr>"
    and "validatePipeline r name p = Inr ()"
    by (auto simp: load_pipeline_def Let_def bind_res_Inr split: if_splits)
  then have "pipeline_valid r p" by (simp add: validatePipeline_Inr)
  then have "pipelines_ok r'"
    using ok(2) pipeline_valid_cong [of r' r]
    by (auto simp: r' pipelines_ok_def reg_defs map_of_obj_put split: if_splits)
  moreover have "agents_ok r'" using ok(1) by (simp add: r' agents_ok_def agent_ok_def reg_defs cong: option.case_cong)
  ultimately show ?thesis by simp
qed (use ok in simp)

lemma Load_ok:
  assumes "\<And>d es. fs_ReadDir fs d s = Inr es \<Longrightarrow> distinct (map de_Name es)" and "Load fs root_dir s = Inr r"
  shows "agents_ok r \<and> pipelines_ok r"
proof -
  from assms(2) obtain r1 where r1: "loadBlueprints fs s (empty_registry root_dir) = Inr r1" and r: "loadPipelines fs s r1 = Inr r"
    by (auto simp: Load_def go_error)
  have e: "agents_ok (empty_registry root_dir)" "rg_pipelines (empty_registry root_dir) = []" "reg_Blueprint (empty_registry root_dir) i = None" for i
    by (simp_all add: agents_ok_def reg_defs empty_registry_def)
  have one: "agents_ok r1 \<and> rg_pipelines r1 = []"
    using r1 assms(1) e loadBlueprints_loop [of fs s _ _ "empty_registry root_dir" r1]
    by (auto simp: loadBlueprints_def load_dir_def Let_def split: sum.splits if_splits)
  then have ok: "agents_ok r1 \<and> pipelines_ok r1" by (simp add: pipelines_ok_def reg_defs)
  have "agents_ok r \<and> pipelines_ok r" if "for_each (load_pipeline fs s dir) es r1 = Inr r" for dir es
    using that ok by (rule for_each_invariant) (simp add: load_pipeline_ok)
  with r ok show ?thesis by (auto simp: loadPipelines_def load_dir_def Let_def split: sum.splits if_splits)
qed

text \<open>
  C22: in every snapshot that \<open>Load\<close> returns, each blueprint is stored under its own id, is
  valid, has its prompt, and has a compiled, well-formed schema exactly when it declares
  one; each pipeline is stored under its own id and is valid over the agents of the snapshot.
\<close>

theorem Load_registry_ok:
  assumes "\<And>d es. fs_ReadDir fs d s = Inr es \<Longrightarrow> distinct (map de_Name es)" and "Load fs root_dir s = Inr r"
  shows "agents_ok r \<and> pipelines_ok r"
  using assms by (rule Load_ok)

lemma bind_inputs_ok: "set names \<subseteq> dom inputs \<Longrightarrow> \<exists>m. bind_inputs i inputs names = Inr m"
proof -
  have "set names \<subseteq> dom inputs \<Longrightarrow> \<exists>m'. for_each (\<lambda>name m. case inputs name of
      None \<Rightarrow> Inl (Errorf ''engine: pipeline %q missing required input %q'' [i, name])
    | Some val \<Rightarrow> Inr (m(name \<mapsto> val))) names m = Inr m'" for m
    by (induction names arbitrary: m) auto
  then show "set names \<subseteq> dom inputs \<Longrightarrow> ?thesis" by (simp add: bind_inputs_def)
qed

lemma valid_pipeline_starts:
  assumes "pipelines_ok r" "reg_Pipeline r i = Some p" "set (pl_Inputs p) \<subseteq> dom inputs"
  shows "\<exists>env st. RunPipeline_start (reg_Pipeline r) maxParallel re txt i inputs = Inr (env, st)"
proof -
  from assms(1,2) have "pipeline_valid r p" by (auto simp: pipelines_ok_def)
  then have "validatePipeline r (PipelineID p) p = Inr ()" by (simp add: validatePipeline_Inr)
  then obtain deps where "Deps p = Inr deps" by (auto simp: validatePipeline_def bind_res_Inr)
  then show ?thesis using bind_inputs_ok [OF assms(3), of i] assms(2) by (auto simp: RunPipeline_start_def)
qed

text \<open>
  A pipeline of a loaded registry can always be started once its declared inputs are
  given, and every agent it runs has a blueprint and a prompt in the registry.
\<close>

theorem loaded_pipeline_starts:
  assumes "agents_ok r" "pipelines_ok r" "reg_Pipeline r i = Some p" and "set (pl_Inputs p) \<subseteq> dom inputs"
  shows "(\<exists>env st. RunPipeline_start (reg_Pipeline r) maxParallel re txt i inputs = Inr (env, st)) \<and>
    (\<forall>st\<in>set (pl_Steps p). step_Router st \<or>
       (\<exists>bp prompt. reg_Blueprint r (step_AgentID st) = Some bp \<and> reg_Prompt r (step_AgentID st) = Some prompt))"
proof
  from assms(2,3) have v: "pipeline_valid r p" by (auto simp: pipelines_ok_def)
  show "\<exists>env st. RunPipeline_start (reg_Pipeline r) maxParallel re txt i inputs = Inr (env, st)"
    by (rule valid_pipeline_starts [OF assms(2-4)])
  show "\<forall>st\<in>set (pl_Steps p). step_Router st \<or>
       (\<exists>bp prompt. reg_Blueprint r (step_AgentID st) = Some bp \<and> reg_Prompt r (step_AgentID st) = Some prompt)"
  proof
    fix st assume "st \<in> set (pl_Steps p)"
    with v have "step_Router st \<or> agent_step_ok r st" by (auto simp: pipeline_valid_def step_ok_def split: if_splits)
    moreover have "\<exists>bp. reg_Blueprint r (step_AgentID st) = Some bp" if "agent_step_ok r st"
      using that map_of_eq_None_iff [of "rg_blueprints r" "step_AgentID st"] by (auto simp: agent_step_ok_def reg_defs)
    moreover have "\<exists>prompt. reg_Prompt r j = Some prompt" if "reg_Blueprint r j = Some bp" for j bp
      using assms(1) [unfolded agents_ok_def, rule_format, of j] that by (auto simp: agent_ok_def)
    ultimately show "step_Router st \<or>
       (\<exists>bp prompt. reg_Blueprint r (step_AgentID st) = Some bp \<and> reg_Prompt r (step_AgentID st) = Some prompt)" by blast
  qed
qed

text \<open>A document without trailing data is decoded as a whole.\<close>

lemma decodeStrict_document:
  assumes "json_document s = Some v"
  shows "decodeStrict dec path (Inr s) = wrap_err ''%s: %w'' [path] (dec v)"
proof -
  from assms obtain r where r: "stream_value s = Some (v, r)" "skip_ws r = []"
    by (auto simp: json_document_def stream_value_def split: option.splits if_splits)
  have "json_value (Suc n) d r = None" for n d using r(2) by (simp add: json_value.simps)
  then have "stream_value r = None" by (simp add: stream_value_def)
  with r show ?thesis by (simp add: decodeStrict_def wrap_err_def split: sum.split)
qed

text \<open>A registry of one agent.\<close>

definition demo_blueprint :: members where
  "demo_blueprint = [(''id'', RStr ''a''), (''prompt_path'', RStr ''p''), (''model'', RStr ''m''), (''version'', RNum (Itoa 1))]"

definition demo_fs :: "unit fs" where
  "demo_fs =
     \<lparr>fs_ReadDir = (\<lambda>d s. if d = ''/r/blueprints'' then Inr [\<lparr>de_Name = ''a.json'', de_IsDir = False\<rparr>]
        else Inl ErrNotExist),
      fs_ReadFile = (\<lambda>p s. if p = ''/r/p'' then Inr ''Be brief.'' else Inr (object_text demo_blueprint)),
      fs_Stat = (\<lambda>p s. Inr ()), fs_MkdirAll = (\<lambda>p s. (Inr (), s)), fs_CreateTemp = (\<lambda>p s. (Inr [], s)),
      fs_Write = (\<lambda>p d s. (Inr (), s)), fs_Sync = (\<lambda>p s. (Inr (), s)), fs_Close = (\<lambda>p s. (Inr (), s)),
      fs_Chmod = (\<lambda>p s. (Inr (), s)), fs_Rename = (\<lambda>p q s. (Inr (), s)), fs_Remove = (\<lambda>p s. (Inr (), s))\<rparr>"

definition demo_agent :: AgentBlueprint where
  "demo_agent = \<lparr>bp_ID = ''a'', bp_Description = [], bp_PromptPath = ''p'', bp_Model = ''m'', bp_BaseURL = [],
     bp_Temperature = None, bp_MaxTokens = 0, bp_TimeoutSeconds = 0, bp_OutputFormat = [], bp_OutputSchema = [],
     bp_Tools = [], bp_Concurrency = 0, bp_RateLimit = [], bp_Version = 1\<rparr>"

lemma demo_decode: "decodeStrict dec_AgentBlueprint path (Inr (object_text demo_blueprint)) = Inr demo_agent"
proof -
  have "members_ok demo_blueprint" by (auto simp: members_ok_def demo_blueprint_def intro!: valid_utf8_ascii)
  then have "json_document (object_text demo_blueprint) = Some (RObj (map read_member demo_blueprint))"
    by (intro json_document_object) (auto simp: members_ok_def demo_blueprint_def)
  moreover have "dec_AgentBlueprint (RObj (map read_member demo_blueprint)) = Inr demo_agent"
    by code_simp
  ultimately show ?thesis by (simp add: decodeStrict_document wrap_err_def)
qed

lemma demo_load: "Load demo_fs ''/r'' () = Inr (put_agent demo_agent ''Be brief.'' None (empty_registry ''/r''))"
proof -
  have "path_Join [''/r'', BlueprintsDir] = ''/r/blueprints''" "path_Join [''/r'', PipelinesDir] = ''/r/pipelines''"
    "path_Join [''/r/blueprints'', ''a.json''] = ''/r/blueprints/a.json''" "json_stem ''a.json'' = ''a''"
    "safeRel ''p'' = Inr ''p''" "path_Join [''/r'', ''p''] = ''/r/p''" "validateBlueprint ''a'' demo_agent = Inr ()"
    "suffix ''.json'' ''a.json''"
    by code_simp+
  then show ?thesis
    by (simp add: Load_def loadBlueprints_def loadPipelines_def load_dir_def empty_registry_def demo_fs_def load_blueprint_def
        Let_def demo_decode wrap_err_def put_agent_def demo_agent_def ErrNotExist_def)
qed

theorem Load_registry_ok_witness:
  "agents_ok (put_agent demo_agent ''Be brief.'' None (empty_registry ''/r'')) \<and>
   pipelines_ok (put_agent demo_agent ''Be brief.'' None (empty_registry ''/r''))"
  by (rule Load_registry_ok [OF _ demo_load]) (auto simp: demo_fs_def split: if_splits)

text \<open>The same registry with a pipeline of one step.\<close>

definition demo_pipeline :: Pipeline where
  "demo_pipeline = \<lparr>PipelineID = ''q'', pl_Version = 1, pl_Inputs = [''x''],
     pl_Steps = [\<lparr>step_ID = ''s'', step_AgentID = ''a'', step_Input = ''hi'', step_Output = ''o'', step_Router = False,
       step_Routes = [], step_Needs = []\<rparr>], pl_Output = []\<rparr>"

definition demo_registry :: Registry where
  "demo_registry = (put_agent demo_agent ''Be brief.'' None (empty_registry ''/r''))\<lparr>rg_pipelines := [(''q'', demo_pipeline)]\<rparr>"

lemma demo_registry_ok: "agents_ok demo_registry" "pipelines_ok demo_registry"
proof -
  have "validateBlueprint ''a'' demo_agent = Inr ()" by code_simp
  then show "agents_ok demo_registry"
    by (auto simp: agents_ok_def agent_ok_def demo_registry_def put_agent_def empty_registry_def reg_defs demo_agent_def)
  have "validatePipeline demo_registry ''q'' demo_pipeline = Inr ()" by code_simp
  then have "pipeline_valid demo_registry demo_pipeline" by (simp add: validatePipeline_Inr)
  then show "pipelines_ok demo_registry" by (simp add: pipelines_ok_def demo_registry_def reg_defs demo_pipeline_def)
qed

theorem loaded_pipeline_starts_witness:
  "\<exists>env st. RunPipeline_start (reg_Pipeline demo_registry) 4 (\<lambda>_. Inl ErrJSON) (\<lambda>_. []) ''q'' [''x'' \<mapsto> ''y''] = Inr (env, st)"
proof -
  have "reg_Pipeline demo_registry ''q'' = Some demo_pipeline" by (simp add: demo_registry_def reg_defs)
  moreover have "set (pl_Inputs demo_pipeline) \<subseteq> dom [''x'' \<mapsto> ''y'']" by (simp add: demo_pipeline_def)
  ultimately show ?thesis using loaded_pipeline_starts [OF demo_registry_ok] by blast
qed

end
