(* ===== verification/JsonPrint.thy ===== *)
theory JsonPrint
  imports JsonStruct
begin

text \<open>
  Printing of nested JSON values, compact or indented, and its inverse: what is printed is
  read back, with strings and keys that are valid UTF-8.
\<close>

section \<open>Printing\<close>

text \<open>
  \<open>line d\<close> starts a line at depth \<open>d\<close>; \<open>colon\<close> stands behind a key.
\<close>

fun raw_print :: "(nat \<Rightarrow> string) \<Rightarrow> string \<Rightarrow> nat \<Rightarrow> raw \<Rightarrow> string" where
  "raw_print line colon d RNull = ''null''"
| "raw_print line colon d (RBool b) = (if b then ''true'' else ''false'')"
| "raw_print line colon d (RNum lit) = lit"
| "raw_print line colon d (RStr s) = json_quote s"
| "raw_print line colon d (RArr vs) =
     (if vs = [] then ''[]''
      else ''['' @ Join '','' (map (\<lambda>v. line (Suc d) @ raw_print line colon (Suc d) v) vs) @ line d @ '']'')"
| "raw_print line colon d (RObj kvs) =
     (if kvs = [] then ''{}''
      else ''{'' @ Join '','' (map (\<lambda>(k, v). line (Suc d) @ json_quote k @ colon @ raw_print line colon (Suc d) v) kvs) @
        line d @ ''}'')"

text \<open>\<open>json.Encoder.Encode\<close>, and \<open>json.MarshalIndent\<close> with an indentation of two spaces.\<close>

definition raw_text :: "raw \<Rightarrow> string" where
  "raw_text v = raw_print (\<lambda>_. []) '':'' 0 v"

definition indent_line :: "nat \<Rightarrow> string" where
  "indent_line d = CHR 0x0A # replicate (2 * d) (CHR 0x20)"

definition raw_indent :: "nat \<Rightarrow> raw \<Rightarrow> string" where
  "raw_indent d v = raw_print indent_line '': '' d v"

section \<open>Literals\<close>

lemma digits_append:
  assumes "delimited r"
  shows "takeWhile isDigit (q @ r) = takeWhile isDigit q" "dropWhile isDigit (q @ r) = dropWhile isDigit q @ r"
  using delimited_no_digit [OF assms] by (induction q; cases r; auto)+

lemma fraction_append:
  "json_fraction s = Some (fp, t) \<Longrightarrow> delimited r \<Longrightarrow> json_fraction (s @ r) = Some (fp, t @ r)"
  using scan_rest(1) [of r] digits_append [of r "tl s"]
  by (cases s) (auto simp: json_fraction_def split: if_splits)

lemma exponent_append:
  "json_exponent s = Some (e, []) \<Longrightarrow> delimited r \<Longrightarrow> json_exponent (s @ r) = Some (e, r)"
  using scan_rest(2) [of r] digits_append [of r "tl s"] digits_append [of r "tl (tl s)"]
  by (cases s; cases "tl s") (auto simp: json_exponent_def Let_def split: if_splits)

text \<open>The part of a number behind its sign.\<close>

definition scan_unsigned :: "string \<Rightarrow> ((string \<times> string \<times> int) \<times> string) option" where
  "scan_unsigned t =
     (let zero = (t \<noteq> [] \<and> hd t = CHR ''0'');
          ip = (if zero then ''0'' else takeWhile isDigit t);
          r = (if zero then tl t else dropWhile isDigit t)
      in if ip = [] then None
         else case json_fraction r of None \<Rightarrow> None | Some (fp, r1) \<Rightarrow>
           (case json_exponent r1 of None \<Rightarrow> None | Some (e, r2) \<Rightarrow> Some ((ip, fp, e), r2)))"

lemma scan_number_signed:
  "scan_number s =
     (if s \<noteq> [] \<and> hd s = CHR ''-'' then map_option (apfst (Pair True)) (scan_unsigned (tl s))
      else map_option (apfst (Pair False)) (scan_unsigned s))"
  unfolding scan_number_def scan_unsigned_def Let_def by (simp split: option.split)

lemma scan_unsigned_append:
  assumes "scan_unsigned t = Some (x, [])" "delimited r"
  shows "scan_unsigned (t @ r) = Some (x, r)"
proof -
  have t: "t \<noteq> []" using assms(1) by (auto simp: scan_unsigned_def)
  obtain ip q where ip: "ip = (if hd t = CHR ''0'' then ''0'' else takeWhile isDigit t)" "q = (if hd t = CHR ''0'' then tl t else dropWhile isDigit t)"
    by blast
  with t digits_append [OF assms(2), of t]
  have app: "ip = (if hd (t @ r) = CHR ''0'' then ''0'' else takeWhile isDigit (t @ r))"
    "q @ r = (if hd (t @ r) = CHR ''0'' then tl (t @ r) else dropWhile isDigit (t @ r))" by simp_all
  from assms(1) t obtain fp r1 e where "ip \<noteq> []" "json_fraction q = Some (fp, r1)" "json_exponent r1 = Some (e, [])" "x = (ip, fp, e)"
    unfolding scan_unsigned_def Let_def by (simp flip: ip split: option.split_asm prod.split_asm if_split_asm)
  with fraction_append [OF _ assms(2)] exponent_append [OF _ assms(2)] t show ?thesis
    unfolding scan_unsigned_def Let_def by (simp flip: app del: hd_append2 tl_append2)
qed

lemma scan_number_append:
  assumes "scan_number s = Some (x, [])" "delimited r"
  shows "scan_number (s @ r) = Some (x, r)"
proof -
  have "s \<noteq> []" using assms(1) by (auto simp: scan_number_def)
  then have "hd (s @ r) = hd s" "tl (s @ r) = tl s @ r" by simp_all
  with assms \<open>s \<noteq> []\<close> scan_unsigned_append [OF _ assms(2)] show ?thesis
    by (auto simp: scan_number_signed split: if_splits)
qed

lemma json_literal_append:
  assumes "json_literal lit = Some (lit, [])" "delimited r"
  shows "json_literal (lit @ r) = Some (lit, r)"
  using assms scan_number_append [of lit _ r] by (auto simp: json_literal_def)

lemma literal_first:
  assumes "json_literal lit = Some (lit, [])"
  obtains c cs where "lit = c # cs" "isDigit c \<or> c = CHR ''-''"
proof (cases lit)
  case Nil
  then show thesis using assms by (simp add: json_literal_def scan_number_def)
next
  case (Cons c cs)
  with assms that show thesis
    by (auto simp: json_literal_def scan_number_def Let_def isDigit_def split: if_splits option.splits)
qed

section \<open>Reading back\<close>

text \<open>The values whose text is read back: valid strings and literals that are JSON numbers.\<close>

fun raw_ok :: "raw \<Rightarrow> bool" where
  "raw_ok (RStr s) \<longleftrightarrow> valid_utf8 s"
| "raw_ok (RNum lit) \<longleftrightarrow> json_literal lit = Some (lit, [])"
| "raw_ok (RArr vs) \<longleftrightarrow> list_all raw_ok vs"
| "raw_ok (RObj kvs) \<longleftrightarrow> list_all (\<lambda>(k, v). valid_utf8 k \<and> raw_ok v) kvs"
| "raw_ok _ \<longleftrightarrow> True"

fun raw_depth :: "raw \<Rightarrow> nat" where
  "raw_depth (RArr vs) = Suc (foldr max (map raw_depth vs) 0)"
| "raw_depth (RObj kvs) = Suc (foldr max (map (\<lambda>(k, v). raw_depth v) kvs) 0)"
| "raw_depth _ = 0"

text \<open>The fuel that the parser needs.\<close>

fun list_need :: "nat list \<Rightarrow> nat" where
  "list_need [] = 0"
| "list_need (x # xs) = Suc (max x (list_need xs))"

fun raw_need :: "raw \<Rightarrow> nat" where
  "raw_need (RArr vs) = Suc (list_need (map raw_need vs))"
| "raw_need (RObj kvs) = Suc (list_need (map (\<lambda>(k, v). raw_need v) kvs))"
| "raw_need _ = 1"

lemma skip_ws_append: "list_all json_ws w \<Longrightarrow> skip_ws (w @ s) = skip_ws s"
  by (auto simp: skip_ws_def list_all_iff)

lemma delimited_ws: "list_all json_ws w \<Longrightarrow> c = CHR '','' \<or> c = CHR ''}'' \<or> c = CHR '']'' \<Longrightarrow> delimited (w @ c # r)"
  by (cases w) (auto simp: delimited_def)

lemma not_ws [simp]:
  "\<not> json_ws (CHR '','')" "\<not> json_ws (CHR '':'')" "\<not> json_ws (CHR '']'')" "\<not> json_ws (CHR ''}'')"
  "\<not> json_ws (CHR ''['')" "\<not> json_ws (CHR ''{'')" "\<not> json_ws (CHR 0x22)"
  by (simp_all add: json_ws_def)

lemma delimited_comma: "delimited (CHR '','' # r)"
  by (simp add: delimited_def)

locale json_layout =
  fixes line :: "nat \<Rightarrow> string" and gap :: string
  assumes line: "list_all json_ws (line d)" and gap: "list_all json_ws gap"
begin

abbreviation pr :: "nat \<Rightarrow> raw \<Rightarrow> string" where
  "pr \<equiv> raw_print line (CHR '':'' # gap)"

text \<open>A value is read back from behind any white space.\<close>

definition reads :: "raw \<Rightarrow> bool" where
  "reads v \<longleftrightarrow> (\<forall>n d k w r. raw_depth v + d \<le> max_depth \<longrightarrow> raw_need v \<le> n \<longrightarrow> delimited r \<longrightarrow> list_all json_ws w \<longrightarrow>
     json_value n d (w @ pr k v @ r) = Some (v, r))"

lemma readsD:
  "reads v \<Longrightarrow> raw_depth v + d \<le> max_depth \<Longrightarrow> raw_need v \<le> n \<Longrightarrow> delimited r \<Longrightarrow> list_all json_ws w \<Longrightarrow>
     json_value n d (w @ pr k v @ r) = Some (v, r)"
  unfolding reads_def by blast

lemma print_first:
  assumes "raw_ok v"
  shows "\<exists>c cs. pr k v = c # cs \<and> \<not> json_ws c \<and> c \<noteq> CHR '']'' \<and> c \<noteq> CHR ''}''"
proof (cases v)
  case (RNum lit)
  then have "json_literal lit = Some (lit, [])" using assms by simp
  from literal_first [OF this] obtain c cs where "lit = c # cs" "isDigit c \<or> c = CHR ''-''" .
  moreover from this(2) have "\<not> json_ws c" "c \<noteq> CHR '']''" "c \<noteq> CHR ''}''" by (auto simp: isDigit_def json_ws_def)
  ultimately show ?thesis using RNum by simp
qed (auto simp: json_quote_eq json_ws_def)

lemma elems_read:
  assumes "\<And>v. v \<in> set vs \<Longrightarrow> reads v" "vs \<noteq> []" "\<And>v. v \<in> set vs \<Longrightarrow> raw_depth v + d \<le> max_depth"
    and "list_need (map raw_need vs) \<le> n" "list_all json_ws w"
  shows "json_elems n d acc (Join '','' (map (\<lambda>v. line k @ pr k v) vs) @ w @ CHR '']'' # r) =
    Some (RArr (acc @ vs), r)"
  using assms
proof (induction vs arbitrary: n acc)
  case (Cons v vs)
  obtain n' where n: "n = Suc n'" "raw_need v \<le> n'" "list_need (map raw_need vs) \<le> n'" using Cons.prems(4) by (cases n) auto
  let ?rest = "if vs = [] then w @ CHR '']'' # r
    else CHR '','' # Join '','' (map (\<lambda>v. line k @ pr k v) vs) @ w @ CHR '']'' # r"
  have "delimited ?rest" using Cons.prems(5) by (simp add: delimited_ws delimited_comma)
  then have v: "json_value n' d (line k @ pr k v @ ?rest) = Some (v, ?rest)"
    using Cons.prems(1,3) n(2) line by (intro readsD) auto
  have IH: "vs \<noteq> [] \<Longrightarrow> json_elems n' d (acc @ [v]) (Join '','' (map (\<lambda>v. line k @ pr k v) vs) @ w @ CHR '']'' # r)
      = Some (RArr (acc @ v # vs), r)"
    using Cons.IH [of n' "acc @ [v]"] Cons.prems n(3) by simp
  have text_eq: "Join '','' (map (\<lambda>v. line k @ pr k v) (v # vs)) @ w @ CHR '']'' # r = line k @ pr k v @ ?rest"
    by (simp add: Join_Cons)
  show ?case
    unfolding text_eq n(1) json_elems.simps(2) v option.case prod.case
    using IH Cons.prems(5) by (simp add: skip_ws_append skip_ws_Cons)
qed simp

lemma members_read:
  assumes "\<forall>(q, v)\<in>set kvs. reads v \<and> valid_utf8 q" "kvs \<noteq> []" "\<forall>(q, v)\<in>set kvs. raw_depth v + d \<le> max_depth"
    and "list_need (map (\<lambda>(q, v). raw_need v) kvs) \<le> n" "list_all json_ws w"
  shows "json_members n d acc (Join '','' (map (\<lambda>(q, v). line k @ json_quote q @ (CHR '':'' # gap) @ pr k v) kvs) @
      w @ CHR ''}'' # r) = Some (RObj (acc @ kvs), r)"
  using assms
proof (induction kvs arbitrary: n acc)
  case (Cons m kvs)
  obtain q v where m: "m = (q, v)" by fastforce
  obtain n' where n: "n = Suc n'" "raw_need v \<le> n'" "list_need (map (\<lambda>(q, v). raw_need v) kvs) \<le> n'"
    using Cons.prems(4) m by (cases n) auto
  let ?text = "\<lambda>kvs. Join '','' (map (\<lambda>(q, v). line k @ json_quote q @ (CHR '':'' # gap) @ pr k v) kvs)"
  let ?rest = "if kvs = [] then w @ CHR ''}'' # r else CHR '','' # ?text kvs @ w @ CHR ''}'' # r"
  let ?val = "gap @ pr k v @ ?rest"
  have "delimited ?rest" using Cons.prems(5) by (simp add: delimited_ws delimited_comma)
  then have v: "json_value n' d ?val = Some (v, ?rest)"
    using Cons.prems(1,3) n(2) gap m by (intro readsD) auto
  have key: "json_string (Suc (length (json_quote_fuel (length q) q @ CHR 0x22 # CHR '':'' # ?val)))
      (json_quote_fuel (length q) q @ CHR 0x22 # CHR '':'' # ?val) = Some (q, CHR '':'' # ?val)"
  proof -
    have "to_valid q = q" using Cons.prems(1) m by (simp add: to_valid_id)
    with json_string_quote [of q "CHR '':'' # ?val"] show ?thesis by argo
  qed
  have IH: "kvs \<noteq> [] \<Longrightarrow> json_members n' d (acc @ [(q, v)]) (?text kvs @ w @ CHR ''}'' # r) = Some (RObj (acc @ (q, v) # kvs), r)"
    using Cons.IH [of n' "acc @ [(q, v)]"] Cons.prems n(3) by simp
  have text_eq: "?text (m # kvs) @ w @ CHR ''}'' # r = line k @ CHR 0x22 # json_quote_fuel (length q) q @ CHR 0x22 # CHR '':'' # ?val"
    by (simp add: Join_Cons m json_quote_eq)
  have skips: "skip_ws (line k @ CHR 0x22 # t) = CHR 0x22 # t" "skip_ws (CHR '':'' # t) = CHR '':'' # t" for t
    using line [of k] by (simp_all add: skip_ws_append skip_ws_Cons)
  show ?case
    unfolding text_eq unfolding n(1) json_members.simps(2) skips list.case key option.case prod.case v
    using IH Cons.prems(5) by (simp add: m skip_ws_append skip_ws_Cons)
qed simp

lemma foldr_max_le: "x \<in> set xs \<Longrightarrow> x \<le> foldr max xs (0 :: nat)"
  by (induction xs) auto

lemma scalar_reads: "raw_ok v \<Longrightarrow> (\<forall>vs. v \<noteq> RArr vs) \<Longrightarrow> (\<forall>kvs. v \<noteq> RObj kvs) \<Longrightarrow> reads v"
  unfolding reads_def
proof (intro allI impI)
  fix n d k w r
  assume v: "raw_ok v" "\<forall>vs. v \<noteq> RArr vs" "\<forall>kvs. v \<noteq> RObj kvs" and n: "raw_need v \<le> n" and r: "delimited r" and w: "list_all json_ws w"
  obtain n' where n': "n = Suc n'" using n by (cases v; cases n) auto
  show "json_value n d (w @ pr k v @ r) = Some (v, r)"
  proof (cases v)
    case (RNum lit)
    then have lit: "json_literal lit = Some (lit, [])" using v(1) by simp
    from literal_first [OF this] obtain c cs where c: "lit = c # cs" "isDigit c \<or> c = CHR ''-''" .
    then have "\<not> json_ws c" "c \<noteq> CHR 0x22" "c \<noteq> CHR ''[''" "c \<noteq> CHR ''{''" "c \<noteq> CHR ''t''" "c \<noteq> CHR ''f''" "c \<noteq> CHR ''n''"
      by (auto simp: json_ws_def isDigit_def)
    with c(1) json_literal_append [OF lit r] w show ?thesis
      by (simp add: RNum n' json_value.simps(2) skip_ws_append skip_ws_Cons)
  next
    case (RStr s)
    with json_string_quote [of s r] v(1) w show ?thesis
      by (simp add: n' json_quote_eq json_value.simps(2) skip_ws_append skip_ws_Cons json_ws_def to_valid_id)
  qed (use v w in \<open>auto simp: n' json_value.simps(2) skip_ws_append skip_ws_Cons json_ws_def\<close>)
qed

lemma array_reads:
  assumes "\<And>v. v \<in> set vs \<Longrightarrow> reads v" "list_all raw_ok vs"
  shows "reads (RArr vs)"
  unfolding reads_def
proof (intro allI impI)
  fix n d k w r
  assume d: "raw_depth (RArr vs) + d \<le> max_depth" and n: "raw_need (RArr vs) \<le> n" and r: "delimited r" and w: "list_all json_ws w"
  obtain n' where n': "n = Suc n'" "list_need (map raw_need vs) \<le> n'" using n by (cases n) auto
  show "json_value n d (w @ pr k (RArr vs) @ r) = Some (RArr vs, r)"
  proof (cases "vs = []")
    case True
    with d w show ?thesis by (simp add: n' json_value.simps(2) skip_ws_append skip_ws_Cons)
  next
    case False
    then obtain v vs' where vs: "vs = v # vs'" by (cases vs) auto
    have deep: "raw_depth v + Suc d \<le> max_depth" if "v \<in> set vs" for v
      using foldr_max_le [of "raw_depth v" "map raw_depth vs"] that d by simp
    let ?t = "Join '','' (map (\<lambda>v. line (Suc k) @ pr (Suc k) v) vs) @ line k @ CHR '']'' # r"
    have el: "json_elems n' (Suc d) [] ?t = Some (RArr vs, r)"
      using elems_read [OF assms(1) False deep n'(2) line, where acc = "[]" and k = "Suc k" and r = r] by simp
    obtain c cs where "pr (Suc k) v = c # cs" "\<not> json_ws c" "c \<noteq> CHR '']''"
      using print_first [of v "Suc k"] assms(2) vs by fastforce
    then have "\<exists>x. skip_ws ?t = c # x \<and> c \<noteq> CHR '']''"
      using line [of "Suc k"] by (auto simp: vs Join_Cons skip_ws_append skip_ws_Cons)
    with el False d w show ?thesis
      by (auto simp: n'(1) json_value.simps(2) skip_ws_append skip_ws_Cons)
  qed
qed

lemma object_reads:
  assumes "\<forall>(q, v)\<in>set kvs. reads v \<and> valid_utf8 q"
  shows "reads (RObj kvs)"
  unfolding reads_def
proof (intro allI impI)
  fix n d k w r
  assume d: "raw_depth (RObj kvs) + d \<le> max_depth" and n: "raw_need (RObj kvs) \<le> n" and r: "delimited r" and w: "list_all json_ws w"
  obtain n' where n': "n = Suc n'" "list_need (map (\<lambda>(q, v). raw_need v) kvs) \<le> n'" using n by (cases n) auto
  show "json_value n d (w @ pr k (RObj kvs) @ r) = Some (RObj kvs, r)"
  proof (cases "kvs = []")
    case True
    with d w show ?thesis by (simp add: n' json_value.simps(2) skip_ws_append skip_ws_Cons)
  next
    case False
    then obtain q v kvs' where kvs: "kvs = (q, v) # kvs'" by (cases kvs) auto
    have "raw_depth v + Suc d \<le> max_depth" if "(q, v) \<in> set kvs" for q v
      using foldr_max_le [of "raw_depth v" "map (\<lambda>(q, v). raw_depth v) kvs"] that d by force
    then have deep: "\<forall>(q, v)\<in>set kvs. raw_depth v + Suc d \<le> max_depth" by blast
    let ?t = "Join '','' (map (\<lambda>(q, v). line (Suc k) @ json_quote q @ (CHR '':'' # gap) @ pr (Suc k) v) kvs) @
      line k @ CHR ''}'' # r"
    have el: "json_members n' (Suc d) [] ?t = Some (RObj kvs, r)"
      using members_read [OF assms False deep n'(2) line, where acc = "[]" and k = "Suc k" and r = r] by simp
    have "\<exists>x. skip_ws ?t = CHR 0x22 # x"
      using line [of "Suc k"] by (auto simp: kvs Join_Cons skip_ws_append json_quote_eq skip_ws_Cons)
    with el False d w show ?thesis
      by (auto simp: n'(1) json_value.simps(2) skip_ws_append skip_ws_Cons)
  qed
qed

lemma all_read: "raw_ok v \<Longrightarrow> reads v"
proof (induction v)
  case (RArr vs)
  then show ?case by (intro array_reads) (auto simp: list_all_iff)
next
  case (RObj kvs)
  then show ?case by (intro object_reads) (fastforce simp: list_all_iff)
qed (simp_all add: scalar_reads)

lemma list_need_le:
  assumes "\<And>x. x \<in> set xs \<Longrightarrow> f x \<le> length (t x)"
  shows "list_need (map f xs) \<le> Suc (length (Join '','' (map t xs)))"
  using assms
proof (induction xs)
  case (Cons x xs)
  then have "list_need (map f xs) \<le> Suc (length (Join '','' (map t xs)))" "f x \<le> length (t x)" by simp_all
  then show ?case by (cases "xs = []") (auto simp: Join_Cons)
qed simp

lemma need_le: "raw_ok v \<Longrightarrow> raw_need v \<le> length (pr k v)"
proof (induction v arbitrary: k)
  case (RArr vs)
  have "raw_need v \<le> length (line (Suc k) @ pr (Suc k) v)" if "v \<in> set vs" for v
    using RArr that by (auto simp: list_all_iff intro: trans_le_add2)
  from list_need_le [of vs raw_need "\<lambda>v. line (Suc k) @ pr (Suc k) v", OF this] show ?case by auto
next
  case (RObj kvs)
  have "(case x of (q, v) \<Rightarrow> raw_need v) \<le> length (case x of (q, v) \<Rightarrow> line (Suc k) @ json_quote q @ (CHR '':'' # gap) @ pr (Suc k) v)"
    if "x \<in> set kvs" for x
    using RObj.IH [of x "snd x" "Suc k"] RObj.prems that by (cases x) (auto simp: list_all_iff)
  from list_need_le [of kvs "\<lambda>(q, v). raw_need v" "\<lambda>(q, v). line (Suc k) @ json_quote q @ (CHR '':'' # gap) @ pr (Suc k) v", OF this]
  show ?case by auto
next
  case (RNum lit)
  then show ?case using print_first [of "RNum lit" k] by auto
qed (simp_all add: json_quote_eq)

lemma value_read:
  assumes "raw_ok v" "raw_depth v \<le> max_depth" "list_all json_ws w"
  shows "json_value (2 * length (pr k v @ w) + 2) 0 (pr k v @ w) = Some (v, w)"
proof -
  have "delimited w" using assms(3) by (cases w) (auto simp: delimited_def)
  with readsD [OF all_read [OF assms(1)], where d = 0 and w = "[]" and k = k and n = "2 * length (pr k v @ w) + 2" and r = w]
    need_le [OF assms(1), of k] assms(2) show ?thesis by simp
qed

lemma document_read:
  assumes "raw_ok v" "raw_depth v \<le> max_depth" "list_all json_ws w"
  shows "json_document (pr k v @ w) = Some v"
  using value_read [OF assms, of k] skip_ws_append [OF assms(3), of "[]"] by (simp add: json_document_def skip_ws_def)

end

interpretation compact: json_layout "\<lambda>_. []" "[]"
  by unfold_locales simp_all

interpretation indented: json_layout indent_line "'' ''"
  by unfold_locales (auto simp: indent_line_def json_ws_def list_all_iff)

text \<open>What is printed is read back, whatever white space follows.\<close>

lemma raw_text_read:
  "raw_ok v \<Longrightarrow> raw_depth v \<le> max_depth \<Longrightarrow> list_all json_ws w \<Longrightarrow> json_document (raw_text v @ w) = Some v"
  unfolding raw_text_def by (rule compact.document_read)

lemma raw_indent_read:
  "raw_ok v \<Longrightarrow> raw_depth v \<le> max_depth \<Longrightarrow> list_all json_ws w \<Longrightarrow> json_document (raw_indent k v @ w) = Some v"
  unfolding raw_indent_def by (rule indented.document_read)

end
