(* ===== verification/RegistryWrite.thy ===== *)
theory RegistryWrite
  imports RegistryLoad JsonPrint
begin

text \<open>
  \<open>internal/registry/write.go\<close>: writing blueprints and pipelines.  What the code relies on of
  the file system is the locale \<open>file_system\<close>: every operation may fail, and only the
  operations on a file change that file.
\<close>

section \<open>Encoding\<close>

fun raw_of_json :: "json \<Rightarrow> raw" where
  "raw_of_json JNull = RNull"
| "raw_of_json (JBool b) = RBool b"
| "raw_of_json (JNum x) = RNum (json_float x)"
| "raw_of_json (JStr s) = RStr s"
| "raw_of_json (JArr vs) = RArr (map raw_of_json vs)"
| "raw_of_json (JObj kvs) = RObj (sort_key fst (map (\<lambda>(k, v). (k, raw_of_json v)) kvs))"

text \<open>\<open>json.Marshal\<close> refuses floats that are not finite.\<close>

fun json_finite :: "json \<Rightarrow> bool" where
  "json_finite (JNum x) \<longleftrightarrow> fin_val x \<noteq> None"
| "json_finite (JArr vs) \<longleftrightarrow> list_all json_finite vs"
| "json_finite (JObj kvs) \<longleftrightarrow> list_all (\<lambda>(k, v). json_finite v) kvs"
| "json_finite _ \<longleftrightarrow> True"

definition omit_list :: "string \<Rightarrow> raw list \<Rightarrow> members" where
  "omit_list f vs = (if vs = [] then [] else [(f, RArr vs)])"

definition omit_false :: "string \<Rightarrow> bool \<Rightarrow> members" where
  "omit_false f b = (if b then [(f, RBool True)] else [])"

definition omit_any :: "string \<Rightarrow> json \<Rightarrow> members" where
  "omit_any f v = (if v = JNull then [] else [(f, raw_of_json v)])"

definition enc_AgentBlueprint :: "AgentBlueprint \<Rightarrow> raw" where
  "enc_AgentBlueprint bp = RObj
     (string_member ''id'' (bp_ID bp) @ omit_string ''description'' (bp_Description bp) @
      string_member ''prompt_path'' (bp_PromptPath bp) @ string_member ''model'' (bp_Model bp) @
      omit_string ''base_url'' (bp_BaseURL bp) @
      (case bp_Temperature bp of None \<Rightarrow> [] | Some x \<Rightarrow> [(''temperature'', RNum (json_float x))]) @
      omit_int ''max_tokens'' (bp_MaxTokens bp) @ omit_int ''timeout_seconds'' (bp_TimeoutSeconds bp) @
      omit_string ''output_format'' (bp_OutputFormat bp) @ omit_string ''output_schema'' (bp_OutputSchema bp) @
      omit_list ''tools'' (map RStr (bp_Tools bp)) @ omit_int ''concurrency'' (bp_Concurrency bp) @
      omit_string ''rate_limit'' (bp_RateLimit bp) @ [(''version'', RNum (Itoa (sint (bp_Version bp))))])"

definition enc_Condition :: "Condition \<Rightarrow> raw" where
  "enc_Condition c = RObj
     (string_member ''field'' (Field c) @ omit_any ''equals'' (Equals c) @ omit_any ''not_equals'' (NotEquals c) @
      omit_list ''in'' (map raw_of_json (In c)) @ omit_string ''matches'' (Matches c) @ omit_false ''exists'' (Exists c))"

definition enc_Route :: "Route \<Rightarrow> raw" where
  "enc_Route rt = RObj
     ((case When rt of None \<Rightarrow> [] | Some c \<Rightarrow> [(''when'', enc_Condition c)]) @
      omit_false ''default'' (Default rt) @ string_member ''goto'' (Goto rt))"

definition enc_Step :: "Step \<Rightarrow> raw" where
  "enc_Step st = RObj
     (string_member ''id'' (step_ID st) @ omit_string ''agent_id'' (step_AgentID st) @
      string_member ''input'' (step_Input st) @ omit_string ''output'' (step_Output st) @
      omit_false ''router'' (step_Router st) @ omit_list ''routes'' (map enc_Route (step_Routes st)) @
      omit_list ''needs'' (map RStr (step_Needs st)))"

text \<open>The field \<open>steps\<close> is always present; a valid pipeline has steps.\<close>

definition enc_Pipeline :: "Pipeline \<Rightarrow> raw" where
  "enc_Pipeline p = RObj
     (string_member ''pipeline_id'' (PipelineID p) @ [(''version'', RNum (Itoa (sint (pl_Version p))))] @
      omit_list ''inputs'' (map RStr (pl_Inputs p)) @ [(''steps'', RArr (map enc_Step (pl_Steps p)))] @
      omit_string ''output'' (pl_Output p))"

definition condition_finite :: "Condition \<Rightarrow> bool" where
  "condition_finite c \<longleftrightarrow> json_finite (Equals c) \<and> json_finite (NotEquals c) \<and> list_all json_finite (In c)"

definition marshal_blueprint :: "AgentBlueprint \<Rightarrow> string res" where
  "marshal_blueprint bp =
     (case bp_Temperature bp of
        Some x \<Rightarrow> if fin_val x = None then Inl ErrJSON else Inr (raw_indent 0 (enc_AgentBlueprint bp))
      | None \<Rightarrow> Inr (raw_indent 0 (enc_AgentBlueprint bp)))"

definition marshal_pipeline :: "Pipeline \<Rightarrow> string res" where
  "marshal_pipeline p =
     (if list_all (\<lambda>st. list_all (\<lambda>rt. case When rt of None \<Rightarrow> True | Some c \<Rightarrow> condition_finite c) (step_Routes st)) (pl_Steps p)
      then Inr (raw_indent 0 (enc_Pipeline p)) else Inl ErrJSON)"

section \<open>Writing\<close>

definition path_Dir :: "string \<Rightarrow> string" where
  "path_Dir p = Clean (rev (dropWhile (\<lambda>c. c \<noteq> CHR ''/'') (rev p)))"

text \<open>An operation after which the function returns on an error.\<close>

definition then_do :: "unit res \<times> 's \<Rightarrow> ('s \<Rightarrow> unit res \<times> 's) \<Rightarrow> unit res \<times> 's" where
  "then_do m k = (case m of (Inl e, s) \<Rightarrow> (Inl e, s) | (Inr _, s) \<Rightarrow> k s)"

text \<open>On an error of \<open>Write\<close> or \<open>Sync\<close> the file is closed first.\<close>

definition or_close :: "'s fs \<Rightarrow> string \<Rightarrow> unit res \<times> 's \<Rightarrow> unit res \<times> 's" where
  "or_close fs tmp m = (case m of (Inl e, s) \<Rightarrow> (Inl e, snd (fs_Close fs tmp s)) | (Inr u, s) \<Rightarrow> (Inr u, s))"

definition renamed :: "unit res \<times> 's \<Rightarrow> unit res \<times> 's" where
  "renamed m = (case m of (Inl err, s) \<Rightarrow> (Inl (ErrWrap ''rename temp file: %w'' [] err), s) | (Inr _, s) \<Rightarrow> (Inr (), s))"

definition write_temp :: "'s fs \<Rightarrow> string \<Rightarrow> string \<Rightarrow> string \<Rightarrow> 's \<Rightarrow> unit res \<times> 's" where
  "write_temp fs tmp path data s =
     then_do (or_close fs tmp (fs_Write fs tmp data s)) (\<lambda>s.
     then_do (or_close fs tmp (fs_Sync fs tmp s)) (\<lambda>s.
     then_do (fs_Close fs tmp s) (\<lambda>s.
     then_do (fs_Chmod fs tmp s) (\<lambda>s.
       renamed (fs_Rename fs tmp path s)))))"

definition atomicWrite :: "'s fs \<Rightarrow> string \<Rightarrow> string \<Rightarrow> 's \<Rightarrow> unit res \<times> 's" where
  "atomicWrite fs path data s =
     then_do (fs_MkdirAll fs (path_Dir path) s) (\<lambda>s.
       case fs_CreateTemp fs (path_Dir path) s of
         (Inl err, s) \<Rightarrow> (Inl err, s)
       | (Inr tmp, s) \<Rightarrow>
           (case write_temp fs tmp path data s of
              (res, s) \<Rightarrow> (res, snd (fs_Remove fs tmp s))))"

text \<open>A check that does not touch the files.\<close>

definition check_first :: "'a res \<Rightarrow> ('a \<Rightarrow> 's \<Rightarrow> unit res \<times> 's) \<Rightarrow> 's \<Rightarrow> unit res \<times> 's" where
  "check_first r k s = (case r of Inl e \<Rightarrow> (Inl e, s) | Inr x \<Rightarrow> k x s)"

definition WriteBlueprint :: "'s fs \<Rightarrow> Registry \<Rightarrow> AgentBlueprint \<Rightarrow> string \<Rightarrow> 's \<Rightarrow> unit res \<times> 's" where
  "WriteBlueprint fs r bp prompt s =
     check_first (validateBlueprint (bp_ID bp) bp) (\<lambda>_.
     check_first (if bp_OutputSchema bp \<noteq> [] then bind_res (compileOutputSchema fs (rg_root r) bp s) (\<lambda>_. Inr ()) else Inr ()) (\<lambda>_.
     check_first (safeRel (bp_PromptPath bp)) (\<lambda>rel s.
     then_do
       (if prompt \<noteq> [] then atomicWrite fs (path_Join [rg_root r, rel]) prompt s
        else case fs_Stat fs (path_Join [rg_root r, rel]) s of
          Inl _ \<Rightarrow> (Inl (Errorf ''prompt_path %q does not exist and no prompt was provided'' [bp_PromptPath bp]), s)
        | Inr _ \<Rightarrow> (Inr (), s))
       (check_first (marshal_blueprint bp) (\<lambda>data.
          atomicWrite fs (path_Join [rg_root r, BlueprintsDir, bp_ID bp @ ''.json'']) (data @ [CHR 0x0A])))))) s"

definition WritePipeline :: "'s fs \<Rightarrow> Registry \<Rightarrow> Pipeline \<Rightarrow> 's \<Rightarrow> unit res \<times> 's" where
  "WritePipeline fs r p =
     check_first (validatePipeline r (PipelineID p) p) (\<lambda>_.
     check_first (marshal_pipeline p) (\<lambda>data.
       atomicWrite fs (path_Join [rg_root r, PipelinesDir, PipelineID p @ ''.json'']) (data @ [CHR 0x0A])))"

lemma then_do_Inr: "then_do m k = (Inr u, s') \<longleftrightarrow> (\<exists>s1. m = (Inr (), s1) \<and> k s1 = (Inr u, s'))"
  by (cases m; cases "fst m") (auto simp: then_do_def)

lemma then_do_Inl: "then_do m k = (Inl e, s') \<longleftrightarrow> m = (Inl e, s') \<or> (\<exists>s1. m = (Inr (), s1) \<and> k s1 = (Inl e, s'))"
  by (cases m; cases "fst m") (auto simp: then_do_def)

lemma or_close_Inr: "or_close fs t m = (Inr u, s') \<longleftrightarrow> m = (Inr u, s')"
  by (cases m; cases "fst m") (auto simp: or_close_def)

lemma or_close_Inl: "or_close fs t m = (Inl e, s') \<longleftrightarrow> (\<exists>s1. m = (Inl e, s1) \<and> s' = snd (fs_Close fs t s1))"
  by (cases m; cases "fst m") (auto simp: or_close_def)

lemma with_temp_Inr:
  "(case m of (Inl e, s) \<Rightarrow> (Inl e, s) | (Inr t, s) \<Rightarrow> (case f t s of (res, s) \<Rightarrow> (res, g t s))) = (Inr u, s') \<longleftrightarrow>
     (\<exists>t s2 s3. m = (Inr t, s2) \<and> f t s2 = (Inr u, s3) \<and> s' = g t s3)"
  by (cases m; cases "fst m") (auto split: prod.split)

lemma renamed_Inr: "renamed m = (Inr u, s') \<longleftrightarrow> m = (Inr (), s')"
  by (cases m; cases "fst m") (auto simp: renamed_def)

lemma renamed_Inl: "renamed m = (Inl e, s') \<Longrightarrow> \<exists>e'. m = (Inl e', s')"
  by (cases m; cases "fst m") (auto simp: renamed_def)

section \<open>What the file system promises\<close>

text \<open>A name that \<open>CreateTemp\<close> gives out for the pattern \<open>.tmp-*\<close>.\<close>

definition temp_file :: "string \<Rightarrow> bool" where
  "temp_file p \<longleftrightarrow> path_names p \<noteq> [] \<and> prefix ''.tmp-'' (last (path_names p))"

locale file_system =
  fixes fs :: "'s fs" and files :: "'s \<Rightarrow> (string \<rightharpoonup> string)"
  assumes MkdirAll: "files (snd (fs_MkdirAll fs d s)) = files s"
    and CreateTemp: "fs_CreateTemp fs d s = (Inr t, s') \<Longrightarrow> temp_file t \<and> files s t = None \<and> files s' = (files s)(t \<mapsto> [])"
    and CreateTemp_fails: "fs_CreateTemp fs d s = (Inl e, s') \<Longrightarrow> files s' = files s"
    and Write: "fs_Write fs t data s = (Inr u, s') \<Longrightarrow> files s t = Some c \<Longrightarrow> files s' = (files s)(t \<mapsto> c @ data)"
    and Write_fails: "fs_Write fs t data s = (Inl e, s') \<Longrightarrow> \<exists>c. files s' = (files s)(t := c)"
    and Sync: "files (snd (fs_Sync fs t s)) = files s"
    and Close: "files (snd (fs_Close fs t s)) = files s"
    and Chmod: "files (snd (fs_Chmod fs t s)) = files s"
    and Rename: "fs_Rename fs t p s = (Inr u, s') \<Longrightarrow> files s t = Some c \<Longrightarrow> t \<noteq> p \<Longrightarrow> files s' = (files s)(p \<mapsto> c, t := None)"
    and Rename_fails: "fs_Rename fs t p s = (Inl e, s') \<Longrightarrow> files s' = files s"
    and Remove: "files (snd (fs_Remove fs t s)) \<in> {files s, (files s)(t := None)}"
begin

lemma keeps:
  "fs_MkdirAll fs d s = (r, s') \<Longrightarrow> files s' = files s" "fs_Sync fs t s = (r, s') \<Longrightarrow> files s' = files s"
  "fs_Close fs t s = (r, s') \<Longrightarrow> files s' = files s" "fs_Chmod fs t s = (r, s') \<Longrightarrow> files s' = files s"
  using MkdirAll [of d s] Sync [of t s] Close [of t s] Chmod [of t s] by auto

lemma write_temp_ok:
  assumes "write_temp fs t p data s = (Inr u, s')" "files s t = Some []" "t \<noteq> p"
  shows "files s' = (files s)(p \<mapsto> data, t := None)"
proof -
  from assms(1) obtain s1 s2 s3 s4 where w: "fs_Write fs t data s = (Inr (), s1)" "fs_Sync fs t s1 = (Inr (), s2)"
    "fs_Close fs t s2 = (Inr (), s3)" "fs_Chmod fs t s3 = (Inr (), s4)" "fs_Rename fs t p s4 = (Inr (), s')"
    by (auto simp: write_temp_def then_do_Inr or_close_Inr renamed_Inr)
  have "files s4 = (files s)(t \<mapsto> data)"
    using Write [OF w(1) assms(2)] keeps(2) [OF w(2)] keeps(3) [OF w(3)] keeps(4) [OF w(4)] by simp
  with Rename [OF w(5) _ assms(3), of data] show ?thesis by (simp add: fun_upd_twist)
qed

lemma write_temp_fails:
  assumes "write_temp fs t p data s = (Inl e, s')" "files s t = Some []"
  shows "\<exists>c. files s' = (files s)(t := c)"
proof (cases "fs_Write fs t data s")
  case (Pair r s1)
  show ?thesis
  proof (cases r)
    case (Inl e1)
    with Pair assms(1) have "s' = snd (fs_Close fs t s1)" by (simp add: write_temp_def then_do_Inl or_close_Inl or_close_Inr)
    with Write_fails [OF Pair [unfolded Inl]] show ?thesis by (simp add: Close)
  next
    case (Inr u)
    have s1: "files s1 = (files s)(t \<mapsto> data)" using Write [OF Pair [unfolded Inr] assms(2)] by simp
    have "files s' = files s1"
      using assms(1) Pair Inr
      by (auto simp: write_temp_def then_do_Inl or_close_Inl or_close_Inr Close keeps dest!: renamed_Inl Rename_fails)
    with s1 show ?thesis by auto
  qed
qed

lemma atomicWrite_ok:
  assumes "atomicWrite fs p data s = (Inr u, s')" "\<not> temp_file p"
  shows "files s' = (files s)(p \<mapsto> data)"
proof -
  from assms(1) obtain s1 t s2 s3 where w: "fs_MkdirAll fs (path_Dir p) s = (Inr (), s1)"
    "fs_CreateTemp fs (path_Dir p) s1 = (Inr t, s2)" "write_temp fs t p data s2 = (Inr (), s3)" "s' = snd (fs_Remove fs t s3)"
    by (auto simp: atomicWrite_def then_do_Inr with_temp_Inr)
  note t = CreateTemp [OF w(2)] keeps(1) [OF w(1)]
  from t assms(2) have "t \<noteq> p" by auto
  from write_temp_ok [OF w(3) _ this] t have "files s3 = (files s)(p \<mapsto> data, t := None)" by auto
  moreover have "((files s)(p \<mapsto> data))(t := None) = (files s)(p \<mapsto> data)" using t \<open>t \<noteq> p\<close> by (auto simp: fun_eq_iff)
  ultimately show ?thesis using Remove [of t s3] w(4) by auto
qed

lemma atomicWrite_fails:
  assumes "atomicWrite fs p data s = (Inl e, s')" "\<not> temp_file q"
  shows "files s' q = files s q"
proof (cases "fs_MkdirAll fs (path_Dir p) s")
  case (Pair r s1)
  note s1 = keeps(1) [OF Pair]
  show ?thesis
  proof (cases r)
    case (Inl e1)
    with Pair assms(1) s1 show ?thesis by (simp add: atomicWrite_def then_do_def)
  next
    case (Inr u)
    obtain r2 s2 where c: "fs_CreateTemp fs (path_Dir p) s1 = (r2, s2)" by fastforce
    show ?thesis
    proof (cases r2)
      case (Inl e2)
      with Pair Inr assms(1) c s1 CreateTemp_fails [OF c [unfolded Inl]] show ?thesis by (simp add: atomicWrite_def then_do_def)
    next
      case (Inr t)
      note t = CreateTemp [OF c [unfolded Inr]]
      from assms(1) Pair Inr \<open>r = Inr u\<close> c obtain s3 where w: "write_temp fs t p data s2 = (Inl e, s3)" "s' = snd (fs_Remove fs t s3)"
        by (auto simp: atomicWrite_def then_do_def split: prod.splits)
      from write_temp_fails [OF w(1)] t obtain x where "files s3 = (files s2)(t := x)" by auto
      moreover have "q \<noteq> t" using t assms(2) by auto
      ultimately show ?thesis using Remove [of t s3] w(2) t s1 by auto
    qed
  qed
qed

end

section \<open>What a write changes\<close>

lemma id_chars:
  assumes "idPattern i"
  shows "CHR ''/'' \<notin> set i" "\<exists>c cs. i = c # cs \<and> c \<noteq> CHR ''.''"
proof -
  have "\<not> id_char (CHR ''/'')" "\<not> id_char (CHR ''.'')" by code_simp+
  with assms show "CHR ''/'' \<notin> set i" "\<exists>c cs. i = c # cs \<and> c \<noteq> CHR ''.''"
    by (cases i; auto simp: idPattern_def list_all_iff)+
qed

lemma id_file_names:
  assumes "idPattern i" "dir \<noteq> []" "''..'' \<notin> set (path_names dir)"
  shows "\<exists>ns. path_names (path_Join [base, dir, i @ ''.json'']) = ns @ path_names dir @ [i @ ''.json'']"
proof -
  have i: "CHR ''/'' \<notin> set (i @ ''.json'')" "i @ ''.json'' \<noteq> ''..''" "i \<noteq> []" using id_chars [OF assms(1)] by auto
  then have n: "path_names (i @ ''.json'') = [i @ ''.json'']" by (simp add: path_names_def Split_single)
  have "path_names (path_Join [base, dir, i @ ''.json'']) =
      clean_names (IsAbs (base @ ''/'' @ dir @ ''/'' @ i @ ''.json'')) (path_names base) @ path_names dir @ [i @ ''.json'']" if "base \<noteq> []"
    using that n i(2) assms(3) clean_names_append [of "path_names dir @ [i @ ''.json'']" _ "path_names base"]
    by (simp add: path_Join_def path_names_Clean path_names_append)
  moreover have "path_names (path_Join [base, dir, i @ ''.json'']) = path_names dir @ [i @ ''.json'']" if "base = []"
    using that n i(2) assms(2,3) clean_names_append [of "path_names dir @ [i @ ''.json'']" _ "[]"]
    by (simp add: path_Join_def path_names_Clean path_names_append clean_names_def)
  ultimately show ?thesis by (cases "base = []") auto
qed

lemma id_file_not_temp:
  assumes "idPattern i" "dir \<noteq> []" "''..'' \<notin> set (path_names dir)"
  shows "\<not> temp_file (path_Join [base, dir, i @ ''.json''])"
proof -
  have "\<not> prefix ''.tmp-'' (i @ ''.json'')" using id_chars [OF assms(1)] by auto
  with id_file_names [OF assms, of base] show ?thesis by (auto simp: temp_file_def)
qed

definition prompt_file :: "Registry \<Rightarrow> AgentBlueprint \<Rightarrow> string" where
  "prompt_file r bp = path_Join [rg_root r, Clean (bp_PromptPath bp)]"

definition blueprint_file :: "Registry \<Rightarrow> string \<Rightarrow> string" where
  "blueprint_file r i = path_Join [rg_root r, BlueprintsDir, i @ ''.json'']"

lemma check_first_Inr: "check_first r k s = (Inr u, s') \<longleftrightarrow> (\<exists>x. r = Inr x \<and> k x s = (Inr u, s'))"
  by (cases r) (auto simp: check_first_def)

lemma check_first_Inl: "check_first r k s = (Inl e, s') \<longleftrightarrow> r = Inl e \<and> s' = s \<or> (\<exists>x. r = Inr x \<and> k x s = (Inl e, s'))"
  by (cases r) (auto simp: check_first_def)

lemma blueprint_file_not_temp: "validateBlueprint (bp_ID bp) bp = Inr () \<Longrightarrow> \<not> temp_file (blueprint_file r (bp_ID bp))"
proof -
  assume "validateBlueprint (bp_ID bp) bp = Inr ()"
  then have "idPattern (bp_ID bp)" by (simp add: validateBlueprint_def)
  moreover have "path_names BlueprintsDir = [BlueprintsDir]" "BlueprintsDir \<noteq> []" "BlueprintsDir \<noteq> ''..''" by code_simp+
  ultimately show ?thesis unfolding blueprint_file_def by (intro id_file_not_temp) auto
qed

lemma safeRel_Clean: "safeRel p = Inr rel \<Longrightarrow> rel = Clean p"
  by (auto simp: safeRel_def Let_def split: if_splits)

definition write_prompt :: "'s fs \<Rightarrow> Registry \<Rightarrow> AgentBlueprint \<Rightarrow> string \<Rightarrow> 's \<Rightarrow> unit res \<times> 's" where
  "write_prompt fs r bp prompt s =
     (if prompt \<noteq> [] then atomicWrite fs (prompt_file r bp) prompt s
      else case fs_Stat fs (prompt_file r bp) s of
        Inl _ \<Rightarrow> (Inl (Errorf ''prompt_path %q does not exist and no prompt was provided'' [bp_PromptPath bp]), s)
      | Inr _ \<Rightarrow> (Inr (), s))"

lemma WriteBlueprint_steps:
  "WriteBlueprint fs r bp prompt s = (Inr u, s') \<Longrightarrow>
     \<exists>s1 data. validateBlueprint (bp_ID bp) bp = Inr () \<and> write_prompt fs r bp prompt s = (Inr (), s1) \<and>
       marshal_blueprint bp = Inr data \<and> atomicWrite fs (blueprint_file r (bp_ID bp)) (data @ [CHR 0x0A]) s1 = (Inr u, s')"
  "WriteBlueprint fs r bp prompt s = (Inl e, s') \<Longrightarrow>
     s' = s \<or> validateBlueprint (bp_ID bp) bp = Inr () \<and> (write_prompt fs r bp prompt s = (Inl e, s') \<or>
       (\<exists>s1. write_prompt fs r bp prompt s = (Inr (), s1) \<and>
          (s' = s1 \<or> (\<exists>data. atomicWrite fs (blueprint_file r (bp_ID bp)) data s1 = (Inl e, s')))))"
proof -
  have *: "safeRel (bp_PromptPath bp) = Inr rel \<Longrightarrow> path_Join [rg_root r, rel] = prompt_file r bp" for rel
    using safeRel_Clean by (auto simp: prompt_file_def)
  show "WriteBlueprint fs r bp prompt s = (Inr u, s') \<Longrightarrow>
     \<exists>s1 data. validateBlueprint (bp_ID bp) bp = Inr () \<and> write_prompt fs r bp prompt s = (Inr (), s1) \<and>
       marshal_blueprint bp = Inr data \<and> atomicWrite fs (blueprint_file r (bp_ID bp)) (data @ [CHR 0x0A]) s1 = (Inr u, s')"
    by (auto simp: WriteBlueprint_def check_first_Inr then_do_Inr * write_prompt_def blueprint_file_def)
  show "WriteBlueprint fs r bp prompt s = (Inl e, s') \<Longrightarrow>
     s' = s \<or> validateBlueprint (bp_ID bp) bp = Inr () \<and> (write_prompt fs r bp prompt s = (Inl e, s') \<or>
       (\<exists>s1. write_prompt fs r bp prompt s = (Inr (), s1) \<and>
          (s' = s1 \<or> (\<exists>data. atomicWrite fs (blueprint_file r (bp_ID bp)) data s1 = (Inl e, s')))))"
    by (auto simp: WriteBlueprint_def check_first_Inl then_do_Inl * write_prompt_def blueprint_file_def)
qed

context file_system
begin

lemma written_prompt:
  "write_prompt fs r bp prompt s = (Inr (), s1) \<Longrightarrow> \<not> temp_file (prompt_file r bp) \<Longrightarrow>
     files s1 = (if prompt = [] then files s else (files s)(prompt_file r bp \<mapsto> prompt))"
  by (auto simp: write_prompt_def atomicWrite_ok split: if_splits sum.splits)

lemma failed_prompt: "write_prompt fs r bp prompt s = (Inl e, s1) \<Longrightarrow> \<not> temp_file p \<Longrightarrow> files s1 p = files s p"
  by (auto simp: write_prompt_def atomicWrite_fails split: if_splits sum.splits)

lemma written_blueprint:
  assumes "WriteBlueprint fs r bp prompt s = (Inr u, s')" "\<not> temp_file (prompt_file r bp)"
  shows "\<exists>data. marshal_blueprint bp = Inr data \<and>
    files s' = (if prompt = [] then files s else (files s)(prompt_file r bp \<mapsto> prompt))
      (blueprint_file r (bp_ID bp) \<mapsto> data @ [CHR 0x0A])"
proof -
  from WriteBlueprint_steps(1) [OF assms(1)] obtain s1 data where
    v: "validateBlueprint (bp_ID bp) bp = Inr ()" "write_prompt fs r bp prompt s = (Inr (), s1)" "marshal_blueprint bp = Inr data"
    "atomicWrite fs (blueprint_file r (bp_ID bp)) (data @ [CHR 0x0A]) s1 = (Inr u, s')" by blast
  from atomicWrite_ok [OF v(4) blueprint_file_not_temp [OF v(1)]] written_prompt [OF v(2) assms(2)] v(3) show ?thesis by simp
qed

end

text \<open>
  C29: when \<open>WriteBlueprint\<close> succeeds, the file of the blueprint holds its whole encoding, the
  prompt file the prompt that was given, and no other file has changed.  When it fails, no
  file but the prompt file has changed, temporary files aside: a definition is never half
  written, and a blueprint that was there before is still the old one.
\<close>

theorem WriteBlueprint_files:
  assumes "file_system fs files" and "\<not> temp_file (prompt_file r bp)"
  shows "case WriteBlueprint fs r bp prompt s of
     (Inr _, s') \<Rightarrow> \<exists>data. marshal_blueprint bp = Inr data \<and>
       files s' = (if prompt = [] then files s else (files s)(prompt_file r bp \<mapsto> prompt))
         (blueprint_file r (bp_ID bp) \<mapsto> data @ [CHR 0x0A])
   | (Inl e, s') \<Rightarrow> \<forall>p. temp_file p \<or> p = prompt_file r bp \<or> files s' p = files s p"
proof -
  obtain res s' where w: "WriteBlueprint fs r bp prompt s = (res, s')" by fastforce
  show ?thesis
  proof (cases res)
    case (Inr u)
    with file_system.written_blueprint [OF assms(1) w [unfolded Inr] assms(2)] w show ?thesis by simp
  next
    case (Inl e)
    from WriteBlueprint_steps(2) [OF w [unfolded Inl]] file_system.written_prompt [OF assms(1) _ assms(2)]
      file_system.failed_prompt [OF assms(1)] file_system.atomicWrite_fails [OF assms(1)]
    have "\<forall>p. temp_file p \<or> p = prompt_file r bp \<or> files s' p = files s p"
      by (auto split: if_splits)
    with w Inl show ?thesis by simp
  qed
qed

section \<open>A file system in memory\<close>

text \<open>
  The files, the number of the next temporary name, and for each coming operation whether it
  succeeds; when the list is used up, operations succeed.
\<close>

record mem_files =
  mf_files :: "string \<rightharpoonup> string"
  mf_next :: nat
  mf_script :: "bool list"

definition ErrIO :: goerr where "ErrIO = Sentinel ''input/output error''"

definition mem_op :: "(mem_files \<Rightarrow> 'a res \<times> mem_files) \<Rightarrow> mem_files \<Rightarrow> 'a res \<times> mem_files" where
  "mem_op f s =
     (if mf_script s = [] \<or> hd (mf_script s) then f (s\<lparr>mf_script := tl (mf_script s)\<rparr>)
      else (Inl ErrIO, s\<lparr>mf_script := tl (mf_script s)\<rparr>))"

definition temp_name :: "string \<Rightarrow> nat \<Rightarrow> string" where
  "temp_name dir n = dir @ ''/.tmp-'' @ nat_digits n"

definition mem_fs :: "mem_files fs" where
  "mem_fs =
     \<lparr>fs_ReadDir = (\<lambda>d s. Inl ErrNotExist),
      fs_ReadFile = (\<lambda>p s. case mf_files s p of None \<Rightarrow> Inl ErrNotExist | Some c \<Rightarrow> Inr c),
      fs_Stat = (\<lambda>p s. case mf_files s p of None \<Rightarrow> Inl ErrNotExist | Some c \<Rightarrow> Inr ()),
      fs_MkdirAll = (\<lambda>d. mem_op (\<lambda>s. (Inr (), s))),
      fs_CreateTemp = (\<lambda>d. mem_op (\<lambda>s. let t = temp_name d (mf_next s) in
        if mf_files s t = None then (Inr t, s\<lparr>mf_files := (mf_files s)(t \<mapsto> []), mf_next := Suc (mf_next s)\<rparr>) else (Inl ErrIO, s))),
      fs_Write = (\<lambda>t data. mem_op (\<lambda>s. case mf_files s t of None \<Rightarrow> (Inl ErrIO, s)
        | Some c \<Rightarrow> (Inr (), s\<lparr>mf_files := (mf_files s)(t \<mapsto> c @ data)\<rparr>))),
      fs_Sync = (\<lambda>t. mem_op (\<lambda>s. (Inr (), s))), fs_Close = (\<lambda>t. mem_op (\<lambda>s. (Inr (), s))),
      fs_Chmod = (\<lambda>t. mem_op (\<lambda>s. (Inr (), s))),
      fs_Rename = (\<lambda>t p. mem_op (\<lambda>s. case mf_files s t of None \<Rightarrow> (Inl ErrIO, s)
        | Some c \<Rightarrow> (Inr (), s\<lparr>mf_files := (mf_files s)(p \<mapsto> c, t := None)\<rparr>))),
      fs_Remove = (\<lambda>t. mem_op (\<lambda>s. (Inr (), s\<lparr>mf_files := (mf_files s)(t := None)\<rparr>)))\<rparr>"

lemma temp_name_temp: "temp_file (temp_name d n)"
proof -
  have "CHR ''/'' \<notin> set (nat_digits n)" using nat_digits_isDigit [of n] by (auto simp: list_all_iff isDigit_def)
  then have "path_names (''.tmp-'' @ nat_digits n) = [''.tmp-'' @ nat_digits n]"
    by (simp add: path_names_def Split_single)
  then have "path_names (temp_name d n) = path_names d @ [''.tmp-'' @ nat_digits n]"
    using path_names_append [of d "''.tmp-'' @ nat_digits n"] by (simp add: temp_name_def)
  then show ?thesis by (simp add: temp_file_def)
qed

lemma upd_exists: "\<exists>c. f = f(t := c)"
  by (metis fun_upd_triv)

interpretation mem: file_system mem_fs mf_files
  by unfold_locales
    (auto simp: mem_fs_def mem_op_def Let_def temp_name_temp upd_exists split: if_splits option.splits)

definition demo_state :: "bool list \<Rightarrow> mem_files" where
  "demo_state script = \<lparr>mf_files = [''/r/p'' \<mapsto> ''old''], mf_next = 0, mf_script = script\<rparr>"

lemma demo_prompt_file: "prompt_file (empty_registry ''/r'') demo_agent = ''/r/p''" "\<not> temp_file ''/r/p''"
  "blueprint_file (empty_registry ''/r'') ''a'' = ''/r/blueprints/a.json''"
  by code_simp+

theorem WriteBlueprint_files_witness:
  "\<forall>p. temp_file p \<or> p = ''/r/p'' \<or>
     mf_files (snd (WriteBlueprint mem_fs (empty_registry ''/r'') demo_agent ''new'' (demo_state [False]))) p =
     mf_files (demo_state [False]) p"
proof -
  have "fst (WriteBlueprint mem_fs (empty_registry ''/r'') demo_agent ''new'' (demo_state [False])) = Inl ErrIO" by code_simp
  with WriteBlueprint_files [OF mem.file_system_axioms, of "empty_registry ''/r''" demo_agent "demo_state [False]" "''new''"]
  show ?thesis by (auto simp: demo_prompt_file split: prod.splits)
qed

text \<open>
  The prompt is replaced before the blueprint is written.  When the second write fails,
  \<open>WriteBlueprint\<close> reports an error although the prompt of the existing agent is already the
  new one.
\<close>

theorem prompt_replaced_by_failed_write:
  "\<exists>s s' e. WriteBlueprint mem_fs (empty_registry ''/r'') demo_agent ''new'' s = (Inl e, s') \<and>
     mf_files s ''/r/p'' = Some ''old'' \<and> mf_files s' ''/r/p'' = Some ''new''"
proof -
  let ?s = "demo_state (replicate 8 True @ [False])"
  let ?w = "WriteBlueprint mem_fs (empty_registry ''/r'') demo_agent ''new'' ?s"
  have "fst ?w = Inl ErrIO" "mf_files (snd ?w) ''/r/p'' = Some ''new''" by code_simp+
  then have "?w = (Inl ErrIO, snd ?w)" "mf_files (snd ?w) ''/r/p'' = Some ''new''" by (simp_all add: prod_eq_iff)
  moreover have "mf_files ?s ''/r/p'' = Some ''old''" by (simp add: demo_state_def)
  ultimately show ?thesis by blast
qed

end
