(* ===== verification/Api.thy ===== *)
theory Api
  imports Worker Engine RegistryWrite
begin

text \<open>
  \<open>internal/api/api.go\<close> and \<open>registry.go\<close>: the HTTP interface.  A request is handled as one
  step on the state of the service: the snapshot of the registry, the engine, the worker
  pool with its store, and the files of the registry.  What \<open>net/http\<close> does for the
  handlers (routes, redirects, the limit on bodies) is written out.  A request is what the
  server has parsed; its query, the log and the panics that \<open>recoverer\<close> catches are left out.
\<close>

section \<open>Requests and responses\<close>

text \<open>The path of the request as \<open>URL.EscapedPath\<close> gives it; \<open>URL.Path\<close> is the decoded one.\<close>

record http_request =
  hr_Method :: string
  hr_EscapedPath :: string
  hr_Authorization :: string
  hr_Body :: string

fun unescape :: "string \<Rightarrow> string" where
  "unescape (c # a # b # r) =
     (if c = CHR 0x25 then
        (case (hex_value a, hex_value b) of
           (Some x, Some y) \<Rightarrow> char_of (16 * x + y) # unescape r
         | _ \<Rightarrow> c # unescape (a # b # r))
      else c # unescape (a # b # r))"
| "unescape s = s"

definition hr_Path :: "http_request \<Rightarrow> string" where
  "hr_Path r = unescape (hr_EscapedPath r)"

text \<open>\<open>rp_Location\<close> is the path of a redirect; the page that \<open>http.Redirect\<close> writes is left out.\<close>

record http_response =
  rp_Code :: nat
  rp_ContentType :: string
  rp_Allow :: "string option"
  rp_Location :: "string option"
  rp_Body :: string

definition writeJSON :: "nat \<Rightarrow> raw \<Rightarrow> http_response" where
  "writeJSON code v = \<lparr>rp_Code = code, rp_ContentType = ''application/json'', rp_Allow = None, rp_Location = None,
     rp_Body = raw_text v @ [CHR 0x0A]\<rparr>"

definition writeError :: "nat \<Rightarrow> string \<Rightarrow> string \<Rightarrow> http_response" where
  "writeError code errCode msg =
     writeJSON code (RObj [(''error'', RObj [(''code'', RStr errCode), (''message'', RStr msg)])])"

definition methodNotAllowed :: "string \<Rightarrow> http_response" where
  "methodNotAllowed allowed =
     (writeError 405 ''method_not_allowed'' (''method not allowed, use '' @ allowed))\<lparr>rp_Allow := Some allowed\<rparr>"

definition unknown_route :: http_response where
  "unknown_route = writeError 404 ''not_found'' ''unknown route''"

section \<open>The service\<close>

record ('s, 'f) api =
  api_engine :: Engine
  api_registry :: Registry
  api_pool :: "'s pool"
  api_version :: string
  api_auth :: string
  api_files :: 'f

record ('s, 'f) api_env =
  ae_pool :: "'s pool_env"
  ae_fs :: "'f fs"

text \<open>The counters and the store are those of the pool, as \<open>main\<close> sets them up.\<close>

record 's ApiConfig =
  cf_Engine :: "Engine option"
  cf_Registry :: "Registry option"
  cf_Pool :: "'s pool option"
  cf_Store :: "'s store_ops option"
  cf_Version :: string
  cf_AuthToken :: string

definition api_New :: "'s ApiConfig \<Rightarrow> 'f \<Rightarrow> ('s, 'f) api res" where
  "api_New cfg files =
     (case cf_Engine cfg of None \<Rightarrow> Inl (Sentinel ''api: engine is required'') | Some eng \<Rightarrow>
     (case cf_Registry cfg of None \<Rightarrow> Inl (Sentinel ''api: registry is required'') | Some reg \<Rightarrow>
     (case cf_Pool cfg of None \<Rightarrow> Inl (Sentinel ''api: pool is required'') | Some p \<Rightarrow>
     (case cf_Store cfg of None \<Rightarrow> Inl (Sentinel ''api: store is required'') | Some _ \<Rightarrow>
        Inr \<lparr>api_engine = eng, api_registry = reg, api_pool = p, api_version = cf_Version cfg,
             api_auth = cf_AuthToken cfg, api_files = files\<rparr>))))"

definition set_store :: "'s \<Rightarrow> ('s, 'f) api \<Rightarrow> ('s, 'f) api" where
  "set_store s a = a\<lparr>api_pool := (api_pool a)\<lparr>p_store := s\<rparr>\<rparr>"

text \<open>The write lock is held throughout, so the steps of \<open>mutate\<close> are not interleaved.\<close>

definition mutate ::
  "('s, 'f) api_env \<Rightarrow> (Registry \<Rightarrow> 'f \<Rightarrow> unit res \<times> 'f) \<Rightarrow> ('s, 'f) api \<Rightarrow> http_response \<times> ('s, 'f) api" where
  "mutate env write a =
     (case write (api_registry a) (api_files a) of
        (Inl err, f) \<Rightarrow> (writeError 400 ''invalid_registry_entry'' (pv_text (ae_pool env) err), a\<lparr>api_files := f\<rparr>)
      | (Inr _, f) \<Rightarrow>
          (case RegistryLoad.Load (ae_fs env) (rg_root (api_registry a)) f of
             Inl err \<Rightarrow> (writeError 500 ''reload_failed'' (pv_text (ae_pool env) err), a\<lparr>api_files := f\<rparr>)
           | Inr reloaded \<Rightarrow>
               (writeJSON 200 (RObj [(''status'', RStr ''ok'')]),
                a\<lparr>api_files := f, api_registry := reloaded, api_engine := SetRegistry (Some reloaded) (api_engine a)\<rparr>)))"

section \<open>Helpers\<close>

definition bearer :: string where
  "bearer = ''Bearer ''"

text \<open>The prefix has no letter with a fold outside ASCII.\<close>

definition bearerToken :: "string \<Rightarrow> string" where
  "bearerToken header =
     (if length header < length bearer \<or> fold_name (take (length bearer) header) \<noteq> fold_name bearer then []
      else TrimSpace (drop (length bearer) header))"

definition splitTwo :: "string \<Rightarrow> (string \<times> string) option" where
  "splitTwo s =
     (if CHR ''/'' \<notin> set s then None
      else let first = takeWhile (\<lambda>c. c \<noteq> CHR ''/'') s; second = drop (Suc (length first)) s in
        if CHR ''/'' \<in> set second then None else Some (first, second))"

text \<open>\<open>newSessionID\<close>: the random bytes, or the time in the format of the fallback.\<close>

record entropy =
  en_rand :: "string option"
  en_time :: string

definition hex_byte :: "char \<Rightarrow> string" where
  "hex_byte c = [hex_digit (of_char c div 16), hex_digit (of_char c mod 16)]"

definition newSessionID :: "entropy \<Rightarrow> string" where
  "newSessionID d =
     (case en_rand d of None \<Rightarrow> ''sess_'' @ en_time d | Some b \<Rightarrow> ''sess_'' @ concat (map hex_byte b))"

section \<open>Bodies\<close>

definition maxBodyBytes :: nat where
  "maxBodyBytes = 1048576"

text \<open>
  One value from a body of limited size, and nothing but white space behind it.  Behind the
  limit the reader fails, which is not the end of the body.  An error is its message.
\<close>

definition decode_body :: "error_text \<Rightarrow> (raw \<Rightarrow> 'a res) \<Rightarrow> string \<Rightarrow> string + 'a" where
  "decode_body txt dec body =
     (let complete = (length body \<le> maxBodyBytes); text = take maxBodyBytes body in
      if skip_ws text = [] \<and> complete then Inl ''empty request body''
      else case stream_value text of
        None \<Rightarrow> Inl (''invalid JSON body: '' @ txt ErrJSON)
      | Some (v, rest) \<Rightarrow>
          (case dec v of
             Inl err \<Rightarrow> Inl (''invalid JSON body: '' @ txt err)
           | Inr x \<Rightarrow>
               if skip_ws rest = [] \<and> complete then Inr x
               else Inl ''request body must contain a single JSON object''))"

definition dec_executeRequest :: "raw \<Rightarrow> string res" where
  "dec_executeRequest v = bind_res (struct_members [''input_data''] v) (string_field ''input_data'')"

definition decodeExecuteRequest :: "error_text \<Rightarrow> string \<Rightarrow> string + string" where
  "decodeExecuteRequest txt body =
     (case decode_body txt dec_executeRequest body of
        Inl msg \<Rightarrow> Inl msg
      | Inr input \<Rightarrow>
          if TrimSpace input = [] then Inl (''field '' @ [CHR 0x22] @ ''input_data'' @ [CHR 0x22] @ '' is required'')
          else Inr input)"

definition dec_inputs :: "raw \<Rightarrow> (string \<times> string) list res" where
  "dec_inputs v = (case v of RObj ms \<Rightarrow> string_map ms | RNull \<Rightarrow> Inr [] | _ \<Rightarrow> Inl ErrJSON)"

definition decodePipelineRequest :: "error_text \<Rightarrow> string \<Rightarrow> string + (string \<times> string) list" where
  "decodePipelineRequest txt body =
     (case decode_body txt dec_inputs body of
        Inl msg \<Rightarrow> Inl msg
      | Inr inputs \<Rightarrow>
          if inputs = [] then Inl ''request body must contain at least one input'' else Inr inputs)"

text \<open>\<open>json.Marshal\<close> of a \<open>map[string]string\<close>, which sorts the keys.\<close>

definition marshal_inputs :: "(string \<times> string) list \<Rightarrow> string" where
  "marshal_inputs m = object_text (map (\<lambda>(k, s). (k, RStr s)) (sort_key fst m))"

definition zero_AgentBlueprint :: AgentBlueprint where
  "zero_AgentBlueprint = \<lparr>bp_ID = [], bp_Description = [], bp_PromptPath = [], bp_Model = [], bp_BaseURL = [],
     bp_Temperature = None, bp_MaxTokens = 0, bp_TimeoutSeconds = 0, bp_OutputFormat = [], bp_OutputSchema = [],
     bp_Tools = [], bp_Concurrency = 0, bp_RateLimit = [], bp_Version = 0\<rparr>"

definition zero_Pipeline :: Pipeline where
  "zero_Pipeline = \<lparr>PipelineID = [], pl_Version = 0, pl_Inputs = [], pl_Steps = [], pl_Output = []\<rparr>"

definition dec_agentWrite :: "raw \<Rightarrow> (AgentBlueprint \<times> string) res" where
  "dec_agentWrite v =
     bind_res (struct_members [''blueprint'', ''prompt''] v) (\<lambda>ms.
     bind_res (field ''blueprint'' ms zero_AgentBlueprint dec_AgentBlueprint) (\<lambda>bp.
     bind_res (string_field ''prompt'' ms) (\<lambda>prompt. Inr (bp, prompt))))"

definition decodeAgentWrite :: "error_text \<Rightarrow> string \<Rightarrow> string + AgentBlueprint \<times> string" where
  "decodeAgentWrite txt body = decode_body txt dec_agentWrite body"

definition dec_pipelineWrite :: "raw \<Rightarrow> Pipeline res" where
  "dec_pipelineWrite v =
     bind_res (struct_members [''pipeline''] v) (\<lambda>ms. field ''pipeline'' ms zero_Pipeline dec_Pipeline)"

definition decodePipelineWrite :: "error_text \<Rightarrow> string \<Rightarrow> string + Pipeline" where
  "decodePipelineWrite txt body = decode_body txt dec_pipelineWrite body"

section \<open>Health, readiness and metrics\<close>

definition handleHealthz :: "('s, 'f) api \<Rightarrow> http_response" where
  "handleHealthz a = writeJSON 200 (RObj [(''status'', RStr ''ok''), (''version'', RStr (api_version a))])"

definition handleMetrics :: "('s, 'f) api \<Rightarrow> http_response" where
  "handleMetrics a =
     \<lparr>rp_Code = 200, rp_ContentType = ''text/plain; version=0.0.4; charset=utf-8'', rp_Allow = None, rp_Location = None,
      rp_Body = Render (p_metrics (api_pool a))\<rparr>"

text \<open>The registry is never nil: \<open>New\<close> refuses it and a reload gives one.\<close>

definition handleReadyz :: "('s, 'f) api_env \<Rightarrow> ('s, 'f) api \<Rightarrow> http_response \<times> ('s, 'f) api" where
  "handleReadyz env a =
     (case op_Ping (pv_ops (ae_pool env)) (p_store (api_pool a)) of
        (Inl err, s) \<Rightarrow> (writeError 503 ''not_ready'' ''store unavailable'', set_store s a)
      | (Inr _, s) \<Rightarrow> (writeJSON 200 (RObj [(''status'', RStr ''ready'')]), set_store s a))"

section \<open>Submitting jobs\<close>

text \<open>\<open>Pool.Submit\<close> without another operation between its two halves.\<close>

definition pool_Submit :: "'s pool_env \<Rightarrow> Job \<Rightarrow> 's pool \<Rightarrow> unit res \<times> 's pool" where
  "pool_Submit env job p =
     (case submit env job p of
        (Inl err, p) \<Rightarrow> (Inl err, p)
      | (Inr _, p) \<Rightarrow> send_queue env (length (p_sending p) - 1) p)"

definition new_job :: "string \<Rightarrow> JobKind \<Rightarrow> string \<Rightarrow> string \<Rightarrow> Job" where
  "new_job sid kind target input =
     \<lparr>SessionID = sid, job_Kind = kind, TargetID = target, job_Status = StatusPending, job_Input = input,
      job_Result = [], job_Error = []\<rparr>"

definition submitResponse :: "string \<Rightarrow> raw" where
  "submitResponse sid = RObj [(''session_id'', RStr sid), (''status'', RStr StatusPending)]"

definition submit_job :: "('s, 'f) api_env \<Rightarrow> Job \<Rightarrow> ('s, 'f) api \<Rightarrow> http_response \<times> ('s, 'f) api" where
  "submit_job env job a =
     (case pool_Submit (ae_pool env) job (api_pool a) of
        (Inl err, p) \<Rightarrow>
          (if errors_Is err ErrQueueFull then writeError 503 ''queue_full'' ''job queue is full, retry later''
           else writeError 500 ''submit_failed'' (pv_text (ae_pool env) err), a\<lparr>api_pool := p\<rparr>)
      | (Inr _, p) \<Rightarrow> (writeJSON 202 (submitResponse (SessionID job)), a\<lparr>api_pool := p\<rparr>))"

definition handleExecuteAgent ::
  "('s, 'f) api_env \<Rightarrow> entropy \<Rightarrow> http_request \<Rightarrow> string \<Rightarrow> ('s, 'f) api \<Rightarrow> http_response \<times> ('s, 'f) api" where
  "handleExecuteAgent env d r agentID a =
     (case reg_Blueprint (api_registry a) agentID of
        None \<Rightarrow> (writeError 404 ''not_found'' (''unknown agent '' @ agentID), a)
      | Some _ \<Rightarrow>
          (case decodeExecuteRequest (pv_text (ae_pool env)) (hr_Body r) of
             Inl msg \<Rightarrow> (writeError 400 ''bad_request'' msg, a)
           | Inr input \<Rightarrow> submit_job env (new_job (newSessionID d) KindAgent agentID input) a))"

definition handleAgents ::
  "('s, 'f) api_env \<Rightarrow> entropy \<Rightarrow> http_request \<Rightarrow> ('s, 'f) api \<Rightarrow> http_response \<times> ('s, 'f) api" where
  "handleAgents env d r a =
     (case splitTwo (TrimPrefix (hr_Path r) ''/v1/agents/'') of
        None \<Rightarrow> (unknown_route, a)
      | Some (i, action) \<Rightarrow>
          if action \<noteq> ''execute'' \<or> i = [] then (unknown_route, a)
          else if hr_Method r \<noteq> ''POST'' then (methodNotAllowed ''POST'', a)
          else handleExecuteAgent env d r i a)"

text \<open>An input that is not given reads as the empty string.\<close>

definition missing_input :: "(string \<times> string) list \<Rightarrow> Pipeline \<Rightarrow> string option" where
  "missing_input inputs p =
     find (\<lambda>name. TrimSpace (case map_of inputs name of None \<Rightarrow> [] | Some v \<Rightarrow> v) = []) (pl_Inputs p)"

definition handleExecutePipeline ::
  "('s, 'f) api_env \<Rightarrow> entropy \<Rightarrow> http_request \<Rightarrow> string \<Rightarrow> ('s, 'f) api \<Rightarrow> http_response \<times> ('s, 'f) api" where
  "handleExecutePipeline env d r pipelineID a =
     (case reg_Pipeline (api_registry a) pipelineID of
        None \<Rightarrow> (writeError 404 ''not_found'' (''unknown pipeline '' @ pipelineID), a)
      | Some p \<Rightarrow>
          (case decodePipelineRequest (pv_text (ae_pool env)) (hr_Body r) of
             Inl msg \<Rightarrow> (writeError 400 ''bad_request'' msg, a)
           | Inr inputs \<Rightarrow>
               (case missing_input inputs p of
                  Some name \<Rightarrow> (writeError 400 ''bad_request'' (''missing required input '' @ name), a)
                | None \<Rightarrow> submit_job env (new_job (newSessionID d) KindPipeline pipelineID (marshal_inputs inputs)) a)))"

definition handlePipelines ::
  "('s, 'f) api_env \<Rightarrow> entropy \<Rightarrow> http_request \<Rightarrow> ('s, 'f) api \<Rightarrow> http_response \<times> ('s, 'f) api" where
  "handlePipelines env d r a =
     (case splitTwo (TrimPrefix (hr_Path r) ''/v1/pipelines/'') of
        None \<Rightarrow> (unknown_route, a)
      | Some (i, action) \<Rightarrow>
          if action \<noteq> ''execute'' \<or> i = [] then (unknown_route, a)
          else if hr_Method r \<noteq> ''POST'' then (methodNotAllowed ''POST'', a)
          else handleExecutePipeline env d r i a)"

section \<open>Sessions\<close>

definition sessionResponse :: "Job \<Rightarrow> raw" where
  "sessionResponse job = RObj
     (string_member ''session_id'' (SessionID job) @ string_member ''kind'' (job_Kind job) @
      string_member ''target_id'' (TargetID job) @ string_member ''status'' (job_Status job) @
      omit_string ''result'' (job_Result job) @ omit_string ''error'' (job_Error job))"

definition stepResponse :: "StepResult \<Rightarrow> raw" where
  "stepResponse s = RObj
     (string_member ''step_id'' (sr_StepID s) @ string_member ''status'' (sr_Status s) @
      omit_string ''output'' (sr_Output s) @ omit_string ''error'' (sr_Error s) @
      omit_int ''tokens'' (sr_Tokens s) @ omit_int ''duration_ms'' (sr_DurationMS s))"

definition session_error :: "error_text \<Rightarrow> string \<Rightarrow> goerr \<Rightarrow> http_response" where
  "session_error txt sessionID err =
     (if errors_Is err ErrNotFound then writeError 404 ''not_found'' (''unknown session '' @ sessionID)
      else writeError 500 ''internal_error'' (txt err))"

definition handleSession :: "('s, 'f) api_env \<Rightarrow> string \<Rightarrow> ('s, 'f) api \<Rightarrow> http_response \<times> ('s, 'f) api" where
  "handleSession env sessionID a =
     (case op_GetJob (pv_ops (ae_pool env)) (p_store (api_pool a)) sessionID of
        (Inl err, s) \<Rightarrow> (session_error (pv_text (ae_pool env)) sessionID err, set_store s a)
      | (Inr job, s) \<Rightarrow> (writeJSON 200 (sessionResponse job), set_store s a))"

definition handleSessionSteps :: "('s, 'f) api_env \<Rightarrow> string \<Rightarrow> ('s, 'f) api \<Rightarrow> http_response \<times> ('s, 'f) api" where
  "handleSessionSteps env sessionID a =
     (case op_GetJob (pv_ops (ae_pool env)) (p_store (api_pool a)) sessionID of
        (Inl err, s) \<Rightarrow> (session_error (pv_text (ae_pool env)) sessionID err, set_store s a)
      | (Inr _, s) \<Rightarrow>
          (case op_ListStepResults (pv_ops (ae_pool env)) s sessionID of
             (Inl err, s) \<Rightarrow> (writeError 500 ''internal_error'' (pv_text (ae_pool env) err), set_store s a)
           | (Inr steps, s) \<Rightarrow>
               (writeJSON 200 (RObj [(''session_id'', RStr sessionID), (''steps'', RArr (map stepResponse steps))]),
                set_store s a)))"

definition handleSessions ::
  "('s, 'f) api_env \<Rightarrow> http_request \<Rightarrow> ('s, 'f) api \<Rightarrow> http_response \<times> ('s, 'f) api" where
  "handleSessions env r a =
     (let rest = TrimPrefix (hr_Path r) ''/v1/sessions/'' in
      if rest = [] then (unknown_route, a)
      else if hr_Method r \<noteq> ''GET'' then (methodNotAllowed ''GET'', a)
      else case splitTwo rest of
        Some (i, sub) \<Rightarrow> if sub \<noteq> ''steps'' then (unknown_route, a) else handleSessionSteps env i a
      | None \<Rightarrow> handleSession env rest a)"

section \<open>The registry\<close>

definition agentSummary :: "AgentBlueprint \<Rightarrow> raw" where
  "agentSummary bp = RObj
     (string_member ''id'' (bp_ID bp) @ omit_string ''description'' (bp_Description bp) @
      string_member ''model'' (bp_Model bp) @ omit_string ''output_format'' (bp_OutputFormat bp))"

definition pipelineSummary :: "Pipeline \<Rightarrow> raw" where
  "pipelineSummary p = RObj
     (string_member ''pipeline_id'' (PipelineID p) @ [(''steps'', RNum (Itoa (int (length (pl_Steps p)))))] @
      omit_list ''inputs'' (map RStr (pl_Inputs p)))"

text \<open>The entries in the order of their ids.\<close>

definition entries :: "(string \<Rightarrow> 'a option) \<Rightarrow> ('a \<Rightarrow> raw) \<Rightarrow> string list \<Rightarrow> raw" where
  "entries get enc ids = RArr (map (\<lambda>i. enc (the (get i))) ids)"

definition handleRegistryCollection :: "http_request \<Rightarrow> string \<Rightarrow> ('s, 'f) api \<Rightarrow> http_response" where
  "handleRegistryCollection r kind a =
     (let reg = api_registry a in
      if hr_Method r \<noteq> ''GET'' then methodNotAllowed ''GET''
      else if kind = ''agents'' then
        writeJSON 200 (RObj [(''agents'', entries (reg_Blueprint reg) agentSummary (BlueprintIDs reg))])
      else if kind = ''pipelines'' then
        writeJSON 200 (RObj [(''pipelines'', entries (reg_Pipeline reg) pipelineSummary (PipelineIDs reg))])
      else unknown_route)"

definition handleRegistryAgent ::
  "('s, 'f) api_env \<Rightarrow> http_request \<Rightarrow> string \<Rightarrow> ('s, 'f) api \<Rightarrow> http_response \<times> ('s, 'f) api" where
  "handleRegistryAgent env r i a =
     (let reg = api_registry a in
      if hr_Method r = ''GET'' then
        (case reg_Blueprint reg i of
           None \<Rightarrow> (writeError 404 ''not_found'' (''unknown agent '' @ i), a)
         | Some bp \<Rightarrow>
             (writeJSON 200 (RObj [(''blueprint'', enc_AgentBlueprint bp),
                (''prompt'', RStr (case reg_Prompt reg i of None \<Rightarrow> [] | Some p \<Rightarrow> p))]), a))
      else if hr_Method r = ''POST'' \<or> hr_Method r = ''PUT'' then
        (if hr_Method r = ''POST'' \<and> reg_Blueprint reg i \<noteq> None
         then (writeError 409 ''conflict'' (''agent '' @ i @ '' already exists''), a)
         else if hr_Method r = ''PUT'' \<and> reg_Blueprint reg i = None
         then (writeError 404 ''not_found'' (''unknown agent '' @ i), a)
         else case decodeAgentWrite (pv_text (ae_pool env)) (hr_Body r) of
           Inl msg \<Rightarrow> (writeError 400 ''bad_request'' msg, a)
         | Inr (bp, prompt) \<Rightarrow>
             if bp_ID bp \<noteq> i then (writeError 400 ''bad_request'' (''blueprint id must match path id '' @ i), a)
             else mutate env (\<lambda>reg. WriteBlueprint (ae_fs env) reg bp prompt) a)
      else (methodNotAllowed ''GET, POST, PUT'', a))"

definition handleRegistryPipeline ::
  "('s, 'f) api_env \<Rightarrow> http_request \<Rightarrow> string \<Rightarrow> ('s, 'f) api \<Rightarrow> http_response \<times> ('s, 'f) api" where
  "handleRegistryPipeline env r i a =
     (let reg = api_registry a in
      if hr_Method r = ''GET'' then
        (case reg_Pipeline reg i of
           None \<Rightarrow> (writeError 404 ''not_found'' (''unknown pipeline '' @ i), a)
         | Some p \<Rightarrow> (writeJSON 200 (RObj [(''pipeline'', enc_Pipeline p)]), a))
      else if hr_Method r = ''POST'' \<or> hr_Method r = ''PUT'' then
        (if hr_Method r = ''POST'' \<and> reg_Pipeline reg i \<noteq> None
         then (writeError 409 ''conflict'' (''pipeline '' @ i @ '' already exists''), a)
         else if hr_Method r = ''PUT'' \<and> reg_Pipeline reg i = None
         then (writeError 404 ''not_found'' (''unknown pipeline '' @ i), a)
         else case decodePipelineWrite (pv_text (ae_pool env)) (hr_Body r) of
           Inl msg \<Rightarrow> (writeError 400 ''bad_request'' msg, a)
         | Inr p \<Rightarrow>
             if PipelineID p \<noteq> i then (writeError 400 ''bad_request'' (''pipeline_id must match path id '' @ i), a)
             else mutate env (\<lambda>reg. WritePipeline (ae_fs env) reg p) a)
      else (methodNotAllowed ''GET, POST, PUT'', a))"

definition handleRegistry ::
  "('s, 'f) api_env \<Rightarrow> http_request \<Rightarrow> ('s, 'f) api \<Rightarrow> http_response \<times> ('s, 'f) api" where
  "handleRegistry env r a =
     (let rest = TrimPrefix (hr_Path r) ''/v1/registry/'' in
      case splitTwo rest of
        None \<Rightarrow> (handleRegistryCollection r rest a, a)
      | Some (kind, i) \<Rightarrow>
          if i = [] then (unknown_route, a)
          else if kind = ''agents'' then handleRegistryAgent env r i a
          else if kind = ''pipelines'' then handleRegistryPipeline env r i a
          else (unknown_route, a))"

section \<open>Routes\<close>

datatype route = Healthz | Readyz | Metricz | Agents | Pipelines | Sessions | Registries

text \<open>
  The patterns of the mux: the names of the path, and whether the pattern ends in a slash and
  matches everything below.  Names are compared after decoding, one by one.
\<close>

definition routes :: "((string list \<times> bool) \<times> route) list" where
  "routes =
     [(([''healthz''], False), Healthz), (([''readyz''], False), Readyz), (([''metrics''], False), Metricz),
      (([''v1'', ''agents''], True), Agents), (([''v1'', ''pipelines''], True), Pipelines),
      (([''v1'', ''sessions''], True), Sessions), (([''v1'', ''registry''], True), Registries)]"

definition first_segment :: "string \<Rightarrow> string \<times> string" where
  "first_segment p =
     (if p = ''/'' then (''/'', [])
      else (unescape (takeWhile (\<lambda>c. c \<noteq> CHR ''/'') (tl p)), dropWhile (\<lambda>c. c \<noteq> CHR ''/'') (tl p)))"

fun match_path :: "string list \<Rightarrow> bool \<Rightarrow> string \<Rightarrow> bool" where
  "match_path [] subtree p \<longleftrightarrow> (p \<noteq> []) = subtree"
| "match_path (n # ns) subtree p \<longleftrightarrow> p \<noteq> [] \<and> fst (first_segment p) = n \<and> match_path ns subtree (snd (first_segment p))"

definition match_route :: "string \<Rightarrow> ((string list \<times> bool) \<times> route) option" where
  "match_route p = find (\<lambda>((ns, subtree), _). match_path ns subtree p) routes"

definition cleanPath :: "string \<Rightarrow> string" where
  "cleanPath p =
     (if p = [] then ''/''
      else let q = (if hd p = CHR ''/'' then p else CHR ''/'' # p); np = Clean q in
        if last q = CHR ''/'' \<and> np \<noteq> ''/'' then np @ ''/'' else np)"

text \<open>A path that is served with a slash behind it only.\<close>

definition needs_slash :: "string \<Rightarrow> bool" where
  "needs_slash p \<longleftrightarrow> match_route p = None \<and> p \<noteq> [] \<and> last p \<noteq> CHR ''/'' \<and>
     (case match_route (p @ ''/'') of
        None \<Rightarrow> False | Some ((ns, _), _) \<Rightarrow> Suc (length ns) = count_list (p @ ''/'') (CHR ''/''))"

definition redirect :: "string \<Rightarrow> http_response" where
  "redirect p = \<lparr>rp_Code = 301, rp_ContentType = ''text/html; charset=utf-8'', rp_Allow = None, rp_Location = Some p, rp_Body = []\<rparr>"

definition plain_error :: "nat \<Rightarrow> string \<Rightarrow> http_response" where
  "plain_error code msg = \<lparr>rp_Code = code, rp_ContentType = ''text/plain; charset=utf-8'', rp_Allow = None,
     rp_Location = None, rp_Body = msg @ [CHR 0x0A]\<rparr>"

definition serve_route ::
  "('s, 'f) api_env \<Rightarrow> entropy \<Rightarrow> route \<Rightarrow> http_request \<Rightarrow> ('s, 'f) api \<Rightarrow> http_response \<times> ('s, 'f) api" where
  "serve_route env d rt r a =
     (case rt of
        Healthz \<Rightarrow> (handleHealthz a, a) | Readyz \<Rightarrow> handleReadyz env a | Metricz \<Rightarrow> (handleMetrics a, a)
      | Agents \<Rightarrow> handleAgents env d r a | Pipelines \<Rightarrow> handlePipelines env d r a
      | Sessions \<Rightarrow> handleSessions env r a | Registries \<Rightarrow> handleRegistry env r a)"

definition serve_mux ::
  "('s, 'f) api_env \<Rightarrow> entropy \<Rightarrow> http_request \<Rightarrow> ('s, 'f) api \<Rightarrow> http_response \<times> ('s, 'f) api" where
  "serve_mux env d r a =
     (let esc = hr_EscapedPath r; path = (if hr_Method r = ''CONNECT'' then esc else cleanPath esc) in
      if esc = ''*'' then (plain_error 400 ''400 Bad Request'', a)
      else if needs_slash path then (redirect (cleanPath (hr_Path r) @ ''/''), a)
      else if path \<noteq> esc then (redirect path, a)
      else case match_route path of
        None \<Rightarrow> (plain_error 404 ''404 page not found'', a)
      | Some (_, rt) \<Rightarrow> serve_route env d rt r a)"

definition authenticate ::
  "('s, 'f) api_env \<Rightarrow> entropy \<Rightarrow> http_request \<Rightarrow> ('s, 'f) api \<Rightarrow> http_response \<times> ('s, 'f) api" where
  "authenticate env d r a =
     (if api_auth a = [] \<or> \<not> prefix ''/v1/'' (hr_Path r) then serve_mux env d r a
      else let token = bearerToken (hr_Authorization r) in
        if token = [] \<or> token \<noteq> api_auth a
        then (writeError 401 ''unauthorized'' ''missing or invalid bearer token'', a)
        else serve_mux env d r a)"

end
