(* ===== verification/WorkerSafety.thy ===== *)
theory WorkerSafety
  imports Worker
begin

text \<open>
  The invariant of the worker pool on any store that keeps its contract: no session is in
  two places (the queue, a worker, an unfinished submission, the orphans), and the status in
  the store fits the place.  From it follow the life cycle of a job and the bound of the
  queue.
\<close>

section \<open>Claims\<close>

text \<open>Every place of the pool that holds a session, with the status that it relies on.\<close>

fun wclaim :: "wstate \<Rightarrow> (string \<times> JobStatus option) list" where
  "wclaim (WTaken sid) = [(sid, None)]"
| "wclaim (WLoaded sid job) = [(sid, Some StatusPending)]"
| "wclaim (WRunning sid job) = [(sid, Some StatusRunning)]"
| "wclaim (WStoring sid steps result err) = [(sid, Some StatusRunning)]"
| "wclaim _ = []"

definition claims :: "'s pool \<Rightarrow> (string \<times> JobStatus option) multiset" where
  "claims p = mset (map (\<lambda>sid. (sid, None)) (p_sending p)) + mset (map (\<lambda>sid. (sid, None)) (p_queue p)) +
     mset (map (\<lambda>sid. (sid, Some StatusRunning)) (p_orphans p)) + mset (concat (map wclaim (p_workers p)))"

definition status_of :: "astore \<Rightarrow> string \<Rightarrow> JobStatus option" where
  "status_of a sid = map_option job_Status (job_of a sid)"

definition claim_ok :: "astore \<Rightarrow> string \<times> JobStatus option \<Rightarrow> bool" where
  "claim_ok a c \<longleftrightarrow> status_of a (fst c) \<noteq> None \<and> (snd c = None \<or> status_of a (fst c) = snd c)"

definition claims_ok :: "astore \<Rightarrow> (string \<times> JobStatus option) multiset \<Rightarrow> bool" where
  "claims_ok a M \<longleftrightarrow> (\<forall>x. count (image_mset fst M) x \<le> 1) \<and> (\<forall>c\<in>#M. claim_ok a c)"

lemma claims_ok_add:
  "claims_ok a (add_mset (sid, r) M) \<longleftrightarrow> claims_ok a M \<and> claim_ok a (sid, r) \<and> sid \<notin># image_mset fst M"
proof -
  let ?N = "image_mset fst M"
  have le: "count ?N x \<le> count (add_mset sid ?N) x" for x by simp
  have "(\<forall>x. count (add_mset sid ?N) x \<le> 1) \<longleftrightarrow> (\<forall>x. count ?N x \<le> 1) \<and> count ?N sid = 0"
  proof
    assume all: "\<forall>x. count (add_mset sid ?N) x \<le> 1"
    from all [rule_format, of sid] have "count ?N sid = 0" by simp
    with all le show "(\<forall>x. count ?N x \<le> 1) \<and> count ?N sid = 0" using order_trans by blast
  next
    assume "(\<forall>x. count ?N x \<le> 1) \<and> count ?N sid = 0"
    then show "\<forall>x. count (add_mset sid ?N) x \<le> 1" by simp
  qed
  then have "(\<forall>x. count (image_mset fst (add_mset (sid, r) M)) x \<le> 1) \<longleftrightarrow>
      (\<forall>x. count (image_mset fst M) x \<le> 1) \<and> sid \<notin># image_mset fst M"
    unfolding not_in_iff image_mset_add_mset fst_conv .
  then show ?thesis by (auto simp: claims_ok_def)
qed

lemma claims_frame:
  assumes "claims_ok a M" "\<And>x. x \<in># image_mset fst M \<Longrightarrow> status_of a' x = status_of a x"
  shows "claims_ok a' M"
  using assms by (auto simp: claims_ok_def claim_ok_def)

lemma claims_new:
  assumes "claims_ok a M" "status_of a sid = None"
  shows "sid \<notin># image_mset fst M"
  using assms by (force simp: claims_ok_def claim_ok_def)

text \<open>What the other workers claim does not depend on where this one is.\<close>

definition others :: "nat \<Rightarrow> 's pool \<Rightarrow> (string \<times> JobStatus option) multiset" where
  "others w p = mset (map (\<lambda>sid. (sid, None)) (p_sending p)) + mset (map (\<lambda>sid. (sid, None)) (p_queue p)) +
     mset (map (\<lambda>sid. (sid, Some StatusRunning)) (p_orphans p)) +
     mset (concat (map wclaim (take w (p_workers p) @ drop (Suc w) (p_workers p))))"

lemma claims_worker:
  assumes "w < length (p_workers p)"
  shows "claims p = others w p + mset (wclaim (p_workers p ! w))"
    and "claims (set_worker w x p) = others w p + mset (wclaim x)"
  using assms id_take_nth_drop [OF assms] upd_conv_take_nth_drop [OF assms, of x]
  by (simp_all add: claims_def others_def set_worker_def) (metis (no_types, lifting) add.commute
      concat.simps(2) concat_append list.simps(9) map_append mset_append union_assoc)+

lemma worker_at_inside: "worker_at p w \<noteq> WExited \<Longrightarrow> w < length (p_workers p) \<and> p_workers p ! w = worker_at p w"
  by (auto simp: worker_at_def split: if_splits)

lemma others_store [simp]: "others w (p\<lparr>p_store := s\<rparr>) = others w p"
  "others w (p\<lparr>p_metrics := m\<rparr>) = others w p"
  by (simp_all add: others_def)

definition claimed :: "'s pool \<Rightarrow> string set" where
  "claimed p = fst ` set_mset (claims p)"

definition wclaimed :: "wstate list \<Rightarrow> string set" where
  "wclaimed ws = fst ` (\<Union>x\<in>set ws. set (wclaim x))"

lemma claimed_eq: "claimed p = set (p_sending p) \<union> set (p_queue p) \<union> set (p_orphans p) \<union> wclaimed (p_workers p)"
  by (simp add: claimed_def claims_def wclaimed_def image_Un image_image)

lemma wclaimed_update: "wclaimed (ws[w := x]) \<subseteq> wclaimed ws \<union> fst ` set (wclaim x)"
  using set_update_subset_insert [of ws w x] unfolding wclaimed_def by blast

lemma worker_claimed: "fst ` set (wclaim (worker_at p w)) \<subseteq> claimed p"
proof (cases "worker_at p w = WExited")
  case False
  with worker_at_inside [OF False] have "worker_at p w \<in> set (p_workers p)" by (metis nth_mem)
  then show ?thesis unfolding claimed_eq wclaimed_def by blast
qed simp

lemma claimed_worker_event:
  assumes "fst ` set (wclaim y) \<subseteq> claimed p" "p_sending q = p_sending p" "set (p_queue q) \<subseteq> set (p_queue p)"
    "p_orphans q = p_orphans p" "p_workers q = p_workers p"
  shows "claimed (set_worker w y q) \<subseteq> claimed p"
  using wclaimed_update [of "p_workers p" w y] assms unfolding claimed_eq set_worker_def by auto

section \<open>The invariant\<close>

definition pool_inv :: "('s \<Rightarrow> bool) \<Rightarrow> ('s \<Rightarrow> astore) \<Rightarrow> 's pool_env \<Rightarrow> 's pool \<Rightarrow> bool" where
  "pool_inv sinv sabs env p \<longleftrightarrow> sinv (p_store p) \<and> length (p_queue p) \<le> pv_cap env \<and>
     claims_ok (sabs (p_store p)) (claims p)"

text \<open>The steps of the life cycle; only \<open>RequeueOrphans\<close> takes a job back.\<close>

definition job_step :: "event \<Rightarrow> Job option \<Rightarrow> Job option \<Rightarrow> bool" where
  "job_step e old new \<longleftrightarrow> new = old \<or> old = None \<and> (\<exists>job. e = Submit job) \<or>
     (\<exists>j j'. old = Some j \<and> new = Some j' \<and>
        j' = j\<lparr>job_Status := job_Status j', job_Result := job_Result j', job_Error := job_Error j'\<rparr> \<and>
        (job_Status j = StatusPending \<and> job_Status j' = StatusRunning \<or>
         job_Status j = StatusRunning \<and> job_Status j' \<in> {StatusCompleted, StatusFailed} \<or>
         job_Status j = StatusRunning \<and> job_Status j' = StatusPending \<and> (\<exists>b. e = Orphan b)))"

lemma job_step_refl [simp]: "job_step e old old"
  by (simp add: job_step_def)

lemma find_session:
  assumes "distinct (map SessionID (as_jobs a))" "j \<in> set (as_jobs a)"
  shows "job_of a (SessionID j) = Some j"
proof -
  have "distinct (map SessionID js) \<Longrightarrow> j \<in> set js \<Longrightarrow> find (\<lambda>k. SessionID k = SessionID j) js = Some j" for js
    by (induction js) force+
  with assms show ?thesis by (simp add: job_of_def)
qed

locale worker_pool = job_store "pv_ops env" inv abs canon full
  for env :: "'s pool_env" and inv :: "'s \<Rightarrow> bool" and abs :: "'s \<Rightarrow> astore"
    and canon :: "StepResult \<Rightarrow> StepResult" and full :: "'s \<Rightarrow> bool"
begin

abbreviation ok :: "'s pool \<Rightarrow> bool" where
  "ok \<equiv> pool_inv inv abs env"

abbreviation job_at :: "'s pool \<Rightarrow> string \<Rightarrow> Job option" where
  "job_at p sid \<equiv> job_of (abs (p_store p)) sid"

lemma set_effect:
  assumes "inv s" "st \<noteq> []" "op_SetJobStatus (pv_ops env) s sid st result err = (r, s')"
  shows "inv s'" "\<And>x. job_of (abs s') x = map_option (update_job sid st result err) (job_of (abs s) x)"
    "r = Inr () \<longleftrightarrow> job_of (abs s) sid \<noteq> None"
proof -
  note law = set_state [OF assms]
  show "inv s'" using law by simp
  show "r = Inr () \<longleftrightarrow> job_of (abs s) sid \<noteq> None" using law by (auto simp: ErrNotFound_def split: if_splits)
  show "job_of (abs s') x = map_option (update_job sid st result err) (job_of (abs s) x)" for x
  proof (cases "job_of (abs s) sid = None")
    case True
    then have "map_option (update_job sid st result err) (job_of (abs s) x) = job_of (abs s) x"
    proof (cases "job_of (abs s) x")
      case (Some j)
      with True job_of_Some [OF Some] have "SessionID j \<noteq> sid" by auto
      with Some show ?thesis by (simp add: update_job_def)
    qed simp
    with True law show ?thesis by simp
  next
    case False
    with law show ?thesis by (simp add: job_of_set_status)
  qed
qed

lemma set_status_of:
  assumes "inv s" "st \<noteq> []" "op_SetJobStatus (pv_ops env) s sid st result err = (r, s')"
  shows "status_of (abs s') x = (if x = sid \<and> status_of (abs s) sid \<noteq> None then Some st else status_of (abs s) x)"
proof (cases "job_of (abs s) x")
  case None
  then show ?thesis using set_effect(2) [OF assms, of x] by (auto simp: status_of_def)
next
  case (Some j)
  with job_of_Some [OF Some] set_effect(2) [OF assms, of x] show ?thesis
    by (auto simp: status_of_def update_job_def)
qed

text \<open>An event of a worker that reads or changes the job it holds.\<close>

lemma worker_event_ok:
  assumes ok: "ok p" and w: "worker_at p w \<noteq> WExited" and s: "inv s"
    and frame: "\<And>x. x \<notin> fst ` set (wclaim (worker_at p w)) \<Longrightarrow> status_of (abs s) x = status_of (abs (p_store p)) x"
    and claim: "\<forall>c\<in>set (wclaim x). fst c \<in> fst ` set (wclaim (worker_at p w)) \<and> claim_ok (abs s) c"
    and p': "p' = set_worker w x (p\<lparr>p_metrics := m, p_store := s\<rparr>)"
  shows "ok p'"
proof -
  have at: "w < length (p_workers p)" "p_workers p ! w = worker_at p w"
    using worker_at_inside [OF w] by auto
  have old: "claims p = others w p + mset (wclaim (worker_at p w))"
    using claims_worker(1) [OF at(1)] at(2) by simp
  have new: "claims p' = others w p + mset (wclaim x)"
    using claims_worker(2) [of w "p\<lparr>p_metrics := m, p_store := s\<rparr>" x] at(1) by (simp add: p')
  have oks: "claims_ok (abs (p_store p)) (claims p)" using ok by (simp add: pool_inv_def)
  have rest: "claims_ok (abs (p_store p)) (others w p)"
    and sep: "fst ` set (wclaim (worker_at p w)) \<inter> fst ` set_mset (others w p) = {}"
    using oks unfolding old by (cases "worker_at p w"; auto simp: claims_ok_add)+
  have "claims_ok (abs s) (others w p)"
    by (rule claims_frame [OF rest]) (use frame sep in auto)
  then have "claims_ok (abs s) (claims p')"
    unfolding new using claim sep by (cases x) (auto simp: claims_ok_add)
  with ok s show ?thesis by (simp add: pool_inv_def p' set_worker_def)
qed

lemma job_step_set:
  assumes "inv s" "st \<noteq> []" "op_SetJobStatus (pv_ops env) s sid st result err = (r, s')"
    and "status_of (abs s) sid = Some old"
    and "old = StatusPending \<and> st = StatusRunning \<or> old = StatusRunning \<and> st \<in> {StatusCompleted, StatusFailed} \<or>
         old = StatusRunning \<and> st = StatusPending \<and> (\<exists>b. e = Orphan b)"
  shows "job_step e (job_of (abs s) x) (job_of (abs s') x)"
proof (cases "job_of (abs s) x")
  case None
  with set_effect(2) [OF assms(1-3), of x] show ?thesis by simp
next
  case (Some j)
  then have j: "SessionID j = x" using job_of_Some by blast
  from Some set_effect(2) [OF assms(1-3), of x]
  have "job_of (abs s') x = Some (update_job sid st result err j)" by simp
  moreover have "job_Status j = old" if "x = sid" using that Some assms(4) by (simp add: status_of_def)
  ultimately show ?thesis
    using Some j assms(5) unfolding job_step_def update_job_def by (cases "x = sid") auto
qed

lemma worker_claim:
  assumes "ok p" "c \<in> set (wclaim (worker_at p w))"
  shows "claim_ok (abs (p_store p)) c"
proof -
  have "worker_at p w \<noteq> WExited" using assms(2) by auto
  from worker_at_inside [OF this] assms show ?thesis
    by (auto simp: pool_inv_def claims_worker(1) claims_ok_def)
qed

lemma load_ok:
  assumes "ok p" "worker_at p w = WTaken sid"
  shows "ok (run_load env w sid p)" "job_of (abs (p_store (run_load env w sid p))) = job_of (abs (p_store p))"
proof -
  obtain r s where r: "op_GetJob (pv_ops env) (p_store p) sid = (r, s)" by fastforce
  have "inv (p_store p)" using assms(1) by (simp add: pool_inv_def)
  note law = get [OF this r]
  let ?x = "case r of Inl _ \<Rightarrow> WIdle | Inr job \<Rightarrow> if job_Status job \<noteq> StatusPending then WIdle else WLoaded sid job"
  have eq: "run_load env w sid p = set_worker w ?x (p\<lparr>p_store := s\<rparr>)"
    using r by (simp add: run_load_def split: sum.split)
  then show "job_of (abs (p_store (run_load env w sid p))) = job_of (abs (p_store p))"
    using law by (simp add: set_worker_def)
  show "ok (run_load env w sid p)"
  proof (rule worker_event_ok [OF assms(1)])
    show "run_load env w sid p = set_worker w ?x (p\<lparr>p_metrics := p_metrics p, p_store := s\<rparr>)" using eq by simp
    show "\<forall>c\<in>set (wclaim ?x). fst c \<in> fst ` set (wclaim (worker_at p w)) \<and> claim_ok (abs s) c"
      using law assms(2) by (auto simp: claim_ok_def status_of_def split: sum.splits option.splits if_splits)
  qed (use law assms(2) in auto)
qed

lemma mark_ok:
  assumes "ok p" "worker_at p w = WLoaded sid j"
  shows "ok (run_mark env w sid j p)"
    "job_step e (job_at p x) (job_at (run_mark env w sid j p) x)"
proof -
  obtain r s where r: "op_SetJobStatus (pv_ops env) (p_store p) sid StatusRunning [] [] = (r, s)" by fastforce
  have i: "inv (p_store p)" using assms(1) by (simp add: pool_inv_def)
  have ne: "StatusRunning \<noteq> []" by (simp add: StatusRunning_def)
  note eff = set_effect [OF i ne r] and st = set_status_of [OF i ne r]
  have pend: "status_of (abs (p_store p)) sid = Some StatusPending"
    using worker_claim [OF assms(1), of _ w] assms(2) by (auto simp: claim_ok_def)
  then have "r = Inr ()" using eff(3) by (auto simp: status_of_def)
  with r have eq: "run_mark env w sid j p = set_worker w (WRunning sid j) (p\<lparr>p_store := s\<rparr>)"
    by (simp add: run_mark_def)
  then show "job_step e (job_at p x) (job_at (run_mark env w sid j p) x)"
    using job_step_set [OF i ne r pend, of e x] by (simp add: set_worker_def)
  show "ok (run_mark env w sid j p)"
  proof (rule worker_event_ok [OF assms(1)])
    show "run_mark env w sid j p = set_worker w (WRunning sid j) (p\<lparr>p_metrics := p_metrics p, p_store := s\<rparr>)"
      using eq by simp
  qed (use eff st pend assms(2) in \<open>auto simp: claim_ok_def\<close>)
qed

lemma execute_ok:
  assumes "ok p" "worker_at p w = WRunning sid j"
  shows "ok (run_execute env w sid j eng p)" "p_store (run_execute env w sid j eng p) = p_store p"
proof -
  obtain steps result err where x: "execute (pv_text env) eng j = (steps, result, err)" by (cases "execute (pv_text env) eng j")
  then have eq: "run_execute env w sid j eng p = set_worker w (WStoring sid steps result err) p"
    by (simp add: run_execute_def)
  then show "p_store (run_execute env w sid j eng p) = p_store p" by (simp add: set_worker_def)
  show "ok (run_execute env w sid j eng p)"
  proof (rule worker_event_ok [OF assms(1)])
    show "run_execute env w sid j eng p = set_worker w (WStoring sid steps result err)
        (p\<lparr>p_metrics := p_metrics p, p_store := p_store p\<rparr>)" using eq by simp
  qed (use assms worker_claim [OF assms(1), of _ w] in \<open>auto simp: pool_inv_def\<close>)
qed

lemma record_ok:
  assumes "ok p" "worker_at p w = WStoring sid (sr # steps) result err"
  shows "ok (run_record env w sid sr steps result err p)"
    "job_of (abs (p_store (run_record env w sid sr steps result err p))) = job_of (abs (p_store p))"
proof -
  obtain r s where r: "op_AppendStepResult (pv_ops env) (p_store p) sr = (r, s)" by fastforce
  have "inv (p_store p)" using assms(1) by (simp add: pool_inv_def)
  note law = append [OF this r]
  then have same: "job_of (abs s) = job_of (abs (p_store p))" by simp
  have eq: "run_record env w sid sr steps result err p = set_worker w (WStoring sid steps result err) (p\<lparr>p_store := s\<rparr>)"
    using r by (simp add: run_record_def)
  then show "job_of (abs (p_store (run_record env w sid sr steps result err p))) = job_of (abs (p_store p))"
    using same by (simp add: set_worker_def)
  show "ok (run_record env w sid sr steps result err p)"
  proof (rule worker_event_ok [OF assms(1)])
    show "run_record env w sid sr steps result err p =
        set_worker w (WStoring sid steps result err) (p\<lparr>p_metrics := p_metrics p, p_store := s\<rparr>)" using eq by simp
  qed (use law same assms(2) worker_claim [OF assms(1), of _ w] in \<open>auto simp: status_of_def claim_ok_def\<close>)
qed

lemma finish_ok:
  assumes "ok p" "worker_at p w = WStoring sid [] result err"
  shows "ok (run_finish env w sid result err p)"
    "job_step e (job_at p x) (job_at (run_finish env w sid result err p) x)"
    "\<exists>j. job_at p sid = Some j \<and> job_at (run_finish env w sid result err p) sid =
       Some (j\<lparr>job_Status := if err \<noteq> [] then StatusFailed else StatusCompleted,
               job_Result := result, job_Error := err\<rparr>)"
proof -
  let ?st = "if err \<noteq> [] then StatusFailed else StatusCompleted"
  obtain r s where r: "op_SetJobStatus (pv_ops env) (p_store p) sid ?st result (if err \<noteq> [] then err else []) = (r, s)"
    by fastforce
  have i: "inv (p_store p)" using assms(1) by (simp add: pool_inv_def)
  have ne: "?st \<noteq> []" by (simp add: StatusFailed_def StatusCompleted_def)
  note eff = set_effect [OF i ne r] and st = set_status_of [OF i ne r]
  have run: "status_of (abs (p_store p)) sid = Some StatusRunning"
    using worker_claim [OF assms(1), of _ w] assms(2) by (auto simp: claim_ok_def)
  then obtain j where j: "job_at p sid = Some j" by (auto simp: status_of_def)
  obtain m where eq: "run_finish env w sid result err p = set_worker w WIdle (p\<lparr>p_metrics := m, p_store := s\<rparr>)"
    using r by (simp add: run_finish_def Let_def)
  then have store: "p_store (run_finish env w sid result err p) = s" by (simp add: set_worker_def)
  show "job_step e (job_at p x) (job_at (run_finish env w sid result err p) x)"
    unfolding store by (rule job_step_set [OF i ne r run]) auto
  show "ok (run_finish env w sid result err p)"
    by (rule worker_event_ok [OF assms(1) _ eff(1) _ _ eq]) (use st assms(2) in auto)
  show "\<exists>j. job_at p sid = Some j \<and> job_at (run_finish env w sid result err p) sid =
       Some (j\<lparr>job_Status := ?st, job_Result := result, job_Error := err\<rparr>)"
    unfolding store using j job_of_Some [OF j] eff(2) [of sid]
    by (auto simp: update_job_def split: if_splits)
qed

text \<open>Events that move a session between places without a store operation.\<close>

lemma take_ok:
  assumes "ok p" "worker_at p w = WIdle" "p_queue p = sid # q"
  shows "ok (set_worker w (WTaken sid) (p\<lparr>p_queue := q\<rparr>))"
proof -
  have w: "w < length (p_workers p)" "p_workers p ! w = WIdle"
    using worker_at_inside [of p w] assms(2) by auto
  have "others w p = add_mset (sid, None) (others w (p\<lparr>p_queue := q\<rparr>))"
    using assms(3) by (simp add: others_def)
  with claims_worker(1) [OF w(1)] w claims_worker(2) [of w "p\<lparr>p_queue := q\<rparr>" "WTaken sid"]
  have "claims (set_worker w (WTaken sid) (p\<lparr>p_queue := q\<rparr>)) = claims p" by simp
  with assms show ?thesis by (simp add: pool_inv_def set_worker_def)
qed

lemma quit_ok:
  assumes "ok p" "worker_at p w = WIdle"
  shows "ok (set_worker w WExited p)"
proof -
  have w: "w < length (p_workers p)" "p_workers p ! w = WIdle"
    using worker_at_inside [of p w] assms(2) by auto
  then have "claims (set_worker w WExited p) = claims p" by (simp add: claims_worker)
  with assms show ?thesis by (simp add: pool_inv_def set_worker_def)
qed

lemma mset_remove_nth:
  assumes "i < length xs"
  shows "mset (map f xs) = add_mset (f (xs ! i)) (mset (map f (take i xs @ drop (Suc i) xs)))"
proof -
  have "mset (map f xs) = mset (map f (take i xs @ xs ! i # drop (Suc i) xs))"
    using id_take_nth_drop [OF assms] by simp
  then show ?thesis by simp
qed

lemma send_ok:
  assumes "ok p" "i < length (p_sending p)"
  shows "ok (snd (send_queue env i p))" "p_store (snd (send_queue env i p)) = p_store p"
proof -
  let ?rest = "take i (p_sending p) @ drop (Suc i) (p_sending p)"
  have m: "mset (map (\<lambda>sid. (sid, None :: JobStatus option)) (p_sending p)) =
      add_mset (p_sending p ! i, None) (mset (map (\<lambda>sid. (sid, None)) ?rest))"
    by (rule mset_remove_nth [OF assms(2)])
  show "p_store (snd (send_queue env i p)) = p_store p" by (simp add: send_queue_def Let_def)
  have c: "claims p = add_mset (p_sending p ! i, None) (claims (p\<lparr>p_sending := ?rest\<rparr>))"
    unfolding claims_def m by simp
  have "claims_ok (abs (p_store p)) (claims (p\<lparr>p_sending := ?rest\<rparr>))"
    using assms(1) unfolding pool_inv_def c claims_ok_add by simp
  moreover have "claims (p\<lparr>p_sending := ?rest, p_queue := p_queue p @ [p_sending p ! i]\<rparr>) = claims p"
    unfolding c by (simp add: claims_def)
  ultimately show "ok (snd (send_queue env i p))"
    using assms(1) by (simp add: send_queue_def Let_def pool_inv_def)
qed

lemma submit_ok:
  assumes "ok p"
  shows "ok (snd (submit env j p))" "job_step (Submit j) (job_at p x) (job_at (snd (submit env j p)) x)"
proof -
  obtain r s where r: "op_CreateJob (pv_ops env) (p_store p) (with_status j) = (r, s)" by fastforce
  have i: "inv (p_store p)" using assms by (simp add: pool_inv_def)
  note law = create [OF i r]
  have cl: "claims_ok (abs (p_store p)) (claims p)" using assms by (simp add: pool_inv_def)
  have "ok (snd (submit env j p)) \<and> job_step (Submit j) (job_at p x) (job_at (snd (submit env j p)) x)"
  proof (cases r)
    case (Inl e)
    with law have "abs s = abs (p_store p)" "inv s"
      by (auto simp: create_spec_def split: if_splits)
    with Inl r assms show ?thesis by (simp add: submit_def pool_inv_def claims_def)
  next
    case (Inr u)
    with law have new: "job_of (abs (p_store p)) (SessionID j) = None" "abs s = add_job (with_status j) (abs (p_store p))" "inv s"
      by (auto simp: create_spec_def split: if_splits)
    let ?p = "p\<lparr>p_store := s, p_metrics := metrics_Inc JobsSubmitted (p_metrics p),
      p_sending := p_sending p @ [SessionID j]\<rparr>"
    have p': "snd (submit env j p) = ?p" using r Inr by (simp add: submit_def)
    have jobs: "job_of (abs s) y = (if y = SessionID j then Some (with_status (with_status j)) else job_of (abs (p_store p)) y)" for y
      using new job_of_add_job [of "abs (p_store p)" "with_status j" y] by simp
    have none: "status_of (abs (p_store p)) (SessionID j) = None" using new by (simp add: status_of_def)
    have "claims_ok (abs s) (claims p)"
    proof (rule claims_frame [OF cl])
      fix y assume "y \<in># image_mset fst (claims p)"
      with claims_new [OF cl none] have "y \<noteq> SessionID j" by blast
      then show "status_of (abs s) y = status_of (abs (p_store p)) y" by (simp add: status_of_def jobs)
    qed
    moreover have "claims ?p = add_mset (SessionID j, None) (claims p)" by (simp add: claims_def)
    ultimately have "ok ?p"
      using claims_new [OF cl none] new(3) assms
      by (simp add: pool_inv_def claims_ok_add claim_ok_def status_of_def jobs)
    moreover have "job_step (Submit j) (job_at p x) (job_of (abs s) x)"
      using new(1) by (simp add: jobs job_step_def)
    ultimately show ?thesis unfolding p' by simp
  qed
  then show "ok (snd (submit env j p))" "job_step (Submit j) (job_at p x) (job_at (snd (submit env j p)) x)" by auto
qed

lemma list_orphans_ok:
  assumes "ok p" "p_queue p = []" "p_sending p = []" "p_orphans p = []"
    and idle: "\<forall>x\<in>set (p_workers p). x = WIdle \<or> x = WExited"
  shows "ok (list_orphans env p)" "job_of (abs (p_store (list_orphans env p))) = job_of (abs (p_store p))"
proof -
  obtain r s where r: "op_ListJobsByStatus (pv_ops env) (p_store p) StatusRunning = (r, s)" by fastforce
  have i: "inv (p_store p)" using assms(1) by (simp add: pool_inv_def)
  obtain js where js: "r = Inr js" "mset js = mset (jobs_in StatusRunning (abs (p_store p)))"
    and s: "inv s" "abs s = abs (p_store p)"
    using list_jobs [OF i r] by blast
  let ?p = "p\<lparr>p_store := s, p_orphans := map SessionID js\<rparr>"
  have p': "list_orphans env p = ?p" using r js by (simp add: list_orphans_def)
  then show "job_of (abs (p_store (list_orphans env p))) = job_of (abs (p_store p))" using s by simp
  have "concat (map wclaim (p_workers p)) = []" using idle by auto
  with assms have c: "claims ?p = image_mset (\<lambda>j. (SessionID j, Some StatusRunning)) (mset js)"
    by (simp add: claims_def image_mset.compositionality comp_def)
  have dist: "distinct (map SessionID (as_jobs (abs (p_store p))))"
    using distinct [OF i] by (simp add: distinct_jobs_def)
  then have "distinct (map SessionID (jobs_in StatusRunning (abs (p_store p))))"
    by (simp add: jobs_in_def distinct_map_filter)
  then have "distinct (map SessionID js)" using js(2) by (metis mset_eq_imp_distinct_iff mset_map)
  then have "\<forall>x. count (mset (map SessionID js)) x \<le> 1" by (metis distinct_count_atmost_1 le_numeral_extra(4) zero_le)
  moreover have "claim_ok (abs s) (SessionID j, Some StatusRunning)" if "j \<in> set js" for j
  proof -
    from that js(2) have "j \<in> set (jobs_in StatusRunning (abs (p_store p)))" by (metis mset_eq_setD)
    then have j: "j \<in> set (as_jobs (abs s))" "job_Status j = StatusRunning"
      using s(2) by (auto simp: jobs_in_def)
    with find_session [OF dist [folded s(2)] j(1)] show ?thesis by (simp add: claim_ok_def status_of_def)
  qed
  ultimately have "claims_ok (abs s) (claims ?p)"
    unfolding claims_ok_def c by (auto simp: image_mset.compositionality comp_def)
  with assms s show "ok (list_orphans env p)" unfolding p' by (simp add: pool_inv_def)
qed

lemma requeue_ok:
  assumes "ok p" "p_orphans p = sid # rest"
  shows "ok (requeue_orphan env b sid rest p)"
    "job_step (Orphan b') (job_at p x) (job_at (requeue_orphan env b sid rest p) x)"
proof -
  obtain r s where r: "op_SetJobStatus (pv_ops env) (p_store p) sid StatusPending [] [] = (r, s)" by fastforce
  have i: "inv (p_store p)" using assms(1) by (simp add: pool_inv_def)
  have ne: "StatusPending \<noteq> []" by (simp add: StatusPending_def)
  note eff = set_effect [OF i ne r] and st = set_status_of [OF i ne r]
  let ?p = "p\<lparr>p_orphans := rest\<rparr>"
  have c: "claims p = add_mset (sid, Some StatusRunning) (claims ?p)"
    using assms(2) by (simp add: claims_def)
  have old: "claims_ok (abs (p_store p)) (claims ?p)" "sid \<notin># image_mset fst (claims ?p)"
    and run: "status_of (abs (p_store p)) sid = Some StatusRunning"
    using assms(1) by (auto simp: pool_inv_def c claims_ok_add claim_ok_def)
  have new: "claims_ok (abs s) (claims ?p)"
    by (rule claims_frame [OF old(1)]) (use old(2) st in auto)
  have added: "claims_ok (abs s) (add_mset (sid, None) (claims ?p))"
    using new old(2) st [of sid] run by (simp add: claims_ok_add claim_ok_def)
  have "r = Inr ()" using eff(3) run by (auto simp: status_of_def)
  with r have eq: "requeue_orphan env b sid rest p = snd (Enqueue env b sid (p\<lparr>p_store := s, p_orphans := rest\<rparr>))"
    by (simp add: requeue_orphan_def)
  then have "p_store (requeue_orphan env b sid rest p) = s" by (simp add: Enqueue_def)
  then show "job_step (Orphan b') (job_at p x) (job_at (requeue_orphan env b sid rest p) x)"
    using job_step_set [OF i ne r run, of "Orphan b'" x] by simp
  have "claims (p\<lparr>p_store := s, p_orphans := rest\<rparr>) = claims ?p"
    "claims (p\<lparr>p_store := s, p_orphans := rest, p_queue := p_queue p @ [sid]\<rparr>) = add_mset (sid, None) (claims ?p)"
    by (simp_all add: claims_def)
  with new added eff(1) assms(1) show "ok (requeue_orphan env b sid rest p)"
    unfolding eq by (simp add: Enqueue_def pool_inv_def)
qed

text \<open>Every event keeps the invariant and moves every job along its life cycle.\<close>

lemma event_ok:
  assumes "ok p" "pool_event env e p = Some p'"
  shows "ok p' \<and> job_step e (job_at p x) (job_at p' x)"
proof (cases e)
  case (Submit j)
  with assms submit_ok [OF assms(1)] show ?thesis by auto
next
  case (Send i)
  with assms send_ok [OF assms(1), of i] show ?thesis by (auto split: if_splits)
next
  case Orphans
  with assms list_orphans_ok [OF assms(1)] show ?thesis by (auto split: if_splits)
next
  case (Orphan b)
  with assms requeue_ok [OF assms(1)] show ?thesis by (auto split: list.splits)
next
  case Close
  with assms show ?thesis by (auto simp: pool_inv_def claims_def)
next
  case (Take w)
  with assms take_ok [OF assms(1)] show ?thesis
    by (auto split: wstate.splits list.splits simp: set_worker_def)
next
  case (Quit w)
  with assms quit_ok [OF assms(1)] show ?thesis by (auto split: if_splits simp: set_worker_def)
next
  case (Load w)
  with assms load_ok [OF assms(1)] show ?thesis by (auto split: wstate.splits)
next
  case (MarkRunning w)
  with assms mark_ok [OF assms(1)] show ?thesis by (auto split: wstate.splits)
next
  case (Execute w eng)
  with assms execute_ok [OF assms(1)] show ?thesis by (auto split: wstate.splits)
next
  case (Record w)
  with assms record_ok [OF assms(1)] show ?thesis by (auto split: wstate.splits list.splits)
next
  case (Finish w)
  with assms finish_ok(1,2) [OF assms(1)] show ?thesis by (auto split: wstate.splits list.splits)
qed

end

sublocale worker_pool \<subseteq> wm: invariant_machine "pool_event env" "pool_inv inv abs env"
  using event_ok by unfold_locales blast

context worker_pool
begin

lemma start_ok: "inv s \<Longrightarrow> ok (NewPool s m n)"
proof -
  have "concat (map wclaim (replicate k WIdle)) = []" for k by (induction k) auto
  then show "inv s \<Longrightarrow> ok (NewPool s m n)"
    by (simp add: pool_inv_def NewPool_def claims_def claims_ok_def)
qed

lemma reachable_ok: "inv s \<Longrightarrow> reachable (pool_event env) (NewPool s m n) p \<Longrightarrow> ok p"
  by (rule wm.inv_reachable [OF _ start_ok])

text \<open>A terminal job stays as it is, in every interleaving.\<close>

lemma terminal_stays:
  assumes "reachable (pool_event env) p p'" "ok p" "job_at p sid = Some j"
    and "job_Status j \<noteq> StatusPending" "job_Status j \<noteq> StatusRunning"
  shows "job_at p' sid = Some j"
  using assms(1,2,3)
proof (induction rule: reachable.induct)
  case (event q e q')
  then have "ok q" using wm.inv_reachable by blast
  from event_ok [OF this event(2), of sid] event.IH [OF event.prems] assms(4,5) show ?case
    by (auto simp: job_step_def)
qed

text \<open>No session is held by two workers.\<close>

lemma one_worker:
  assumes "ok p" "i < length (p_workers p)" "k < length (p_workers p)" "i \<noteq> k"
    and "c \<in> set (wclaim (p_workers p ! i))" "d \<in> set (wclaim (p_workers p ! k))"
  shows "fst c \<noteq> fst d"
proof
  assume eq: "fst c = fst d"
  have "p_workers p ! k \<in> set (take i (p_workers p) @ drop (Suc i) (p_workers p))"
  proof (cases "k < i")
    case True
    with assms(3) have "p_workers p ! k = take i (p_workers p) ! k" "k < length (take i (p_workers p))"
      using assms(2) by auto
    then show ?thesis by (metis UnI1 nth_mem set_append)
  next
    case False
    with assms(3,4) have "p_workers p ! k = drop (Suc i) (p_workers p) ! (k - Suc i)" "k - Suc i < length (drop (Suc i) (p_workers p))"
      using assms(2) by auto
    then show ?thesis by (metis UnI2 nth_mem set_append)
  qed
  then have "d \<in># others i p" using assms(6) by (auto simp: others_def)
  moreover have "claims_ok (abs (p_store p)) (others i p + mset (wclaim (p_workers p ! i)))"
    using assms(1,2) by (simp add: pool_inv_def claims_worker(1))
  ultimately show False
    using assms(5) eq by (cases "p_workers p ! i") (force simp: claims_ok_add)+
qed

text \<open>
  A job that is nowhere in the pool and is not running stays as it is: \<open>RequeueOrphans\<close>
  lists running jobs only, and \<open>Submit\<close> refuses its id.
\<close>

lemma set_other_job:
  assumes "ok p" "op_SetJobStatus (pv_ops env) (p_store p) sid st result err = (r, s)" "st \<noteq> []" "x \<noteq> sid"
  shows "job_of (abs s) x = job_at p x"
proof -
  have i: "inv (p_store p)" using assms(1) by (simp add: pool_inv_def)
  have "update_job sid st result err j = j" if "job_at p x = Some j" for j
    using job_of_Some [OF that] assms(4) by (simp add: update_job_def)
  with set_effect(2) [OF i assms(3,2), of x] show ?thesis by (cases "job_at p x") auto
qed

lemma event_frame:
  assumes ok: "ok p" and e: "pool_event env e p = Some p'" and x: "x \<notin> claimed p" "job_at p x \<noteq> None"
  shows "job_at p' x = job_at p x \<and> (status_of (abs (p_store p)) x \<noteq> Some StatusRunning \<longrightarrow> x \<notin> claimed p')"
proof -
  have i: "inv (p_store p)" using ok by (simp add: pool_inv_def)
  have worker: ?thesis
    if "p' = set_worker w y (p\<lparr>p_metrics := m, p_store := s\<rparr>)"
      "fst ` set (wclaim y) \<subseteq> fst ` set (wclaim (worker_at p w))" "job_of (abs s) x = job_at p x" for w y m s
  proof -
    have "claimed p' \<subseteq> claimed p"
      unfolding that(1) by (rule claimed_worker_event) (use that(2) worker_claimed [of p w] in auto)
    with that x(1) show ?thesis by (auto simp: set_worker_def)
  qed
  have held: "x \<notin> fst ` set (wclaim (worker_at p w))" for w using worker_claimed [of p w] x(1) by blast
  show ?thesis
  proof (cases e)
    case (Submit j)
    obtain r s where r: "op_CreateJob (pv_ops env) (p_store p) (with_status j) = (r, s)" by fastforce
    have "r = Inr () \<longrightarrow> x \<noteq> SessionID j" "job_of (abs s) x = job_at p x"
      using create [OF i r] x(2)
      by (auto simp: create_spec_def job_of_add_job split: if_splits)
    with e Submit r x show ?thesis
      by (cases r) (auto simp: submit_def claimed_eq)
  next
    case (Send k)
    then have "claimed p' \<subseteq> claimed p"
      using e by (auto simp: send_queue_def Let_def claimed_eq split: if_splits dest: in_set_takeD in_set_dropD)
    with e Send x show ?thesis by (auto simp: send_queue_def Let_def split: if_splits)
  next
    case Orphans
    obtain r s where r: "op_ListJobsByStatus (pv_ops env) (p_store p) StatusRunning = (r, s)" by fastforce
    obtain js where js: "r = Inr js" "mset js = mset (jobs_in StatusRunning (abs (p_store p)))" "abs s = abs (p_store p)"
      using list_jobs [OF i r] by blast
    then have set: "set js = set (jobs_in StatusRunning (abs (p_store p)))" by (blast dest: mset_eq_setD)
    have no: "x \<notin> SessionID ` set js" if "status_of (abs (p_store p)) x \<noteq> Some StatusRunning"
    proof
      assume "x \<in> SessionID ` set js"
      then obtain j where js_j: "j \<in> set js" "x = SessionID j" by blast
      have j: "j \<in> set (as_jobs (abs (p_store p)))" "job_Status j = StatusRunning"
        using js_j(1) set by (auto simp: jobs_in_def)
      have "job_at p (SessionID j) = Some j"
        by (rule find_session [OF _ j(1)]) (use distinct [OF i] in \<open>simp add: distinct_jobs_def\<close>)
      with j(2) js_j(2) that show False by (simp add: status_of_def)
    qed
    have "p' = p\<lparr>p_store := s, p_orphans := map SessionID js\<rparr>"
      using e Orphans r js(1) by (simp add: list_orphans_def split: if_splits)
    with no js(3) x(1) show ?thesis by (simp add: claimed_eq)
  next
    case (Orphan b)
    then obtain sid rest where o: "p_orphans p = sid # rest" "p' = requeue_orphan env b sid rest p"
      using e by (auto split: list.splits)
    obtain r s where r: "op_SetJobStatus (pv_ops env) (p_store p) sid StatusPending [] [] = (r, s)" by fastforce
    have "x \<noteq> sid" using o(1) x(1) by (auto simp: claimed_eq)
    with set_other_job [OF ok r] have "job_of (abs s) x = job_at p x" by (simp add: StatusPending_def)
    with o r x show ?thesis
      by (cases r) (auto simp: requeue_orphan_def Enqueue_def claimed_eq)
  next
    case Close
    with e x show ?thesis by (auto simp: claimed_eq)
  next
    case (Take w)
    with e obtain sid q where t: "p_queue p = sid # q" "p' = set_worker w (WTaken sid) (p\<lparr>p_queue := q\<rparr>)"
      by (auto split: wstate.splits list.splits)
    moreover have "claimed p' \<subseteq> claimed p"
      unfolding t(2) by (rule claimed_worker_event) (use t(1) in \<open>auto simp: claimed_eq\<close>)
    ultimately show ?thesis using x(1) by (auto simp: set_worker_def)
  next
    case (Quit w)
    with e have "p' = set_worker w WExited (p\<lparr>p_metrics := p_metrics p, p_store := p_store p\<rparr>)"
      by (auto split: if_splits)
    then show ?thesis by (rule worker) auto
  next
    case (Load w)
    with e obtain sid where l: "worker_at p w = WTaken sid" "p' = run_load env w sid p"
      by (auto split: wstate.splits)
    obtain r s where r: "op_GetJob (pv_ops env) (p_store p) sid = (r, s)" by fastforce
    let ?y = "case r of Inl _ \<Rightarrow> WIdle | Inr job \<Rightarrow> if job_Status job \<noteq> StatusPending then WIdle else WLoaded sid job"
    have "p' = set_worker w ?y (p\<lparr>p_metrics := p_metrics p, p_store := s\<rparr>)"
      using l r by (simp add: run_load_def split: sum.split)
    then show ?thesis by (rule worker) (use get [OF i r] l(1) in \<open>auto split: sum.split\<close>)
  next
    case (MarkRunning w)
    with e obtain sid j where l: "worker_at p w = WLoaded sid j" "p' = run_mark env w sid j p"
      by (auto split: wstate.splits)
    obtain r s where r: "op_SetJobStatus (pv_ops env) (p_store p) sid StatusRunning [] [] = (r, s)" by fastforce
    have "p' = set_worker w (case r of Inl _ \<Rightarrow> WIdle | Inr _ \<Rightarrow> WRunning sid j) (p\<lparr>p_metrics := p_metrics p, p_store := s\<rparr>)"
      using l r by (simp add: run_mark_def split: sum.split)
    then show ?thesis
      by (rule worker) (use l(1) held [of w] set_other_job [OF ok r, of x] in \<open>auto simp: StatusRunning_def split: sum.split\<close>)
  next
    case (Execute w eng)
    with e obtain sid j where l: "worker_at p w = WRunning sid j" "p' = run_execute env w sid j eng p"
      by (auto split: wstate.splits)
    obtain steps result err where "execute (pv_text env) eng j = (steps, result, err)" by (cases "execute (pv_text env) eng j")
    with l have "p' = set_worker w (WStoring sid steps result err) (p\<lparr>p_metrics := p_metrics p, p_store := p_store p\<rparr>)"
      by (simp add: run_execute_def)
    then show ?thesis by (rule worker) (use l(1) in auto)
  next
    case (Record w)
    with e obtain sid sr steps result err where l: "worker_at p w = WStoring sid (sr # steps) result err"
      "p' = run_record env w sid sr steps result err p"
      by (auto split: wstate.splits list.splits)
    obtain r s where r: "op_AppendStepResult (pv_ops env) (p_store p) sr = (r, s)" by fastforce
    with l have "p' = set_worker w (WStoring sid steps result err) (p\<lparr>p_metrics := p_metrics p, p_store := s\<rparr>)"
      by (simp add: run_record_def)
    then show ?thesis by (rule worker) (use append [OF i r] l(1) in auto)
  next
    case (Finish w)
    with e obtain sid result err where l: "worker_at p w = WStoring sid [] result err"
      "p' = run_finish env w sid result err p"
      by (auto split: wstate.splits list.splits)
    let ?st = "if err \<noteq> [] then StatusFailed else StatusCompleted"
    obtain r s where r: "op_SetJobStatus (pv_ops env) (p_store p) sid ?st result (if err \<noteq> [] then err else []) = (r, s)"
      by fastforce
    have "x \<noteq> sid" using held [of w] l(1) by simp
    then have "job_of (abs s) x = job_at p x"
      using set_other_job [OF ok r] by (simp add: StatusFailed_def StatusCompleted_def)
    moreover obtain m where "p' = set_worker w WIdle (p\<lparr>p_metrics := m, p_store := s\<rparr>)"
      using l(2) r by (simp add: run_finish_def Let_def)
    ultimately show ?thesis using worker [of w WIdle s m] by simp
  qed
qed

text \<open>So a job that \<open>Submit\<close> could not queue is never run.\<close>

lemma unclaimed_stays:
  assumes "reachable (pool_event env) p p'" "ok p" "x \<notin> claimed p" "job_at p x = Some j"
    and "job_Status j \<noteq> StatusRunning"
  shows "x \<notin> claimed p' \<and> job_at p' x = Some j"
  using assms(1-4)
proof (induction rule: reachable.induct)
  case (event q e q')
  then have "ok q" "x \<notin> claimed q" "job_at q x = Some j" using wm.inv_reachable by blast+
  with event_frame [OF _ event(2), of x] assms(5) show ?case by (simp add: status_of_def)
qed simp

text \<open>A worker records the step results one by one.\<close>

lemma worker_at_set: "w < length (p_workers p) \<Longrightarrow> worker_at (set_worker w x p) w = x"
  by (simp add: worker_at_def set_worker_def)

lemma record_all:
  assumes "ok p" "worker_at p w = WStoring sid steps result err" "\<forall>sr\<in>set steps. sr_SessionID sr = sid"
  shows "\<exists>p'. run_events (pool_event env) (replicate (length steps) (Record w)) p = Some p' \<and> ok p' \<and>
    worker_at p' w = WStoring sid [] result err \<and> job_of (abs (p_store p')) = job_of (abs (p_store p)) \<and>
    as_steps (abs (p_store p')) sid = as_steps (abs (p_store p)) sid @ map canon steps"
  using assms
proof (induction steps arbitrary: p)
  case (Cons sr steps)
  let ?p = "run_record env w sid sr steps result err p"
  note rec = record_ok [OF Cons.prems(1,2)]
  have w: "w < length (p_workers p)" using worker_at_inside [of p w] Cons.prems(2) by auto
  obtain r s where r: "op_AppendStepResult (pv_ops env) (p_store p) sr = (r, s)" by fastforce
  have "inv (p_store p)" using Cons.prems(1) by (simp add: pool_inv_def)
  from append [OF this r] have s: "abs s = add_step (sr_SessionID sr) (canon sr) (abs (p_store p))" by simp
  have eq: "?p = set_worker w (WStoring sid steps result err) (p\<lparr>p_store := s\<rparr>)"
    using r by (simp add: run_record_def)
  then have at: "worker_at ?p w = WStoring sid steps result err" using w by (simp add: worker_at_set)
  have "as_steps (abs (p_store ?p)) sid = as_steps (abs (p_store p)) sid @ [canon sr]"
    using eq s Cons.prems(3) by (simp add: set_worker_def add_step_def)
  with Cons.IH [OF rec(1) at] Cons.prems rec(2) show ?case by auto
qed simp

lemma run_job:
  assumes "ok p" "worker_at p w = WRunning sid j" "execute (pv_text env) eng j = (steps, result, err)"
    and "\<forall>sr\<in>set steps. sr_SessionID sr = sid"
  shows "\<exists>p' k. run_events (pool_event env) (Execute w eng # replicate (length steps) (Record w) @ [Finish w]) p = Some p' \<and>
    job_at p sid = Some k \<and>
    job_at p' sid = Some (k\<lparr>job_Status := if err \<noteq> [] then StatusFailed else StatusCompleted,
                            job_Result := result, job_Error := err\<rparr>) \<and>
    as_steps (abs (p_store p')) sid = as_steps (abs (p_store p)) sid @ map canon steps"
proof -
  let ?p = "run_execute env w sid j eng p"
  have w: "w < length (p_workers p)" using worker_at_inside [of p w] assms(2) by auto
  have eq: "?p = set_worker w (WStoring sid steps result err) p" using assms(3) by (simp add: run_execute_def)
  then have at: "worker_at ?p w = WStoring sid steps result err" using w by (simp add: worker_at_set)
  note exec = execute_ok [OF assms(1,2), of eng]
  obtain q where q: "run_events (pool_event env) (replicate (length steps) (Record w)) ?p = Some q" "ok q"
    "worker_at q w = WStoring sid [] result err" "job_of (abs (p_store q)) = job_of (abs (p_store p))"
    "as_steps (abs (p_store q)) sid = as_steps (abs (p_store p)) sid @ map canon steps"
    using record_all [OF exec(1) at assms(4)] exec(2) by auto
  let ?st = "if err \<noteq> [] then StatusFailed else StatusCompleted"
  obtain r s where r: "op_SetJobStatus (pv_ops env) (p_store q) sid ?st result (if err \<noteq> [] then err else []) = (r, s)"
    by fastforce
  have "inv (p_store q)" using q(2) by (simp add: pool_inv_def)
  moreover have "?st \<noteq> []" by (simp add: StatusFailed_def StatusCompleted_def)
  ultimately have steps: "as_steps (abs s) = as_steps (abs (p_store q))"
    using set_state [OF _ _ r] by (auto simp: set_status_def split: if_splits)
  have "as_steps (abs (p_store (run_finish env w sid result err q))) = as_steps (abs (p_store q))"
    using steps r by (simp add: run_finish_def Let_def set_worker_def)
  moreover have "run_events (pool_event env) (Execute w eng # replicate (length steps) (Record w) @ [Finish w]) p
      = Some (run_finish env w sid result err q)"
    using q(1,3) assms(2) by (simp add: run_events_append)
  ultimately show ?thesis using finish_ok(3) [OF q(2,3)] q(4,5) by auto
qed

end

end
