(* ===== verification/Sqlite.thy ===== *)
theory Sqlite
  imports StoreSpec "HOL-Library.Product_Lexorder"
begin

text \<open>
  \<open>internal/store/sqlite.go\<close>: the SQLite store.  The database engine is a parameter: a
  function from a database and one of the statements of the file to a reply and the new
  database.  What the code relies on is the locale \<open>sql_engine\<close>: a statement has the
  effect that SQL gives it on the tables of the schema, or it fails without an effect.
  Timestamps (a text of fixed width in the schema) are numbers of milliseconds.
\<close>

section \<open>The schema and the statements\<close>

record job_row =
  row_job :: Job
  row_created :: nat
  row_updated :: nat

record tables =
  tb_jobs :: "job_row list"
  tb_steps :: "(nat \<times> StepResult) list"
  tb_next :: nat

datatype sql_stmt =
    InsertJob Job
  | SelectJob string
  | UpdateJob JobStatus string string string
  | SelectJobsByStatus JobStatus
  | InsertStep StepResult
  | SelectSteps string

datatype sql_reply =
    Affected nat
  | JobRows "Job list"
  | StepRows "StepResult list"

definition ErrUnique :: goerr where
  "ErrUnique = Errorf ''UNIQUE constraint failed: jobs.session_id'' []"

definition row_key :: "job_row \<Rightarrow> nat \<times> string" where
  "row_key r = (row_created r, SessionID (row_job r))"

text \<open>The meaning of the statements; \<open>now\<close> is the time of their execution.\<close>

fun table_sql :: "nat \<Rightarrow> sql_stmt \<Rightarrow> tables \<Rightarrow> sql_reply res \<times> tables" where
  "table_sql now (InsertJob job) db =
     (if SessionID job \<in> set (map (SessionID \<circ> row_job) (tb_jobs db)) then (Inl ErrUnique, db)
      else (Inr (Affected 1), db\<lparr>tb_jobs := tb_jobs db @
              [\<lparr>row_job = job, row_created = now, row_updated = now\<rparr>]\<rparr>))"
| "table_sql now (SelectJob sid) db =
     (Inr (JobRows (filter (\<lambda>j. SessionID j = sid) (map row_job (tb_jobs db)))), db)"
| "table_sql now (UpdateJob status result err sid) db =
     (Inr (Affected (length (filter (\<lambda>r. SessionID (row_job r) = sid) (tb_jobs db)))),
      db\<lparr>tb_jobs := map (\<lambda>r. if SessionID (row_job r) = sid
            then r\<lparr>row_job := update_job sid status result err (row_job r), row_updated := now\<rparr>
            else r) (tb_jobs db)\<rparr>)"
| "table_sql now (SelectJobsByStatus status) db =
     (Inr (JobRows (map row_job
        (sort_key row_key (filter (\<lambda>r. job_Status (row_job r) = status) (tb_jobs db))))), db)"
| "table_sql now (InsertStep sr) db =
     (Inr (Affected 1), db\<lparr>tb_steps := tb_steps db @ [(tb_next db, sr)], tb_next := tb_next db + 1\<rparr>)"
| "table_sql now (SelectSteps sid) db =
     (Inr (StepRows (map snd (sort_key fst
        (filter (\<lambda>(i, sr). sr_SessionID sr = sid) (tb_steps db))))), db)"

section \<open>The operations\<close>

type_synonym 'db engine = "'db \<Rightarrow> sql_stmt \<Rightarrow> sql_reply res \<times> 'db"

definition sqlite_CreateJob :: "'db engine \<Rightarrow> 'db \<Rightarrow> Job \<Rightarrow> unit res \<times> 'db" where
  "sqlite_CreateJob sql db job =
     (if TrimSpace (SessionID job) = [] then (Inl (Errorf ''store: session id is required'' []), db)
      else case sql db (InsertJob (with_status job)) of
             (Inl err, db') \<Rightarrow> (Inl (ErrWrap ''store: create job: %w'' [] err), db')
           | (Inr _, db') \<Rightarrow> (Inr (), db'))"

text \<open>\<open>scanJob\<close> on the rows of a query for one job; a failed query is seen by \<open>Scan\<close>.\<close>

fun scanJob :: "sql_reply res \<Rightarrow> Job res" where
  "scanJob (Inl err) = Inl (ErrWrap ''store: scan job: %w'' [] err)"
| "scanJob (Inr (JobRows (job # rows))) = Inr job"
| "scanJob (Inr _) = Inl ErrNotFound"

definition sqlite_GetJob :: "'db engine \<Rightarrow> 'db \<Rightarrow> string \<Rightarrow> Job res \<times> 'db" where
  "sqlite_GetJob sql db sid = (case sql db (SelectJob sid) of (row, db') \<Rightarrow> (scanJob row, db'))"

definition sqlite_SetJobStatus ::
  "'db engine \<Rightarrow> 'db \<Rightarrow> string \<Rightarrow> JobStatus \<Rightarrow> string \<Rightarrow> string \<Rightarrow> unit res \<times> 'db" where
  "sqlite_SetJobStatus sql db sid status result errMsg =
     (case sql db (UpdateJob status result errMsg sid) of
        (Inl err, db') \<Rightarrow> (Inl (ErrWrap ''store: set status: %w'' [] err), db')
      | (Inr (Affected n), db') \<Rightarrow> (if n = 0 then Inl ErrNotFound else Inr (), db')
      | (Inr _, db') \<Rightarrow> (Inl ErrNotFound, db'))"

definition sqlite_ListJobsByStatus :: "'db engine \<Rightarrow> 'db \<Rightarrow> JobStatus \<Rightarrow> Job list res \<times> 'db" where
  "sqlite_ListJobsByStatus sql db status =
     (case sql db (SelectJobsByStatus status) of
        (Inl err, db') \<Rightarrow> (Inl (ErrWrap ''store: list jobs: %w'' [] err), db')
      | (Inr (JobRows jobs), db') \<Rightarrow> (Inr jobs, db')
      | (Inr _, db') \<Rightarrow> (Inr [], db'))"

definition sqlite_AppendStepResult :: "'db engine \<Rightarrow> 'db \<Rightarrow> StepResult \<Rightarrow> unit res \<times> 'db" where
  "sqlite_AppendStepResult sql db sr =
     (case sql db (InsertStep sr) of
        (Inl err, db') \<Rightarrow> (Inl (ErrWrap ''store: append step result: %w'' [] err), db')
      | (Inr _, db') \<Rightarrow> (Inr (), db'))"

definition sqlite_ListStepResults :: "'db engine \<Rightarrow> 'db \<Rightarrow> string \<Rightarrow> StepResult list res \<times> 'db" where
  "sqlite_ListStepResults sql db sid =
     (case sql db (SelectSteps sid) of
        (Inl err, db') \<Rightarrow> (Inl (ErrWrap ''store: list step results: %w'' [] err), db')
      | (Inr (StepRows rows), db') \<Rightarrow> (Inr rows, db')
      | (Inr _, db') \<Rightarrow> (Inr [], db'))"

text \<open>\<open>ping\<close> is the driver's \<open>PingContext\<close>, \<open>None\<close> for success.\<close>

definition sqlite_Ping :: "('db \<Rightarrow> goerr option) \<Rightarrow> 'db \<Rightarrow> unit res \<times> 'db" where
  "sqlite_Ping ping db =
     (case ping db of None \<Rightarrow> Inr () | Some err \<Rightarrow> Inl (ErrWrap ''store: ping: %w'' [] err), db)"

definition sqlite_ops :: "'db engine \<Rightarrow> ('db \<Rightarrow> goerr option) \<Rightarrow> 'db store_ops" where
  "sqlite_ops sql ping =
     \<lparr>op_CreateJob = sqlite_CreateJob sql, op_GetJob = sqlite_GetJob sql,
      op_SetJobStatus = sqlite_SetJobStatus sql, op_ListJobsByStatus = sqlite_ListJobsByStatus sql,
      op_AppendStepResult = sqlite_AppendStepResult sql,
      op_ListStepResults = sqlite_ListStepResults sql, op_Ping = sqlite_Ping ping\<rparr>"

lemmas sqlite_defs = sqlite_CreateJob_def sqlite_GetJob_def sqlite_SetJobStatus_def
  sqlite_ListJobsByStatus_def sqlite_AppendStepResult_def sqlite_ListStepResults_def

section \<open>What the engine promises\<close>

definition tables_ok :: "tables \<Rightarrow> bool" where
  "tables_ok t \<longleftrightarrow> distinct (map (SessionID \<circ> row_job) (tb_jobs t)) \<and>
     sorted (map fst (tb_steps t)) \<and> (\<forall>(i, sr)\<in>set (tb_steps t). i < tb_next t)"

definition tables_abs :: "tables \<Rightarrow> astore" where
  "tables_abs t = \<lparr>as_jobs = map row_job (tb_jobs t),
     as_steps = (\<lambda>sid. map snd (filter (\<lambda>(i, sr). sr_SessionID sr = sid) (tb_steps t)))\<rparr>"

lemma table_sql_ok:
  "tables_ok t \<Longrightarrow> table_sql now st t = (r, t') \<Longrightarrow> tables_ok t'"
proof (cases st)
  case (InsertJob job)
  assume "tables_ok t" "table_sql now st t = (r, t')"
  with InsertJob show ?thesis by (fastforce simp: tables_ok_def split: if_splits)
next
  case (UpdateJob status result err sid)
  assume t: "tables_ok t" "table_sql now st t = (r, t')"
  have "map (SessionID \<circ> row_job) (tb_jobs t') = map (SessionID \<circ> row_job) (tb_jobs t)"
    "tb_steps t' = tb_steps t" "tb_next t' = tb_next t"
    using t(2) UpdateJob by auto
  with t(1) show ?thesis unfolding tables_ok_def by metis
next
  case (InsertStep sr)
  assume "tables_ok t" "table_sql now st t = (r, t')"
  with InsertStep show ?thesis by (fastforce simp: tables_ok_def sorted_append less_Suc_eq)
qed auto

lemma sorted_filter_steps: "sorted (map fst xs) \<Longrightarrow> sort_key fst (filter P xs) = filter P xs"
  by (simp add: sorted_filter sort_key_id_if_sorted)

text \<open>The engine as the store's operations see it: it may fail, but not half-way.\<close>

locale sql_engine =
  fixes sql :: "'db engine" and view :: "'db \<Rightarrow> tables"
  assumes atomic: "sql db st = (r, db') \<Longrightarrow>
      (\<exists>now. (r, view db') = table_sql now st (view db)) \<or> (\<exists>e. r = Inl e \<and> view db' = view db)"
begin

lemma failed_write_keeps_tables:
  "sqlite_CreateJob sql db job = (Inl e, db') \<Longrightarrow> view db' = view db"
  "sqlite_SetJobStatus sql db sid st result err = (Inl e, db') \<Longrightarrow> tables_abs (view db') = tables_abs (view db)"
  "sqlite_AppendStepResult sql db sr = (Inl e, db') \<Longrightarrow> view db' = view db"
proof -
  show "view db' = view db" if "sqlite_CreateJob sql db job = (Inl e, db')"
    using that atomic [of db "InsertJob (with_status job)"]
    by (fastforce simp: sqlite_defs split: prod.splits sum.splits if_splits)
  show "view db' = view db" if "sqlite_AppendStepResult sql db sr = (Inl e, db')"
    using that atomic [of db "InsertStep sr"]
    by (fastforce simp: sqlite_defs split: prod.splits sum.splits if_splits)
  assume set: "sqlite_SetJobStatus sql db sid st result err = (Inl e, db')"
  obtain r where r: "sql db (UpdateJob st result err sid) = (r, db')"
    using set by (auto simp: sqlite_defs split: prod.splits sum.splits sql_reply.splits)
  from atomic [OF r] show "tables_abs (view db') = tables_abs (view db)"
  proof
    assume "\<exists>now. (r, view db') = table_sql now (UpdateJob st result err sid) (view db)"
    then obtain now where now: "r = Inr (Affected (length (filter (\<lambda>r. SessionID (row_job r) = sid) (tb_jobs (view db)))))"
      "view db' = (view db)\<lparr>tb_jobs := map (\<lambda>r. if SessionID (row_job r) = sid
            then r\<lparr>row_job := update_job sid st result err (row_job r), row_updated := now\<rparr>
            else r) (tb_jobs (view db))\<rparr>"
      by auto
    with set r have "\<forall>r\<in>set (tb_jobs (view db)). SessionID (row_job r) \<noteq> sid"
      by (auto simp: sqlite_defs filter_empty_conv split: if_splits)
    with now(2) show ?thesis by (simp add: tables_abs_def map_idI cong: map_cong)
  qed auto
qed

end

text \<open>An engine that does not fail by itself implements the contract of the store.\<close>

locale reliable_sql =
  fixes sql :: "'db engine" and view :: "'db \<Rightarrow> tables" and ping :: "'db \<Rightarrow> goerr option"
  assumes exact: "sql db st = (r, db') \<Longrightarrow> \<exists>now. (r, view db') = table_sql now st (view db)"

sublocale reliable_sql \<subseteq> sql_engine sql view
  using exact by unfold_locales blast

lemma job_of_tables: "job_of (tables_abs t) sid \<noteq> None \<longleftrightarrow> sid \<in> SessionID ` row_job ` set (tb_jobs t)"
  using job_of_None [of "tables_abs t" sid] by (auto simp: tables_abs_def)

lemma job_of_filter:
  "distinct (map SessionID js) \<Longrightarrow> filter (\<lambda>j. SessionID j = sid) js
     = (case find (\<lambda>j. SessionID j = sid) js of None \<Rightarrow> [] | Some j \<Rightarrow> [j])"
proof (induction js)
  case (Cons j js)
  then have "SessionID j \<notin> SessionID ` set js" by simp
  then have "filter (\<lambda>k. SessionID k = SessionID j) js = []"
    by (metis (mono_tags, lifting) filter_False image_eqI)
  with Cons show ?case by auto
qed simp

lemma map_row_update:
  "map row_job (map (\<lambda>r. if SessionID (row_job r) = sid
      then r\<lparr>row_job := update_job sid st result err (row_job r), row_updated := now\<rparr> else r) rs)
   = map (update_job sid st result err) (map row_job rs)"
  by (induction rs) (auto simp: update_job_def)

context reliable_sql
begin

lemma step_ok: "tables_ok (view s) \<Longrightarrow> sql s st = (r, s') \<Longrightarrow> tables_ok (view s')"
  using exact table_sql_ok by metis

lemma create_ok:
  assumes "tables_ok (view s)" "sqlite_CreateJob sql s job = (r, s')"
  shows "tables_ok (view s') \<and> create_spec job r (tables_abs (view s)) (tables_abs (view s'))"
proof (cases "TrimSpace (SessionID job) = []")
  case True
  with assms show ?thesis by (auto simp: sqlite_defs create_spec_def)
next
  case False
  obtain q s1 where q: "sql s (InsertJob (with_status job)) = (q, s1)" by fastforce
  with assms(2) False have s1: "s1 = s'" by (auto simp: sqlite_defs split: sum.splits)
  obtain now where now: "(q, view s1) = table_sql now (InsertJob (with_status job)) (view s)"
    using exact [OF q] by blast
  show ?thesis
    using step_ok [OF assms(1) q] assms(2) False q now s1 job_of_tables [of "view s" "SessionID job"]
    by (auto simp: sqlite_defs create_spec_def add_job_def tables_abs_def image_image split: if_splits)
qed

lemma get_ok:
  assumes "tables_ok (view s)" "sqlite_GetJob sql s sid = (rj, s')"
  shows "tables_ok (view s') \<and> tables_abs (view s') = tables_abs (view s) \<and>
    rj = (case job_of (tables_abs (view s)) sid of None \<Rightarrow> Inl ErrNotFound | Some j \<Rightarrow> Inr j)"
proof -
  obtain q s1 where q: "sql s (SelectJob sid) = (q, s1)" by fastforce
  obtain now where now: "(q, view s1) = table_sql now (SelectJob sid) (view s)"
    using exact [OF q] by blast
  have "distinct (map SessionID (map row_job (tb_jobs (view s))))"
    using assms(1) by (simp add: tables_ok_def)
  with now show ?thesis
    using step_ok [OF assms(1) q] assms(2) q job_of_filter [of "map row_job (tb_jobs (view s))" sid]
    by (simp add: sqlite_defs job_of_def tables_abs_def split: option.splits)
qed

lemma set_ok:
  assumes "tables_ok (view s)" "sqlite_SetJobStatus sql s sid st result err = (r, s')"
  shows "tables_ok (view s') \<and> (if job_of (tables_abs (view s)) sid = None
    then r = Inl ErrNotFound \<and> tables_abs (view s') = tables_abs (view s)
    else r = Inr () \<and> tables_abs (view s') = set_status sid st result err (tables_abs (view s)))"
proof -
  obtain q s1 where q: "sql s (UpdateJob st result err sid) = (q, s1)" by fastforce
  then have s1: "s1 = s'"
    using assms(2) by (auto simp: sqlite_defs split: sum.splits sql_reply.splits)
  obtain now where now: "(q, view s1) = table_sql now (UpdateJob st result err sid) (view s)"
    using exact [OF q] by blast
  then have r: "r = (if \<forall>r\<in>set (tb_jobs (view s)). SessionID (row_job r) \<noteq> sid then Inl ErrNotFound else Inr ())"
    using assms(2) q by (auto simp: sqlite_defs filter_empty_conv split: if_splits)
  have abs: "tables_abs (view s') = set_status sid st result err (tables_abs (view s))"
    using now s1 by (simp add: tables_abs_def set_status_def map_row_update del: map_map)
  show ?thesis
  proof (cases "job_of (tables_abs (view s)) sid = None")
    case True
    then have none: "\<forall>r\<in>set (tb_jobs (view s)). SessionID (row_job r) \<noteq> sid"
      using job_of_tables [of "view s" sid] by auto
    then have "map (update_job sid st result err) (map row_job (tb_jobs (view s))) = map row_job (tb_jobs (view s))"
      by (simp add: update_job_def)
    with True none abs r step_ok [OF assms(1) q] s1 show ?thesis
      by (auto simp: set_status_def tables_abs_def)
  next
    case False
    then show ?thesis
      using job_of_tables [of "view s" sid] abs r step_ok [OF assms(1) q] s1 by auto
  qed
qed

lemma list_ok:
  assumes "tables_ok (view s)" "sqlite_ListJobsByStatus sql s st = (rl, s')"
  shows "tables_ok (view s') \<and> tables_abs (view s') = tables_abs (view s) \<and>
    (\<exists>js. rl = Inr js \<and> mset js = mset (jobs_in st (tables_abs (view s))))"
proof -
  obtain q s1 where q: "sql s (SelectJobsByStatus st) = (q, s1)" by fastforce
  obtain now where now: "(q, view s1) = table_sql now (SelectJobsByStatus st) (view s)"
    using exact [OF q] by blast
  have "mset (map row_job (sort_key row_key (filter (\<lambda>r. job_Status (row_job r) = st) (tb_jobs (view s)))))
      = mset (jobs_in st (tables_abs (view s)))"
    by (simp add: jobs_in_def tables_abs_def filter_map comp_def)
  with assms(2) q now step_ok [OF assms(1) q] show ?thesis by (auto simp: sqlite_defs)
qed

lemma append_ok:
  assumes "tables_ok (view s)" "sqlite_AppendStepResult sql s sr = (r, s')"
  shows "tables_ok (view s') \<and> r = Inr () \<and> tables_abs (view s') = add_step (sr_SessionID sr) sr (tables_abs (view s))"
proof -
  obtain q s1 where q: "sql s (InsertStep sr) = (q, s1)" by fastforce
  obtain now where "(q, view s1) = table_sql now (InsertStep sr) (view s)" using exact [OF q] by blast
  with assms(2) q step_ok [OF assms(1) q] show ?thesis
    by (auto simp: sqlite_defs tables_abs_def add_step_def)
qed

lemma steps_ok:
  assumes "tables_ok (view s)" "sqlite_ListStepResults sql s sid = (rs, s')"
  shows "tables_ok (view s') \<and> tables_abs (view s') = tables_abs (view s) \<and>
    rs = Inr (as_steps (tables_abs (view s)) sid)"
proof -
  obtain q s1 where q: "sql s (SelectSteps sid) = (q, s1)" by fastforce
  obtain now where "(q, view s1) = table_sql now (SelectSteps sid) (view s)" using exact [OF q] by blast
  moreover have "sort_key fst (filter (\<lambda>(i, sr). sr_SessionID sr = sid) (tb_steps (view s)))
      = filter (\<lambda>(i, sr). sr_SessionID sr = sid) (tb_steps (view s))"
    using assms(1) by (intro sorted_filter_steps) (simp add: tables_ok_def)
  ultimately show ?thesis
    using assms(2) q step_ok [OF assms(1) q] by (auto simp: sqlite_defs tables_abs_def)
qed

end

sublocale reliable_sql \<subseteq> job_store "sqlite_ops sql ping" "\<lambda>db. tables_ok (view db)"
  "\<lambda>db. tables_abs (view db)" "\<lambda>sr. sr" "\<lambda>_. False"
proof unfold_locales
  show "distinct_jobs (tables_abs (view s))" if "tables_ok (view s)" for s
    using that by (simp add: distinct_jobs_def tables_abs_def tables_ok_def)
  show "tables_ok (view s') \<and> (create_spec job r (tables_abs (view s)) (tables_abs (view s')) \<or>
      False \<and> (\<exists>e. r = Inl e) \<and> tables_abs (view s') = tables_abs (view s))"
    if "tables_ok (view s)" "op_CreateJob (sqlite_ops sql ping) s job = (r, s')" for s job r s'
    using create_ok [of s job r s'] that by (simp add: sqlite_ops_def)
  show "tables_ok (view s') \<and> tables_abs (view s') = tables_abs (view s) \<and>
      rj = (case job_of (tables_abs (view s)) sid of None \<Rightarrow> Inl ErrNotFound | Some j \<Rightarrow> Inr j)"
    if "tables_ok (view s)" "op_GetJob (sqlite_ops sql ping) s sid = (rj, s')" for s sid rj s'
    using that by (intro get_ok) (simp_all add: sqlite_ops_def)
  show "tables_ok (view s') \<and> (if job_of (tables_abs (view s)) sid = None
      then r = Inl ErrNotFound \<and> tables_abs (view s') = tables_abs (view s)
      else r = Inr () \<and> tables_abs (view s') = set_status sid st result err (tables_abs (view s)))"
    if "tables_ok (view s)" "st \<noteq> []" "op_SetJobStatus (sqlite_ops sql ping) s sid st result err = (r, s')"
    for s sid st result err r s'
    using that by (intro set_ok) (simp_all add: sqlite_ops_def)
  show "tables_ok (view s') \<and> tables_abs (view s') = tables_abs (view s) \<and>
      (\<exists>js. rl = Inr js \<and> mset js = mset (jobs_in st (tables_abs (view s))))"
    if "tables_ok (view s)" "op_ListJobsByStatus (sqlite_ops sql ping) s st = (rl, s')" for s st rl s'
    using that by (intro list_ok) (simp_all add: sqlite_ops_def)
  show "tables_ok (view s') \<and> r = Inr () \<and>
      tables_abs (view s') = add_step (sr_SessionID sr) sr (tables_abs (view s))"
    if "tables_ok (view s)" "op_AppendStepResult (sqlite_ops sql ping) s sr = (r, s')" for s sr r s'
    using append_ok [of s sr r s'] that by (simp add: sqlite_ops_def add_step_def)
  show "tables_ok (view s') \<and> tables_abs (view s') = tables_abs (view s) \<and>
      rs = Inr (as_steps (tables_abs (view s)) sid)"
    if "tables_ok (view s)" "op_ListStepResults (sqlite_ops sql ping) s sid = (rs, s')" for s sid rs s'
    using that by (intro steps_ok) (simp_all add: sqlite_ops_def)
qed

context reliable_sql
begin

lemma store_contract: "job_store (sqlite_ops sql ping) (\<lambda>db. tables_ok (view db)) (\<lambda>db. tables_abs (view db))
    (\<lambda>sr. sr) (\<lambda>_. False)"
  by (rule job_store_axioms)

end

section \<open>An engine, and the order of listings\<close>

text \<open>An engine in memory: the tables and a clock that advances with every statement.\<close>

record memdb =
  md_tables :: tables
  md_now :: nat

definition mem_sql :: "memdb engine" where
  "mem_sql db st =
     (case table_sql (md_now db) st (md_tables db) of
        (r, t) \<Rightarrow> (r, \<lparr>md_tables = t, md_now = md_now db + 1\<rparr>))"

definition mem_empty :: memdb where
  "mem_empty = \<lparr>md_tables = \<lparr>tb_jobs = [], tb_steps = [], tb_next = 1\<rparr>, md_now = 0\<rparr>"

interpretation lite: reliable_sql mem_sql md_tables "\<lambda>_. None"
proof unfold_locales
  show "\<exists>now. (r, md_tables db') = table_sql now st (md_tables db)"
    if "mem_sql db st = (r, db')" for db st r db'
    using that by (intro exI [of _ "md_now db"]) (auto simp: mem_sql_def split: prod.splits)
qed

text \<open>The rows are in creation order when the clock has advanced between any two insertions.\<close>

definition clock_advanced :: "tables \<Rightarrow> bool" where
  "clock_advanced t \<longleftrightarrow> sorted_wrt (<) (map row_created (tb_jobs t))"

lemma sorted_row_key:
  assumes "clock_advanced t"
  shows "sort_key row_key (filter P (tb_jobs t)) = filter P (tb_jobs t)"
proof -
  have "sorted_wrt (\<lambda>a b. row_created a < row_created b) (tb_jobs t)"
    using assms by (simp add: clock_advanced_def sorted_wrt_map)
  then have "sorted_wrt (\<lambda>a b. row_created a < row_created b) (filter P (tb_jobs t))"
    by (rule sorted_wrt_filter)
  then have "sorted (map row_key (filter P (tb_jobs t)))"
    by (simp add: sorted_map) (erule sorted_wrt_mono_rel [rotated], simp add: row_key_def)
  then show ?thesis by (rule sort_key_id_if_sorted)
qed

end
