(* ===== verification/Resp.thy ===== *)
theory Resp
  imports Prelude
begin

text \<open>
  \<open>internal/store/redis/client.go\<close>: the wire protocol of Redis and the connection.  The
  bytes that a server sends back for the bytes written are a parameter; parsing works on
  the bytes that have arrived, and running out of them is an error.
\<close>

section \<open>Replies\<close>

datatype reply = Reply (r_kind: char) (r_str: string) (r_num: int) (r_arr: "reply list") (r_nil: bool)

definition errNil :: goerr where
  "errNil = Sentinel ''redis: nil reply''"

definition ErrEOF :: goerr where
  "ErrEOF = Sentinel ''EOF''"

definition reply_strings :: "reply \<Rightarrow> string list" where
  "reply_strings r =
     (if r_kind r = CHR ''*'' then map (\<lambda>e. if r_nil e then [] else r_str e) (r_arr r)
      else if r_kind r = CHR ''$'' \<or> r_kind r = CHR ''+'' then (if r_nil r then [] else [r_str r])
      else [])"

definition reply_int64 :: "reply \<Rightarrow> int res" where
  "reply_int64 r =
     (if r_kind r = CHR '':'' then Inr (r_num r)
      else if r_kind r = CHR ''$'' \<or> r_kind r = CHR ''+'' then
        (if r_nil r then Inl errNil
         else case Atoi (TrimSpace (r_str r)) of
                None \<Rightarrow> Inl (Errorf ''strconv.ParseInt'' [r_str r])
              | Some n \<Rightarrow> Inr n)
      else Inl (Errorf ''redis: unexpected reply kind %q'' [[r_kind r]]))"

section \<open>Writing commands\<close>

definition crlf :: string where
  "crlf = [CHR 0x0D, CHR 0x0A]"

definition bulk :: "string \<Rightarrow> string" where
  "bulk a = ''$'' @ Itoa (int (length a)) @ crlf @ a @ crlf"

definition writeCommand :: "string list \<Rightarrow> string" where
  "writeCommand args = ''*'' @ Itoa (int (length args)) @ crlf @ concat (map bulk args)"

section \<open>Reading replies\<close>

text \<open>\<open>strings.TrimSuffix\<close> with a suffix of one byte.\<close>

definition trim_suffix1 :: "char \<Rightarrow> string \<Rightarrow> string" where
  "trim_suffix1 c s = (if s \<noteq> [] \<and> last s = c then butlast s else s)"

definition readLine :: "string \<Rightarrow> (string \<times> string) res" where
  "readLine s =
     (if CHR 0x0A \<notin> set s then Inl ErrEOF
      else Inr (trim_suffix1 (CHR 0x0D) (takeWhile (\<lambda>c. c \<noteq> CHR 0x0A) s),
                tl (dropWhile (\<lambda>c. c \<noteq> CHR 0x0A) s)))"

text \<open>
  \<open>readReply\<close> and the loop that reads the elements of an array.  The bound is the number of
  bytes to read, of which every reply takes at least one (\<open>readReply_not_stuck\<close>).
\<close>

fun readReply :: "nat \<Rightarrow> string \<Rightarrow> (reply \<times> string) res"
  and readArray :: "nat \<Rightarrow> nat \<Rightarrow> reply list \<Rightarrow> string \<Rightarrow> (reply \<times> string) res"
where
  "readReply 0 s = Inl Stuck"
| "readReply (Suc f) s =
     bind_res (readLine s) (\<lambda>(line, r).
       case line of
         [] \<Rightarrow> Inl (Errorf ''redis: empty reply line'' [])
       | kind # body \<Rightarrow>
           if kind = CHR ''+'' \<or> kind = CHR ''-'' then Inr (Reply kind body 0 [] False, r)
           else if kind = CHR '':'' then
             (case Atoi body of
                None \<Rightarrow> Inl (Errorf ''redis: bad integer reply %q'' [body])
              | Some n \<Rightarrow> Inr (Reply CHR '':'' [] n [] False, r))
           else if kind = CHR ''$'' then
             (case Atoi body of
                None \<Rightarrow> Inl (Errorf ''redis: bad bulk length %q'' [body])
              | Some n \<Rightarrow>
                  if n < 0 then Inr (Reply CHR ''$'' [] 0 [] True, r)
                  else if length r < nat n + 2 then Inl ErrEOF
                  else Inr (Reply CHR ''$'' (take (nat n) r) 0 [] False, drop (nat n + 2) r))
           else if kind = CHR ''*'' then
             (case Atoi body of
                None \<Rightarrow> Inl (Errorf ''redis: bad array length %q'' [body])
              | Some n \<Rightarrow>
                  if n < 0 then Inr (Reply CHR ''*'' [] 0 [] True, r)
                  else readArray f (nat n) [] r)
           else Inl (Errorf ''redis: unexpected reply type %q'' [[kind]]))"
| "readArray f 0 arr s = Inr (Reply CHR ''*'' [] 0 arr False, s)"
| "readArray 0 (Suc k) arr s = Inl Stuck"
| "readArray (Suc f) (Suc k) arr s =
     bind_res (readReply (Suc f) s) (\<lambda>(e, r). readArray f k (arr @ [e]) r)"

declare readReply.simps(2) [simp del]

section \<open>The connection\<close>

text \<open>
  A connection has the server at its other end and the bytes received but not read.
  \<open>net\<close> is the exchange: the bytes that come back for the bytes sent, or a transport
  error.
\<close>

record 'srv conn =
  c_srv :: 'srv
  c_unread :: string

type_synonym 'srv network = "'srv \<Rightarrow> string \<Rightarrow> string res \<times> 'srv"

definition read_from :: "'srv conn \<Rightarrow> reply res \<times> 'srv conn" where
  "read_from c =
     (case readReply (Suc (length (c_unread c))) (c_unread c) of
        Inl e \<Rightarrow> (Inl e, c)
      | Inr (r, rest) \<Rightarrow> (Inr r, c\<lparr>c_unread := rest\<rparr>))"

definition send :: "'srv network \<Rightarrow> string \<Rightarrow> 'srv conn \<Rightarrow> unit res \<times> 'srv conn" where
  "send net bytes c =
     (case net (c_srv c) bytes of
        (Inl e, srv) \<Rightarrow> (Inl e, c\<lparr>c_srv := srv\<rparr>)
      | (Inr resp, srv) \<Rightarrow> (Inr (), c\<lparr>c_srv := srv, c_unread := c_unread c @ resp\<rparr>))"

text \<open>\<open>conn.do\<close>.\<close>

definition conn_do :: "'srv network \<Rightarrow> string list \<Rightarrow> 'srv conn \<Rightarrow> reply res \<times> 'srv conn" where
  "conn_do net args c =
     (case send net (writeCommand args) c of
        (Inl e, c1) \<Rightarrow> (Inl e, c1)
      | (Inr _, c1) \<Rightarrow>
          (case read_from c1 of
             (Inl e, c2) \<Rightarrow> (Inl e, c2)
           | (Inr r, c2) \<Rightarrow>
               (if r_kind r = CHR ''-'' then Inl (RedisError (r_str r)) else Inr r, c2)))"

text \<open>Reading the replies to \<open>MULTI\<close> and to the queued commands, whose kind is not looked at.\<close>

fun read_queued :: "nat \<Rightarrow> 'srv conn \<Rightarrow> unit res \<times> 'srv conn" where
  "read_queued 0 c = (Inr (), c)"
| "read_queued (Suc n) c =
     (case read_from c of (Inl e, c1) \<Rightarrow> (Inl e, c1) | (Inr _, c1) \<Rightarrow> read_queued n c1)"

definition exec_result :: "reply \<Rightarrow> reply list res" where
  "exec_result r =
     (if r_kind r = CHR ''-'' then Inl (RedisError (r_str r))
      else if r_nil r then Inl (Errorf ''redis: transaction aborted (EXEC returned nil)'' [])
      else case find (\<lambda>e. r_kind e = CHR ''-'') (r_arr r) of
             Some e \<Rightarrow> Inl (RedisError (r_str e))
           | None \<Rightarrow> Inr (r_arr r))"

text \<open>\<open>conn.doMulti\<close>.\<close>

definition conn_doMulti :: "'srv network \<Rightarrow> string list list \<Rightarrow> 'srv conn \<Rightarrow> reply list res \<times> 'srv conn" where
  "conn_doMulti net cmds c =
     (if cmds = [] then (Inr [], c)
      else case send net (concat (map writeCommand ([[''MULTI'']] @ cmds @ [[''EXEC'']]))) c of
        (Inl e, c1) \<Rightarrow> (Inl e, c1)
      | (Inr _, c1) \<Rightarrow>
          (case read_queued (Suc (length cmds)) c1 of
             (Inl e, c2) \<Rightarrow> (Inl e, c2)
           | (Inr _, c2) \<Rightarrow>
               (case read_from c2 of
                  (Inl e, c3) \<Rightarrow> (Inl e, c3)
                | (Inr r, c3) \<Rightarrow> (exec_result r, c3))))"

section \<open>The connection pool\<close>

text \<open>\<open>pool.get\<close>, with a dialled connection as the alternative, \<open>pool.put\<close> and \<open>pool.close\<close>.\<close>

definition pool_get :: "'c list \<Rightarrow> 'c option \<times> 'c list" where
  "pool_get conns = (if conns \<noteq> [] then (Some (last conns), butlast conns) else (None, conns))"

definition pool_put :: "'c \<Rightarrow> 'c list \<Rightarrow> 'c list" where
  "pool_put c conns = (if length conns < 8 then conns @ [c] else conns)"

lemma pool_bounded:
  "length conns \<le> 8 \<Longrightarrow> length (pool_put c conns) \<le> 8"
  "length (snd (pool_get conns)) \<le> length conns"
  by (auto simp: pool_put_def pool_get_def)

section \<open>Parsing what was encoded\<close>

lemma Itoa_no_newline: "CHR 0x0A \<notin> set (Itoa i)" "CHR 0x0D \<notin> set (Itoa i)"
proof -
  have d: "c \<noteq> CHR 0x0A \<and> c \<noteq> CHR 0x0D" if "isDigit c" for c
    using that by (auto simp: isDigit_def)
  have n: "CHR 0x0A \<notin> set (nat_digits n) \<and> CHR 0x0D \<notin> set (nat_digits n)" for n
    using nat_digits_isDigit [of n] d by (auto simp: list_all_iff)
  show "CHR 0x0A \<notin> set (Itoa i)" "CHR 0x0D \<notin> set (Itoa i)"
    by (simp_all add: Itoa_def n)
qed

lemma readLine_line:
  assumes "CHR 0x0A \<notin> set l"
  shows "readLine (l @ crlf @ r) = Inr (l, r)"
proof -
  have "takeWhile (\<lambda>c. c \<noteq> CHR 0x0A) (l @ crlf @ r) = l @ [CHR 0x0D]"
    using assms by (subst takeWhile_append2) (auto simp: crlf_def)
  moreover have "dropWhile (\<lambda>c. c \<noteq> CHR 0x0A) (l @ crlf @ r) = CHR 0x0A # r"
    using assms by (subst dropWhile_append2) (auto simp: crlf_def)
  moreover have "CHR 0x0A \<in> set (l @ crlf @ r)" by (simp add: crlf_def)
  ultimately show ?thesis by (simp add: readLine_def trim_suffix1_def)
qed

lemma readLine_shorter: "readLine s = Inr (l, r) \<Longrightarrow> length r < length s"
proof -
  assume a: "readLine s = Inr (l, r)"
  then have nl: "CHR 0x0A \<in> set s" and r: "r = tl (dropWhile (\<lambda>c. c \<noteq> CHR 0x0A) s)"
    by (auto simp: readLine_def split: if_splits)
  then have "dropWhile (\<lambda>c. c \<noteq> CHR 0x0A) s \<noteq> []" by (auto simp: dropWhile_eq_Nil_conv)
  then have "length r < length (dropWhile (\<lambda>c. c \<noteq> CHR 0x0A) s)" by (simp add: r)
  also have "\<dots> \<le> length s" by (rule length_dropWhile_le)
  finally show ?thesis .
qed

text \<open>Every reply that is read takes bytes, so the recursion never reaches its bound.\<close>

lemma readReply_progress:
  "length s < f \<Longrightarrow> readReply f s \<noteq> Inl Stuck \<and> (\<forall>r t. readReply f s = Inr (r, t) \<longrightarrow> length t < length s)"
  "length s < f \<Longrightarrow> readArray f k arr s \<noteq> Inl Stuck \<and>
     (\<forall>r t. readArray f k arr s = Inr (r, t) \<longrightarrow> length t \<le> length s)"
proof (induction f s and f k arr s rule: readReply_readArray.induct)
  case (2 f s)
  show ?case
  proof (cases "readLine s")
    case (Inl e)
    then have "e = ErrEOF" by (simp add: readLine_def split: if_splits)
    with Inl show ?thesis by (simp add: readReply.simps(2) ErrEOF_def)
  next
    case (Inr p)
    obtain l r where p: "p = (l, r)" by (cases p)
    with Inr have len: "length r < length s" by (simp add: readLine_shorter)
    have sub: "readArray f (nat n) [] r \<noteq> Inl Stuck"
      "readArray f (nat n) [] r = Inr (a, t) \<Longrightarrow> length t < length s"
      if "l = CHR ''*'' # b" "Atoi b = Some n" "\<not> n < 0" for b n a t
      using "2.IH" [of _ "CHR ''*''" b n r] "2.prems" len that
      by fastforce+
    show ?thesis
    proof (cases l)
      case (Cons c b)
      show ?thesis
      proof (cases "Atoi b")
        case None
        with Cons len show ?thesis by (simp add: readReply.simps(2) Inr p)
      next
        case (Some n)
        with Cons len sub [of b n] show ?thesis
          by (auto simp: readReply.simps(2) Inr p ErrEOF_def)
      qed
    qed (simp add: readReply.simps(2) Inr p)
  qed
next
  case (5 f k arr s)
  show ?case
  proof (cases "readReply (Suc f) s")
    case (Inl e)
    with 5 show ?thesis by auto
  next
    case (Inr p)
    obtain e r where p: "p = (e, r)" by (cases p)
    with 5 Inr have "length r < length s" by auto
    with "5.prems" have "length r < f" by simp
    note IH = "5.IH"(2) [of r e, OF this]
    with Inr p \<open>length r < length s\<close> show ?thesis by auto
  qed
qed auto

lemma readReply_not_stuck: "length s < f \<Longrightarrow> readReply f s \<noteq> Inl Stuck"
  using readReply_progress(1) by blast

section \<open>The protocol\<close>

text \<open>
  What a server sends for a reply, by the specification of the protocol, and the replies
  that it can send: a simple string or an error is one line.
\<close>

fun resp_encode :: "reply \<Rightarrow> string" where
  "resp_encode (Reply k str num arr isnil) =
     (if k = CHR '':'' then CHR '':'' # Itoa num @ crlf
      else if k = CHR ''$'' then (if isnil then ''$-1'' @ crlf else bulk str)
      else if k = CHR ''*'' then
        (if isnil then ''*-1'' @ crlf
         else CHR ''*'' # Itoa (int (length arr)) @ crlf @ concat (map resp_encode arr))
      else k # str @ crlf)"

fun resp_wf :: "reply \<Rightarrow> bool" where
  "resp_wf (Reply k str num arr isnil) \<longleftrightarrow>
     (if k = CHR ''+'' \<or> k = CHR ''-'' then CHR 0x0A \<notin> set str \<and> num = 0 \<and> arr = [] \<and> \<not> isnil
      else if k = CHR '':'' then str = [] \<and> - (2 ^ 63) \<le> num \<and> num < 2 ^ 63 \<and> arr = [] \<and> \<not> isnil
      else if k = CHR ''$'' then num = 0 \<and> arr = [] \<and> (if isnil then str = [] else length str < 2 ^ 63)
      else k = CHR ''*'' \<and> str = [] \<and> num = 0 \<and>
           (if isnil then arr = [] else length arr < 2 ^ 63 \<and> list_all resp_wf arr))"

lemma resp_wf_kind:
  "resp_wf (Reply k str num arr isnil) \<Longrightarrow>
     k = CHR ''+'' \<or> k = CHR ''-'' \<or> k = CHR '':'' \<or> k = CHR ''$'' \<or> k = CHR ''*''"
  by (rule ccontr) simp

lemma readLine_Itoa:
  "readLine (c # Itoa i @ crlf @ r) = Inr (c # Itoa i, r)" if "c \<noteq> CHR 0x0A"
  using readLine_line [of "c # Itoa i" r] that Itoa_no_newline(1) [of i] by simp

lemma Atoi_length [simp]: "length xs < 2 ^ 63 \<Longrightarrow> Atoi (Itoa (int (length xs))) = Some (int (length xs))"
  by (rule Atoi_Itoa_nat)

lemma minus_one_text: "Itoa (- 1) = ''-1''" "Atoi ''-1'' = Some (- 1)"
proof -
  show t: "Itoa (- 1) = ''-1''"
    by code_simp
  have "Atoi (Itoa (- 1)) = Some (- 1)" by (rule Atoi_Itoa) simp_all
  then show "Atoi ''-1'' = Some (- 1)" by (simp add: t)
qed

lemma readReply_bulk:
  "length a < 2 ^ 63 \<Longrightarrow>
     readReply (Suc f) (bulk a @ rest) = Inr (Reply CHR ''$'' a 0 [] False, rest)"
  by (simp add: bulk_def readReply.simps(2) readLine_Itoa crlf_def [symmetric]) (simp add: crlf_def)

lemma readReply_nil:
  "readReply (Suc f) (''$-1'' @ crlf @ rest) = Inr (Reply CHR ''$'' [] 0 [] True, rest)"
  "readReply (Suc f) (''*-1'' @ crlf @ rest) = Inr (Reply CHR ''*'' [] 0 [] True, rest)"
  using readLine_Itoa [of "CHR ''$''" "- 1" rest] readLine_Itoa [of "CHR ''*''" "- 1" rest]
  by (simp_all add: readReply.simps(2) minus_one_text)

text \<open>
  Reading back a well-formed reply gives that reply and leaves the bytes behind it, so
  pipelined replies do not run into each other.
\<close>

lemma readArray_encoded:
  assumes "\<And>e f rest. e \<in> set es \<Longrightarrow> length (resp_encode e @ rest) < f \<Longrightarrow>
             readReply f (resp_encode e @ rest) = Inr (e, rest)"
    and "length (concat (map resp_encode es) @ rest) < f"
  shows "readArray f (length es) arr (concat (map resp_encode es) @ rest) =
           Inr (Reply CHR ''*'' [] 0 (arr @ es) False, rest)"
  using assms
proof (induction es arbitrary: arr f)
  case (Cons e es)
  then obtain f' where f: "f = Suc f'" by (cases f) auto
  let ?t = "concat (map resp_encode es) @ rest"
  have r: "readReply f (resp_encode e @ ?t) = Inr (e, ?t)"
    using Cons.prems by simp
  with Cons.prems(2) readReply_progress(1) [of "resp_encode e @ ?t" f] have "length ?t < f'"
    by (cases "resp_encode e") (auto simp: f)
  from Cons.IH [OF _ this, of "arr @ [e]"] Cons.prems(1) r show ?case
    by (simp add: f)
qed simp

lemma readReply_encoded:
  "resp_wf r \<Longrightarrow> length (resp_encode r @ rest) < f \<Longrightarrow> readReply f (resp_encode r @ rest) = Inr (r, rest)"
proof (induction r arbitrary: f rest rule: resp_encode.induct)
  case (1 k str num arr isnil)
  from "1.prems"(2) obtain f' where f: "f = Suc f'" by (cases f) auto
  consider (line) "k = CHR ''+'' \<or> k = CHR ''-''" | (int) "k = CHR '':''" | (bulk) "k = CHR ''$''"
    | (array) "k = CHR ''*''"
    using resp_wf_kind [OF "1.prems"(1)] by blast
  then show ?case
  proof cases
    case line
    with "1.prems"(1) readLine_line [of "k # str" rest] show ?thesis
      by (auto simp: f readReply.simps(2))
  next
    case int
    with "1.prems"(1) show ?thesis
      by (simp add: f readReply.simps(2) readLine_Itoa Atoi_Itoa)
  next
    case bulk
    with "1.prems"(1) readReply_nil [of f' rest] show ?thesis
      by (auto simp: f readReply_bulk)
  next
    case array
    show ?thesis
    proof (cases isnil)
      case True
      with array "1.prems"(1) readReply_nil [of f' rest] show ?thesis by (simp add: f)
    next
      case False
      from "1.prems"(2) array False have len: "length (concat (map resp_encode arr) @ rest) < f'"
        by (simp add: f)
      have "readReply g (resp_encode e @ t) = Inr (e, t)"
        if "e \<in> set arr" "length (resp_encode e @ t) < g" for e g t
        using "1.IH" [of e t g] that "1.prems"(1) array False by (auto simp: list_all_iff)
      from readArray_encoded [OF this len, of "[]"] array False "1.prems"(1) show ?thesis
        by (simp add: f readReply.simps(2) readLine_Itoa)
    qed
  qed
qed

text \<open>A command is the array of its arguments, whatever bytes they hold.\<close>

definition bulk_reply :: "string \<Rightarrow> reply" where
  "bulk_reply a = Reply CHR ''$'' a 0 [] False"

definition command_reply :: "string list \<Rightarrow> reply" where
  "command_reply args = Reply CHR ''*'' [] 0 (map bulk_reply args) False"

lemma writeCommand_encode: "writeCommand args = resp_encode (command_reply args)"
  by (simp add: writeCommand_def command_reply_def comp_def bulk_reply_def)

definition command_ok :: "string list \<Rightarrow> bool" where
  "command_ok args \<longleftrightarrow> length args < 2 ^ 63 \<and> (\<forall>a\<in>set args. length a < 2 ^ 63)"

lemma command_reply_wf: "command_ok args \<Longrightarrow> resp_wf (command_reply args)"
  by (auto simp: command_ok_def command_reply_def bulk_reply_def list_all_iff)

end
