(* ===== verification/Redis.thy ===== *)
theory Redis
  imports Resp StoreSpec JsonStruct "HOL-Library.Product_Lexorder"
begin

text \<open>
  \<open>internal/store/redis/redis.go\<close>: the Redis store.  The server is a parameter, seen
  through the two methods \<open>cmd\<close> and \<open>multi\<close> of the store; what the code relies on is the
  locale \<open>redis_server\<close>: the commands have the effects that Redis documents for them.
\<close>

section \<open>The store's connection methods\<close>

text \<open>
  The state of the store is the server and the unread bytes of each pooled connection;
  \<open>dial\<close> is the result of opening a new one.
\<close>

record 'srv rstate =
  rs_srv :: 'srv
  rs_conns :: "string list"

record 'srv redis_env =
  re_net :: "'srv network"
  re_dial :: "'srv \<Rightarrow> goerr option \<times> 'srv"
  re_password :: string
  re_db :: int

definition dial_do :: "'srv redis_env \<Rightarrow> bool \<Rightarrow> string \<Rightarrow> string list \<Rightarrow> 'srv conn \<Rightarrow> unit res \<times> 'srv conn" where
  "dial_do env needed what args c =
     (if \<not> needed then (Inr (), c)
      else case conn_do (re_net env) args c of
             (Inl e, c') \<Rightarrow> (Inl (ErrWrap what [] e), c')
           | (Inr _, c') \<Rightarrow> (Inr (), c'))"

text \<open>\<open>pool.dial\<close>.\<close>

definition pool_dial :: "'srv redis_env \<Rightarrow> 'srv \<Rightarrow> 'srv conn res \<times> 'srv" where
  "pool_dial env srv =
     (case re_dial env srv of
        (Some e, srv1) \<Rightarrow> (Inl (ErrWrap ''redis: dial %s: %w'' [] e), srv1)
      | (None, srv1) \<Rightarrow>
          (case dial_do env (re_password env \<noteq> []) ''redis: auth: %w'' [''AUTH'', re_password env]
                  \<lparr>c_srv = srv1, c_unread = []\<rparr> of
             (Inl e, c1) \<Rightarrow> (Inl e, c_srv c1)
           | (Inr _, c1) \<Rightarrow>
               (case dial_do env (re_db env \<noteq> 0) ''redis: select db %d: %w'' [''SELECT'', Itoa (re_db env)] c1 of
                  (Inl e, c2) \<Rightarrow> (Inl e, c_srv c2)
                | (Inr _, c2) \<Rightarrow> (Inr c2, c_srv c2))))"

definition get_conn :: "'srv redis_env \<Rightarrow> 'srv rstate \<Rightarrow> 'srv conn res \<times> 'srv rstate" where
  "get_conn env s =
     (case pool_get (rs_conns s) of
        (Some unread, rest) \<Rightarrow> (Inr \<lparr>c_srv = rs_srv s, c_unread = unread\<rparr>, s\<lparr>rs_conns := rest\<rparr>)
      | (None, rest) \<Rightarrow>
          (case pool_dial env (rs_srv s) of
             (Inl e, srv) \<Rightarrow> (Inl e, s\<lparr>rs_srv := srv\<rparr>)
           | (Inr c, srv) \<Rightarrow> (Inr c, s\<lparr>rs_srv := srv\<rparr>)))"

text \<open>
  The common end of \<open>cmd\<close> and \<open>multi\<close>: a connection is given up on a transport error, and
  kept otherwise.
\<close>

definition finish_conn :: "'a res \<times> 'srv conn \<Rightarrow> 'srv rstate \<Rightarrow> 'a res \<times> 'srv rstate" where
  "finish_conn rc s =
     (case rc of
        (Inl e, c) \<Rightarrow>
          (if \<not> errors_As_redis e then (Inl e, s\<lparr>rs_srv := c_srv c\<rparr>)
           else (Inl e, s\<lparr>rs_srv := c_srv c, rs_conns := pool_put (c_unread c) (rs_conns s)\<rparr>))
      | (Inr x, c) \<Rightarrow> (Inr x, s\<lparr>rs_srv := c_srv c, rs_conns := pool_put (c_unread c) (rs_conns s)\<rparr>))"

definition redis_cmd :: "'srv redis_env \<Rightarrow> 'srv rstate \<Rightarrow> string list \<Rightarrow> reply res \<times> 'srv rstate" where
  "redis_cmd env s args =
     (case get_conn env s of
        (Inl e, s1) \<Rightarrow> (Inl e, s1)
      | (Inr c, s1) \<Rightarrow> finish_conn (conn_do (re_net env) args c) s1)"

definition redis_multi :: "'srv redis_env \<Rightarrow> 'srv rstate \<Rightarrow> string list list \<Rightarrow> reply list res \<times> 'srv rstate" where
  "redis_multi env s cmds =
     (case get_conn env s of
        (Inl e, s1) \<Rightarrow> (Inl e, s1)
      | (Inr c, s1) \<Rightarrow> finish_conn (conn_doMulti (re_net env) cmds c) s1)"

section \<open>Keys and fields\<close>

definition jobKey :: "string \<Rightarrow> string \<Rightarrow> string" where
  "jobKey pfx sid = pfx @ ''job:'' @ sid"

definition statusKey :: "string \<Rightarrow> JobStatus \<Rightarrow> string" where
  "statusKey pfx st = pfx @ ''jobs:'' @ st"

definition stepsKey :: "string \<Rightarrow> string \<Rightarrow> string" where
  "stepsKey pfx sid = pfx @ ''steps:'' @ sid"

definition seqKey :: "string \<Rightarrow> string" where
  "seqKey pfx = pfx @ ''seq''"

text \<open>A Go map read at a key that is absent gives the empty string.\<close>

definition field :: "(string \<times> string) list \<Rightarrow> string \<Rightarrow> string" where
  "field f k = (case map_of f k of None \<Rightarrow> [] | Some v \<Rightarrow> v)"

fun pair_fields :: "reply list \<Rightarrow> (string \<times> string) list \<Rightarrow> (string \<times> string) list" where
  "pair_fields (k # v # rest) m = pair_fields rest (obj_put (r_str k) (r_str v) m)"
| "pair_fields rs m = m"

definition hashToMap :: "reply \<Rightarrow> (string \<times> string) list res" where
  "hashToMap r =
     (if r_nil r then Inr []
      else if r_kind r \<noteq> CHR ''*'' then Inl (Errorf ''expected array reply, got %q'' [[r_kind r]])
      else Inr (pair_fields (r_arr r) []))"

definition jobFromFields :: "(string \<times> string) list \<Rightarrow> Job" where
  "jobFromFields f =
     \<lparr>SessionID = field f ''session_id'', job_Kind = field f ''kind'', TargetID = field f ''target_id'',
      job_Status = field f ''status'', job_Input = field f ''input'', job_Result = field f ''result'',
      job_Error = field f ''error''\<rparr>"

definition scoreOrDefault :: "int \<Rightarrow> string list \<Rightarrow> string" where
  "scoreOrDefault unixNano vals =
     (if 2 \<le> length vals \<and> vals ! 1 \<noteq> [] then vals ! 1 else Itoa unixNano)"

section \<open>The operations\<close>

text \<open>
  The parameters of the operations: the two connection methods, the key prefix and the
  clock, as RFC 3339 text and as Unix nanoseconds.
\<close>

record 's redis_api =
  ra_cmd :: "'s \<Rightarrow> string list \<Rightarrow> reply res \<times> 's"
  ra_multi :: "'s \<Rightarrow> string list list \<Rightarrow> reply list res \<times> 's"
  ra_pfx :: string
  ra_now :: "'s \<Rightarrow> string"
  ra_nano :: "'s \<Rightarrow> int"

definition redis_Ping :: "'s redis_api \<Rightarrow> 's \<Rightarrow> unit res \<times> 's" where
  "redis_Ping api s =
     (case ra_cmd api s [''PING''] of
        (Inl e, s1) \<Rightarrow> (Inl (ErrWrap ''redis: ping: %w'' [] e), s1)
      | (Inr _, s1) \<Rightarrow> (Inr (), s1))"

definition create_cmds :: "string \<Rightarrow> string \<Rightarrow> int \<Rightarrow> Job \<Rightarrow> string list list" where
  "create_cmds pfx now seq job =
     [[''HSET'', jobKey pfx (SessionID job),
       ''kind'', job_Kind job, ''target_id'', TargetID job, ''status'', job_Status job,
       ''input'', job_Input job, ''result'', job_Result job, ''error'', job_Error job,
       ''seq'', Itoa seq, ''created_at'', now, ''updated_at'', now],
      [''ZADD'', statusKey pfx (job_Status job), Itoa seq, SessionID job]]"

definition redis_CreateJob :: "'s redis_api \<Rightarrow> 's \<Rightarrow> Job \<Rightarrow> unit res \<times> 's" where
  "redis_CreateJob api s job0 =
     (if TrimSpace (SessionID job0) = [] then (Inl (Errorf ''store: session id is required'' []), s)
      else let job = with_status job0; wrap = ErrWrap ''store: create job: %w'' [] in
        case ra_cmd api s [''INCR'', seqKey (ra_pfx api)] of
          (Inl e, s1) \<Rightarrow> (Inl (wrap e), s1)
        | (Inr seqReply, s1) \<Rightarrow>
        (case reply_int64 seqReply of
           Inl e \<Rightarrow> (Inl (wrap e), s1)
         | Inr seq \<Rightarrow>
        (case ra_cmd api s1 [''HSETNX'', jobKey (ra_pfx api) (SessionID job), ''session_id'', SessionID job] of
           (Inl e, s2) \<Rightarrow> (Inl (wrap e), s2)
         | (Inr claim, s2) \<Rightarrow>
           if (case reply_int64 claim of Inl _ \<Rightarrow> 0 | Inr n \<Rightarrow> n) = 0
           then (Inl (Errorf ''store: create job: session %q already exists'' [SessionID job]), s2)
           else case ra_multi api s2 (create_cmds (ra_pfx api) (ra_now api s2) seq job) of
                  (Inl e, s3) \<Rightarrow> (Inl (wrap e), s3)
                | (Inr _, s3) \<Rightarrow> (Inr (), s3))))"

definition redis_GetJob :: "'s redis_api \<Rightarrow> 's \<Rightarrow> string \<Rightarrow> Job res \<times> 's" where
  "redis_GetJob api s sid =
     (case ra_cmd api s [''HGETALL'', jobKey (ra_pfx api) sid] of
        (Inl e, s1) \<Rightarrow> (Inl (ErrWrap ''store: get job: %w'' [] e), s1)
      | (Inr r, s1) \<Rightarrow>
          (case hashToMap r of
             Inl e \<Rightarrow> (Inl (ErrWrap ''store: get job: %w'' [] e), s1)
           | Inr fs \<Rightarrow>
               (if fs = [] then Inl ErrNotFound else Inr (jobFromFields fs), s1)))"

definition status_cmds ::
  "string \<Rightarrow> string \<Rightarrow> int \<Rightarrow> string list \<Rightarrow> string \<Rightarrow> JobStatus \<Rightarrow> string \<Rightarrow> string \<Rightarrow> string list list" where
  "status_cmds pfx now nano vals sid status result errMsg =
     [[''HSET'', jobKey pfx sid, ''status'', status, ''result'', result, ''error'', errMsg, ''updated_at'', now]] @
     (if hd vals \<noteq> [] \<and> hd vals \<noteq> status
      then [[''ZREM'', statusKey pfx (hd vals), sid],
            [''ZADD'', statusKey pfx status, scoreOrDefault nano vals, sid]]
      else [])"

text \<open>
  An empty reply array passes the test of \<open>len(vals)\<close> when the job exists, and \<open>vals[0]\<close>
  panics.
\<close>

definition redis_SetJobStatus ::
  "'s redis_api \<Rightarrow> 's \<Rightarrow> string \<Rightarrow> JobStatus \<Rightarrow> string \<Rightarrow> string \<Rightarrow> unit res \<times> 's" where
  "redis_SetJobStatus api s sid status result errMsg =
     (case ra_cmd api s [''HMGET'', jobKey (ra_pfx api) sid, ''status'', ''seq''] of
        (Inl e, s1) \<Rightarrow> (Inl (ErrWrap ''store: set status: %w'' [] e), s1)
      | (Inr cur, s1) \<Rightarrow>
          (let vals = reply_strings cur in
           case (if length vals < 2 \<or> vals ! 0 = [] \<and> vals ! 1 = []
                 then (case redis_GetJob api s1 sid of (Inl gerr, s2) \<Rightarrow> (Some gerr, s2) | (Inr _, s2) \<Rightarrow> (None, s2))
                 else (None, s1)) of
             (Some gerr, s2) \<Rightarrow> (Inl gerr, s2)
           | (None, s2) \<Rightarrow>
               if vals = [] then (Inl (Sentinel ''panic: index out of range''), s2)
               else case ra_multi api s2
                      (status_cmds (ra_pfx api) (ra_now api s2) (ra_nano api s2) vals sid status result errMsg) of
                      (Inl e, s3) \<Rightarrow> (Inl (ErrWrap ''store: set status: %w'' [] e), s3)
                    | (Inr _, s3) \<Rightarrow> (Inr (), s3)))"

fun get_all :: "'s redis_api \<Rightarrow> string list \<Rightarrow> Job list \<Rightarrow> 's \<Rightarrow> Job list res \<times> 's" where
  "get_all api [] jobs s = (Inr jobs, s)"
| "get_all api (sid # ids) jobs s =
     (case redis_GetJob api s sid of
        (Inl e, s1) \<Rightarrow> if errors_Is e ErrNotFound then get_all api ids jobs s1 else (Inl e, s1)
      | (Inr job, s1) \<Rightarrow> get_all api ids (jobs @ [job]) s1)"

definition redis_ListJobsByStatus :: "'s redis_api \<Rightarrow> 's \<Rightarrow> JobStatus \<Rightarrow> Job list res \<times> 's" where
  "redis_ListJobsByStatus api s status =
     (case ra_cmd api s [''ZRANGE'', statusKey (ra_pfx api) status, ''0'', ''-1''] of
        (Inl e, s1) \<Rightarrow> (Inl (ErrWrap ''store: list jobs: %w'' [] e), s1)
      | (Inr r, s1) \<Rightarrow> get_all api (reply_strings r) [] s1)"

definition redis_AppendStepResult :: "'s redis_api \<Rightarrow> 's \<Rightarrow> StepResult \<Rightarrow> unit res \<times> 's" where
  "redis_AppendStepResult api s sr =
     (case ra_cmd api s [''RPUSH'', stepsKey (ra_pfx api) (sr_SessionID sr), Marshal_StepResult sr] of
        (Inl e, s1) \<Rightarrow> (Inl (ErrWrap ''store: append step result: %w'' [] e), s1)
      | (Inr _, s1) \<Rightarrow> (Inr (), s1))"

definition decode_steps :: "string list \<Rightarrow> StepResult list res" where
  "decode_steps items =
     for_each (\<lambda>item out. case Unmarshal_StepResult item of
         Inl e \<Rightarrow> Inl (ErrWrap ''store: decode step result: %w'' [] e)
       | Inr sr \<Rightarrow> Inr (out @ [sr])) items []"

definition redis_ListStepResults :: "'s redis_api \<Rightarrow> 's \<Rightarrow> string \<Rightarrow> StepResult list res \<times> 's" where
  "redis_ListStepResults api s sid =
     (case ra_cmd api s [''LRANGE'', stepsKey (ra_pfx api) sid, ''0'', ''-1''] of
        (Inl e, s1) \<Rightarrow> (Inl (ErrWrap ''store: list step results: %w'' [] e), s1)
      | (Inr r, s1) \<Rightarrow> (decode_steps (reply_strings r), s1))"

definition redis_ops :: "'s redis_api \<Rightarrow> 's store_ops" where
  "redis_ops api =
     \<lparr>op_CreateJob = redis_CreateJob api, op_GetJob = redis_GetJob api,
      op_SetJobStatus = redis_SetJobStatus api, op_ListJobsByStatus = redis_ListJobsByStatus api,
      op_AppendStepResult = redis_AppendStepResult api, op_ListStepResults = redis_ListStepResults api,
      op_Ping = redis_Ping api\<rparr>"

section \<open>The commands\<close>

text \<open>
  The keyspace of a server and the effect of the commands that the store sends, as Redis
  documents them: a missing key is an empty value, a key of another type is an error, and
  an empty sorted set is removed.  Scores are doubles; \<open>EXEC\<close> runs every queued command.
\<close>

datatype rvalue = RVStr string | RVHash "(string \<times> string) list" | RVZset "(string \<times> f64) list"
  | RVList "string list"

type_synonym keyspace = "(string \<times> rvalue) list"

definition simple :: "string \<Rightarrow> reply" where "simple s = Reply CHR ''+'' s 0 [] False"
definition failure :: "string \<Rightarrow> reply" where "failure s = Reply CHR ''-'' s 0 [] False"
definition integer :: "int \<Rightarrow> reply" where "integer n = Reply CHR '':'' [] n [] False"
definition nil_bulk :: reply where "nil_bulk = Reply CHR ''$'' [] 0 [] True"
definition array :: "reply list \<Rightarrow> reply" where "array rs = Reply CHR ''*'' [] 0 rs False"

definition wrongtype :: reply where
  "wrongtype = failure ''WRONGTYPE Operation against a key holding the wrong kind of value''"

definition hash_at :: "keyspace \<Rightarrow> string \<Rightarrow> (string \<times> string) list option" where
  "hash_at ks k = (case map_of ks k of None \<Rightarrow> Some [] | Some (RVHash h) \<Rightarrow> Some h | _ \<Rightarrow> None)"

definition zset_at :: "keyspace \<Rightarrow> string \<Rightarrow> (string \<times> f64) list option" where
  "zset_at ks k = (case map_of ks k of None \<Rightarrow> Some [] | Some (RVZset z) \<Rightarrow> Some z | _ \<Rightarrow> None)"

definition list_at :: "keyspace \<Rightarrow> string \<Rightarrow> string list option" where
  "list_at ks k = (case map_of ks k of None \<Rightarrow> Some [] | Some (RVList l) \<Rightarrow> Some l | _ \<Rightarrow> None)"

definition del_key :: "string \<Rightarrow> keyspace \<Rightarrow> keyspace" where
  "del_key k ks = filter (\<lambda>(l, v). l \<noteq> k) ks"

definition incr_sem :: "string \<Rightarrow> keyspace \<Rightarrow> reply \<times> keyspace" where
  "incr_sem k ks =
     (case (case map_of ks k of None \<Rightarrow> Some ''0'' | Some (RVStr v) \<Rightarrow> Some v | _ \<Rightarrow> None) of
        None \<Rightarrow> (wrongtype, ks)
      | Some v \<Rightarrow>
          (case Atoi v of
             None \<Rightarrow> (failure ''ERR value is not an integer or out of range'', ks)
           | Some n \<Rightarrow>
               if n + 1 < 2 ^ 63 then (integer (n + 1), obj_put k (RVStr (Itoa (n + 1))) ks)
               else (failure ''ERR increment or decrement would overflow'', ks)))"

definition hsetnx_sem :: "string \<Rightarrow> string \<Rightarrow> string \<Rightarrow> keyspace \<Rightarrow> reply \<times> keyspace" where
  "hsetnx_sem k f v ks =
     (case hash_at ks k of
        None \<Rightarrow> (wrongtype, ks)
      | Some h \<Rightarrow> if map_of h f = None then (integer 1, obj_put k (RVHash (obj_put f v h)) ks)
                  else (integer 0, ks))"

fun put_pairs :: "string list \<Rightarrow> (string \<times> string) list \<Rightarrow> (string \<times> string) list" where
  "put_pairs (f # v # rest) h = put_pairs rest (obj_put f v h)"
| "put_pairs fs h = h"

definition hset_sem :: "string \<Rightarrow> string list \<Rightarrow> keyspace \<Rightarrow> reply \<times> keyspace" where
  "hset_sem k fvs ks =
     (case hash_at ks k of
        None \<Rightarrow> (wrongtype, ks)
      | Some h \<Rightarrow> let h' = put_pairs fvs h
                   in (integer (int (length h') - int (length h)), obj_put k (RVHash h') ks))"

definition zadd_sem :: "string \<Rightarrow> string \<Rightarrow> string \<Rightarrow> keyspace \<Rightarrow> reply \<times> keyspace" where
  "zadd_sem k score m ks =
     (case Atoi score of
        None \<Rightarrow> (failure ''ERR value is not a valid float'', ks)
      | Some n \<Rightarrow>
          (case zset_at ks k of
             None \<Rightarrow> (wrongtype, ks)
           | Some z \<Rightarrow> (integer (if m \<in> fst ` set z then 0 else 1), obj_put k (RVZset (obj_put m (f64_of_int n) z)) ks)))"

definition zrem_sem :: "string \<Rightarrow> string \<Rightarrow> keyspace \<Rightarrow> reply \<times> keyspace" where
  "zrem_sem k m ks =
     (case zset_at ks k of
        None \<Rightarrow> (wrongtype, ks)
      | Some z \<Rightarrow>
          let z' = filter (\<lambda>(n, q). n \<noteq> m) z
          in (integer (int (length z) - int (length z')),
              if z' = [] then del_key k ks else obj_put k (RVZset z') ks))"

definition rpush_sem :: "string \<Rightarrow> string \<Rightarrow> keyspace \<Rightarrow> reply \<times> keyspace" where
  "rpush_sem k v ks =
     (case list_at ks k of
        None \<Rightarrow> (wrongtype, ks)
      | Some l \<Rightarrow> (integer (int (length l) + 1), obj_put k (RVList (l @ [v])) ks))"

definition read_sem :: "('a \<Rightarrow> reply) \<Rightarrow> 'a option \<Rightarrow> keyspace \<Rightarrow> reply \<times> keyspace" where
  "read_sem f v ks = (case v of None \<Rightarrow> wrongtype | Some x \<Rightarrow> f x, ks)"

text \<open>By score, and by member among equal scores; the scores here come from integers and are finite.\<close>

definition score_key :: "f64 \<Rightarrow> rat" where
  "score_key x = (case fin_val x of None \<Rightarrow> 0 | Some q \<Rightarrow> q)"

definition z_order :: "(string \<times> f64) list \<Rightarrow> string list" where
  "z_order z = map fst (sort_key (\<lambda>(m, x). (score_key x, m)) z)"

definition exec :: "string list \<Rightarrow> keyspace \<Rightarrow> reply \<times> keyspace" where
  "exec args ks =
     (let cmd = args ! 0; k = args ! 1; n = length args in
      if args = [''PING''] then (simple ''PONG'', ks)
      else if n = 2 \<and> cmd = ''INCR'' then incr_sem k ks
      else if n = 4 \<and> cmd = ''HSETNX'' then hsetnx_sem k (args ! 2) (args ! 3) ks
      else if 4 \<le> n \<and> cmd = ''HSET'' \<and> even n then hset_sem k (drop 2 args) ks
      else if n = 2 \<and> cmd = ''HGETALL'' then
        read_sem (\<lambda>h. array (concat (map (\<lambda>(f, v). [bulk_reply f, bulk_reply v]) h))) (hash_at ks k) ks
      else if 3 \<le> n \<and> cmd = ''HMGET'' then
        read_sem (\<lambda>h. array (map (\<lambda>f. case map_of h f of None \<Rightarrow> nil_bulk | Some v \<Rightarrow> bulk_reply v) (drop 2 args)))
          (hash_at ks k) ks
      else if n = 4 \<and> cmd = ''ZADD'' then zadd_sem k (args ! 2) (args ! 3) ks
      else if n = 3 \<and> cmd = ''ZREM'' then zrem_sem k (args ! 2) ks
      else if n = 4 \<and> cmd = ''ZRANGE'' \<and> drop 2 args = [''0'', ''-1''] then
        read_sem (\<lambda>z. array (map bulk_reply (z_order z))) (zset_at ks k) ks
      else if n = 3 \<and> cmd = ''RPUSH'' then rpush_sem k (args ! 2) ks
      else if n = 4 \<and> cmd = ''LRANGE'' \<and> drop 2 args = [''0'', ''-1''] then
        read_sem (\<lambda>l. array (map bulk_reply l)) (list_at ks k) ks
      else (failure ''ERR unknown command'', ks))"

fun exec_all :: "string list list \<Rightarrow> keyspace \<Rightarrow> reply list \<times> keyspace" where
  "exec_all [] ks = ([], ks)"
| "exec_all (c # cs) ks =
     (case exec c ks of (r, ks1) \<Rightarrow> (case exec_all cs ks1 of (rs, ks2) \<Rightarrow> (r # rs, ks2)))"

end
