(* ===== verification/RedisSpec.thy ===== *)
theory RedisSpec
  imports Redis
begin

text \<open>
  The Redis store implements the contract of the store on every server that runs the
  commands as documented: the invariant ties the job hashes to the index sets, and the
  jobs in the order of their keys are the abstract state.
\<close>

section \<open>The commands that the store sends\<close>

lemma exec_simps:
  "exec [''PING''] ks = (simple ''PONG'', ks)"
  "exec [''INCR'', k] ks = incr_sem k ks"
  "exec [''HSETNX'', k, f, v] ks = hsetnx_sem k f v ks"
  "even (length fvs) \<Longrightarrow> 2 \<le> length fvs \<Longrightarrow> exec (''HSET'' # k # fvs) ks = hset_sem k fvs ks"
  "exec [''HGETALL'', k] ks =
     read_sem (\<lambda>h. array (concat (map (\<lambda>(f, v). [bulk_reply f, bulk_reply v]) h))) (hash_at ks k) ks"
  "exec [''HMGET'', k, f, g] ks =
     read_sem (\<lambda>h. array (map (\<lambda>f. case map_of h f of None \<Rightarrow> nil_bulk | Some v \<Rightarrow> bulk_reply v) [f, g]))
       (hash_at ks k) ks"
  "exec [''ZADD'', k, score, m] ks = zadd_sem k score m ks"
  "exec [''ZREM'', k, m] ks = zrem_sem k m ks"
  "exec [''ZRANGE'', k, ''0'', ''-1''] ks = read_sem (\<lambda>z. array (map bulk_reply (z_order z))) (zset_at ks k) ks"
  "exec [''RPUSH'', k, v] ks = rpush_sem k v ks"
  "exec [''LRANGE'', k, ''0'', ''-1''] ks = read_sem (\<lambda>l. array (map bulk_reply l)) (list_at ks k) ks"
  by (simp_all add: exec_def)

definition cmd_result :: "reply \<times> keyspace \<Rightarrow> reply res \<times> keyspace" where
  "cmd_result p = (if r_kind (fst p) = CHR ''-'' then Inl (RedisError (r_str (fst p))) else Inr (fst p), snd p)"

definition multi_result :: "reply list \<times> keyspace \<Rightarrow> reply list res \<times> keyspace" where
  "multi_result p = (exec_result (array (fst p)), snd p)"

lemmas reply_kinds [simp] = simple_def failure_def integer_def nil_bulk_def array_def bulk_reply_def

section \<open>The abstract state\<close>

definition job_entry :: "string \<Rightarrow> string \<times> rvalue \<Rightarrow> Job list" where
  "job_entry pfx e =
     (if prefix (pfx @ ''job:'') (fst e)
      then (case snd e of RVHash h \<Rightarrow> [jobFromFields h] | _ \<Rightarrow> []) else [])"

definition jobs_of :: "string \<Rightarrow> keyspace \<Rightarrow> Job list" where
  "jobs_of pfx ks = concat (map (job_entry pfx) ks)"

definition steps_of :: "string list \<Rightarrow> StepResult list" where
  "steps_of items = concat (map (\<lambda>i. case Unmarshal_StepResult i of Inl _ \<Rightarrow> [] | Inr sr \<Rightarrow> [sr]) items)"

definition redis_abs :: "string \<Rightarrow> keyspace \<Rightarrow> astore" where
  "redis_abs pfx ks = \<lparr>as_jobs = jobs_of pfx ks,
     as_steps = (\<lambda>sid. case list_at ks (stepsKey pfx sid) of None \<Rightarrow> [] | Some l \<Rightarrow> steps_of l)\<rparr>"

section \<open>The invariant\<close>

definition hash_ok :: "string \<Rightarrow> (string \<times> string) list \<Rightarrow> bool" where
  "hash_ok sid h \<longleftrightarrow> distinct (map fst h) \<and> h \<noteq> [] \<and> map_of h ''session_id'' = Some sid \<and>
     (\<exists>st. map_of h ''status'' = Some st \<and> st \<noteq> []) \<and>
     (\<exists>q n. map_of h ''seq'' = Some q \<and> Atoi q = Some n)"

definition entry_ok :: "string \<Rightarrow> string \<times> rvalue \<Rightarrow> bool" where
  "entry_ok pfx e \<longleftrightarrow>
     (\<forall>sid. fst e = jobKey pfx sid \<longrightarrow> (\<exists>h. snd e = RVHash h \<and> hash_ok sid h)) \<and>
     (\<forall>st. fst e = statusKey pfx st \<longrightarrow> (\<exists>z. snd e = RVZset z \<and> distinct (map fst z))) \<and>
     (\<forall>sid. fst e = stepsKey pfx sid \<longrightarrow>
        (\<exists>l. snd e = RVList l \<and> (\<forall>i\<in>set l. \<exists>sr. Unmarshal_StepResult i = Inr sr))) \<and>
     (fst e = seqKey pfx \<longrightarrow> (\<exists>n<2 ^ 63. snd e = RVStr (Itoa (int n))))"

definition indexed :: "string \<Rightarrow> keyspace \<Rightarrow> JobStatus \<Rightarrow> string set" where
  "indexed pfx ks st = (case zset_at ks (statusKey pfx st) of None \<Rightarrow> {} | Some z \<Rightarrow> fst ` set z)"

definition sessions_in :: "JobStatus \<Rightarrow> Job list \<Rightarrow> string set" where
  "sessions_in st js = SessionID ` {j \<in> set js. job_Status j = st}"

definition base_ok :: "string \<Rightarrow> keyspace \<Rightarrow> bool" where
  "base_ok pfx ks \<longleftrightarrow> distinct (map fst ks) \<and> (\<forall>e\<in>set ks. entry_ok pfx e)"

definition redis_ok :: "string \<Rightarrow> keyspace \<Rightarrow> bool" where
  "redis_ok pfx ks \<longleftrightarrow> base_ok pfx ks \<and> (\<forall>st. indexed pfx ks st = sessions_in st (jobs_of pfx ks))"

lemma key_eqs [simp]:
  "jobKey pfx a = jobKey pfx b \<longleftrightarrow> a = b" "statusKey pfx a = statusKey pfx b \<longleftrightarrow> a = b"
  "stepsKey pfx a = stepsKey pfx b \<longleftrightarrow> a = b"
  "jobKey pfx a \<noteq> statusKey pfx b" "statusKey pfx b \<noteq> jobKey pfx a"
  "jobKey pfx a \<noteq> stepsKey pfx b" "stepsKey pfx b \<noteq> jobKey pfx a"
  "statusKey pfx a \<noteq> stepsKey pfx b" "stepsKey pfx b \<noteq> statusKey pfx a"
  "jobKey pfx a \<noteq> seqKey pfx" "seqKey pfx \<noteq> jobKey pfx a"
  "statusKey pfx a \<noteq> seqKey pfx" "seqKey pfx \<noteq> statusKey pfx a"
  "stepsKey pfx a \<noteq> seqKey pfx" "seqKey pfx \<noteq> stepsKey pfx a"
  by (auto simp: jobKey_def statusKey_def stepsKey_def seqKey_def)

lemma job_prefix: "prefix (pfx @ ''job:'') k \<longleftrightarrow> (\<exists>sid. k = jobKey pfx sid)"
  by (auto simp: prefix_def jobKey_def)

lemma job_entry_simps:
  "job_entry pfx (jobKey pfx sid, RVHash h) = [jobFromFields h]"
  "\<forall>sid. k \<noteq> jobKey pfx sid \<Longrightarrow> job_entry pfx (k, v) = []"
  by (auto simp: job_entry_def job_prefix)

text \<open>Keys that were not there come last; others keep their place.\<close>

lemma obj_put_new: "k \<notin> fst ` set ks \<Longrightarrow> obj_put k v ks = ks @ [(k, v)]"
  by (induction ks) auto

lemma jobs_of_put_other: "\<forall>sid. k \<noteq> jobKey pfx sid \<Longrightarrow> jobs_of pfx (obj_put k v ks) = jobs_of pfx ks"
  by (induction ks) (auto simp: jobs_of_def job_entry_simps)

lemma jobs_of_del_other: "\<forall>sid. k \<noteq> jobKey pfx sid \<Longrightarrow> jobs_of pfx (del_key k ks) = jobs_of pfx ks"
  by (induction ks) (auto simp: jobs_of_def del_key_def job_entry_simps)

lemma jobs_of_put_new:
  "jobKey pfx sid \<notin> fst ` set ks \<Longrightarrow>
     jobs_of pfx (obj_put (jobKey pfx sid) (RVHash h) ks) = jobs_of pfx ks @ [jobFromFields h]"
  by (simp add: obj_put_new jobs_of_def job_entry_simps)

section \<open>Jobs and their hashes\<close>

lemma SessionID_jobFromFields: "hash_ok sid h \<Longrightarrow> SessionID (jobFromFields h) = sid"
  by (simp add: hash_ok_def jobFromFields_def field_def)

lemma jobs_of_elem:
  assumes "\<forall>e\<in>set ks. entry_ok pfx e" "j \<in> set (jobs_of pfx ks)"
  obtains h where "(jobKey pfx (SessionID j), RVHash h) \<in> set ks" "j = jobFromFields h" "hash_ok (SessionID j) h"
proof -
  obtain k v where kv: "(k, v) \<in> set ks" "j \<in> set (job_entry pfx (k, v))"
    using assms(2) by (auto simp: jobs_of_def)
  have "prefix (pfx @ ''job:'') k"
    by (rule ccontr) (use kv(2) in \<open>simp add: job_entry_def\<close>)
  then obtain sid where k: "k = jobKey pfx sid" by (auto simp: job_prefix)
  with kv(2) obtain h where "v = RVHash h" "j = jobFromFields h"
    by (cases v) (auto simp: job_entry_def job_prefix)
  moreover from this assms(1) kv(1) k have "hash_ok sid h" by (fastforce simp: entry_ok_def)
  ultimately show thesis using that kv(1) k SessionID_jobFromFields by metis
qed

lemma jobs_of_intro: "(jobKey pfx sid, RVHash h) \<in> set ks \<Longrightarrow> jobFromFields h \<in> set (jobs_of pfx ks)"
  unfolding jobs_of_def by (simp, rule bexI) (auto simp: job_entry_simps)

lemma jobs_of_Cons: "jobs_of pfx (e # ks) = job_entry pfx e @ jobs_of pfx ks"
  by (simp add: jobs_of_def)

lemma job_entry_ok:
  assumes "entry_ok pfx (k, v)"
  obtains (job) sid h where "k = jobKey pfx sid" "v = RVHash h" "hash_ok sid h"
    "job_entry pfx (k, v) = [jobFromFields h]"
  | (other) "\<forall>sid. k \<noteq> jobKey pfx sid" "job_entry pfx (k, v) = []"
proof (cases "\<exists>sid. k = jobKey pfx sid")
  case True
  then obtain sid where k: "k = jobKey pfx sid" by blast
  with assms obtain h where "v = RVHash h" "hash_ok sid h" by (auto simp: entry_ok_def)
  with k job job_entry_simps(1) show thesis by metis
next
  case False
  with other show thesis by (simp add: job_entry_simps)
qed

lemma absent_job:
  assumes "\<forall>e\<in>set ks. entry_ok pfx e" "jobKey pfx sid \<notin> fst ` set ks" "j \<in> set (jobs_of pfx ks)"
  shows "SessionID j \<noteq> sid"
  using assms by (elim jobs_of_elem) force+

lemma distinct_sessions:
  assumes "\<forall>e\<in>set ks. entry_ok pfx e" "distinct (map fst ks)"
  shows "distinct (map SessionID (jobs_of pfx ks))"
  using assms
proof (induction ks)
  case (Cons e ks)
  obtain k v where e: "e = (k, v)" by fastforce
  with Cons.prems have "entry_ok pfx (k, v)" by simp
  then show ?case
  proof (cases rule: job_entry_ok)
    case (job sid h)
    with Cons e absent_job [of ks pfx sid] show ?thesis
      by (auto simp: jobs_of_Cons SessionID_jobFromFields)
  next
    case other
    with Cons e show ?thesis by (simp add: jobs_of_Cons)
  qed
qed (simp add: jobs_of_def)

lemma jobs_of_put_job:
  assumes "\<forall>e\<in>set ks. entry_ok pfx e" "distinct (map fst ks)" "jobKey pfx sid \<in> fst ` set ks"
  shows "jobs_of pfx (obj_put (jobKey pfx sid) (RVHash h') ks) =
    map (\<lambda>j. if SessionID j = sid then jobFromFields h' else j) (jobs_of pfx ks)"
  using assms
proof (induction ks)
  case (Cons e ks)
  obtain k v where e: "e = (k, v)" by fastforce
  with Cons.prems have ok: "entry_ok pfx (k, v)" "\<forall>e\<in>set ks. entry_ok pfx e" by auto
  show ?case
  proof (cases "k = jobKey pfx sid")
    case True
    with Cons.prems e have "jobKey pfx sid \<notin> fst ` set ks" by auto
    then have "map (\<lambda>j. if SessionID j = sid then jobFromFields h' else j) (jobs_of pfx ks) = jobs_of pfx ks"
      using absent_job [OF ok(2)] by (intro map_idI) auto
    with ok(1) True e show ?thesis
      by (cases rule: job_entry_ok) (auto simp: jobs_of_Cons job_entry_simps SessionID_jobFromFields)
  next
    case False
    with Cons e have IH: "jobs_of pfx (obj_put (jobKey pfx sid) (RVHash h') ks) =
      map (\<lambda>j. if SessionID j = sid then jobFromFields h' else j) (jobs_of pfx ks)" by auto
    from ok(1) show ?thesis
      by (cases rule: job_entry_ok) (use False e IH in \<open>auto simp: jobs_of_Cons SessionID_jobFromFields\<close>)
  qed
qed simp

lemma find_distinct: "distinct (map f xs) \<Longrightarrow> x \<in> set xs \<Longrightarrow> find (\<lambda>y. f y = f x) xs = Some x"
  by (induction xs) force+

lemma job_lookup:
  assumes "redis_ok pfx ks"
  shows "map_of ks (jobKey pfx sid) = None \<and> job_of (redis_abs pfx ks) sid = None \<or>
    (\<exists>h. map_of ks (jobKey pfx sid) = Some (RVHash h) \<and> hash_ok sid h \<and>
         job_of (redis_abs pfx ks) sid = Some (jobFromFields h))"
proof (cases "map_of ks (jobKey pfx sid)")
  case None
  then have "jobKey pfx sid \<notin> fst ` set ks" by (simp add: map_of_eq_None_iff)
  moreover have "\<forall>e\<in>set ks. entry_ok pfx e" using assms by (simp add: redis_ok_def base_ok_def)
  ultimately have "job_of (redis_abs pfx ks) sid = None"
    using absent_job [of ks pfx sid] by (auto simp: job_of_None redis_abs_def)
  with None show ?thesis by simp
next
  case (Some v)
  then have mem: "(jobKey pfx sid, v) \<in> set ks" by (rule map_of_SomeD)
  with assms have "entry_ok pfx (jobKey pfx sid, v)" by (auto simp: redis_ok_def base_ok_def)
  then obtain h where h: "v = RVHash h" "hash_ok sid h" by (auto simp: entry_ok_def)
  have "distinct (map SessionID (jobs_of pfx ks))"
    using assms distinct_sessions by (auto simp: redis_ok_def base_ok_def)
  from find_distinct [OF this jobs_of_intro [OF mem [unfolded h(1)]]]
  have "job_of (redis_abs pfx ks) sid = Some (jobFromFields h)"
    using SessionID_jobFromFields [OF h(2)] by (simp add: job_of_def redis_abs_def)
  with Some h show ?thesis by simp
qed

section \<open>Changes of the keyspace\<close>

lemma obj_put_twice [simp]: "obj_put k w (obj_put k v ks) = obj_put k w ks"
  by (induction ks) auto

lemma map_of_del_key: "map_of (del_key k ks) = (map_of ks)(k := None)"
  by (induction ks) (auto simp: del_key_def fun_eq_iff)

lemma entry_ok_simps [simp]:
  "entry_ok pfx (jobKey pfx sid, v) \<longleftrightarrow> (\<exists>h. v = RVHash h \<and> hash_ok sid h)"
  "entry_ok pfx (statusKey pfx st, v) \<longleftrightarrow> (\<exists>z. v = RVZset z \<and> distinct (map fst z))"
  "entry_ok pfx (stepsKey pfx sid, v) \<longleftrightarrow>
     (\<exists>l. v = RVList l \<and> (\<forall>i\<in>set l. \<exists>sr. Unmarshal_StepResult i = Inr sr))"
  "entry_ok pfx (seqKey pfx, v) \<longleftrightarrow> (\<exists>n<2 ^ 63. v = RVStr (Itoa (int n)))"
  by (simp_all add: entry_ok_def)

lemma base_ok_put: "base_ok pfx ks \<Longrightarrow> entry_ok pfx (k, v) \<Longrightarrow> base_ok pfx (obj_put k v ks)"
  using set_obj_put [of k v ks] by (auto simp: base_ok_def distinct_obj_put)

lemma base_ok_del: "base_ok pfx ks \<Longrightarrow> base_ok pfx (del_key k ks)"
  by (auto simp: base_ok_def del_key_def intro: distinct_map_filter)

lemma base_ok_at: "base_ok pfx ks \<Longrightarrow> map_of ks k = Some v \<Longrightarrow> entry_ok pfx (k, v)"
  by (auto simp: base_ok_def dest: map_of_SomeD)

lemma zset_at_status:
  assumes "base_ok pfx ks"
  obtains z where "zset_at ks (statusKey pfx st) = Some z" "distinct (map fst z)" "indexed pfx ks st = fst ` set z"
proof (cases "map_of ks (statusKey pfx st)")
  case None
  then show thesis using that by (simp add: zset_at_def indexed_def)
next
  case (Some v)
  with base_ok_at [OF assms] obtain z where "v = RVZset z" "distinct (map fst z)" by fastforce
  with Some that show thesis by (simp add: zset_at_def indexed_def)
qed

lemma zset_at_simps:
  "zset_at (obj_put k (RVZset z) ks) k = Some z"
  "k \<noteq> l \<Longrightarrow> zset_at (obj_put k v ks) l = zset_at ks l"
  "zset_at (del_key k ks) l = (if l = k then Some [] else zset_at ks l)"
  by (auto simp: zset_at_def map_of_obj_put map_of_del_key)

lemma indexed_simps:
  "\<forall>st. k \<noteq> statusKey pfx st \<Longrightarrow> indexed pfx (obj_put k v ks) st = indexed pfx ks st"
  "indexed pfx (obj_put (statusKey pfx st) (RVZset z) ks) st' = (if st' = st then fst ` set z else indexed pfx ks st')"
  "indexed pfx (del_key (statusKey pfx st) ks) st' = (if st' = st then {} else indexed pfx ks st')"
  by (auto simp: indexed_def zset_at_simps)

lemma list_at_other: "l \<noteq> k \<Longrightarrow> list_at (obj_put k v ks) l = list_at ks l"
  "l \<noteq> k \<Longrightarrow> list_at (del_key k ks) l = list_at ks l"
  by (simp_all add: list_at_def map_of_obj_put map_of_del_key)

lemma sessions_in_append:
  "sessions_in st (js @ [j]) = sessions_in st js \<union> (if job_Status j = st then {SessionID j} else {})"
  by (auto simp: sessions_in_def)

lemma sessions_in_update:
  "sessions_in st' (map (update_job sid st r e) js) =
     (sessions_in st' js - {sid}) \<union> (if st' = st \<and> sid \<in> SessionID ` set js then {sid} else {})"
proof (induction js)
  case (Cons j js)
  have "sessions_in s (i # is) = (if job_Status i = s then {SessionID i} else {}) \<union> sessions_in s is" for s i "is"
    by (auto simp: sessions_in_def)
  with Cons show ?case by (auto simp: update_job_def)
qed (simp add: sessions_in_def)

lemma redis_abs_eqI:
  "jobs_of pfx ks' = js \<Longrightarrow> (\<And>sid. list_at ks' (stepsKey pfx sid) = list_at ks (stepsKey pfx sid)) \<Longrightarrow>
     redis_abs pfx ks' = (redis_abs pfx ks)\<lparr>as_jobs := js\<rparr>"
  by (simp add: redis_abs_def)

lemma redis_put_seq:
  assumes "redis_ok pfx ks" "n < 2 ^ 63"
  shows "redis_ok pfx (obj_put (seqKey pfx) (RVStr (Itoa (int n))) ks)"
    "redis_abs pfx (obj_put (seqKey pfx) (RVStr (Itoa (int n))) ks) = redis_abs pfx ks"
  using assms base_ok_put [of pfx ks "seqKey pfx"]
  by (auto simp: redis_ok_def indexed_simps jobs_of_put_other redis_abs_def list_at_other)

text \<open>A new job enters with its hash and the index set of its status.\<close>

lemma redis_add:
  fixes q :: f64
  assumes ok: "redis_ok pfx ks" and new: "map_of ks (jobKey pfx sid) = None" and h: "hash_ok sid h"
    and z: "zset_at ks (statusKey pfx (field h ''status'')) = Some z"
  defines "ks' \<equiv> obj_put (statusKey pfx (field h ''status'')) (RVZset (obj_put sid q z))
                   (obj_put (jobKey pfx sid) (RVHash h) ks)"
  shows "redis_ok pfx ks'" "redis_abs pfx ks' = (redis_abs pfx ks)\<lparr>as_jobs := jobs_of pfx ks @ [jobFromFields h]\<rparr>"
proof -
  let ?st = "field h ''status''"
  have base: "base_ok pfx ks" using ok by (simp add: redis_ok_def)
  obtain z' where z': "zset_at ks (statusKey pfx ?st) = Some z'" "distinct (map fst z')"
    "indexed pfx ks ?st = fst ` set z'"
    using zset_at_status [OF base] by blast
  with z have zz: "z' = z" by simp
  have js: "jobs_of pfx ks' = jobs_of pfx ks @ [jobFromFields h]"
    using new by (simp add: ks'_def jobs_of_put_other jobs_of_put_new map_of_eq_None_iff)
  show "redis_abs pfx ks' = (redis_abs pfx ks)\<lparr>as_jobs := jobs_of pfx ks @ [jobFromFields h]\<rparr>"
    by (rule redis_abs_eqI [OF js]) (simp add: ks'_def list_at_other)
  have "base_ok pfx ks'"
    unfolding ks'_def using base h z'(2) zz by (intro base_ok_put) (auto simp: distinct_obj_put)
  moreover have "indexed pfx ks' st = sessions_in st (jobs_of pfx ks')" for st
    using ok z'(3) zz SessionID_jobFromFields [OF h]
    by (auto simp: ks'_def js [unfolded ks'_def] redis_ok_def indexed_simps sessions_in_append
        set_map_fst_obj_put jobFromFields_def)
  ultimately show "redis_ok pfx ks'" by (simp add: redis_ok_def)
qed

text \<open>A job that changes its hash, and moves between the index sets when its status changes.\<close>

definition moved_hash :: "string \<Rightarrow> JobStatus \<Rightarrow> string \<Rightarrow> string \<Rightarrow> (string \<times> string) list \<Rightarrow> (string \<times> string) list" where
  "moved_hash now st result err h =
     put_pairs [''status'', st, ''result'', result, ''error'', err, ''updated_at'', now] h"

lemma moved_hash_lookup:
  "map_of (moved_hash now st result err h) k =
     (if k = ''status'' then Some st else if k = ''result'' then Some result
      else if k = ''error'' then Some err else if k = ''updated_at'' then Some now else map_of h k)"
  by (simp add: moved_hash_def map_of_obj_put)

lemma moved_hash_ok:
  assumes "hash_ok sid h" "st \<noteq> []"
  shows "hash_ok sid (moved_hash now st result err h)"
proof -
  have "distinct (map fst (moved_hash now st result err h))"
    using assms(1) by (simp add: moved_hash_def hash_ok_def distinct_obj_put)
  moreover have "moved_hash now st result err h \<noteq> []"
    using moved_hash_lookup [of now st result err h "''status''"] by auto
  ultimately show ?thesis
    using assms by (auto simp: hash_ok_def moved_hash_lookup dest: map_of_SomeD)
qed

lemma moved_job:
  "hash_ok sid h \<Longrightarrow>
     jobFromFields (moved_hash now st result err h) = update_job sid st result err (jobFromFields h)"
  by (simp add: jobFromFields_def field_def moved_hash_lookup update_job_def hash_ok_def)

lemma jobs_of_moved:
  assumes "base_ok pfx ks" "map_of ks (jobKey pfx sid) = Some (RVHash h)"
  shows "jobs_of pfx (obj_put (jobKey pfx sid) (RVHash (moved_hash now st result err h)) ks) =
    map (update_job sid st result err) (jobs_of pfx ks)"
proof -
  have h: "hash_ok sid h" using base_ok_at [OF assms] by auto
  have "jobKey pfx sid \<in> fst ` set ks" using assms(2) by (force dest: map_of_SomeD)
  with assms(1) have "jobs_of pfx (obj_put (jobKey pfx sid) (RVHash (moved_hash now st result err h)) ks) =
      map (\<lambda>j. if SessionID j = sid then jobFromFields (moved_hash now st result err h) else j) (jobs_of pfx ks)"
    by (intro jobs_of_put_job) (auto simp: base_ok_def)
  moreover have "j = jobFromFields h" if j: "j \<in> set (jobs_of pfx ks)" "SessionID j = sid" for j
  proof -
    obtain h2 where "(jobKey pfx sid, RVHash h2) \<in> set ks" "j = jobFromFields h2"
      using jobs_of_elem [OF _ j(1)] assms(1) j(2) by (metis base_ok_def)
    with assms show ?thesis by (metis base_ok_def map_of_eq_Some_iff option.inject rvalue.inject(2))
  qed
  ultimately show ?thesis by (auto simp: moved_job [OF h] update_job_def)
qed

lemma redis_move_abs:
  assumes "base_ok pfx ks" "map_of ks (jobKey pfx sid) = Some (RVHash h)"
    and "jobs_of pfx ks' = jobs_of pfx (obj_put (jobKey pfx sid) (RVHash (moved_hash now st result err h)) ks)"
    and "\<And>s. list_at ks' (stepsKey pfx s) = list_at ks (stepsKey pfx s)"
  shows "redis_abs pfx ks' = set_status sid st result err (redis_abs pfx ks)"
  using assms(3,4) jobs_of_moved [OF assms(1,2), of now st result err]
  by (simp add: redis_abs_def set_status_def)

text \<open>The sets of the index after the hash has moved.\<close>

lemma sessions_moved:
  assumes "redis_ok pfx ks" "map_of ks (jobKey pfx sid) = Some (RVHash h)"
  shows "sessions_in s (jobs_of pfx (obj_put (jobKey pfx sid) (RVHash (moved_hash now st result err h)) ks)) =
    (indexed pfx ks s - {sid}) \<union> (if s = st then {sid} else {})"
    and "sid \<in> indexed pfx ks s \<longleftrightarrow> s = field h ''status''"
proof -
  have base: "base_ok pfx ks" and h: "hash_ok sid h"
    using assms base_ok_at by (fastforce simp: redis_ok_def)+
  have mem: "jobFromFields h \<in> set (jobs_of pfx ks)"
    using assms(2) by (intro jobs_of_intro) (rule map_of_SomeD)
  then have in_js: "sid \<in> SessionID ` set (jobs_of pfx ks)"
    using SessionID_jobFromFields [OF h] by force
  then show "sessions_in s (jobs_of pfx (obj_put (jobKey pfx sid) (RVHash (moved_hash now st result err h)) ks)) =
      (indexed pfx ks s - {sid}) \<union> (if s = st then {sid} else {})"
    using assms(1) by (simp add: jobs_of_moved [OF base assms(2)] sessions_in_update redis_ok_def)
  have "distinct (map SessionID (jobs_of pfx ks))"
    using base distinct_sessions by (auto simp: base_ok_def)
  then have "j = jobFromFields h" if "j \<in> set (jobs_of pfx ks)" "SessionID j = sid" for j
    using that mem SessionID_jobFromFields [OF h] by (metis distinct_map inj_onD)
  then have "sid \<in> sessions_in s (jobs_of pfx ks) \<longleftrightarrow> job_Status (jobFromFields h) = s"
    using mem SessionID_jobFromFields [OF h] unfolding sessions_in_def by blast
  with assms(1) show "sid \<in> indexed pfx ks s \<longleftrightarrow> s = field h ''status''"
    by (auto simp: redis_ok_def jobFromFields_def)
qed

section \<open>Single commands\<close>

lemma hash_at_job:
  "map_of ks (jobKey pfx sid) = Some (RVHash h) \<Longrightarrow> hash_at ks (jobKey pfx sid) = Some h"
  "map_of ks (jobKey pfx sid) = None \<Longrightarrow> hash_at ks (jobKey pfx sid) = Some []"
  by (simp_all add: hash_at_def)

lemma incr_seq:
  assumes "redis_ok pfx ks"
  obtains (full) e where "map_of ks (seqKey pfx) = Some (RVStr (Itoa (2 ^ 63 - 1)))"
    "incr_sem (seqKey pfx) ks = (failure e, ks)"
  | (next_seq) n where "n < 2 ^ 63"
    "incr_sem (seqKey pfx) ks = (integer (int n), obj_put (seqKey pfx) (RVStr (Itoa (int n))) ks)"
proof (cases "map_of ks (seqKey pfx)")
  case None
  have "Atoi ''0'' = Some 0" by code_simp
  with None next_seq [of 1] show thesis by (simp add: incr_sem_def)
next
  case (Some v)
  with assms base_ok_at obtain n where v: "v = RVStr (Itoa (int n))" "n < 2 ^ 63"
    by (fastforce simp: redis_ok_def)
  note a = Atoi_Itoa_nat [OF v(2)]
  show thesis
  proof (cases "Suc n < 2 ^ 63")
    case True
    then have "int (Suc n) < int (2 ^ 63)" by (simp only: of_nat_less_iff)
    then have "int n + 1 < 2 ^ 63" by simp
    with True Some v a next_seq [of "Suc n"] show thesis by (simp add: incr_sem_def ac_simps)
  next
    case False
    with v(2) have "Suc n = 2 ^ 63" by linarith
    then have "int (Suc n) = int (2 ^ 63)" by (rule arg_cong)
    then have n: "int n = 2 ^ 63 - 1" by simp
    then have "\<not> int n + 1 < 2 ^ 63" by simp
    with Some v a n full show thesis by (simp add: incr_sem_def)
  qed
qed

lemma fields_round_trip:
  "distinct (map fst (m @ h)) \<Longrightarrow>
     pair_fields (concat (map (\<lambda>(f, v). [bulk_reply f, bulk_reply v]) h)) m = m @ h"
proof (induction h arbitrary: m)
  case (Cons p h)
  obtain f v where p: "p = (f, v)" by fastforce
  with Cons.prems have "f \<notin> fst ` set m" by auto
  then have "obj_put f v m = m @ [(f, v)]" by (rule obj_put_new)
  with Cons.IH [of "m @ [(f, v)]"] Cons.prems p show ?case by simp
qed simp

section \<open>The transactions\<close>

definition new_hash :: "string \<Rightarrow> int \<Rightarrow> Job \<Rightarrow> (string \<times> string) list" where
  "new_hash now seq job =
     [(''session_id'', SessionID job), (''kind'', job_Kind job), (''target_id'', TargetID job),
      (''status'', job_Status job), (''input'', job_Input job), (''result'', job_Result job),
      (''error'', job_Error job), (''seq'', Itoa seq), (''created_at'', now), (''updated_at'', now)]"

lemma new_hash_ok:
  "job_Status job \<noteq> [] \<Longrightarrow> n < 2 ^ 63 \<Longrightarrow> hash_ok (SessionID job) (new_hash now (int n) job)"
  by (simp add: hash_ok_def new_hash_def Atoi_Itoa_nat)

lemma new_hash_job: "jobFromFields (new_hash now seq job) = job" "field (new_hash now seq job) ''status'' = job_Status job"
  by (simp_all add: jobFromFields_def field_def new_hash_def)

lemma hset_new:
  assumes "hash_at ks (jobKey pfx (SessionID job)) = Some [(''session_id'', SessionID job)]"
  shows "exec (hd (create_cmds pfx now seq job)) ks =
    (integer 9, obj_put (jobKey pfx (SessionID job)) (RVHash (new_hash now seq job)) ks)"
  using assms by (simp add: create_cmds_def exec_simps hset_sem_def new_hash_def)

lemma create_transaction:
  assumes ok: "redis_ok pfx ks" and new: "map_of ks (jobKey pfx (SessionID job)) = None"
    and st: "job_Status job \<noteq> []" and n: "n < 2 ^ 63"
  obtains rs ks' where
    "exec_all (create_cmds pfx now (int n) job)
       (obj_put (jobKey pfx (SessionID job)) (RVHash [(''session_id'', SessionID job)]) ks) = (rs, ks')"
    "exec_result (array rs) = Inr rs" "redis_ok pfx ks'"
    "redis_abs pfx ks' = (redis_abs pfx ks)\<lparr>as_jobs := jobs_of pfx ks @ [job]\<rparr>"
proof -
  let ?k = "jobKey pfx (SessionID job)"
  let ?ks0 = "obj_put ?k (RVHash [(''session_id'', SessionID job)]) ks"
  let ?ks1 = "obj_put ?k (RVHash (new_hash now (int n) job)) ks"
  have base: "base_ok pfx ks" using ok by (simp add: redis_ok_def)
  obtain z where z: "zset_at ks (statusKey pfx (job_Status job)) = Some z"
    using zset_at_status [OF base] by blast
  then have z1: "zset_at ?ks1 (statusKey pfx (job_Status job)) = Some z" by (simp add: zset_at_simps)
  have "hash_at ?ks0 ?k = Some [(''session_id'', SessionID job)]"
    by (simp add: hash_at_def map_of_obj_put)
  from hset_new [OF this, of now "int n"]
  have 1: "exec (hd (create_cmds pfx now (int n) job)) ?ks0 = (integer 9, ?ks1)" by simp
  let ?ks2 = "obj_put (statusKey pfx (job_Status job)) (RVZset (obj_put (SessionID job) (f64_of_int (int n)) z)) ?ks1"
  have 2: "exec (create_cmds pfx now (int n) job ! 1) ?ks1 =
      (integer (if SessionID job \<in> fst ` set z then 0 else 1), ?ks2)"
    using z1 by (simp add: create_cmds_def exec_simps zadd_sem_def Atoi_Itoa_nat [OF n])
  have cmds: "create_cmds pfx now (int n) job =
      [hd (create_cmds pfx now (int n) job), create_cmds pfx now (int n) job ! 1]"
    by (simp add: create_cmds_def)
  have "exec_all (create_cmds pfx now (int n) job) ?ks0 =
      ([integer 9, integer (if SessionID job \<in> fst ` set z then 0 else 1)], ?ks2)"
    by (subst cmds) (simp only: exec_all.simps 1 2 prod.case)
  moreover note redis_add [OF ok new new_hash_ok [OF st n] z [folded new_hash_job(2) [of now "int n" job]],
      of "f64_of_int (int n)", unfolded new_hash_job]
  ultimately show thesis by (intro that) (auto simp: exec_result_def)
qed

text \<open>The three commands of a status change, one after the other.\<close>

lemma hset_moved:
  assumes "hash_at ks (jobKey pfx sid) = Some h"
  shows "\<exists>m. exec [''HSET'', jobKey pfx sid, ''status'', st, ''result'', result, ''error'', err, ''updated_at'', now] ks =
    (integer m, obj_put (jobKey pfx sid) (RVHash (moved_hash now st result err h)) ks)"
  using assms by (simp add: exec_simps hset_sem_def moved_hash_def Let_def)

lemma zrem_indexed:
  assumes "base_ok pfx ks"
  obtains m ks' where "exec [''ZREM'', statusKey pfx st, sid] ks = (integer m, ks')" "base_ok pfx ks'"
    "\<And>s. indexed pfx ks' s = (if s = st then indexed pfx ks s - {sid} else indexed pfx ks s)"
    "jobs_of pfx ks' = jobs_of pfx ks" "\<And>s. list_at ks' (stepsKey pfx s) = list_at ks (stepsKey pfx s)"
proof -
  obtain z where z: "zset_at ks (statusKey pfx st) = Some z" "distinct (map fst z)" "indexed pfx ks st = fst ` set z"
    using zset_at_status [OF assms] by blast
  let ?z = "filter (\<lambda>(n, q). n \<noteq> sid) z"
  let ?ks = "if ?z = [] then del_key (statusKey pfx st) ks else obj_put (statusKey pfx st) (RVZset ?z) ks"
  have set: "fst ` set ?z = indexed pfx ks st - {sid}" using z(3) by force
  then have empty: "?z = [] \<Longrightarrow> indexed pfx ks st - {sid} = {}" by (metis image_empty list.set(1))
  have dist: "distinct (map fst ?z)" using z(2) by (rule distinct_map_filter)
  show thesis
  proof (rule that [of "int (length z) - int (length ?z)" ?ks])
    show "exec [''ZREM'', statusKey pfx st, sid] ks = (integer (int (length z) - int (length ?z)), ?ks)"
      using z by (simp add: exec_simps zrem_sem_def Let_def)
    show "base_ok pfx ?ks" using assms dist by (simp add: base_ok_del base_ok_put)
    show "indexed pfx ?ks s = (if s = st then indexed pfx ks s - {sid} else indexed pfx ks s)" for s
      using set empty by (simp add: indexed_simps)
  qed (simp_all add: jobs_of_put_other jobs_of_del_other list_at_other)
qed

lemma zadd_indexed:
  assumes "base_ok pfx ks" "Atoi score = Some n"
  obtains m ks' where "exec [''ZADD'', statusKey pfx st, score, sid] ks = (integer m, ks')" "base_ok pfx ks'"
    "\<And>s. indexed pfx ks' s = (if s = st then insert sid (indexed pfx ks s) else indexed pfx ks s)"
    "jobs_of pfx ks' = jobs_of pfx ks" "\<And>s. list_at ks' (stepsKey pfx s) = list_at ks (stepsKey pfx s)"
proof -
  obtain z where z: "zset_at ks (statusKey pfx st) = Some z" "distinct (map fst z)" "indexed pfx ks st = fst ` set z"
    using zset_at_status [OF assms(1)] by blast
  then show thesis
    using that [of "if sid \<in> fst ` set z then 0 else 1"
        "obj_put (statusKey pfx st) (RVZset (obj_put sid (f64_of_int n) z)) ks"] assms
    by (auto simp: exec_simps zadd_sem_def indexed_simps jobs_of_put_other list_at_other base_ok_put
        distinct_obj_put set_map_fst_obj_put)
qed

lemma status_transaction:
  assumes ok: "redis_ok pfx ks" and at: "map_of ks (jobKey pfx sid) = Some (RVHash h)" and st: "st \<noteq> []"
  obtains rs ks' where
    "exec_all (status_cmds pfx now nano [field h ''status'', field h ''seq''] sid st result err) ks = (rs, ks')"
    "exec_result (array rs) = Inr rs" "redis_ok pfx ks'"
    "redis_abs pfx ks' = set_status sid st result err (redis_abs pfx ks)"
proof -
  let ?old = "field h ''status''"
  let ?ks1 = "obj_put (jobKey pfx sid) (RVHash (moved_hash now st result err h)) ks"
  have base: "base_ok pfx ks" and h: "hash_ok sid h"
    using ok at base_ok_at by (fastforce simp: redis_ok_def)+
  note ses = sessions_moved [OF ok at]
  have base1: "base_ok pfx ?ks1" using base moved_hash_ok [OF h st] by (intro base_ok_put) auto
  have ind1: "indexed pfx ?ks1 s = indexed pfx ks s" for s by (simp add: indexed_simps)
  obtain m1 where 1: "exec [''HSET'', jobKey pfx sid, ''status'', st, ''result'', result, ''error'', err,
      ''updated_at'', now] ks = (integer m1, ?ks1)"
    using hset_moved [OF hash_at_job(1) [OF at]] by blast
  show thesis
  proof (cases "?old = st")
    case True
    have "indexed pfx ?ks1 s = sessions_in s (jobs_of pfx ?ks1)" for s
      using ses(1) [of s now st result err] ses(2) [of s] True by (auto simp: ind1)
    moreover have "redis_abs pfx ?ks1 = set_status sid st result err (redis_abs pfx ks)"
      by (rule redis_move_abs [OF base at refl]) (simp add: list_at_other)
    ultimately show thesis
      using that [of "[integer m1]" ?ks1] 1 True base1
      by (simp add: status_cmds_def redis_ok_def exec_result_def)
  next
    case False
    obtain n where n: "Atoi (field h ''seq'') = Some n" and old: "?old \<noteq> []"
      using h by (auto simp: hash_ok_def field_def)
    have "Atoi [] = None" by (simp add: Atoi_def)
    with n have seq: "field h ''seq'' \<noteq> []" by auto
    obtain m2 ks2 where 2: "exec [''ZREM'', statusKey pfx ?old, sid] ?ks1 = (integer m2, ks2)" "base_ok pfx ks2"
      "\<And>s. indexed pfx ks2 s = (if s = ?old then indexed pfx ?ks1 s - {sid} else indexed pfx ?ks1 s)"
      "jobs_of pfx ks2 = jobs_of pfx ?ks1" "\<And>s. list_at ks2 (stepsKey pfx s) = list_at ?ks1 (stepsKey pfx s)"
      using zrem_indexed [OF base1] by blast
    obtain m3 ks3 where 3: "exec [''ZADD'', statusKey pfx st, field h ''seq'', sid] ks2 = (integer m3, ks3)"
      "base_ok pfx ks3"
      "\<And>s. indexed pfx ks3 s = (if s = st then insert sid (indexed pfx ks2 s) else indexed pfx ks2 s)"
      "jobs_of pfx ks3 = jobs_of pfx ks2" "\<And>s. list_at ks3 (stepsKey pfx s) = list_at ks2 (stepsKey pfx s)"
      using zadd_indexed [OF 2(2) n] by blast
    have "indexed pfx ks3 s = sessions_in s (jobs_of pfx ks3)" for s
      using ses(1) [of s now st result err] ses(2) [of s] False by (auto simp: 3 2 ind1)
    moreover have "redis_abs pfx ks3 = set_status sid st result err (redis_abs pfx ks)"
      by (rule redis_move_abs [OF base at]) (simp_all add: 3 2 list_at_other)
    ultimately show thesis
      using that [of "[integer m1, integer m2, integer m3]" ks3] 1 2(1) 3(1,2) False old seq
      by (simp add: status_cmds_def redis_ok_def exec_result_def scoreOrDefault_def)
  qed
qed

section \<open>Step results\<close>

lemma steps_list_at:
  assumes "base_ok pfx ks"
  obtains l where "list_at ks (stepsKey pfx sid) = Some l" "\<forall>i\<in>set l. \<exists>sr. Unmarshal_StepResult i = Inr sr"
proof (cases "map_of ks (stepsKey pfx sid)")
  case None
  then show thesis using that by (simp add: list_at_def)
next
  case (Some v)
  with base_ok_at [OF assms] obtain l where "v = RVList l" "\<forall>i\<in>set l. \<exists>sr. Unmarshal_StepResult i = Inr sr"
    by fastforce
  with Some that show thesis by (simp add: list_at_def)
qed

lemma rpush_step:
  assumes "redis_ok pfx ks"
  obtains m ks' where "exec [''RPUSH'', stepsKey pfx sid, Marshal_StepResult sr] ks = (integer m, ks')"
    "redis_ok pfx ks'" "redis_abs pfx ks' = add_step sid (valid_StepResult sr) (redis_abs pfx ks)"
proof -
  have base: "base_ok pfx ks" using assms by (simp add: redis_ok_def)
  obtain l where l: "list_at ks (stepsKey pfx sid) = Some l" "\<forall>i\<in>set l. \<exists>sr. Unmarshal_StepResult i = Inr sr"
    using steps_list_at [OF base] by blast
  let ?ks = "obj_put (stepsKey pfx sid) (RVList (l @ [Marshal_StepResult sr])) ks"
  have "base_ok pfx ?ks"
    using base l(2) Unmarshal_Marshal_StepResult by (intro base_ok_put) auto
  with assms have "redis_ok pfx ?ks" by (simp add: redis_ok_def indexed_simps jobs_of_put_other)
  moreover have "redis_abs pfx ?ks = add_step sid (valid_StepResult sr) (redis_abs pfx ks)"
    using l(1)
    by (auto simp: redis_abs_def add_step_def jobs_of_put_other list_at_def map_of_obj_put steps_of_def
        Unmarshal_Marshal_StepResult fun_eq_iff)
  ultimately show thesis using that l(1) by (simp add: exec_simps rpush_sem_def)
qed

lemma decode_steps_ok:
  assumes "\<forall>i\<in>set l. \<exists>sr. Unmarshal_StepResult i = Inr sr"
  shows "decode_steps l = Inr (steps_of l)"
proof -
  have "for_each (\<lambda>item out. case Unmarshal_StepResult item of
      Inl e \<Rightarrow> Inl (ErrWrap ''store: decode step result: %w'' [] e) | Inr sr \<Rightarrow> Inr (out @ [sr])) l out
    = Inr (out @ steps_of l)" for out
    using assms by (induction l arbitrary: out) (auto simp: steps_of_def)
  then show ?thesis by (simp add: decode_steps_def)
qed

section \<open>The store on a server\<close>

definition redis_full :: "string \<Rightarrow> keyspace \<Rightarrow> bool" where
  "redis_full pfx ks \<longleftrightarrow> map_of ks (seqKey pfx) = Some (RVStr (Itoa (2 ^ 63 - 1)))"

locale redis_server =
  fixes api :: "'s redis_api" and view :: "'s \<Rightarrow> keyspace"
  assumes cmd: "ra_cmd api s args = (r, s') \<Longrightarrow> (r, view s') = cmd_result (exec args (view s))"
    and multi: "ra_multi api s cmds = (rs, s') \<Longrightarrow> (rs, view s') = multi_result (exec_all cmds (view s))"
begin

lemma cmd_ok:
  assumes "exec args (view s) = (r, ks)" "r_kind r \<noteq> CHR ''-''"
  obtains s' where "ra_cmd api s args = (Inr r, s')" "view s' = ks"
proof -
  obtain q s' where q: "ra_cmd api s args = (q, s')" by fastforce
  with cmd [OF q] assms that show thesis by (simp add: cmd_result_def)
qed

lemma cmd_err:
  assumes "exec args (view s) = (failure e, ks)"
  obtains s' where "ra_cmd api s args = (Inl (RedisError e), s')" "view s' = ks"
proof -
  obtain q s' where q: "ra_cmd api s args = (q, s')" by fastforce
  with cmd [OF q] assms that show thesis by (simp add: cmd_result_def)
qed

lemma multi_ok:
  assumes "exec_all cmds (view s) = (rs, ks)" "exec_result (array rs) = Inr rs"
  obtains s' where "ra_multi api s cmds = (Inr rs, s')" "view s' = ks"
proof -
  obtain q s' where q: "ra_multi api s cmds = (q, s')" by fastforce
  from multi [OF q] assms that q show thesis by (simp add: multi_result_def del: reply_kinds)
qed

lemma get_ok:
  assumes "redis_ok (ra_pfx api) (view s)"
  obtains s' where "redis_GetJob api s sid =
      (case job_of (redis_abs (ra_pfx api) (view s)) sid of None \<Rightarrow> Inl ErrNotFound | Some j \<Rightarrow> Inr j, s')"
    "view s' = view s"
proof -
  let ?k = "jobKey (ra_pfx api) sid"
  obtain h where h: "hash_at (view s) ?k = Some h" "distinct (map fst h)"
    "(if h = [] then Inl ErrNotFound else Inr (jobFromFields h)) =
       (case job_of (redis_abs (ra_pfx api) (view s)) sid of None \<Rightarrow> Inl ErrNotFound | Some j \<Rightarrow> Inr j)"
    using job_lookup [OF assms, of sid] by (auto simp: hash_at_def hash_ok_def)
  have "exec [''HGETALL'', ?k] (view s) =
      (array (concat (map (\<lambda>(f, v). [bulk_reply f, bulk_reply v]) h)), view s)"
    using h(1) by (simp add: exec_simps read_sem_def)
  then obtain s' where "ra_cmd api s [''HGETALL'', ?k] =
      (Inr (array (concat (map (\<lambda>(f, v). [bulk_reply f, bulk_reply v]) h))), s')" "view s' = view s"
    by (rule cmd_ok) simp_all
  moreover have "hashToMap (array (concat (map (\<lambda>(f, v). [bulk_reply f, bulk_reply v]) h))) = Inr h"
    using fields_round_trip [of "[]" h] h(2) by (simp add: hashToMap_def)
  ultimately show thesis using that h(3) by (simp add: redis_GetJob_def del: reply_kinds)
qed

lemma create_ok:
  assumes ok: "redis_ok (ra_pfx api) (view s)" and run: "redis_CreateJob api s job = (r, s')"
  shows "redis_ok (ra_pfx api) (view s') \<and>
    (create_spec job r (redis_abs (ra_pfx api) (view s)) (redis_abs (ra_pfx api) (view s')) \<or>
     redis_full (ra_pfx api) (view s) \<and> (\<exists>e. r = Inl e) \<and>
       redis_abs (ra_pfx api) (view s') = redis_abs (ra_pfx api) (view s))"
proof (cases "TrimSpace (SessionID job) = []")
  case True
  with ok run show ?thesis by (auto simp: redis_CreateJob_def create_spec_def)
next
  case named: False
  let ?pfx = "ra_pfx api" let ?sid = "SessionID job" let ?j = "with_status job"
  let ?k = "jobKey ?pfx ?sid"
  from ok show ?thesis
  proof (cases rule: incr_seq)
    case (full e)
    then obtain s1 where s1: "ra_cmd api s [''INCR'', seqKey ?pfx] = (Inl (RedisError e), s1)" "view s1 = view s"
      by (metis cmd_err exec_simps(2))
    with run named ok full(1) show ?thesis by (auto simp: redis_CreateJob_def redis_full_def)
  next
    case (next_seq n)
    let ?ks1 = "obj_put (seqKey ?pfx) (RVStr (Itoa (int n))) (view s)"
    note seq = redis_put_seq [OF ok next_seq(1)]
    have "exec [''INCR'', seqKey ?pfx] (view s) = (integer (int n), ?ks1)"
      using next_seq by (simp add: exec_simps)
    then obtain s1 where s1: "ra_cmd api s [''INCR'', seqKey ?pfx] = (Inr (integer (int n)), s1)" "view s1 = ?ks1"
      by (rule cmd_ok) simp_all
    have int: "reply_int64 (integer m) = Inr m" for m by (simp add: reply_int64_def)
    from job_lookup [OF seq(1), of ?sid] show ?thesis
    proof (elim disjE exE conjE)
      fix h assume h: "map_of ?ks1 ?k = Some (RVHash h)" "hash_ok ?sid h"
        "job_of (redis_abs ?pfx ?ks1) ?sid = Some (jobFromFields h)"
      then have "exec [''HSETNX'', ?k, ''session_id'', ?sid] (view s1) = (integer 0, ?ks1)"
        by (simp add: exec_simps hsetnx_sem_def hash_at_def s1 hash_ok_def)
      then obtain s2 where "ra_cmd api s1 [''HSETNX'', ?k, ''session_id'', ?sid] = (Inr (integer 0), s2)"
        "view s2 = ?ks1"
        by (rule cmd_ok) simp_all
      with run named s1 int h(3) seq show ?thesis
        by (auto simp: redis_CreateJob_def create_spec_def simp del: reply_kinds)
    next
      assume new: "map_of ?ks1 ?k = None" "job_of (redis_abs ?pfx ?ks1) ?sid = None"
      let ?ks2 = "obj_put ?k (RVHash [(''session_id'', ?sid)]) ?ks1"
      have "exec [''HSETNX'', ?k, ''session_id'', ?sid] (view s1) = (integer 1, ?ks2)"
        using new(1) by (simp add: exec_simps hsetnx_sem_def hash_at_def s1)
      then obtain s2 where s2: "ra_cmd api s1 [''HSETNX'', ?k, ''session_id'', ?sid] = (Inr (integer 1), s2)"
        "view s2 = ?ks2"
        by (rule cmd_ok) simp_all
      have "job_Status ?j \<noteq> []" by (simp add: with_status_def StatusPending_def)
      from create_transaction [OF seq(1) _ this next_seq(1), of "ra_now api s2"] new(1)
      obtain rs ks' where t: "exec_all (create_cmds ?pfx (ra_now api s2) (int n) ?j) ?ks2 = (rs, ks')"
        "exec_result (array rs) = Inr rs" "redis_ok ?pfx ks'"
        "redis_abs ?pfx ks' = (redis_abs ?pfx ?ks1)\<lparr>as_jobs := jobs_of ?pfx ?ks1 @ [?j]\<rparr>"
        by auto
      obtain s3 where s3: "ra_multi api s2 (create_cmds ?pfx (ra_now api s2) (int n) ?j) = (Inr rs, s3)" "view s3 = ks'"
        by (rule multi_ok [of _ s2]) (use t s2 in auto)
      have "redis_abs ?pfx ks' = add_job job (redis_abs ?pfx (view s))"
        using t(4) seq(2) by (simp add: add_job_def redis_abs_def)
      then show ?thesis
        using run named s1 s2 s3 int t(3) new(2) seq(2)
        by (auto simp: redis_CreateJob_def create_spec_def Let_def simp del: reply_kinds)
    qed
  qed
qed

lemma set_ok:
  assumes ok: "redis_ok (ra_pfx api) (view s)" and st: "st \<noteq> []"
    and run: "redis_SetJobStatus api s sid st result err = (r, s')"
  shows "redis_ok (ra_pfx api) (view s') \<and>
    (if job_of (redis_abs (ra_pfx api) (view s)) sid = None
     then r = Inl ErrNotFound \<and> redis_abs (ra_pfx api) (view s') = redis_abs (ra_pfx api) (view s)
     else r = Inr () \<and> redis_abs (ra_pfx api) (view s') =
       set_status sid st result err (redis_abs (ra_pfx api) (view s)))"
proof -
  let ?pfx = "ra_pfx api"
  let ?cmd = "[''HMGET'', jobKey ?pfx sid, ''status'', ''seq'']"
  from job_lookup [OF ok, of sid] show ?thesis
  proof (elim disjE exE conjE)
    assume none: "map_of (view s) (jobKey ?pfx sid) = None" "job_of (redis_abs ?pfx (view s)) sid = None"
    then have "exec ?cmd (view s) = (array [nil_bulk, nil_bulk], view s)"
      by (simp add: exec_simps read_sem_def hash_at_def)
    then obtain s1 where s1: "ra_cmd api s ?cmd = (Inr (array [nil_bulk, nil_bulk]), s1)" "view s1 = view s"
      by (rule cmd_ok) simp_all
    obtain s2 where "redis_GetJob api s1 sid = (Inl ErrNotFound, s2)" "view s2 = view s"
      using get_ok [of s1 sid] ok none(2) s1(2) by auto
    with run s1 ok none(2) show ?thesis
      by (auto simp: redis_SetJobStatus_def reply_strings_def)
  next
    fix h assume h: "map_of (view s) (jobKey ?pfx sid) = Some (RVHash h)" "hash_ok sid h"
      "job_of (redis_abs ?pfx (view s)) sid = Some (jobFromFields h)"
    let ?vals = "[field h ''status'', field h ''seq'']"
    from h(2) have vals: "map_of h ''status'' = Some (field h ''status'')" "map_of h ''seq'' = Some (field h ''seq'')"
      "field h ''status'' \<noteq> []"
      by (auto simp: hash_ok_def field_def)
    with h(1) have "exec ?cmd (view s) = (array (map bulk_reply ?vals), view s)"
      by (simp add: exec_simps read_sem_def hash_at_def del: map_of_eq_Some_iff)
    then obtain s1 where s1: "ra_cmd api s ?cmd = (Inr (array (map bulk_reply ?vals)), s1)" "view s1 = view s"
      by (rule cmd_ok) simp_all
    obtain rs ks' where t: "exec_all (status_cmds ?pfx (ra_now api s1) (ra_nano api s1) ?vals sid st result err) (view s) = (rs, ks')"
      "exec_result (array rs) = Inr rs" "redis_ok ?pfx ks'"
      "redis_abs ?pfx ks' = set_status sid st result err (redis_abs ?pfx (view s))"
      using status_transaction [OF ok h(1) st] by blast
    obtain s2 where s2: "ra_multi api s1 (status_cmds ?pfx (ra_now api s1) (ra_nano api s1) ?vals sid st result err) = (Inr rs, s2)"
      "view s2 = ks'"
      by (rule multi_ok [of _ s1]) (use t s1 in auto)
    have "reply_strings (array (map bulk_reply ?vals)) = ?vals" by (simp add: reply_strings_def)
    with run s1 s2 t h(3) vals(3) show ?thesis
      by (auto simp: redis_SetJobStatus_def Let_def simp del: reply_kinds)
  qed
qed

lemma get_all_ok:
  assumes "redis_ok (ra_pfx api) (view s)"
    and "\<forall>sid\<in>set ids. job_of (redis_abs (ra_pfx api) (view s)) sid \<noteq> None"
  shows "\<exists>s'. get_all api ids acc s =
      (Inr (acc @ map (\<lambda>sid. the (job_of (redis_abs (ra_pfx api) (view s)) sid)) ids), s') \<and> view s' = view s"
  using assms
proof (induction ids arbitrary: acc s)
  case (Cons sid ids)
  obtain s1 where s1: "redis_GetJob api s sid =
      (case job_of (redis_abs (ra_pfx api) (view s)) sid of None \<Rightarrow> Inl ErrNotFound | Some j \<Rightarrow> Inr j, s1)"
    "view s1 = view s"
    using get_ok [OF Cons.prems(1)] by blast
  obtain j where "job_of (redis_abs (ra_pfx api) (view s)) sid = Some j" using Cons.prems(2) by auto
  with s1 Cons.IH [of s1 "acc @ [j]"] Cons.prems show ?case by auto
qed simp

lemma list_ok:
  assumes ok: "redis_ok (ra_pfx api) (view s)" and run: "redis_ListJobsByStatus api s st = (rl, s')"
  shows "view s' = view s \<and> (\<exists>js. rl = Inr js \<and> mset js = mset (jobs_in st (redis_abs (ra_pfx api) (view s))))"
proof -
  let ?pfx = "ra_pfx api" let ?a = "redis_abs (ra_pfx api) (view s)"
  have base: "base_ok ?pfx (view s)" using ok by (simp add: redis_ok_def)
  obtain z where z: "zset_at (view s) (statusKey ?pfx st) = Some z" "distinct (map fst z)"
    "indexed ?pfx (view s) st = fst ` set z"
    using zset_at_status [OF base] by blast
  let ?ids = "z_order z"
  have ids: "distinct ?ids" "set ?ids = sessions_in st (jobs_of ?pfx (view s))"
  proof -
    have "mset ?ids = mset (map fst z)" by (simp add: z_order_def)
    with z ok show "distinct ?ids" "set ?ids = sessions_in st (jobs_of ?pfx (view s))"
      by (metis mset_eq_imp_distinct_iff) (metis \<open>mset ?ids = mset (map fst z)\<close> list.set_map mset_eq_setD ok redis_ok_def z(3))
  qed
  have dist: "distinct (map SessionID (as_jobs ?a))"
    using base distinct_sessions by (simp add: base_ok_def redis_abs_def)
  have job: "job_of ?a (SessionID j) = Some j" if "j \<in> set (as_jobs ?a)" for j
    using find_distinct [OF dist that] by (simp add: job_of_def)
  have mem: "job_of ?a sid \<noteq> None" if "sid \<in> set ?ids" for sid
    using that ids(2) by (auto simp: sessions_in_def redis_abs_def job_of_None)
  have "exec [''ZRANGE'', statusKey ?pfx st, ''0'', ''-1''] (view s) = (array (map bulk_reply ?ids), view s)"
    using z by (simp add: exec_simps read_sem_def)
  then obtain s1 where s1: "ra_cmd api s [''ZRANGE'', statusKey ?pfx st, ''0'', ''-1''] = (Inr (array (map bulk_reply ?ids)), s1)"
    "view s1 = view s"
    by (rule cmd_ok) simp_all
  obtain s2 where s2: "get_all api ?ids [] s1 = (Inr (map (\<lambda>sid. the (job_of ?a sid)) ?ids), s2)" "view s2 = view s"
    using get_all_ok [of s1 ?ids "[]"] ok mem s1(2) by auto
  have "reply_strings (array (map bulk_reply ?ids)) = ?ids" by (simp add: reply_strings_def comp_def)
  with run s1 s2 have r: "rl = Inr (map (\<lambda>sid. the (job_of ?a sid)) ?ids)" "view s' = view s"
    by (auto simp: redis_ListJobsByStatus_def simp del: reply_kinds)
  have "SessionID (the (job_of ?a sid)) = sid" if "sid \<in> set ?ids" for sid
    using mem [OF that] job_of_Some by fastforce
  then have "distinct (map (\<lambda>sid. the (job_of ?a sid)) ?ids)"
    using ids(1) by (auto simp: distinct_map intro!: inj_onI) (metis)
  moreover have "distinct (jobs_in st ?a)" using dist by (simp add: jobs_in_def distinct_map)
  moreover have "set (map (\<lambda>sid. the (job_of ?a sid)) ?ids) = set (jobs_in st ?a)"
  proof -
    let ?J = "{j \<in> set (as_jobs ?a). job_Status j = st}"
    have "(\<lambda>sid. the (job_of ?a sid)) ` SessionID ` ?J = (\<lambda>j. j) ` ?J"
      unfolding image_image by (rule image_cong) (simp_all add: job)
    moreover have "set ?ids = SessionID ` ?J" using ids(2) by (simp add: sessions_in_def redis_abs_def)
    ultimately show ?thesis by (simp add: jobs_in_def)
  qed
  ultimately have "mset (map (\<lambda>sid. the (job_of ?a sid)) ?ids) = mset (jobs_in st ?a)"
    by (simp only: set_eq_iff_mset_eq_distinct)
  with r show ?thesis by blast
qed

lemma append_ok:
  assumes ok: "redis_ok (ra_pfx api) (view s)" and run: "redis_AppendStepResult api s sr = (r, s')"
  shows "redis_ok (ra_pfx api) (view s') \<and> r = Inr () \<and> redis_abs (ra_pfx api) (view s') =
    add_step (sr_SessionID sr) (valid_StepResult sr) (redis_abs (ra_pfx api) (view s))"
proof -
  obtain m ks' where t: "exec [''RPUSH'', stepsKey (ra_pfx api) (sr_SessionID sr), Marshal_StepResult sr] (view s) = (integer m, ks')"
    "redis_ok (ra_pfx api) ks'"
    "redis_abs (ra_pfx api) ks' = add_step (sr_SessionID sr) (valid_StepResult sr) (redis_abs (ra_pfx api) (view s))"
    using rpush_step [OF ok] by blast
  from t(1) obtain s1 where
    "ra_cmd api s [''RPUSH'', stepsKey (ra_pfx api) (sr_SessionID sr), Marshal_StepResult sr] = (Inr (integer m), s1)"
    "view s1 = ks'"
    by (rule cmd_ok) simp_all
  with run t show ?thesis by (auto simp: redis_AppendStepResult_def)
qed

lemma steps_ok:
  assumes ok: "redis_ok (ra_pfx api) (view s)" and run: "redis_ListStepResults api s sid = (rs, s')"
  shows "view s' = view s \<and> rs = Inr (as_steps (redis_abs (ra_pfx api) (view s)) sid)"
proof -
  have "base_ok (ra_pfx api) (view s)" using ok by (simp add: redis_ok_def)
  then obtain l where l: "list_at (view s) (stepsKey (ra_pfx api) sid) = Some l"
    "\<forall>i\<in>set l. \<exists>sr. Unmarshal_StepResult i = Inr sr"
    by (rule steps_list_at)
  have "exec [''LRANGE'', stepsKey (ra_pfx api) sid, ''0'', ''-1''] (view s) = (array (map bulk_reply l), view s)"
    using l(1) by (simp add: exec_simps read_sem_def)
  then obtain s1 where "ra_cmd api s [''LRANGE'', stepsKey (ra_pfx api) sid, ''0'', ''-1''] = (Inr (array (map bulk_reply l)), s1)"
    "view s1 = view s"
    by (rule cmd_ok) simp_all
  moreover have "reply_strings (array (map bulk_reply l)) = l" by (simp add: reply_strings_def comp_def)
  ultimately show ?thesis
    using run l decode_steps_ok [OF l(2)]
    by (auto simp: redis_ListStepResults_def redis_abs_def simp del: reply_kinds)
qed

end

sublocale redis_server \<subseteq> job_store "redis_ops api" "\<lambda>s. redis_ok (ra_pfx api) (view s)"
  "\<lambda>s. redis_abs (ra_pfx api) (view s)" valid_StepResult "\<lambda>s. redis_full (ra_pfx api) (view s)"
proof (unfold_locales, goal_cases)
  case (1 s)
  then show ?case using distinct_sessions by (simp add: redis_ok_def base_ok_def distinct_jobs_def redis_abs_def)
next
  case (2 s job r s')
  then show ?case using create_ok by (simp add: redis_ops_def)
next
  case (3 s sid rj s')
  obtain s1 where "redis_GetJob api s sid =
      (case job_of (redis_abs (ra_pfx api) (view s)) sid of None \<Rightarrow> Inl ErrNotFound | Some j \<Rightarrow> Inr j, s1)"
    "view s1 = view s"
    using get_ok [OF 3(1)] by blast
  with 3 show ?case by (auto simp: redis_ops_def)
next
  case (4 s st sid result err r s')
  then show ?case using set_ok [of s st sid result err r s'] by (simp add: redis_ops_def)
next
  case (5 s st rl s')
  then show ?case using list_ok by (simp add: redis_ops_def)
next
  case (6 s sr r s')
  then show ?case using append_ok by (simp add: redis_ops_def)
next
  case (7 s sid rs s')
  then show ?case using steps_ok by (simp add: redis_ops_def)
qed

context redis_server
begin

lemma store_contract: "job_store (redis_ops api) (\<lambda>s. redis_ok (ra_pfx api) (view s))
    (\<lambda>s. redis_abs (ra_pfx api) (view s)) valid_StepResult (\<lambda>s. redis_full (ra_pfx api) (view s))"
  by (rule job_store_axioms)

end

section \<open>A server\<close>

text \<open>A server in memory, with a clock that stands still.\<close>

definition mem_api :: "string \<Rightarrow> keyspace redis_api" where
  "mem_api pfx = \<lparr>ra_cmd = (\<lambda>ks args. cmd_result (exec args ks)),
     ra_multi = (\<lambda>ks cmds. multi_result (exec_all cmds ks)), ra_pfx = pfx,
     ra_now = (\<lambda>_. ''2024-01-01T00:00:00Z''), ra_nano = (\<lambda>_. 0)\<rparr>"

interpretation rd: redis_server "mem_api pfx" "\<lambda>ks. ks"
  by unfold_locales (simp_all add: mem_api_def)

lemma redis_ok_empty: "redis_ok pfx []"
  by (simp add: redis_ok_def base_ok_def indexed_def zset_at_def sessions_in_def jobs_of_def)

end
