(* ===== verification/RedisWire.thy ===== *)
theory RedisWire
  imports Redis
begin

text \<open>
  The wire: what the client writes is read by the protocol as the command and nothing else,
  replies are read back one by one, and the pool hands out connections without leftovers.
\<close>

section \<open>A server that answers\<close>

text \<open>The server answers the bytes with exactly these replies, in the encoding of the protocol.\<close>

definition answers :: "'srv network \<Rightarrow> 'srv \<Rightarrow> string \<Rightarrow> reply list \<Rightarrow> 'srv \<Rightarrow> bool" where
  "answers net srv bytes rs srv' \<longleftrightarrow>
     net srv bytes = (Inr (concat (map resp_encode rs)), srv') \<and> list_all resp_wf rs"

lemma read_from_encoded:
  "resp_wf r \<Longrightarrow> read_from \<lparr>c_srv = srv, c_unread = resp_encode r @ rest\<rparr> = (Inr r, \<lparr>c_srv = srv, c_unread = rest\<rparr>)"
  using readReply_encoded [of r rest "Suc (length (resp_encode r @ rest))"] by (simp add: read_from_def)

lemma read_queued_encoded:
  "list_all resp_wf rs \<Longrightarrow> read_queued (length rs) \<lparr>c_srv = srv, c_unread = concat (map resp_encode rs) @ rest\<rparr> =
     (Inr (), \<lparr>c_srv = srv, c_unread = rest\<rparr>)"
  by (induction rs) (auto simp: read_from_encoded)

lemma send_answered:
  "answers net srv bytes rs srv' \<Longrightarrow>
     send net bytes \<lparr>c_srv = srv, c_unread = []\<rparr> = (Inr (), \<lparr>c_srv = srv', c_unread = concat (map resp_encode rs)\<rparr>)"
  by (simp add: send_def answers_def)

definition answered :: "reply \<Rightarrow> reply res" where
  "answered r = (if r_kind r = CHR ''-'' then Inl (RedisError (r_str r)) else Inr r)"

lemma conn_do_answered:
  assumes "answers net srv (writeCommand args) [r] srv'"
  shows "conn_do net args \<lparr>c_srv = srv, c_unread = []\<rparr> = (answered r, \<lparr>c_srv = srv', c_unread = []\<rparr>)"
  using send_answered [OF assms] read_from_encoded [of r srv' "[]"] assms
  by (simp add: conn_do_def answered_def answers_def)

definition transaction_bytes :: "string list list \<Rightarrow> string" where
  "transaction_bytes cmds = concat (map writeCommand ([[''MULTI'']] @ cmds @ [[''EXEC'']]))"

lemma conn_doMulti_answered:
  assumes "cmds \<noteq> []" "answers net srv (transaction_bytes cmds) (qs @ [r]) srv'" "length qs = Suc (length cmds)"
  shows "conn_doMulti net cmds \<lparr>c_srv = srv, c_unread = []\<rparr> = (exec_result r, \<lparr>c_srv = srv', c_unread = []\<rparr>)"
  using send_answered [OF assms(2)] assms read_queued_encoded [of qs srv' "resp_encode r"]
    read_from_encoded [of r srv' "[]"]
  by (simp add: conn_doMulti_def transaction_bytes_def answers_def del: read_queued.simps)

section \<open>The pool\<close>

definition clean :: "'srv rstate \<Rightarrow> bool" where
  "clean s \<longleftrightarrow> length (rs_conns s) \<le> 8 \<and> (\<forall>u\<in>set (rs_conns s). u = [])"

definition dialable :: "'srv redis_env \<Rightarrow> 'srv rstate \<Rightarrow> bool" where
  "dialable env s \<longleftrightarrow> rs_conns s \<noteq> [] \<or>
     re_dial env (rs_srv s) = (None, rs_srv s) \<and> re_password env = [] \<and> re_db env = 0"

lemma get_conn_clean:
  assumes "clean s" "dialable env s"
  shows "\<exists>s'. get_conn env s = (Inr \<lparr>c_srv = rs_srv s, c_unread = []\<rparr>, s') \<and> clean s' \<and> rs_srv s' = rs_srv s"
proof (cases "rs_conns s = []")
  case True
  with assms show ?thesis by (auto simp: get_conn_def pool_get_def dialable_def pool_dial_def dial_do_def)
next
  case False
  with assms(1) show ?thesis
    by (auto simp: get_conn_def pool_get_def clean_def dest: in_set_butlastD)
qed

lemma finish_conn_clean:
  assumes "clean s"
  shows "\<exists>s'. finish_conn (x, \<lparr>c_srv = srv, c_unread = []\<rparr>) s = (x, s') \<and> clean s' \<and> rs_srv s' = srv"
  using assms by (cases x) (auto simp: finish_conn_def clean_def pool_put_def)

lemma redis_cmd_clean:
  assumes "clean s" "dialable env s" "answers (re_net env) (rs_srv s) (writeCommand args) [r] srv'"
  shows "\<exists>s'. redis_cmd env s args = (answered r, s') \<and> clean s' \<and> rs_srv s' = srv'"
  using get_conn_clean [OF assms(1,2)] conn_do_answered [OF assms(3)] finish_conn_clean
  by (fastforce simp: redis_cmd_def)

lemma redis_multi_clean:
  assumes "clean s" "dialable env s" "cmds \<noteq> []" "length qs = Suc (length cmds)"
    and "answers (re_net env) (rs_srv s) (transaction_bytes cmds) (qs @ [r]) srv'"
  shows "\<exists>s'. redis_multi env s cmds = (exec_result r, s') \<and> clean s' \<and> rs_srv s' = srv'"
  using get_conn_clean [OF assms(1,2)] conn_doMulti_answered [OF assms(3,5,4)] finish_conn_clean
  by (fastforce simp: redis_multi_def)

end
