(* ===== verification/Stores.thy ===== *)
theory Stores
  imports Sqlite RedisSpec RedisWire
begin

text \<open>The two stores against their common contract, and the properties of the wire protocol.\<close>

section \<open>Refinement of the contract\<close>





text \<open>
  After a successful \<open>SetJobStatus\<close> the Redis store lists the job under its new status
  and under no other one, so a job is never lost from the index and never in it twice.
\<close>

theorem redis_listed_under_new_status:
  assumes "redis_server api view" "redis_ok (ra_pfx api) (view s)" "st \<noteq> []"
    and "redis_SetJobStatus api s sid st result err = (Inr (), s')"
    and "redis_ListJobsByStatus api s' st' = (rl, s'')"
  shows "\<exists>js. rl = Inr js \<and> (sid \<in> SessionID ` set js \<longleftrightarrow> st' = st)"
proof -
  have ops: "op_SetJobStatus (redis_ops api) = redis_SetJobStatus api"
    "op_ListJobsByStatus (redis_ops api) = redis_ListJobsByStatus api"
    by (simp_all add: redis_ops_def)
  show ?thesis
    using job_store.listing_after_set_status [OF redis_server.store_contract [OF assms(1)]]
      assms(2-5) unfolding ops by blast
qed

definition demo_job :: Job where
  "demo_job = \<lparr>SessionID = ''s1'', job_Kind = ''agent'', TargetID = ''a'', job_Status = [],
     job_Input = ''{}'', job_Result = [], job_Error = []\<rparr>"

definition demo_ks :: keyspace where
  "demo_ks = snd (redis_CreateJob (mem_api ''jh:'') [] demo_job)"

lemma demo_ks_ok: "redis_ok ''jh:'' demo_ks" "job_of (redis_abs ''jh:'' demo_ks) ''s1'' \<noteq> None"
proof -
  have pfx: "ra_pfx (mem_api ''jh:'') = ''jh:''" by (simp add: mem_api_def)
  obtain r s' where r: "redis_CreateJob (mem_api ''jh:'') [] demo_job = (r, s')" by fastforce
  have "TrimSpace ''s1'' \<noteq> []" by code_simp
  moreover have "\<not> redis_full ''jh:'' []" "job_of (redis_abs ''jh:'' []) ''s1'' = None"
    by (simp_all add: redis_full_def job_of_def redis_abs_def jobs_of_def)
  moreover note rd.create_ok [of "''jh:''", unfolded pfx, OF redis_ok_empty r]
  ultimately have "redis_ok ''jh:'' s'" "redis_abs ''jh:'' s' = add_job demo_job (redis_abs ''jh:'' [])"
    by (auto simp: create_spec_def demo_job_def)
  moreover have "demo_ks = s'" by (simp add: demo_ks_def r)
  ultimately show "redis_ok ''jh:'' demo_ks" "job_of (redis_abs ''jh:'' demo_ks) ''s1'' \<noteq> None"
    by (simp_all add: add_job_def demo_job_def job_of_None)
qed

theorem redis_listed_under_new_status_witness:
  "\<exists>js. fst (redis_ListJobsByStatus (mem_api ''jh:'')
       (snd (redis_SetJobStatus (mem_api ''jh:'') demo_ks ''s1'' StatusRunning [] [])) StatusRunning) = Inr js \<and>
     (''s1'' \<in> SessionID ` set js \<longleftrightarrow> StatusRunning = StatusRunning)"
proof -
  have pfx: "ra_pfx (mem_api ''jh:'') = ''jh:''" by (simp add: mem_api_def)
  obtain r s' where r: "redis_SetJobStatus (mem_api ''jh:'') demo_ks ''s1'' StatusRunning [] [] = (r, s')"
    by fastforce
  have run: "StatusRunning \<noteq> []" by (simp add: StatusRunning_def)
  have "r = Inr ()"
    using rd.set_ok [of "''jh:''", unfolded pfx, OF demo_ks_ok(1) run r] demo_ks_ok(2) by simp
  with r have set: "redis_SetJobStatus (mem_api ''jh:'') demo_ks ''s1'' StatusRunning [] [] =
      (Inr (), snd (redis_SetJobStatus (mem_api ''jh:'') demo_ks ''s1'' StatusRunning [] []))"
    by simp
  obtain rl s'' where l: "redis_ListJobsByStatus (mem_api ''jh:'')
      (snd (redis_SetJobStatus (mem_api ''jh:'') demo_ks ''s1'' StatusRunning [] [])) StatusRunning = (rl, s'')"
    by fastforce
  from redis_listed_under_new_status [OF rd.redis_server_axioms _ run set l] demo_ks_ok(1) pfx
  show ?thesis by (simp add: l)
qed

section \<open>Failures and order\<close>

text \<open>
  When an operation of the SQLite store reports an error, for whatever reason the
  engine had, the jobs and the step results are as before, provided that a statement of
  the engine that fails has no effect.
\<close>

theorem sqlite_error_keeps_data:
  assumes "sql_engine sql view"
  shows "(\<forall>e. sqlite_CreateJob sql db job = (Inl e, db') \<longrightarrow> view db' = view db) \<and>
    (\<forall>e. sqlite_SetJobStatus sql db sid st result err = (Inl e, db') \<longrightarrow>
       tables_abs (view db') = tables_abs (view db)) \<and>
    (\<forall>e. sqlite_AppendStepResult sql db sr = (Inl e, db') \<longrightarrow> view db' = view db)"
  using sql_engine.failed_write_keeps_tables [OF assms] by blast

definition dead_sql :: "tables engine" where
  "dead_sql db st = (Inl (Errorf ''disk I/O error'' []), db)"

definition demo_tables :: tables where
  "demo_tables = \<lparr>tb_jobs = [\<lparr>row_job = with_status demo_job, row_created = 1, row_updated = 1\<rparr>,
     \<lparr>row_job = with_status (demo_job\<lparr>SessionID := ''s0''\<rparr>), row_created = 2, row_updated = 2\<rparr>],
     tb_steps = [], tb_next = 1\<rparr>"

definition demo_step :: StepResult where
  "demo_step = \<lparr>sr_SessionID = ''s1'', sr_StepID = ''a'', sr_Status = StatusCompleted,
     sr_Output = ''ok'', sr_Error = [], sr_Tokens = 7, sr_DurationMS = 0\<rparr>"

theorem sqlite_error_keeps_data_witness:
  "snd (sqlite_CreateJob dead_sql demo_tables demo_job) = demo_tables \<and>
    tables_abs (snd (sqlite_SetJobStatus dead_sql demo_tables ''s1'' StatusRunning [] [])) = tables_abs demo_tables \<and>
    snd (sqlite_AppendStepResult dead_sql demo_tables demo_step) = demo_tables"
proof -
  have dead: "sql_engine dead_sql (\<lambda>t. t)" by unfold_locales (simp add: dead_sql_def)
  obtain e1 t1 where 1: "sqlite_CreateJob dead_sql demo_tables demo_job = (Inl e1, t1)"
    by (cases "TrimSpace (SessionID demo_job) = []") (auto simp: sqlite_defs dead_sql_def)
  obtain e2 t2 where 2: "sqlite_SetJobStatus dead_sql demo_tables ''s1'' StatusRunning [] [] = (Inl e2, t2)"
    by (auto simp: sqlite_defs dead_sql_def)
  obtain e3 t3 where 3: "sqlite_AppendStepResult dead_sql demo_tables demo_step = (Inl e3, t3)"
    by (auto simp: sqlite_defs dead_sql_def)
  note keeps = sqlite_error_keeps_data [OF dead, of demo_tables demo_job _ "''s1''" StatusRunning "[]" "[]" demo_step]
  from keeps [of t1] keeps [of t2] keeps [of t3] 1 2 3 show ?thesis by simp
qed

text \<open>
  The SQLite store lists the jobs of a status oldest first: in the order of their
  creation, whenever the clock advanced between any two creations.
\<close>

theorem sqlite_lists_in_creation_order:
  assumes "reliable_sql sql view" "clock_advanced (view db)"
    and "sqlite_ListJobsByStatus sql db status = (rl, db')"
  shows "rl = Inr (jobs_in status (tables_abs (view db)))"
proof -
  obtain q db1 where q: "sql db (SelectJobsByStatus status) = (q, db1)" by fastforce
  obtain now where "(q, view db1) = table_sql now (SelectJobsByStatus status) (view db)"
    using reliable_sql.exact [OF assms(1) q] by blast
  with assms(3) q show ?thesis
    by (auto simp: sqlite_defs sorted_row_key [OF assms(2)] jobs_in_def tables_abs_def filter_map comp_def)
qed

theorem sqlite_lists_in_creation_order_witness:
  "fst (sqlite_ListJobsByStatus mem_sql \<lparr>md_tables = demo_tables, md_now = 3\<rparr> StatusPending) =
     Inr [with_status demo_job, with_status (demo_job\<lparr>SessionID := ''s0''\<rparr>)]"
proof -
  let ?db = "\<lparr>md_tables = demo_tables, md_now = 3\<rparr>"
  obtain rl db' where r: "sqlite_ListJobsByStatus mem_sql ?db StatusPending = (rl, db')" by fastforce
  have "clock_advanced (md_tables ?db)" by (simp add: clock_advanced_def demo_tables_def)
  from sqlite_lists_in_creation_order [OF lite.reliable_sql_axioms this r] r show ?thesis
    by (simp add: jobs_in_def tables_abs_def demo_tables_def with_status_def demo_job_def)
qed

section \<open>The wire\<close>

text \<open>
  C34: Whatever bytes the arguments of a command hold (line ends included), the bytes that
  \<open>writeCommand\<close> sends are read by the protocol as exactly this command, and what follows
  is left for the next one: no argument can inject another command.
\<close>

theorem writeCommand_no_injection:
  assumes "command_ok args" "length (writeCommand args @ rest) < f"
  shows "readReply f (writeCommand args @ rest) = Inr (command_reply args, rest)"
  using readReply_encoded [OF command_reply_wf [OF assms(1)], of rest f] assms(2)
  unfolding writeCommand_encode by simp

theorem writeCommand_no_injection_witness:
  "readReply 200 (writeCommand [''SET'', [CHR 0x0D, CHR 0x0A] @ ''FLUSHALL'' @ [CHR 0x0D, CHR 0x0A]] @ ''*1'') =
     Inr (command_reply [''SET'', [CHR 0x0D, CHR 0x0A] @ ''FLUSHALL'' @ [CHR 0x0D, CHR 0x0A]], ''*1'')"
proof -
  let ?args = "[''SET'', [CHR 0x0D, CHR 0x0A] @ ''FLUSHALL'' @ [CHR 0x0D, CHR 0x0A]]"
  have "command_ok ?args" by (simp add: command_ok_def)
  moreover have "length (writeCommand ?args @ ''*1'') < 200" by code_simp
  ultimately show ?thesis by (rule writeCommand_no_injection)
qed

text \<open>
  C35: A reply of the protocol, of any kind and nesting, is read back as it was sent, and
  exactly its bytes are consumed.
\<close>

theorem readReply_roundtrip:
  assumes "resp_wf r" "length (resp_encode r @ rest) < f"
  shows "readReply f (resp_encode r @ rest) = Inr (r, rest)"
  by (rule readReply_encoded [OF assms])

theorem readReply_roundtrip_witness:
  "readReply 100 (resp_encode (array [integer (- 5), nil_bulk, array [bulk_reply ''x'']]) @ ''+OK'') =
     Inr (array [integer (- 5), nil_bulk, array [bulk_reply ''x'']], ''+OK'')"
proof (rule readReply_roundtrip)
  show "resp_wf (array [integer (- 5), nil_bulk, array [bulk_reply ''x'']])" by simp
  show "length (resp_encode (array [integer (- 5), nil_bulk, array [bulk_reply ''x'']]) @ ''+OK'') < 100" by code_simp
qed

text \<open>
  Reading a reply always ends, on any bytes: the recursion over nested arrays never
  reaches its bound, and a reply that is read takes at least one byte.
\<close>

theorem readReply_terminates:
  assumes "length s < f"
  shows "readReply f s \<noteq> Inl Stuck \<and> (\<forall>r t. readReply f s = Inr (r, t) \<longrightarrow> length t < length s)"
  by (rule readReply_progress(1) [OF assms])

theorem readReply_terminates_witness:
  "readReply 20 (''*2'' @ crlf @ ''*1'' @ crlf) \<noteq> Inl Stuck"
  using readReply_terminates [of "''*2'' @ crlf @ ''*1'' @ crlf" 20] by (simp add: crlf_def)


definition pong_env :: "unit redis_env" where
  "pong_env = \<lparr>re_net = (\<lambda>_ _. (Inr (''+PONG'' @ crlf), ())), re_dial = (\<lambda>_. (None, ())),
     re_password = [], re_db = 0\<rparr>"


text \<open>
  A step result that is stored as JSON and read again is the same, except that bytes
  which are not valid UTF-8 become U+FFFD; with valid strings nothing changes.
\<close>

theorem StepResult_json_roundtrip:
  "Unmarshal_StepResult (Marshal_StepResult sr) = Inr (valid_StepResult sr)"
  by (rule Unmarshal_Marshal_StepResult)

end
