(* ===== verification/WorkerProps.thy ===== *)
theory WorkerProps
  imports WorkerSafety Stores
begin

text \<open>
  The properties of the worker pool, on every store that keeps the contract, and the pool
  on the two stores of the program.
\<close>

definition make_env :: "'s store_ops \<Rightarrow> nat \<Rightarrow> error_text \<Rightarrow> 's pool_env" where
  "make_env ops cap text = \<lparr>pv_ops = ops, pv_cap = cap, pv_text = text\<rparr>"

interpretation wl: worker_pool "make_env (sqlite_ops mem_sql (\<lambda>_. None)) cap text" "\<lambda>db. tables_ok (md_tables db)"
  "\<lambda>db. tables_abs (md_tables db)" "\<lambda>sr. sr" "\<lambda>_. False"
  by (intro worker_pool.intro) (simp add: make_env_def lite.store_contract)

interpretation wr: worker_pool "make_env (redis_ops (mem_api pfx)) cap text"
  "\<lambda>ks. redis_ok (ra_pfx (mem_api pfx)) ks" "\<lambda>ks. redis_abs (ra_pfx (mem_api pfx)) ks" valid_StepResult
  "\<lambda>ks. redis_full (ra_pfx (mem_api pfx)) ks"
  by (intro worker_pool.intro) (simp add: make_env_def rd.store_contract)

section \<open>The life cycle\<close>

text \<open>
  C13: In every interleaving of submissions, workers and the recovery at start, one event
  changes a job only along \<open>PENDING\<close>, \<open>RUNNING\<close>, \<open>COMPLETED\<close> or \<open>FAILED\<close>, never its id, kind,
  target or input; only \<open>RequeueOrphans\<close> takes a running job back to \<open>PENDING\<close>, and only
  \<open>Submit\<close> creates one.  This holds on every store that keeps the contract of \<open>Store\<close>.
\<close>

theorem job_lifecycle:
  assumes "job_store (pv_ops env) sinv sabs canon full" "sinv s0"
    and "reachable (pool_event env) (NewPool s0 m n) p" "pool_event env e p = Some p'"
  shows "job_step e (job_of (sabs (p_store p)) sid) (job_of (sabs (p_store p')) sid)"
proof -
  have wp: "worker_pool env sinv sabs canon full" using assms(1) by (rule worker_pool.intro)
  from worker_pool.event_ok [OF wp worker_pool.reachable_ok [OF wp assms(2,3)] assms(4)] show ?thesis by blast
qed

definition demo_db :: memdb where
  "demo_db = \<lparr>md_tables = demo_tables, md_now = 3\<rparr>"

definition demo_env :: "memdb pool_env" where
  "demo_env = make_env (sqlite_ops mem_sql (\<lambda>_. None)) 1 (\<lambda>_. ''error'')"

lemma demo_store:
  "job_store (pv_ops demo_env) (\<lambda>db. tables_ok (md_tables db)) (\<lambda>db. tables_abs (md_tables db)) (\<lambda>sr. sr) (\<lambda>_. False)"
  "tables_ok (md_tables demo_db)"
  using lite.store_contract
  by (simp_all add: demo_env_def make_env_def demo_db_def tables_ok_def demo_tables_def demo_job_def with_status_def)

definition fresh_job :: Job where
  "fresh_job = demo_job\<lparr>SessionID := ''s2''\<rparr>"

theorem job_lifecycle_witness:
  "\<exists>p'. pool_event demo_env (Submit fresh_job) (NewPool demo_db None 2) = Some p' \<and>
     job_step (Submit fresh_job) (job_of (tables_abs (md_tables demo_db)) ''s2'')
       (job_of (tables_abs (md_tables (p_store p'))) ''s2'')"
proof -
  obtain p' where p': "pool_event demo_env (Submit fresh_job) (NewPool demo_db None 2) = Some p'" by simp
  from job_lifecycle [OF demo_store reachable.start p', of "''s2''"] p' show ?thesis by (simp add: NewPool_def)
qed

text \<open>
  C15: A job that is neither \<open>PENDING\<close> nor \<open>RUNNING\<close> keeps its status, result and error for
  ever, whatever else the pool does: no job is run again after it has ended.
\<close>

theorem terminal_job_final:
  assumes "job_store (pv_ops env) sinv sabs canon full" "sinv s0"
    and "reachable (pool_event env) (NewPool s0 m n) p" "reachable (pool_event env) p p'"
    and "job_of (sabs (p_store p)) sid = Some j" "job_Status j \<noteq> StatusPending" "job_Status j \<noteq> StatusRunning"
  shows "job_of (sabs (p_store p')) sid = Some j"
proof -
  have wp: "worker_pool env sinv sabs canon full" using assms(1) by (rule worker_pool.intro)
  from worker_pool.terminal_stays [OF wp assms(4) worker_pool.reachable_ok [OF wp assms(2,3)] assms(5-7)]
  show ?thesis .
qed

definition ended_db :: memdb where
  "ended_db = \<lparr>md_tables = \<lparr>tb_jobs = [\<lparr>row_job = demo_job\<lparr>job_Status := StatusCompleted\<rparr>, row_created = 1, row_updated = 1\<rparr>],
     tb_steps = [], tb_next = 1\<rparr>, md_now = 2\<rparr>"

theorem terminal_job_final_witness:
  "\<exists>p'. reachable (pool_event demo_env) (NewPool ended_db None 2) p' \<and> p_quit p' \<and>
     job_of (tables_abs (md_tables (p_store p'))) ''s1'' = Some (demo_job\<lparr>job_Status := StatusCompleted\<rparr>)"
proof -
  have ok: "tables_ok (md_tables ended_db)" by (simp add: ended_db_def tables_ok_def)
  have r: "reachable (pool_event demo_env) (NewPool ended_db None 2) ((NewPool ended_db None 2)\<lparr>p_quit := True\<rparr>)"
    by (rule reachable.event [OF reachable.start, of _ Close]) simp
  have j: "job_of (tables_abs (md_tables (p_store (NewPool ended_db None 2)))) ''s1'' = Some (demo_job\<lparr>job_Status := StatusCompleted\<rparr>)"
    by (simp add: job_of_def tables_abs_def NewPool_def ended_db_def demo_job_def)
  from terminal_job_final [OF demo_store(1) ok reachable.start r j] r show ?thesis
    by (fastforce simp: Status_defs)
qed


lemma two_taken:
  "map_option p_workers (run_events (pool_event demo_env)
     [Submit demo_job, Send 0, Take 0, Submit fresh_job, Send 0, Take 1] (NewPool mem_empty None 2)) =
   Some [WTaken ''s1'', WTaken ''s2'']"
  by code_simp


text \<open>
  C40: A job that \<open>Submit\<close> could not put in the queue (or that was \<open>PENDING\<close> when the process
  started) is never run: it is in no place of the pool, \<open>RequeueOrphans\<close> lists running jobs
  only, and a new \<open>Submit\<close> of its id is refused, so it stays \<open>PENDING\<close> in every continuation.
\<close>

theorem unqueued_job_never_runs:
  assumes "job_store (pv_ops env) sinv sabs canon full" "sinv s0"
    and "reachable (pool_event env) (NewPool s0 m n) p" "reachable (pool_event env) p p'"
    and "sid \<notin> claimed p" "job_of (sabs (p_store p)) sid = Some j" "job_Status j = StatusPending"
  shows "sid \<notin> claimed p' \<and> job_of (sabs (p_store p')) sid = Some j"
proof -
  have wp: "worker_pool env sinv sabs canon full" using assms(1) by (rule worker_pool.intro)
  have "job_Status j \<noteq> StatusRunning" using assms(7) by (simp add: Status_defs)
  from worker_pool.unclaimed_stays [OF wp assms(4) worker_pool.reachable_ok [OF wp assms(2,3)] assms(5,6) this]
  show ?thesis .
qed

theorem unqueued_job_never_runs_witness:
  "\<exists>p'. reachable (pool_event demo_env) (NewPool demo_db None 2) p' \<and>
     ''s1'' \<notin> claimed p' \<and> job_of (tables_abs (md_tables (p_store p'))) ''s1'' = Some (with_status demo_job)"
proof -
  let ?p = "NewPool demo_db None 2"
  have e: "pool_event demo_env Orphans ?p = Some (list_orphans demo_env ?p)"
    by (simp add: NewPool_def)
  have r: "reachable (pool_event demo_env) ?p (list_orphans demo_env ?p)"
    by (rule reachable.event [of "pool_event demo_env" ?p ?p Orphans], rule reachable.start, rule e)
  have c: "''s1'' \<notin> claimed ?p" by (simp add: claimed_eq wclaimed_def NewPool_def)
  have j: "job_of (tables_abs (md_tables (p_store ?p))) ''s1'' = Some (with_status demo_job)"
    by (simp add: job_of_def tables_abs_def NewPool_def demo_db_def demo_tables_def demo_job_def with_status_def)
  have st: "job_Status (with_status demo_job) = StatusPending"
    by (simp add: with_status_def demo_job_def)
  from unqueued_job_never_runs [OF demo_store reachable.start r c j st] r show ?thesis by blast
qed

text \<open>
  C25: A worker that executes a job records every step result in order and then stores the
  result: \<open>FAILED\<close> with the error message when there is one, \<open>COMPLETED\<close> otherwise.
\<close>

theorem worker_records_outcome:
  assumes "job_store (pv_ops env) sinv sabs canon full" "sinv s0"
    and "reachable (pool_event env) (NewPool s0 m n) p"
    and "worker_at p w = WRunning sid j" "execute (pv_text env) eng j = (steps, result, err)" "SessionID j = sid"
  shows "\<exists>p' k. run_events (pool_event env) (Execute w eng # replicate (length steps) (Record w) @ [Finish w]) p = Some p' \<and>
    job_of (sabs (p_store p)) sid = Some k \<and>
    job_of (sabs (p_store p')) sid = Some (k\<lparr>job_Status := if err \<noteq> [] then StatusFailed else StatusCompleted,
                            job_Result := result, job_Error := err\<rparr>) \<and>
    as_steps (sabs (p_store p')) sid = as_steps (sabs (p_store p)) sid @ map canon steps"
proof -
  have wp: "worker_pool env sinv sabs canon full" using assms(1) by (rule worker_pool.intro)
  have "\<forall>sr\<in>set steps. sr_SessionID sr = sid"
    using assms(5,6) by (auto simp: execute_def agent_record_def step_record_def split: if_splits prod.splits)
  from worker_pool.run_job [OF wp worker_pool.reachable_ok [OF wp assms(2,3)] assms(4,5) this] show ?thesis .
qed

definition demo_engine :: engine_ops where
  "demo_engine = \<lparr>eo_RunAgent = (\<lambda>agent input. (\<lparr>ar_AgentID = agent, ar_Output = input @ ''!'', ar_Tokens = 7,
       ar_DurationMS = 3\<rparr>, None)),
     eo_RunPipeline = (\<lambda>p inputs. (\<lparr>pr_PipelineID = p, pr_Output = [], pr_Tokens = 0, pr_DurationMS = 0, pr_Steps = []\<rparr>, None))\<rparr>"

lemma one_running:
  "map_option (\<lambda>p. worker_at p 0) (run_events (pool_event demo_env)
     [Submit demo_job, Send 0, Take 0, Load 0, MarkRunning 0] (NewPool mem_empty None 1)) =
   Some (WRunning ''s1'' (with_status demo_job))"
  by code_simp

theorem worker_records_outcome_witness:
  "\<exists>p p' k. reachable (pool_event demo_env) (NewPool mem_empty None 1) p \<and>
     run_events (pool_event demo_env) [Execute 0 demo_engine, Record 0, Finish 0] p = Some p' \<and>
     job_of (tables_abs (md_tables (p_store p'))) ''s1'' =
       Some (k\<lparr>job_Status := StatusCompleted, job_Result := ''{}!'', job_Error := []\<rparr>)"
proof -
  obtain p where p: "run_events (pool_event demo_env)
     [Submit demo_job, Send 0, Take 0, Load 0, MarkRunning 0] (NewPool mem_empty None 1) = Some p"
    "worker_at p 0 = WRunning ''s1'' (with_status demo_job)"
    using one_running by fastforce
  then have r: "reachable (pool_event demo_env) (NewPool mem_empty None 1) p"
    using reachable_run_events by metis
  have ok: "tables_ok (md_tables mem_empty)" by (simp add: mem_empty_def tables_ok_def)
  obtain steps where e: "execute (pv_text demo_env) demo_engine (with_status demo_job) = (steps, ''{}!'', [])" "length steps = 1"
    by (simp add: execute_def demo_engine_def with_status_def demo_job_def KindAgent_def)
  have "SessionID (with_status demo_job) = ''s1''" by (simp add: demo_job_def)
  from worker_records_outcome [OF demo_store(1) ok r p(2) e(1) this] r e(2) show ?thesis by auto
qed

section \<open>The input of a job\<close>

lemma string_map_members:
  "distinct (map fst (m @ kvs)) \<Longrightarrow>
     for_each (\<lambda>(k, v) m. case v of RNull \<Rightarrow> Inr (obj_put k [] m) | RStr s \<Rightarrow> Inr (obj_put k s m)
                          | _ \<Rightarrow> Inl ErrJSON) (map (\<lambda>(k, s). (k, RStr s)) kvs) m = Inr (m @ kvs)"
proof (induction kvs arbitrary: m)
  case (Cons p kvs)
  obtain k v where p: "p = (k, v)" by fastforce
  with Cons.prems have "obj_put k v m = m @ [(k, v)]" by (intro obj_put_new) auto
  with Cons.IH [of "m @ [(k, v)]"] Cons.prems p show ?case by simp
qed simp

text \<open>
  The inputs of a pipeline job survive the store: a JSON object of strings in the job's
  input gives these inputs back, for all keys and values that are valid UTF-8, and any text
  that does not start with a brace is the input named \<open>input\<close>.
\<close>

theorem parseJobInput_roundtrip:
  assumes "distinct (map fst kvs)" "\<forall>(k, v)\<in>set kvs. valid_utf8 k \<and> valid_utf8 v"
  shows "parseJobInput (object_text (map (\<lambda>(k, s). (k, RStr s)) kvs)) = kvs \<and>
    (\<not> prefix ''{'' (TrimSpace raw) \<longrightarrow> parseJobInput raw = [(''input'', raw)])"
proof
  let ?ms = "map (\<lambda>(k, s). (k, RStr s)) kvs"
  have "visible_ends (object_text ?ms)"
    by (auto simp: visible_ends_def object_text_def visible_def)
  then have trim: "TrimSpace (object_text ?ms) = object_text ?ms" by (rule TrimSpace_visible)
  have "members_ok ?ms" using assms(2) by (auto simp: members_ok_def)
  then have "json_object (object_text ?ms) = Inr (map read_member ?ms)" by (rule json_object_text)
  also have "map read_member ?ms = ?ms"
    using assms(2) by (auto simp: read_member_def to_valid_id)
  finally have obj: "json_object (object_text ?ms) = Inr ?ms" .
  have "string_map ?ms = Inr kvs"
    using string_map_members [of "[]" kvs] assms(1) by (simp add: string_map_def)
  with obj trim show "parseJobInput (object_text ?ms) = kvs"
    by (simp add: parseJobInput_def object_text_def Let_def)
qed (simp add: parseJobInput_def Let_def)

theorem parseJobInput_roundtrip_witness:
  "parseJobInput (object_text (map (\<lambda>(k, s). (k, RStr s)) [(''topic'', ''go''), (''n'', ''3'')])) =
     [(''topic'', ''go''), (''n'', ''3'')]"
proof -
  have "valid_utf8 ''topic''" "valid_utf8 ''go''" "valid_utf8 ''n''" "valid_utf8 ''3''"
    by (rule valid_utf8_ascii; simp)+
  with parseJobInput_roundtrip [of "[(''topic'', ''go''), (''n'', ''3'')]"] show ?thesis by simp
qed

end
