(* ===== verification/ApiProps.thy ===== *)
theory ApiProps
  imports Api WorkerProps
begin

text \<open>
  The properties of the HTTP interface: what a caller without the token can reach, that the
  snapshot of the registry stays valid and is the one the engine uses, and that a job that is
  accepted can be run.
\<close>

section \<open>Routes and paths\<close>

lemma hex_value_slash: "hex_value (CHR ''/'') = None"
  by (simp add: hex_value_def byte_in_def isDigit_def)

lemma unescape_slash: "unescape (CHR ''/'' # s) = CHR ''/'' # unescape s"
  by (cases s rule: unescape.cases) auto

lemma unescape_append_slash: "unescape (s @ CHR ''/'' # t) = unescape s @ CHR ''/'' # unescape t"
proof (induction s rule: unescape.induct)
  case (1 c a b r)
  then show ?case by (auto split: option.split)
next
  case "2_1"
  then show ?case by (simp add: unescape_slash)
next
  case "2_2"
  then show ?case using unescape_slash by (cases t) (auto simp: hex_value_slash split: option.split)
next
  case "2_3"
  then show ?case by (cases t) (auto simp: hex_value_slash unescape_slash split: option.split)
qed

lemma cleanPath_slash: "cleanPath p \<noteq> [] \<and> hd (cleanPath p) = CHR ''/''"
proof -
  have "\<exists>ns. Clean q = CHR ''/'' # ns" if "hd q = CHR ''/''" "q \<noteq> []" for q
    using that by (cases q) (auto simp: Clean_def IsAbs_def)
  from this [of "if hd p = CHR ''/'' then p else CHR ''/'' # p"] show ?thesis
    by (auto simp: cleanPath_def Let_def split: if_splits)
qed

text \<open>A path that is served below \<open>/v1/\<close> is one that \<open>authenticate\<close> guards.\<close>

lemma match_path_guarded:
  assumes "match_path (n # m # ns) t (CHR ''/'' # s)" and "CHR ''/'' \<notin> set n" and "n \<noteq> []"
  shows "prefix (CHR ''/'' # n @ ''/'') (unescape (CHR ''/'' # s))"
proof -
  let ?x = "takeWhile (\<lambda>c. c \<noteq> CHR ''/'') s" and ?y = "dropWhile (\<lambda>c. c \<noteq> CHR ''/'') s"
  have s: "s \<noteq> []" using assms by (auto simp: first_segment_def split: if_splits)
  with assms have "unescape ?x = n" "?y \<noteq> []" by (auto simp: first_segment_def split: if_splits)
  then obtain y where y: "?y = CHR ''/'' # y" using hd_dropWhile [of "\<lambda>c. c \<noteq> CHR ''/''" s] by (cases ?y) auto
  have "s = ?x @ CHR ''/'' # y" by (simp flip: y)
  then have "unescape s = unescape ?x @ CHR ''/'' # unescape y" using unescape_append_slash [of ?x y] by argo
  then have "unescape s = n @ CHR ''/'' # unescape y" using \<open>unescape ?x = n\<close> by argo
  then show ?thesis by (simp add: unescape_slash prefix_def)
qed

definition guarded :: "route \<Rightarrow> bool" where
  "guarded rt \<longleftrightarrow> rt \<in> {Agents, Pipelines, Sessions, Registries}"

lemma match_route_guarded:
  assumes "match_route p = Some (x, rt)" and "guarded rt" and "p \<noteq> []" and "hd p = CHR ''/''"
  shows "prefix ''/v1/'' (unescape p)"
proof -
  obtain s where p: "p = CHR ''/'' # s" using assms(3,4) by (cases p) auto
  obtain m where "match_path [''v1'', m] True p"
    using assms(1,2) by (auto simp: match_route_def routes_def guarded_def find_Some_iff nth_Cons' split: if_splits)
  from match_path_guarded [OF this [unfolded p]] show ?thesis by (simp add: p)
qed

section \<open>Access without the token\<close>

text \<open>\<open>CONNECT\<close>, whose paths the mux does not clean, is no method of a guarded route.\<close>

lemma connect_route:
  assumes "hr_Method r = ''CONNECT''" and "guarded rt"
  shows "serve_route env d rt r a = (fst (serve_route env d rt r b), a)"
  using assms by (auto simp: guarded_def serve_route_def handleAgents_def handlePipelines_def handleSessions_def
      handleRegistry_def handleRegistryCollection_def handleRegistryAgent_def handleRegistryPipeline_def Let_def
      split: option.split prod.split)

text \<open>What the routes outside \<open>/v1/\<close> show.\<close>

definition public :: "('s, 'f) api_env \<Rightarrow> ('s, 'f) api \<Rightarrow> string \<times> counters option \<times> unit res" where
  "public env a = (api_version a, p_metrics (api_pool a), fst (op_Ping (pv_ops (ae_pool env)) (p_store (api_pool a))))"

definition pinged :: "('s, 'f) api_env \<Rightarrow> ('s, 'f) api \<Rightarrow> ('s, 'f) api" where
  "pinged env a = set_store (snd (op_Ping (pv_ops (ae_pool env)) (p_store (api_pool a)))) a"

lemma public_route:
  assumes "\<not> guarded rt"
  shows "snd (serve_route env d rt r a) \<in> {a, pinged env a}"
    and "public env a = public env b \<Longrightarrow> fst (serve_route env d rt r a) = fst (serve_route env d rt r b)"
  using assms
  by (cases rt; auto simp: guarded_def serve_route_def handleHealthz_def handleMetrics_def handleReadyz_def pinged_def
      public_def split: prod.split sum.split)+

lemma public_mux:
  assumes "\<not> prefix ''/v1/'' (hr_Path r)"
  shows "snd (serve_mux env d r a) \<in> {a, pinged env a} \<and>
    (public env a = public env b \<longrightarrow> fst (serve_mux env d r a) = fst (serve_mux env d r b))"
proof (cases "match_route (hr_EscapedPath r)")
  case (Some m)
  show ?thesis
  proof (cases "guarded (snd m)")
    case True
    have "hr_Method r = ''CONNECT'' \<or> hr_EscapedPath r \<noteq> cleanPath (hr_EscapedPath r)"
      using match_route_guarded [of "hr_EscapedPath r" "fst m" "snd m"] Some True assms
        cleanPath_slash [of "hr_EscapedPath r"] by (auto simp: hr_Path_def)
    then show ?thesis
      using connect_route [OF _ True, of r env d a b] Some by (auto simp: serve_mux_def Let_def split: prod.split)
  next
    case False
    then show ?thesis using public_route(1) [OF False, of env d r a] public_route(2) [OF False, of env a b d r] Some
      by (auto simp: serve_mux_def Let_def split: prod.split)
  qed
qed (auto simp: serve_mux_def Let_def)

text \<open>
  C8: when a token is configured, a caller without it gets 401 for every path below \<open>/v1/\<close> and
  changes nothing; with any other path it changes nothing either, a ping of the store apart,
  and what it is answered depends on the version, the counters and that ping alone, not on
  the registry, the jobs or the queue.
\<close>

theorem api_requires_token:
  assumes "api_auth a \<noteq> []" and "bearerToken (hr_Authorization r) \<noteq> api_auth a"
  shows "(prefix ''/v1/'' (hr_Path r) \<longrightarrow> rp_Code (fst (authenticate env d r a)) = 401 \<and> snd (authenticate env d r a) = a) \<and>
    snd (authenticate env d r a) \<in> {a, pinged env a} \<and>
    (public env a = public env b \<and> api_auth a = api_auth b \<longrightarrow> fst (authenticate env d r a) = fst (authenticate env d r b))"
  using assms public_mux [of r env d a b] by (auto simp: authenticate_def Let_def writeError_def writeJSON_def)

section \<open>The snapshot of the registry\<close>

definition service_ok :: "('s, 'f) api \<Rightarrow> bool" where
  "service_ok a \<longleftrightarrow> en_registry (api_engine a) = api_registry a \<and> agents_ok (api_registry a) \<and> pipelines_ok (api_registry a)"

text \<open>
  The step of the snapshot: it stays, or it becomes what a reload of the files gives; and
  then both the interface and the engine have it.
\<close>

definition snapshot_step :: "('s, 'f) api_env \<Rightarrow> ('s, 'f) api \<Rightarrow> http_response \<times> ('s, 'f) api \<Rightarrow> bool" where
  "snapshot_step env a x \<longleftrightarrow>
     (case x of (resp, a') \<Rightarrow>
        api_registry a' = api_registry a \<and> api_engine a' = api_engine a \<or>
        rp_Code resp = 200 \<and> RegistryLoad.Load (ae_fs env) (rg_root (api_registry a)) (api_files a') = Inr (api_registry a') \<and>
        api_engine a' = (api_engine a)\<lparr>en_registry := api_registry a'\<rparr>)"

lemma snapshot_step_same [simp]: "snapshot_step env a (resp, a)"
  by (simp add: snapshot_step_def)

lemma snapshot_step_parts:
  "snapshot_step env a (resp, set_store s a)" "snapshot_step env a (resp, a\<lparr>api_pool := p\<rparr>)"
  by (simp_all add: snapshot_step_def set_store_def)

lemma snapshot_step_mutate: "snapshot_step env a (mutate env write a)"
  by (auto simp: mutate_def snapshot_step_def SetRegistry_def writeJSON_def split: prod.split sum.split)

lemma snapshot_step_submit: "snapshot_step env a (submit_job env job a)"
  by (auto simp: submit_job_def snapshot_step_parts split: prod.split sum.split)

lemmas snapshot_steps = snapshot_step_parts snapshot_step_mutate snapshot_step_submit

lemma snapshot_step_handlers:
  "snapshot_step env a (handleAgents env d r a)" "snapshot_step env a (handlePipelines env d r a)"
  "snapshot_step env a (handleSessions env r a)" "snapshot_step env a (handleRegistry env r a)"
  "snapshot_step env a (handleReadyz env a)"
  by (auto simp: handleAgents_def handleExecuteAgent_def handlePipelines_def handleExecutePipeline_def handleSessions_def
      handleSession_def handleSessionSteps_def handleRegistry_def handleRegistryAgent_def handleRegistryPipeline_def
      handleReadyz_def snapshot_steps Let_def split: option.split prod.split sum.split)

lemma snapshot_step_authenticate: "snapshot_step env a (authenticate env d r a)"
  by (auto simp: authenticate_def serve_mux_def serve_route_def snapshot_step_handlers Let_def
      split: option.split prod.split route.split)

text \<open>
  No request makes the service work with an invalid registry.  If the snapshot is valid
  and the engine has it, this is so after any request; a snapshot is replaced only by what
  \<open>Load\<close> reads from the files as they are then, and only by a request that is answered with 200.
\<close>

theorem api_keeps_registry_valid:
  assumes "service_ok a" and "\<And>dir f es. fs_ReadDir (ae_fs env) dir f = Inr es \<Longrightarrow> distinct (map de_Name es)"
    and "authenticate env d r a = (resp, a')"
  shows "service_ok a' \<and> (api_registry a' \<noteq> api_registry a \<longrightarrow>
    rp_Code resp = 200 \<and> RegistryLoad.Load (ae_fs env) (rg_root (api_registry a)) (api_files a') = Inr (api_registry a'))"
proof -
  have step: "snapshot_step env a (resp, a')" using snapshot_step_authenticate [of env a d r] assms(3) by simp
  have ok: "agents_ok r \<and> pipelines_ok r" if "RegistryLoad.Load (ae_fs env) p f = Inr r" for p f r
    by (rule Load_ok [OF assms(2) that])
  from step assms(1) show ?thesis by (auto simp: snapshot_step_def service_ok_def dest: ok)
qed

section \<open>Accepted jobs\<close>

lemma rp_Code_simps [simp]:
  "rp_Code (writeJSON c v) = c" "rp_Code (writeError c e m) = c" "rp_Code (methodNotAllowed m) = 405"
  "rp_Code unknown_route = 404" "rp_Code (redirect p) = 301" "rp_Code (plain_error c m) = c"
  "rp_Code (handleHealthz a) = 200" "rp_Code (handleMetrics a) = 200"
  by (simp_all add: writeJSON_def writeError_def methodNotAllowed_def unknown_route_def redirect_def plain_error_def
      handleHealthz_def handleMetrics_def)

lemma rp_Code_collection: "rp_Code (handleRegistryCollection r kind a) \<noteq> 202"
  by (simp add: handleRegistryCollection_def Let_def)

lemma rp_Code_mutate: "rp_Code (fst (mutate env write a)) \<noteq> 202"
  by (simp add: mutate_def split: prod.split sum.split)

definition agent_job :: "('s, 'f) api \<Rightarrow> Job \<Rightarrow> bool" where
  "agent_job a job \<longleftrightarrow> job_Kind job = KindAgent \<and> reg_Blueprint (api_registry a) (TargetID job) \<noteq> None"

definition pipeline_job :: "('s, 'f) api \<Rightarrow> error_text \<Rightarrow> string \<Rightarrow> Job \<Rightarrow> bool" where
  "pipeline_job a txt body job \<longleftrightarrow> job_Kind job = KindPipeline \<and>
     (\<exists>p inputs. reg_Pipeline (api_registry a) (TargetID job) = Some p \<and> decodePipelineRequest txt body = Inr inputs \<and>
        missing_input inputs p = None \<and> job_Input job = marshal_inputs inputs)"

text \<open>A request is accepted only by the two handlers that submit a job.\<close>

lemma accepted:
  assumes "rp_Code (fst (authenticate env d r a)) = 202"
  shows "\<exists>job. authenticate env d r a = submit_job env job a \<and> SessionID job = newSessionID d \<and>
    job_Status job = StatusPending \<and> (agent_job a job \<or> pipeline_job a (pv_text (ae_pool env)) (hr_Body r) job)"
proof -
  let ?ok = "\<lambda>x. rp_Code (fst x) = 202 \<longrightarrow> (\<exists>job. x = submit_job env job a \<and> SessionID job = newSessionID d \<and>
    job_Status job = StatusPending \<and> (agent_job a job \<or> pipeline_job a (pv_text (ae_pool env)) (hr_Body r) job))"
  have "?ok (handleAgents env d r a)"
    by (auto simp: handleAgents_def handleExecuteAgent_def agent_job_def new_job_def split: option.split prod.split sum.split)
  moreover have "?ok (handlePipelines env d r a)"
    by (auto simp: handlePipelines_def handleExecutePipeline_def pipeline_job_def new_job_def split: option.split prod.split sum.split)
  moreover have "?ok (handleSessions env r a)"
    by (auto simp: handleSessions_def handleSession_def handleSessionSteps_def session_error_def Let_def
        split: option.split prod.split sum.split)
  moreover have "?ok (handleRegistry env r a)"
    by (auto simp: handleRegistry_def handleRegistryAgent_def handleRegistryPipeline_def rp_Code_mutate rp_Code_collection Let_def
        split: option.split prod.split sum.split)
  moreover have "?ok (handleReadyz env a)" by (auto simp: handleReadyz_def split: prod.split sum.split)
  ultimately have "?ok (serve_route env d rt r a)" for rt by (cases rt) (simp_all add: serve_route_def)
  then have "?ok (serve_mux env d r a)" by (auto simp: serve_mux_def Let_def split: option.split prod.split)
  with assms show ?thesis by (auto simp: authenticate_def Let_def split: if_splits)
qed

definition inputs_valid :: "(string \<times> string) list \<Rightarrow> bool" where
  "inputs_valid m \<longleftrightarrow> distinct (map fst m) \<and> (\<forall>(k, v)\<in>set m. valid_utf8 k \<and> valid_utf8 v)"

lemma inputs_valid_put: "inputs_valid m \<Longrightarrow> valid_utf8 k \<Longrightarrow> valid_utf8 v \<Longrightarrow> inputs_valid (obj_put k v m)"
  using set_obj_put [of k v m] by (auto simp: inputs_valid_def distinct_obj_put)

lemma string_map_valid:
  assumes "string_map ms = Inr m" "raw_valid (RObj ms)"
  shows "inputs_valid m"
proof -
  have "inputs_valid []" by (simp add: inputs_valid_def)
  with assms(1) [unfolded string_map_def] show ?thesis
    by (rule for_each_invariant)
      (use assms(2) in \<open>fastforce simp: list_all_iff split: raw.splits intro: inputs_valid_put\<close>)
qed

lemma decode_body_value:
  assumes "decode_body txt dec body = Inr x"
  shows "\<exists>v rest. stream_value (take maxBodyBytes body) = Some (v, rest) \<and> dec v = Inr x"
  using assms unfolding decode_body_def Let_def
  by (simp only: sum.distinct option.distinct prod.inject sum.inject simp_thms
      split: if_split_asm option.split_asm prod.split_asm sum.split_asm) blast+

lemma decodePipelineRequest_valid:
  assumes "decodePipelineRequest txt body = Inr inputs"
  shows "inputs_valid inputs"
proof -
  have "decode_body txt dec_inputs body = Inr inputs"
    using assms by (simp add: decodePipelineRequest_def split: sum.split_asm if_split_asm)
  then obtain v rest where v: "stream_value (take maxBodyBytes body) = Some (v, rest)" "dec_inputs v = Inr inputs"
    using decode_body_value [of "txt" dec_inputs body inputs] by blast
  from v(1) have "raw_valid v" unfolding stream_value_def by (rule json_value_valid(1))
  with v(2) string_map_valid show ?thesis by (cases v) (auto simp: dec_inputs_def inputs_valid_def [of "[]"])
qed

lemma inputs_reach_pipeline:
  assumes "decodePipelineRequest txt body = Inr inputs"
  shows "map_of (parseJobInput (marshal_inputs inputs)) = map_of inputs"
proof -
  let ?m = "sort_key fst inputs"
  from decodePipelineRequest_valid [OF assms] have d: "distinct (map fst inputs)" and "\<forall>(k, v)\<in>set ?m. valid_utf8 k \<and> valid_utf8 v"
    by (auto simp: inputs_valid_def)
  moreover from d have "distinct (map fst ?m)" by (metis distinct_map distinct_sort set_sort)
  ultimately have "parseJobInput (marshal_inputs inputs) = ?m"
    using parseJobInput_roundtrip [of ?m] by (simp add: marshal_inputs_def)
  with d \<open>distinct (map fst ?m)\<close> show ?thesis by (simp add: map_of_inject_set)
qed

lemma TrimSpace_Nil: "TrimSpace [] = []"
  by (simp add: TrimSpace_def TrimLeftSpace_def TrimRightSpace_def)

lemma inputs_given:
  assumes "missing_input inputs p = None"
  shows "set (pl_Inputs p) \<subseteq> dom (map_of inputs)"
proof
  fix name assume "name \<in> set (pl_Inputs p)"
  with assms show "name \<in> dom (map_of inputs)"
    by (cases "map_of inputs name") (auto simp: missing_input_def find_None_iff TrimSpace_Nil)
qed

lemma pipeline_job_starts:
  assumes "pipeline_job a txt body job" and "pipelines_ok (api_registry a)"
  shows "\<exists>env st. RunPipeline_start (reg_Pipeline (api_registry a)) maxParallel re etxt (TargetID job)
    (map_of (parseJobInput (job_Input job))) = Inr (env, st)"
proof -
  from assms(1) obtain p inputs where p: "reg_Pipeline (api_registry a) (TargetID job) = Some p"
    and i: "decodePipelineRequest txt body = Inr inputs" "missing_input inputs p = None" "job_Input job = marshal_inputs inputs"
    by (auto simp: pipeline_job_def)
  from inputs_given [OF i(2)] inputs_reach_pipeline [OF i(1)] i(3)
  have "set (pl_Inputs p) \<subseteq> dom (map_of (parseJobInput (job_Input job)))" by simp
  from valid_pipeline_starts [OF assms(2) p this] show ?thesis .
qed

lemma submit_job_accepted:
  assumes "job_store (pv_ops (ae_pool env)) sinv sabs canon full" "sinv (p_store (api_pool a))"
    and "submit_job env job a = (resp, a')" "rp_Code resp = 202"
  shows "api_registry a' = api_registry a \<and> p_queue (api_pool a') = p_queue (api_pool a) @ [SessionID job] \<and>
    length (p_queue (api_pool a')) \<le> pv_cap (ae_pool env) \<and>
    sabs (p_store (api_pool a')) = add_job job (sabs (p_store (api_pool a))) \<and>
    job_of (sabs (p_store (api_pool a))) (SessionID job) = None"
proof -
  let ?p = "api_pool a"
  obtain res s where c: "op_CreateJob (pv_ops (ae_pool env)) (p_store ?p) (with_status job) = (res, s)" by fastforce
  with assms(3,4) have res: "res = Inr ()"
    by (cases res) (auto simp: submit_job_def pool_Submit_def submit_def split: if_splits)
  with c assms(3,4) have q: "length (p_queue ?p) < pv_cap (ae_pool env)" "p_store (api_pool a') = s"
    "p_queue (api_pool a') = p_queue ?p @ [SessionID job]" "api_registry a' = api_registry a"
    by (auto simp: submit_job_def pool_Submit_def submit_def send_queue_def Let_def nth_append split: if_splits)
  from job_store.create [OF assms(1,2) c] res
  have "create_spec (with_status job) (Inr ()) (sabs (p_store ?p)) (sabs s)" by auto
  then have "job_of (sabs (p_store ?p)) (SessionID job) = None" "sabs s = add_job job (sabs (p_store ?p))"
    by (auto simp: create_spec_def add_job_def with_status_def StatusPending_def split: if_splits)
  with q show ?thesis by simp
qed

text \<open>
  C12: a request that is answered with 202 has put exactly one new job, with a session id that
  was not in use, into the store as \<open>PENDING\<close> and at the end of the queue.  The job can be
  run: its agent is in the registry and has a prompt, or its pipeline starts on the inputs
  that the worker reads back from the job.
\<close>

theorem accepted_job_can_run:
  assumes "job_store (pv_ops (ae_pool env)) sinv sabs canon full" "sinv (p_store (api_pool a))" "service_ok a"
    and "authenticate env d r a = (resp, a')" "rp_Code resp = 202"
  shows "\<exists>job. SessionID job = newSessionID d \<and> job_Status job = StatusPending \<and>
    job_of (sabs (p_store (api_pool a))) (SessionID job) = None \<and>
    sabs (p_store (api_pool a')) = add_job job (sabs (p_store (api_pool a))) \<and>
    p_queue (api_pool a') = p_queue (api_pool a) @ [SessionID job] \<and> length (p_queue (api_pool a')) \<le> pv_cap (ae_pool env) \<and>
    (job_Kind job = KindAgent \<and> reg_Blueprint (api_registry a') (TargetID job) \<noteq> None \<and> reg_Prompt (api_registry a') (TargetID job) \<noteq> None \<or>
     job_Kind job = KindPipeline \<and>
       (\<exists>penv st. RunPipeline_start (reg_Pipeline (api_registry a')) maxParallel re etxt (TargetID job)
          (map_of (parseJobInput (job_Input job))) = Inr (penv, st)))"
proof -
  from accepted [of env d r a] assms(4,5) obtain job where job: "submit_job env job a = (resp, a')"
    "SessionID job = newSessionID d" "job_Status job = StatusPending"
    "agent_job a job \<or> pipeline_job a (pv_text (ae_pool env)) (hr_Body r) job" by auto
  note sub = submit_job_accepted [OF assms(1,2) job(1) assms(5)]
  from assms(3) have ok: "agents_ok (api_registry a)" "pipelines_ok (api_registry a)" by (auto simp: service_ok_def)
  have "reg_Prompt (api_registry a) i \<noteq> None" if "reg_Blueprint (api_registry a) i \<noteq> None" for i
    using ok(1) [unfolded agents_ok_def, rule_format, of i] that by (auto simp: agent_ok_def)
  with job sub pipeline_job_starts [OF _ ok(2), of "pv_text (ae_pool env)" "hr_Body r" job maxParallel re etxt] show ?thesis
    by (intro exI [of _ job]) (auto simp: agent_job_def pipeline_job_def)
qed

section \<open>A service to try the properties on\<close>

lemma decode_body_object:
  assumes "members_ok ms" "length (object_text ms) \<le> maxBodyBytes" "dec (RObj (map read_member ms)) = Inr x"
  shows "decode_body txt dec (object_text ms) = Inr x"
proof -
  have "json_document (object_text ms) = Some (RObj (map read_member ms))"
    using assms(1) by (simp add: members_ok_def json_document_object)
  then obtain rest where v: "stream_value (object_text ms) = Some (RObj (map read_member ms), rest)" "skip_ws rest = []"
    by (auto simp: json_document_def stream_value_def split: option.splits if_splits)
  moreover have "skip_ws (object_text ms) \<noteq> []" by (simp add: object_text_def skip_ws_def json_ws_def)
  ultimately show ?thesis using assms(2,3) by (simp add: decode_body_def Let_def)
qed

definition demo_api_env :: "(memdb, mem_files) api_env" where
  "demo_api_env = \<lparr>ae_pool = demo_env, ae_fs = mem_fs\<rparr>"

definition demo_service :: "(memdb, mem_files) api" where
  "demo_service = \<lparr>api_engine = \<lparr>en_registry = demo_registry, en_maxParallel = 1, en_tools = None, en_metrics = None\<rparr>,
     api_registry = demo_registry, api_pool = NewPool mem_empty None 1, api_version = ''1'', api_auth = ''t'',
     api_files = demo_state []\<rparr>"

definition demo_post :: "string \<Rightarrow> http_request" where
  "demo_post token = \<lparr>hr_Method = ''POST'', hr_EscapedPath = ''/v1/pipelines/q/execute'', hr_Authorization = token,
     hr_Body = object_text [(''x'', RStr ''y'')]\<rparr>"

definition demo_entropy :: entropy where
  "demo_entropy = \<lparr>en_rand = Some ''abcdefghijkl'', en_time = []\<rparr>"

lemma demo_decodes: "decodePipelineRequest txt (hr_Body (demo_post token)) = Inr [(''x'', ''y'')]"
proof -
  have "members_ok [(''x'', RStr ''y'')]" by (auto simp: members_ok_def intro!: valid_utf8_ascii)
  moreover have "length (object_text [(''x'', RStr ''y'')]) = 9" by code_simp
  moreover have "dec_inputs (RObj (map read_member [(''x'', RStr ''y'')])) = Inr [(''x'', ''y'')]"
    by (simp add: dec_inputs_def string_map_def read_member_def to_valid_id valid_utf8_ascii)
  ultimately have "decode_body txt dec_inputs (object_text [(''x'', RStr ''y'')]) = Inr [(''x'', ''y'')]"
    by (intro decode_body_object) (simp_all add: maxBodyBytes_def)
  then show ?thesis by (simp add: decodePipelineRequest_def demo_post_def)
qed

lemma demo_service_ok: "service_ok demo_service"
  using demo_registry_ok by (simp add: service_ok_def demo_service_def)

lemma demo_route:
  "needs_slash ''/v1/pipelines/q/execute'' = False" "cleanPath ''/v1/pipelines/q/execute'' = ''/v1/pipelines/q/execute''"
  "match_route ''/v1/pipelines/q/execute'' = Some (([''v1'', ''pipelines''], True), Pipelines)"
  "unescape ''/v1/pipelines/q/execute'' = ''/v1/pipelines/q/execute''"
  "splitTwo (TrimPrefix ''/v1/pipelines/q/execute'' ''/v1/pipelines/'') = Some (''q'', ''execute'')"
  "bearerToken ''bearer  t'' = ''t''" "newSessionID demo_entropy = ''sess_6162636465666768696a6b6c''"
  "missing_input [(''x'', ''y'')] demo_pipeline = None" "marshal_inputs [(''x'', ''y'')] = object_text [(''x'', RStr ''y'')]"
  by code_simp+

theorem api_requires_token_witness:
  "rp_Code (fst (authenticate demo_api_env demo_entropy (demo_post ''Bearer u'') demo_service)) = 401"
proof -
  have "bearerToken ''Bearer u'' \<noteq> ''t''" by code_simp
  then show ?thesis
    using api_requires_token [of demo_service "demo_post ''Bearer u''" demo_api_env demo_entropy demo_service]
    by (simp add: demo_service_def demo_post_def hr_Path_def demo_route)
qed

lemma demo_accepted:
  "authenticate demo_api_env demo_entropy (demo_post ''bearer  t'') demo_service =
     submit_job demo_api_env (new_job ''sess_6162636465666768696a6b6c'' KindPipeline ''q'' (object_text [(''x'', RStr ''y'')])) demo_service"
  "rp_Code (fst (submit_job demo_api_env (new_job ''sess_6162636465666768696a6b6c'' KindPipeline ''q'' (object_text [(''x'', RStr ''y'')]))
     demo_service)) = 202"
proof -
  have "reg_Pipeline demo_registry ''q'' = Some demo_pipeline" by (simp add: demo_registry_def reg_defs)
  then show "authenticate demo_api_env demo_entropy (demo_post ''bearer  t'') demo_service =
     submit_job demo_api_env (new_job ''sess_6162636465666768696a6b6c'' KindPipeline ''q'' (object_text [(''x'', RStr ''y'')])) demo_service"
    using demo_decodes
    by (simp add: authenticate_def serve_mux_def serve_route_def handlePipelines_def handleExecutePipeline_def demo_route Let_def
        hr_Path_def demo_post_def demo_service_def)
  show "rp_Code (fst (submit_job demo_api_env (new_job ''sess_6162636465666768696a6b6c'' KindPipeline ''q''
     (object_text [(''x'', RStr ''y'')])) demo_service)) = 202"
    by code_simp
qed

theorem api_keeps_registry_valid_witness:
  "service_ok (snd (authenticate demo_api_env demo_entropy (demo_post ''bearer  t'') demo_service))"
proof -
  let ?x = "authenticate demo_api_env demo_entropy (demo_post ''bearer  t'') demo_service"
  have "service_ok (snd ?x) \<and> (api_registry (snd ?x) \<noteq> api_registry demo_service \<longrightarrow> rp_Code (fst ?x) = 200 \<and>
      RegistryLoad.Load (ae_fs demo_api_env) (rg_root (api_registry demo_service)) (api_files (snd ?x)) = Inr (api_registry (snd ?x)))"
    by (rule api_keeps_registry_valid [OF demo_service_ok _ prod.collapse [symmetric]]) (simp add: demo_api_env_def mem_fs_def)
  then show ?thesis by (rule conjunct1)
qed

theorem accepted_job_can_run_witness:
  "\<exists>job :: Job. SessionID job = ''sess_6162636465666768696a6b6c'' \<and>
     p_queue (api_pool (snd (authenticate demo_api_env demo_entropy (demo_post ''bearer  t'') demo_service))) = [SessionID job]"
proof -
  have store: "job_store (pv_ops (ae_pool demo_api_env)) (\<lambda>db. tables_ok (md_tables db)) (\<lambda>db. tables_abs (md_tables db)) (\<lambda>sr. sr) (\<lambda>_. False)"
    using demo_store(1) by (simp add: demo_api_env_def)
  have inv: "tables_ok (md_tables (p_store (api_pool demo_service)))"
    by (simp add: demo_service_def NewPool_def mem_empty_def tables_ok_def)
  have code: "rp_Code (fst (authenticate demo_api_env demo_entropy (demo_post ''bearer  t'') demo_service)) = 202"
    by (simp only: demo_accepted)
  from accepted_job_can_run [OF store inv demo_service_ok prod.collapse [symmetric] code, where maxParallel = 4
      and re = "\<lambda>_. Inl ErrJSON" and etxt = "\<lambda>_. []"]
  have "\<exists>job :: Job. SessionID job = newSessionID demo_entropy \<and>
    p_queue (api_pool (snd (authenticate demo_api_env demo_entropy (demo_post ''bearer  t'') demo_service))) =
      p_queue (api_pool demo_service) @ [SessionID job]"
    by (elim exE conjE) (intro exI conjI; assumption)
  moreover have "p_queue (api_pool demo_service) = []" by (simp add: demo_service_def NewPool_def)
  ultimately show ?thesis by (simp add: demo_route)
qed

end
