(* ===== verification/RegistryRead.thy ===== *)
theory RegistryRead
  imports RegistryWrite
begin

text \<open>
  What is written to the registry is read back: the encoding of a blueprint or a pipeline
  decodes to it, and a reload after a write has the entry that was written.
\<close>

section \<open>Decoding what was encoded\<close>

lemma field_values_encoded:
  assumes "plain_name g"
  shows "field_values f (string_member g s) = (if g = f then [RStr s] else [])"
    "field_values f (omit_string g s) = (if g = f \<and> s \<noteq> [] then [RStr s] else [])"
    "field_values f (omit_int g n) = (if g = f \<and> n \<noteq> 0 then [RNum (Itoa (sint n))] else [])"
    "field_values f (omit_list g vs) = (if g = f \<and> vs \<noteq> [] then [RArr vs] else [])"
    "field_values f (omit_false g b) = (if g = f \<and> b then [RBool True] else [])"
    "field_values f (omit_any g j) = (if g = f \<and> j \<noteq> JNull then [raw_of_json j] else [])"
    "field_values f [(g, v)] = (if g = f then [v] else [])"
  using assms by (auto simp: string_member_def omit_string_def omit_int_def omit_list_def omit_false_def omit_any_def fold_plain_name)

definition member_names :: "members \<Rightarrow> string set" where
  "member_names ms = (\<lambda>m. fold_name (fst m)) ` set ms"

lemma member_names_encoded:
  "member_names (ms @ ns) \<subseteq> N \<longleftrightarrow> member_names ms \<subseteq> N \<and> member_names ns \<subseteq> N" "member_names [] \<subseteq> N"
  "plain_name g \<Longrightarrow> g \<in> N \<Longrightarrow> member_names (string_member g s) \<subseteq> N"
  "plain_name g \<Longrightarrow> g \<in> N \<Longrightarrow> member_names (omit_string g s) \<subseteq> N"
  "plain_name g \<Longrightarrow> g \<in> N \<Longrightarrow> member_names (omit_int g n) \<subseteq> N"
  "plain_name g \<Longrightarrow> g \<in> N \<Longrightarrow> member_names (omit_list g vs) \<subseteq> N"
  "plain_name g \<Longrightarrow> g \<in> N \<Longrightarrow> member_names (omit_false g b) \<subseteq> N"
  "plain_name g \<Longrightarrow> g \<in> N \<Longrightarrow> member_names (omit_any g j) \<subseteq> N"
  "plain_name g \<Longrightarrow> member_names ((g, v) # ms) \<subseteq> N \<longleftrightarrow> g \<in> N \<and> member_names ms \<subseteq> N"
  by (auto simp: member_names_def string_member_def omit_string_def omit_int_def omit_list_def omit_false_def omit_any_def fold_plain_name)

lemma struct_members_known: "member_names ms \<subseteq> set names \<Longrightarrow> struct_members names (RObj ms) = Inr ms"
  by (auto simp: struct_members_def member_names_def list_all_iff)

lemma plain_names:
  "plain_name ''id''" "plain_name ''description''" "plain_name ''prompt_path''" "plain_name ''model''" "plain_name ''base_url''"
  "plain_name ''temperature''" "plain_name ''max_tokens''" "plain_name ''timeout_seconds''" "plain_name ''output_format''"
  "plain_name ''output_schema''" "plain_name ''tools''" "plain_name ''concurrency''" "plain_name ''rate_limit''" "plain_name ''version''"
  "plain_name ''field''" "plain_name ''equals''" "plain_name ''not_equals''" "plain_name ''in''" "plain_name ''matches''" "plain_name ''exists''"
  "plain_name ''when''" "plain_name ''default''" "plain_name ''goto''" "plain_name ''agent_id''" "plain_name ''input''" "plain_name ''output''"
  "plain_name ''router''" "plain_name ''routes''" "plain_name ''needs''" "plain_name ''pipeline_id''" "plain_name ''inputs''" "plain_name ''steps''"
  by (simp_all add: plain_name_def byte_in_def)

text \<open>The value of a field, by the one value or none that it has in the document.\<close>

lemma string_field_one:
  "field_values f ms = [RStr s] \<Longrightarrow> string_field f ms = Inr s"
  "field_values f ms = (if s \<noteq> [] then [RStr s] else []) \<Longrightarrow> string_field f ms = Inr s"
  by (simp_all add: string_field_def split: if_splits)

lemma int_field_one:
  "field_values f ms = [RNum (Itoa (sint n))] \<Longrightarrow> int_field f ms = Inr n"
  "field_values f ms = (if n \<noteq> 0 then [RNum (Itoa (sint n))] else []) \<Longrightarrow> int_field f ms = Inr n"
  by (simp_all add: int_field_def Atoi_sint split: if_splits)

lemma field_one:
  "field_values f ms = [v] \<Longrightarrow> v \<noteq> RNull \<Longrightarrow> field f ms zero dec = dec v"
  "field_values f ms = [] \<Longrightarrow> field f ms zero dec = Inr zero"
  by (cases v; simp add: field_def; cases "dec v"; simp)+

lemma dec_list_map:
  assumes "\<And>x. x \<in> set xs \<Longrightarrow> (if enc x = RNull then Inr zero else dec (enc x)) = Inr x"
  shows "dec_list zero dec (RArr (map enc xs)) = Inr xs"
proof -
  have "for_each (\<lambda>v acc. bind_res (case v of RNull \<Rightarrow> Inr zero | _ \<Rightarrow> dec v) (\<lambda>x. Inr (acc @ [x]))) (map enc xs) acc = Inr (acc @ xs)" for acc
    using assms
  proof (induction xs arbitrary: acc)
    case (Cons x xs)
    have "(case enc x of RNull \<Rightarrow> Inr zero | _ \<Rightarrow> dec (enc x)) = Inr x"
      using Cons.prems [of x] by (cases "enc x") auto
    with Cons show ?case by simp
  qed simp
  then show ?thesis by (simp add: dec_list_def)
qed

definition json_stable :: "json \<Rightarrow> bool" where
  "json_stable v \<longleftrightarrow> to_any (raw_of_json v) = Some v"

lemma dec_any_stable: "json_stable v \<Longrightarrow> (if raw_of_json v = RNull then Inr JNull else dec_any (raw_of_json v)) = Inr v"
  by (cases v) (auto simp: json_stable_def dec_any_def)

definition condition_stable :: "Condition \<Rightarrow> bool" where
  "condition_stable c \<longleftrightarrow> json_stable (Equals c) \<and> json_stable (NotEquals c) \<and> list_all json_stable (In c)"

lemma enc_not_null: "enc_Condition c \<noteq> RNull" "enc_Route rt \<noteq> RNull" "enc_Step st \<noteq> RNull"
  by (simp_all add: enc_Condition_def enc_Route_def enc_Step_def)

lemma dec_enc_Condition:
  assumes "condition_stable c"
  shows "dec_Condition (enc_Condition c) = Inr c"
proof -
  obtain ms where ms: "enc_Condition c = RObj ms" by (simp add: enc_Condition_def)
  note ms_eq = ms [unfolded enc_Condition_def raw.inject, symmetric]
  have v: "field_values ''field'' ms = [RStr (Field c)]"
    "field_values ''equals'' ms = (if Equals c \<noteq> JNull then [raw_of_json (Equals c)] else [])"
    "field_values ''not_equals'' ms = (if NotEquals c \<noteq> JNull then [raw_of_json (NotEquals c)] else [])"
    "field_values ''in'' ms = (if In c \<noteq> [] then [RArr (map raw_of_json (In c))] else [])"
    "field_values ''matches'' ms = (if Matches c \<noteq> [] then [RStr (Matches c)] else [])"
    "field_values ''exists'' ms = (if Exists c then [RBool True] else [])"
    unfolding ms_eq by (simp_all add: field_values_encoded plain_names)
  have known: "struct_members [''field'', ''equals'', ''not_equals'', ''in'', ''matches'', ''exists''] (RObj ms) = Inr ms"
    by (rule struct_members_known) (simp add: ms_eq member_names_encoded plain_names)
  have any: "field f ms JNull dec_any = Inr j"
    if "field_values f ms = (if j \<noteq> JNull then [raw_of_json j] else [])" "json_stable j" for f j
    using that dec_any_stable [of j] by (cases "j = JNull"; cases j) (auto simp: field_one)
  have "field ''in'' ms [] (dec_list JNull dec_any) = Inr (In c)"
    using v(4) assms dec_list_map [of "In c" raw_of_json JNull dec_any] dec_any_stable
    by (cases "In c = []") (auto simp: field_one condition_stable_def list_all_iff)
  moreover have "field ''exists'' ms False dec_bool = Inr (Exists c)"
    using v(6) by (cases "Exists c") (simp_all add: field_one dec_bool_def)
  ultimately show ?thesis
    using assms any [OF v(2)] any [OF v(3)] string_field_one(1) [OF v(1)] string_field_one(2) [OF v(5)] known
    by (simp add: ms dec_Condition_def condition_stable_def)
qed

lemma dec_enc_Route:
  assumes "\<And>c. When rt = Some c \<Longrightarrow> condition_stable c"
  shows "dec_Route (enc_Route rt) = Inr rt"
proof -
  obtain ms where ms: "enc_Route rt = RObj ms" by (simp add: enc_Route_def)
  note ms_eq = ms [unfolded enc_Route_def raw.inject, symmetric]
  have v: "field_values ''when'' ms = (case When rt of None \<Rightarrow> [] | Some c \<Rightarrow> [enc_Condition c])"
    "field_values ''default'' ms = (if Default rt then [RBool True] else [])" "field_values ''goto'' ms = [RStr (Goto rt)]"
    unfolding ms_eq by (simp_all add: field_values_encoded plain_names ascii_lower_def byte_in_def split: option.split)
  have known: "struct_members [''when'', ''default'', ''goto''] (RObj ms) = Inr ms"
    by (rule struct_members_known) (simp add: ms_eq member_names_encoded plain_names split: option.split)
  have "field ''when'' ms None (\<lambda>v. bind_res (dec_Condition v) (\<lambda>c. Inr (Some c))) = Inr (When rt)"
    using v(1) assms by (cases "When rt") (simp_all add: field_one dec_enc_Condition enc_not_null)
  moreover have "field ''default'' ms False dec_bool = Inr (Default rt)"
    using v(2) by (cases "Default rt") (simp_all add: field_one dec_bool_def)
  ultimately show ?thesis using string_field_one(1) [OF v(3)] known by (simp add: ms dec_Route_def)
qed

definition step_stable :: "Step \<Rightarrow> bool" where
  "step_stable st \<longleftrightarrow> list_all (\<lambda>rt. case When rt of None \<Rightarrow> True | Some c \<Rightarrow> condition_stable c) (step_Routes st)"

lemma string_list_field:
  "field_values f ms = (if xs \<noteq> [] then [RArr (map RStr xs)] else []) \<Longrightarrow> field f ms [] (dec_list [] dec_string) = Inr xs"
  using dec_list_map [of xs RStr "[]" dec_string] by (simp add: field_one dec_string_def split: if_splits)

lemma dec_enc_Step:
  assumes "step_stable st"
  shows "dec_Step (enc_Step st) = Inr st"
proof -
  obtain ms where ms: "enc_Step st = RObj ms" by (simp add: enc_Step_def)
  note ms_eq = ms [unfolded enc_Step_def raw.inject, symmetric]
  have v: "field_values ''id'' ms = [RStr (step_ID st)]" "field_values ''input'' ms = [RStr (step_Input st)]"
    "field_values ''agent_id'' ms = (if step_AgentID st \<noteq> [] then [RStr (step_AgentID st)] else [])"
    "field_values ''output'' ms = (if step_Output st \<noteq> [] then [RStr (step_Output st)] else [])"
    "field_values ''router'' ms = (if step_Router st then [RBool True] else [])"
    "field_values ''routes'' ms = (if step_Routes st \<noteq> [] then [RArr (map enc_Route (step_Routes st))] else [])"
    "field_values ''needs'' ms = (if step_Needs st \<noteq> [] then [RArr (map RStr (step_Needs st))] else [])"
    unfolding ms_eq by (simp_all add: field_values_encoded plain_names)
  have known: "struct_members [''id'', ''agent_id'', ''input'', ''output'', ''router'', ''routes'', ''needs''] (RObj ms) = Inr ms"
    by (rule struct_members_known) (simp add: ms_eq member_names_encoded plain_names)
  have "dec_list zero_Route dec_Route (RArr (map enc_Route (step_Routes st))) = Inr (step_Routes st)"
    using assms by (intro dec_list_map) (auto simp: step_stable_def list_all_iff dec_enc_Route enc_not_null split: option.splits)
  then have "field ''routes'' ms [] (dec_list zero_Route dec_Route) = Inr (step_Routes st)"
    using v(6) by (cases "step_Routes st = []") (simp_all add: field_one)
  moreover have "field ''router'' ms False dec_bool = Inr (step_Router st)"
    using v(5) by (cases "step_Router st") (simp_all add: field_one dec_bool_def)
  ultimately show ?thesis
    using string_field_one(1) [OF v(1)] string_field_one(1) [OF v(2)] string_field_one(2) [OF v(3)] string_field_one(2) [OF v(4)]
      string_list_field [OF v(7)] known
    by (simp add: ms dec_Step_def)
qed

lemma dec_enc_Pipeline:
  assumes "list_all step_stable (pl_Steps p)"
  shows "dec_Pipeline (enc_Pipeline p) = Inr p"
proof -
  obtain ms where ms: "enc_Pipeline p = RObj ms" by (simp add: enc_Pipeline_def)
  note ms_eq = ms [unfolded enc_Pipeline_def raw.inject, symmetric]
  have v: "field_values ''pipeline_id'' ms = [RStr (PipelineID p)]" "field_values ''version'' ms = [RNum (Itoa (sint (pl_Version p)))]"
    "field_values ''inputs'' ms = (if pl_Inputs p \<noteq> [] then [RArr (map RStr (pl_Inputs p))] else [])"
    "field_values ''steps'' ms = [RArr (map enc_Step (pl_Steps p))]"
    "field_values ''output'' ms = (if pl_Output p \<noteq> [] then [RStr (pl_Output p)] else [])"
    unfolding ms_eq by (simp_all add: field_values_encoded plain_names ascii_lower_def byte_in_def)
  have known: "struct_members [''pipeline_id'', ''version'', ''inputs'', ''steps'', ''output''] (RObj ms) = Inr ms"
    by (rule struct_members_known) (simp add: ms_eq member_names_encoded plain_names)
  have "dec_list zero_Step dec_Step (RArr (map enc_Step (pl_Steps p))) = Inr (pl_Steps p)"
    using assms by (intro dec_list_map) (auto simp: list_all_iff dec_enc_Step enc_not_null)
  then have "field ''steps'' ms [] (dec_list zero_Step dec_Step) = Inr (pl_Steps p)"
    using field_one(1) [OF v(4), of "[]" "dec_list zero_Step dec_Step"] by simp
  then show ?thesis
    using string_field_one(1) [OF v(1)] int_field_one(1) [OF v(2)] string_list_field [OF v(3)] string_field_one(2) [OF v(5)] known
    by (simp add: ms dec_Pipeline_def)
qed

lemma dec_enc_AgentBlueprint:
  assumes "\<And>x. bp_Temperature bp = Some x \<Longrightarrow> literal_f64 (json_float x) = Some x"
  shows "dec_AgentBlueprint (enc_AgentBlueprint bp) = Inr bp"
proof -
  obtain ms where ms: "enc_AgentBlueprint bp = RObj ms" by (simp add: enc_AgentBlueprint_def)
  note ms_eq = ms [unfolded enc_AgentBlueprint_def raw.inject, symmetric]
  have v: "field_values ''id'' ms = [RStr (bp_ID bp)]" "field_values ''prompt_path'' ms = [RStr (bp_PromptPath bp)]"
    "field_values ''model'' ms = [RStr (bp_Model bp)]" "field_values ''version'' ms = [RNum (Itoa (sint (bp_Version bp)))]"
    "field_values ''temperature'' ms = (case bp_Temperature bp of None \<Rightarrow> [] | Some x \<Rightarrow> [RNum (json_float x)])"
    "field_values ''tools'' ms = (if bp_Tools bp \<noteq> [] then [RArr (map RStr (bp_Tools bp))] else [])"
    unfolding ms_eq by (simp_all add: field_values_encoded plain_names ascii_lower_def byte_in_def split: option.split)
  have w: "field_values ''description'' ms = (if bp_Description bp \<noteq> [] then [RStr (bp_Description bp)] else [])"
    "field_values ''base_url'' ms = (if bp_BaseURL bp \<noteq> [] then [RStr (bp_BaseURL bp)] else [])"
    "field_values ''output_format'' ms = (if bp_OutputFormat bp \<noteq> [] then [RStr (bp_OutputFormat bp)] else [])"
    "field_values ''output_schema'' ms = (if bp_OutputSchema bp \<noteq> [] then [RStr (bp_OutputSchema bp)] else [])"
    "field_values ''rate_limit'' ms = (if bp_RateLimit bp \<noteq> [] then [RStr (bp_RateLimit bp)] else [])"
    unfolding ms_eq by (simp_all add: field_values_encoded plain_names ascii_lower_def byte_in_def split: option.split)
  have n: "field_values ''max_tokens'' ms = (if bp_MaxTokens bp \<noteq> 0 then [RNum (Itoa (sint (bp_MaxTokens bp)))] else [])"
    "field_values ''timeout_seconds'' ms = (if bp_TimeoutSeconds bp \<noteq> 0 then [RNum (Itoa (sint (bp_TimeoutSeconds bp)))] else [])"
    "field_values ''concurrency'' ms = (if bp_Concurrency bp \<noteq> 0 then [RNum (Itoa (sint (bp_Concurrency bp)))] else [])"
    unfolding ms_eq by (simp_all add: field_values_encoded plain_names ascii_lower_def byte_in_def split: option.split)
  have known: "struct_members [''id'', ''description'', ''prompt_path'', ''model'', ''base_url'', ''temperature'',
       ''max_tokens'', ''timeout_seconds'', ''output_format'', ''output_schema'', ''tools'', ''concurrency'',
       ''rate_limit'', ''version''] (RObj ms) = Inr ms"
    by (rule struct_members_known) (simp add: ms_eq member_names_encoded plain_names split: option.split)
  have "field ''temperature'' ms None dec_f64 = Inr (bp_Temperature bp)"
    using v(5) assms by (cases "bp_Temperature bp") (simp_all add: field_one dec_f64_def)
  then show ?thesis
    using v(1-3) [THEN string_field_one(1)] int_field_one(1) [OF v(4)] string_list_field [OF v(6)] w [THEN string_field_one(2)]
      n [THEN int_field_one(2)] known
    by (simp add: ms dec_AgentBlueprint_def)
qed

section \<open>Decoding the file that was written\<close>

text \<open>
  Definitions that JSON can carry: their strings are valid UTF-8, the numbers in their
  conditions are read back as they are printed, and they are not nested too deeply.
\<close>

definition raw_writable :: "raw \<Rightarrow> bool" where
  "raw_writable v \<longleftrightarrow> raw_ok v \<and> raw_depth v \<le> max_depth"

definition pipeline_writable :: "Pipeline \<Rightarrow> bool" where
  "pipeline_writable p \<longleftrightarrow> raw_writable (enc_Pipeline p) \<and> list_all step_stable (pl_Steps p)"

definition blueprint_writable :: "AgentBlueprint \<Rightarrow> bool" where
  "blueprint_writable bp \<longleftrightarrow> raw_writable (enc_AgentBlueprint bp) \<and>
     (case bp_Temperature bp of None \<Rightarrow> True | Some x \<Rightarrow> literal_f64 (json_float x) = Some x)"

lemma decodeStrict_written:
  assumes "raw_writable v" "dec v = Inr x"
  shows "decodeStrict dec path (Inr (raw_indent 0 v @ [CHR 0x0A])) = Inr x"
  using assms raw_indent_read [of v "[CHR 0x0A]" 0]
  by (simp add: raw_writable_def decodeStrict_document wrap_err_def json_ws_def)

lemma decode_pipeline_written:
  "pipeline_writable p \<Longrightarrow> marshal_pipeline p = Inr data \<Longrightarrow> decodeStrict dec_Pipeline path (Inr (data @ [CHR 0x0A])) = Inr p"
  by (auto simp: pipeline_writable_def marshal_pipeline_def dec_enc_Pipeline intro: decodeStrict_written split: if_splits)

lemma decode_blueprint_written:
  "blueprint_writable bp \<Longrightarrow> marshal_blueprint bp = Inr data \<Longrightarrow>
     decodeStrict dec_AgentBlueprint path (Inr (data @ [CHR 0x0A])) = Inr bp"
  by (auto simp: blueprint_writable_def marshal_blueprint_def intro!: decodeStrict_written dec_enc_AgentBlueprint
      split: option.splits if_splits)

section \<open>The path that the loader reads\<close>

lemma clean_names_dots_first: "dots_first ns \<Longrightarrow> clean_names False ns = ns"
proof (induction ns rule: rev_induct)
  case (snoc w ns)
  from snoc.prems have d: "dots_first ns" using dots_first_butlast [of "ns @ [w]"] by simp
  have "ns = [] \<or> last ns = ''..''" if "w = ''..''"
    using snoc.prems that by (cases "dropWhile (\<lambda>w. w = ''..'') ns = []")
      (auto simp: dots_first_def dropWhile_append dropWhile_eq_Nil_conv dest: last_in_set split: if_splits)
  with snoc.IH [OF d] show ?case by (auto simp: clean_names_def clean_name_def)
qed (simp add: clean_names_def)

lemma clean_names_rooted: "''..'' \<notin> set (clean_names True ns)"
proof -
  have "''..'' \<notin> set acc \<Longrightarrow> ''..'' \<notin> set (fold (clean_name True) ns acc)" for acc
  proof (induction ns arbitrary: acc)
    case (Cons n ns)
    from Cons.prems have "''..'' \<notin> set (clean_name True n acc)"
      by (auto simp: clean_name_def dest: in_set_butlastD)
    then show ?case by (simp add: Cons.IH)
  qed simp
  then show ?thesis by (simp add: clean_names_def)
qed

lemma clean_names_idem: "clean_names r (clean_names r ns) = clean_names r ns"
  using clean_names_append [OF clean_names_rooted, of True "[]" ns] clean_names_dots_first [OF dots_first_clean]
  by (cases r) (simp_all add: clean_names_def [of True "[]"])

lemma clean_names_again: "clean_names r (clean_names r ns @ ms) = clean_names r (ns @ ms)"
  using clean_names_idem [of r ns] by (simp add: clean_names_def)

lemma IsAbs_Clean: "IsAbs (Clean q) = IsAbs q"
  using Clean_relative [of q] by (auto simp: Clean_def IsAbs_def Let_def)

lemma Clean_nonempty: "Clean p \<noteq> []"
proof (cases "clean_names (IsAbs p) (path_names p)")
  case (Cons w ws)
  then show ?thesis using clean_names_elem [of w "IsAbs p" p] by (auto simp: Clean_def Join_Cons Let_def)
qed (simp add: Clean_def Let_def)

lemma IsAbs_slash: "p \<noteq> [] \<Longrightarrow> IsAbs (p @ CHR ''/'' # n) = IsAbs p"
  by (cases p) (simp_all add: IsAbs_def)

lemma Clean_again:
  assumes "p \<noteq> []"
  shows "Clean (Clean p @ CHR ''/'' # n) = Clean (p @ CHR ''/'' # n)"
  unfolding Clean_def [of "Clean p @ _"] Clean_def [of "p @ _"]
  by (simp add: IsAbs_slash [OF assms] IsAbs_slash [OF Clean_nonempty] IsAbs_Clean path_names_append path_names_Clean
      clean_names_again)

lemma path_Join_nested:
  assumes "d \<noteq> []"
  shows "path_Join [path_Join [base, d], n] = path_Join [base, d, n]"
  using assms Clean_again [of "base @ CHR ''/'' # d" n] Clean_again [of d n]
  by (cases "base = []") (simp_all add: path_Join_def Clean_nonempty)

section \<open>What the loader has read\<close>

text \<open>
  A loop over distinct keys whose body sets the entry of its key and no other: in the end
  each key has the entry that its own round gave it.
\<close>

lemma for_each_entry:
  assumes "for_each body xs r = Inr r'" "x \<in> set xs" "distinct (map key xs)"
    and other: "\<And>y r r'. y \<in> set xs \<Longrightarrow> key y \<noteq> key x \<Longrightarrow> body y r = Inr r' \<Longrightarrow> P r \<Longrightarrow> P r'"
    and own: "\<And>r r'. body x r = Inr r' \<Longrightarrow> P r'"
  shows "P r'"
proof -
  from split_list [OF assms(2)] obtain as bs where xs: "xs = as @ x # bs" by blast
  with assms(1) obtain r1 r2 where r2: "body x r1 = Inr r2" and bs: "for_each body bs r2 = Inr r'"
    by (auto simp: for_each_append bind_res_Inr)
  show ?thesis using bs own [OF r2]
  proof (rule for_each_invariant)
    fix y r r' assume "y \<in> set bs" "P r" "body y r = Inr r'"
    from assms(3) xs have "key x \<notin> key ` set bs" by simp
    with \<open>y \<in> set bs\<close> have "key y \<noteq> key x" by (metis imageI)
    with \<open>y \<in> set bs\<close> \<open>P r\<close> \<open>body y r = Inr r'\<close> xs show "P r'" by (intro other [of y r r']) auto
  qed
qed

lemma load_pipeline_skip: "load_pipeline fs s dir e r = Inr r' \<Longrightarrow> \<not> json_file e \<Longrightarrow> r' = r"
  by (auto simp: load_pipeline_def json_file_def split: if_splits)

lemma load_pipeline_Inr:
  assumes "load_pipeline fs s dir e r = Inr r'" "json_file e"
  shows "\<exists>p. decodeStrict dec_Pipeline (path_Join [dir, de_Name e]) (fs_ReadFile fs (path_Join [dir, de_Name e]) s) = Inr p \<and>
    PipelineID p = json_stem (de_Name e) \<and> r' = r\<lparr>rg_pipelines := obj_put (PipelineID p) p (rg_pipelines r)\<rparr>"
  using assms by (auto simp: load_pipeline_def json_file_def Let_def bind_res_Inr validatePipeline_def split: if_splits)

lemma loaded_pipeline:
  assumes "for_each (load_pipeline fs s dir) es r = Inr r'" "distinct (map de_Name es)" "e \<in> set es" "json_file e"
    and decoded: "\<And>path x. decodeStrict dec_Pipeline path (fs_ReadFile fs (path_Join [dir, de_Name e]) s) = Inr x \<Longrightarrow> x = q"
  shows "reg_Pipeline r' (json_stem (de_Name e)) = Some q"
  using assms(1,3,2)
proof (rule for_each_entry [where key = de_Name])
  fix y r r' assume y: "de_Name y \<noteq> de_Name e" "load_pipeline fs s dir y r = Inr r'" "reg_Pipeline r (json_stem (de_Name e)) = Some q"
  show "reg_Pipeline r' (json_stem (de_Name e)) = Some q"
  proof (cases "json_file y")
    case True
    with y assms(4) have "json_stem (de_Name y) \<noteq> json_stem (de_Name e)" by (auto simp: json_file_def dest: json_stem_inj)
    with load_pipeline_Inr [OF y(2) True] y(3) show ?thesis by (auto simp: reg_defs map_of_obj_put)
  qed (use load_pipeline_skip [OF y(2)] y(3) in simp)
next
  fix r r' assume "load_pipeline fs s dir e r = Inr r'"
  from load_pipeline_Inr [OF this assms(4)] decoded
  show "reg_Pipeline r' (json_stem (de_Name e)) = Some q" by (auto simp: reg_defs map_of_obj_put)
qed

lemma load_blueprint_skip: "load_blueprint fs s dir e r = Inr r' \<Longrightarrow> \<not> json_file e \<Longrightarrow> r' = r"
  by (auto simp: load_blueprint_def json_file_def split: if_splits)

lemma load_blueprint_root: "load_blueprint fs s dir e r = Inr r' \<Longrightarrow> rg_root r' = rg_root r"
  using load_blueprint_skip [of fs s dir e r r'] load_blueprint_Inr [of fs s dir e r r']
  by (cases "json_file e") (auto simp: put_agent_def)

lemma loaded_blueprint:
  assumes "for_each (load_blueprint fs s dir) es r = Inr r'" "distinct (map de_Name es)" "e \<in> set es" "json_file e"
    and decoded: "\<And>path x. decodeStrict dec_AgentBlueprint path (fs_ReadFile fs (path_Join [dir, de_Name e]) s) = Inr x \<Longrightarrow> x = bp"
  shows "reg_Blueprint r' (json_stem (de_Name e)) = Some bp \<and>
    (\<exists>rel prompt. safeRel (bp_PromptPath bp) = Inr rel \<and> fs_ReadFile fs (path_Join [rg_root r, rel]) s = Inr prompt \<and>
       reg_Prompt r' (json_stem (de_Name e)) = Some prompt)" (is "?P r'")
proof -
  let ?Q = "\<lambda>r'. rg_root r' = rg_root r \<longrightarrow> ?P r'"
  note root = load_blueprint_root [of fs s dir]
  have "?Q r'" using assms(1,3,2)
  proof (rule for_each_entry [where key = de_Name])
    fix y r1 r2 assume y: "de_Name y \<noteq> de_Name e" "load_blueprint fs s dir y r1 = Inr r2" "?Q r1"
    show "?Q r2"
    proof (cases "json_file y")
      case True
      with y assms(4) have "json_stem (de_Name y) \<noteq> json_stem (de_Name e)" by (auto simp: json_file_def dest: json_stem_inj)
      moreover obtain x prompt schema where "r2 = put_agent x prompt schema r1" "validateBlueprint (json_stem (de_Name y)) x = Inr ()"
        using load_blueprint_Inr [OF y(2) True] by blast
      ultimately show ?thesis using root [OF y(2)] y(3) by (simp add: put_agent_maps validateBlueprint_def)
    qed (use load_blueprint_skip [OF y(2)] y(3) in simp)
  next
    fix r1 r2 assume one: "load_blueprint fs s dir e r1 = Inr r2"
    obtain x prompt schema rel where x: "r2 = put_agent x prompt schema r1" "validateBlueprint (json_stem (de_Name e)) x = Inr ()"
      "decodeStrict dec_AgentBlueprint (path_Join [dir, de_Name e]) (fs_ReadFile fs (path_Join [dir, de_Name e]) s) = Inr x"
      "safeRel (bp_PromptPath x) = Inr rel" "fs_ReadFile fs (path_Join [rg_root r1, rel]) s = Inr prompt"
      using load_blueprint_Inr [OF one assms(4)] by blast
    from x(2) have "bp_ID x = json_stem (de_Name e)" by (simp add: validateBlueprint_def)
    with x decoded [OF x(3)] root [OF one] show "?Q r2" by (auto simp: put_agent_maps)
  qed
  moreover have "rg_root r' = rg_root r" using assms(1) by (rule for_each_invariant) (simp_all add: root)
  ultimately show ?thesis by simp
qed

lemma load_dir_invariant:
  assumes "load_dir fs s what d body r = Inr r'" "\<And>e r r'. body e r = Inr r' \<Longrightarrow> f r' = f r"
  shows "f r' = f r"
proof -
  have "f r' = f r" if "for_each body es r = Inr r'" for es
    using that by (rule for_each_invariant) (simp_all add: assms(2))
  with assms(1) show ?thesis by (auto simp: load_dir_def split: sum.splits if_splits)
qed

lemma loadBlueprints_root: "loadBlueprints fs s r = Inr r' \<Longrightarrow> rg_root r' = rg_root r"
  unfolding loadBlueprints_def Let_def by (erule load_dir_invariant) (rule load_blueprint_root)

lemma loadPipelines_agents: "loadPipelines fs s r = Inr r' \<Longrightarrow> rg_blueprints r' = rg_blueprints r \<and> rg_prompts r' = rg_prompts r"
  using load_dir_invariant [of fs s "''pipelines''" _ _ r r' "\<lambda>r. (rg_blueprints r, rg_prompts r)"]
  by (fastforce simp: loadPipelines_def load_pipeline_def Let_def bind_res_Inr split: if_splits)

section \<open>Reload after a write\<close>

text \<open>
  What reading promises on top of \<open>file_system\<close>: a file is read as it is, a directory lists
  its files once each, and a directory that does not exist has no files.  A name that stands
  directly in a directory has no separator and is not a relative name.
\<close>

definition entry_name :: "string \<Rightarrow> bool" where
  "entry_name n \<longleftrightarrow> path_names n = [n] \<and> n \<noteq> ''..''"

locale registry_files = file_system +
  assumes ReadFile: "fs_ReadFile fs p s = Inr c \<Longrightarrow> files s p = Some c"
    and ReadDir_distinct: "fs_ReadDir fs d s = Inr es \<Longrightarrow> distinct (map de_Name es)"
    and ReadDir_lists: "fs_ReadDir fs d s = Inr es \<Longrightarrow> entry_name n \<Longrightarrow> files s (path_Join [d, n]) \<noteq> None \<Longrightarrow>
      \<lparr>de_Name = n, de_IsDir = False\<rparr> \<in> set es"
    and ReadDir_missing: "fs_ReadDir fs d s = Inl e \<Longrightarrow> errors_Is e ErrNotExist \<Longrightarrow> entry_name n \<Longrightarrow>
      files s (path_Join [d, n]) = None"
begin

lemma load_dir_lists:
  assumes "load_dir fs s what d body r = Inr r'" "entry_name n" "files s (path_Join [d, n]) \<noteq> None"
  shows "\<exists>es. distinct (map de_Name es) \<and> \<lparr>de_Name = n, de_IsDir = False\<rparr> \<in> set es \<and> for_each body es r = Inr r'"
  using assms ReadDir_missing ReadDir_lists ReadDir_distinct
  by (auto simp: load_dir_def split: sum.splits if_splits) blast+

lemma decode_read:
  assumes "files s p = Some c" "\<And>path. decodeStrict dec path (Inr c) = Inr x" "decodeStrict dec path (fs_ReadFile fs p s) = Inr y"
  shows "y = x"
  using assms ReadFile [of p s] by (cases "fs_ReadFile fs p s") (auto simp: decodeStrict_def)

end

lemma id_entry:
  assumes "idPattern i"
  shows "entry_name (i @ ''.json'')" "json_file \<lparr>de_Name = i @ ''.json'', de_IsDir = False\<rparr>" "json_stem (i @ ''.json'') = i"
proof -
  have "CHR ''/'' \<notin> set (i @ ''.json'')" "i @ ''.json'' \<noteq> ''..''" "i @ ''.json'' \<noteq> ''.''" using id_chars [OF assms] by auto
  then show "entry_name (i @ ''.json'')" by (simp add: entry_name_def path_names_def Split_single)
  show "json_file \<lparr>de_Name = i @ ''.json'', de_IsDir = False\<rparr>" "json_stem (i @ ''.json'') = i"
    by (simp_all add: json_file_def json_stem_def suffix_def)
qed

lemma Dirs_plain: "path_names BlueprintsDir = [BlueprintsDir]" "path_names PipelinesDir = [PipelinesDir]"
  "BlueprintsDir \<noteq> []" "PipelinesDir \<noteq> []" "BlueprintsDir \<noteq> ''..''" "PipelinesDir \<noteq> ''..''"
  by code_simp+

context registry_files
begin

lemma loadPipelines_reads:
  assumes "loadPipelines fs s r = Inr r'" "idPattern i"
    and "files s (path_Join [rg_root r, PipelinesDir, i @ ''.json'']) = Some c" "\<And>path. decodeStrict dec_Pipeline path (Inr c) = Inr p"
  shows "reg_Pipeline r' i = Some p"
proof -
  let ?d = "path_Join [rg_root r, PipelinesDir]"
  note found = assms(3) [folded path_Join_nested [OF Dirs_plain(4)]] and i = id_entry [OF assms(2)]
  obtain es where es: "distinct (map de_Name es)" "\<lparr>de_Name = i @ ''.json'', de_IsDir = False\<rparr> \<in> set es"
    "for_each (load_pipeline fs s ?d) es r = Inr r'"
    using load_dir_lists [OF assms(1) [unfolded loadPipelines_def Let_def] i(1)] found by auto
  from loaded_pipeline [OF es(3,1,2) i(2), of p] decode_read [OF found assms(4)] i(3) show ?thesis by simp
qed

lemma loadBlueprints_reads:
  assumes "loadBlueprints fs s r = Inr r'" "idPattern i"
    and "files s (path_Join [rg_root r, BlueprintsDir, i @ ''.json'']) = Some c" "\<And>path. decodeStrict dec_AgentBlueprint path (Inr c) = Inr bp"
  shows "reg_Blueprint r' i = Some bp \<and> (\<exists>prompt. files s (prompt_file r bp) = Some prompt \<and> reg_Prompt r' i = Some prompt)"
proof -
  let ?d = "path_Join [rg_root r, BlueprintsDir]"
  note found = assms(3) [folded path_Join_nested [OF Dirs_plain(3)]] and i = id_entry [OF assms(2)]
  obtain es where es: "distinct (map de_Name es)" "\<lparr>de_Name = i @ ''.json'', de_IsDir = False\<rparr> \<in> set es"
    "for_each (load_blueprint fs s ?d) es r = Inr r'"
    using load_dir_lists [OF assms(1) [unfolded loadBlueprints_def Let_def] i(1)] found by auto
  from loaded_blueprint [OF es(3,1,2) i(2), of bp] decode_read [OF found assms(4)] i(3)
  obtain rel prompt where "reg_Blueprint r' i = Some bp" "safeRel (bp_PromptPath bp) = Inr rel"
    "fs_ReadFile fs (path_Join [rg_root r, rel]) s = Inr prompt" "reg_Prompt r' i = Some prompt" by auto
  with safeRel_Clean [of "bp_PromptPath bp" rel] ReadFile show ?thesis by (auto simp: prompt_file_def)
qed

lemma pipeline_reloaded:
  assumes "pipeline_writable p" "WritePipeline fs r p s = (Inr u, s')" "RegistryLoad.Load fs (rg_root r) s' = Inr r'"
  shows "reg_Pipeline r' (PipelineID p) = Some p"
proof -
  from assms(2) obtain data where v: "validatePipeline r (PipelineID p) p = Inr ()" and d: "marshal_pipeline p = Inr data"
    and w: "atomicWrite fs (path_Join [rg_root r, PipelinesDir, PipelineID p @ ''.json'']) (data @ [CHR 0x0A]) s = (Inr u, s')"
    by (auto simp: WritePipeline_def check_first_Inr)
  from v have i: "idPattern (PipelineID p)" by (simp add: validatePipeline_def bind_res_Inr)
  have "files s' (path_Join [rg_root r, PipelinesDir, PipelineID p @ ''.json'']) = Some (data @ [CHR 0x0A])"
    using atomicWrite_ok [OF w] id_file_not_temp [OF i] Dirs_plain by simp
  moreover obtain r1 where "loadBlueprints fs s' (empty_registry (rg_root r)) = Inr r1" "loadPipelines fs s' r1 = Inr r'"
    using assms(3) by (auto simp: Load_def bind_res_Inr)
  moreover from this(1) have "rg_root r1 = rg_root r" by (simp add: loadBlueprints_root empty_registry_def)
  ultimately show ?thesis using loadPipelines_reads [OF _ i _ decode_pipeline_written [OF assms(1) d]] by simp
qed

lemma blueprint_reloaded:
  assumes "blueprint_writable bp" "\<not> temp_file (prompt_file r bp)" "prompt_file r bp \<noteq> blueprint_file r (bp_ID bp)"
    and "WriteBlueprint fs r bp prompt s = (Inr u, s')" "RegistryLoad.Load fs (rg_root r) s' = Inr r'"
  shows "reg_Blueprint r' (bp_ID bp) = Some bp \<and>
    (\<exists>text. (if prompt = [] then files s (prompt_file r bp) else Some prompt) = Some text \<and> reg_Prompt r' (bp_ID bp) = Some text)"
proof -
  from WriteBlueprint_steps(1) [OF assms(4)] have v: "validateBlueprint (bp_ID bp) bp = Inr ()" by blast
  then have i: "idPattern (bp_ID bp)" by (simp add: validateBlueprint_def)
  from written_blueprint [OF assms(4,2)] obtain data where d: "marshal_blueprint bp = Inr data"
    and f: "files s' = (if prompt = [] then files s else (files s)(prompt_file r bp \<mapsto> prompt))
         (blueprint_file r (bp_ID bp) \<mapsto> data @ [CHR 0x0A])" by blast
  obtain r1 where r1: "loadBlueprints fs s' (empty_registry (rg_root r)) = Inr r1" "loadPipelines fs s' r1 = Inr r'"
    using assms(5) by (auto simp: Load_def bind_res_Inr)
  from loadBlueprints_reads [OF r1(1) i _ decode_blueprint_written [OF assms(1) d]] f assms(3)
  have "reg_Blueprint r1 (bp_ID bp) = Some bp \<and>
    (\<exists>text. (if prompt = [] then files s (prompt_file r bp) else Some prompt) = Some text \<and> reg_Prompt r1 (bp_ID bp) = Some text)"
    by (auto simp: blueprint_file_def prompt_file_def empty_registry_def split: if_splits)
  with loadPipelines_agents [OF r1(2)] show ?thesis by (simp add: reg_defs)
qed

lemma loaded_decodes:
  assumes "RegistryLoad.Load fs base s = Inr r" "entry_name n" "suffix ''.json'' n" "files s (path_Join [base, PipelinesDir, n]) = Some c"
  shows "\<exists>path p. decodeStrict dec_Pipeline path (Inr c) = Inr p"
proof -
  obtain r1 where r1: "loadBlueprints fs s (empty_registry base) = Inr r1" "loadPipelines fs s r1 = Inr r"
    using assms(1) by (auto simp: Load_def bind_res_Inr)
  then have "rg_root r1 = base" using loadBlueprints_root [OF r1(1)] by (simp add: empty_registry_def)
  note found = assms(4) [folded path_Join_nested [OF Dirs_plain(4)]]
  obtain es where es: "\<lparr>de_Name = n, de_IsDir = False\<rparr> \<in> set es" "for_each (load_pipeline fs s (path_Join [base, PipelinesDir])) es r1 = Inr r"
    using load_dir_lists [OF r1(2) [unfolded loadPipelines_def Let_def \<open>rg_root r1 = base\<close>] assms(2)] found by auto
  obtain r2 r3 where "load_pipeline fs s (path_Join [base, PipelinesDir]) \<lparr>de_Name = n, de_IsDir = False\<rparr> r2 = Inr r3"
    using split_list [OF es(1)] es(2) by (auto simp: for_each_append bind_res_Inr)
  from load_pipeline_Inr [OF this] assms(3) obtain p where
    "decodeStrict dec_Pipeline (path_Join [path_Join [base, PipelinesDir], n]) (fs_ReadFile fs (path_Join [path_Join [base, PipelinesDir], n]) s) = Inr p"
    by (auto simp: json_file_def)
  moreover from this obtain c' where "fs_ReadFile fs (path_Join [path_Join [base, PipelinesDir], n]) s = Inr c'"
    by (auto simp: decodeStrict_def bind_res_Inr)
  ultimately show ?thesis using ReadFile found by fastforce
qed

end

text \<open>
  The path of a prompt may be the file of a pipeline.  A write that gives such a prompt is
  accepted, replaces the pipeline, and leaves files from which no registry can be loaded.
\<close>

theorem prompt_over_pipeline:
  assumes "registry_files fs files" and "WriteBlueprint fs r bp prompt s = (Inr u, s')" "stream_value prompt = None" "prompt \<noteq> []"
    and "idPattern i" "prompt_file r bp = path_Join [rg_root r, PipelinesDir, i @ ''.json'']"
  shows "\<nexists>r'. RegistryLoad.Load fs (rg_root r) s' = Inr r'"
proof
  assume "\<exists>r'. RegistryLoad.Load fs (rg_root r) s' = Inr r'"
  then obtain r' where load: "RegistryLoad.Load fs (rg_root r) s' = Inr r'" by blast
  have fs: "file_system fs files" using assms(1) by (simp add: registry_files_def)
  have t: "\<not> temp_file (prompt_file r bp)" using id_file_not_temp [OF assms(5)] Dirs_plain by (simp add: assms(6))
  have "prompt_file r bp \<noteq> blueprint_file r (bp_ID bp)"
  proof
    assume "prompt_file r bp = blueprint_file r (bp_ID bp)"
    then have "path_names (path_Join [rg_root r, PipelinesDir, i @ ''.json'']) = path_names (blueprint_file r (bp_ID bp))"
      by (simp add: assms(6))
    moreover have "idPattern (bp_ID bp)" using WriteBlueprint_steps(1) [OF assms(2)] by (auto simp: validateBlueprint_def)
    ultimately show False
      using id_file_names [OF assms(5), of PipelinesDir "rg_root r"] id_file_names [of "bp_ID bp" BlueprintsDir "rg_root r"] Dirs_plain
      by (auto simp: blueprint_file_def PipelinesDir_def BlueprintsDir_def)
  qed
  with file_system.written_blueprint [OF fs assms(2) t] assms(4) have "files s' (prompt_file r bp) = Some prompt" by auto
  then have found: "files s' (path_Join [rg_root r, PipelinesDir, i @ ''.json'']) = Some prompt" by (simp only: assms(6))
  have "suffix ''.json'' (i @ ''.json'')" by (simp add: suffix_def)
  note ex = registry_files.loaded_decodes [OF assms(1), OF load id_entry(1) [OF assms(5)] this found]
  have "decodeStrict dec_Pipeline path (Inr prompt) = Inl (ErrWrap ''%s: %w'' [path] ErrJSON)" for path
    by (simp add: decodeStrict_def assms(3))
  with ex show False by simp
qed

section \<open>A disk in memory\<close>

text \<open>
  Files in the order in which they were first written.  A directory exists when it has a
  file; \<open>ReadDir\<close> gives the names in it.  Every write succeeds.
\<close>

record disk =
  dk_files :: "(string \<times> string) list"
  dk_next :: nat

definition base_name :: "string \<Rightarrow> string" where
  "base_name p = (if path_names p = [] then [] else last (path_names p))"

definition dir_names :: "string \<Rightarrow> disk \<Rightarrow> string list" where
  "dir_names d s = remdups (filter (\<lambda>n. entry_name n \<and> map_of (dk_files s) (path_Join [d, n]) \<noteq> None) (map (base_name \<circ> fst) (dk_files s)))"

definition disk_put :: "string \<Rightarrow> string \<Rightarrow> disk \<Rightarrow> disk" where
  "disk_put p c s = s\<lparr>dk_files := obj_put p c (dk_files s)\<rparr>"

definition disk_remove :: "string \<Rightarrow> disk \<Rightarrow> disk" where
  "disk_remove p s = s\<lparr>dk_files := filter (\<lambda>(q, c). q \<noteq> p) (dk_files s)\<rparr>"

definition disk_fs :: "disk fs" where
  "disk_fs =
     \<lparr>fs_ReadDir = (\<lambda>d s. if dir_names d s = [] then Inl ErrNotExist
        else Inr (map (\<lambda>n. \<lparr>de_Name = n, de_IsDir = False\<rparr>) (dir_names d s))),
      fs_ReadFile = (\<lambda>p s. case map_of (dk_files s) p of None \<Rightarrow> Inl ErrNotExist | Some c \<Rightarrow> Inr c),
      fs_Stat = (\<lambda>p s. case map_of (dk_files s) p of None \<Rightarrow> Inl ErrNotExist | Some c \<Rightarrow> Inr ()),
      fs_MkdirAll = (\<lambda>d s. (Inr (), s)),
      fs_CreateTemp = (\<lambda>d s. let t = temp_name d (dk_next s) in
        if map_of (dk_files s) t = None then (Inr t, (disk_put t [] s)\<lparr>dk_next := Suc (dk_next s)\<rparr>) else (Inl ErrIO, s)),
      fs_Write = (\<lambda>t data s. case map_of (dk_files s) t of None \<Rightarrow> (Inl ErrIO, s) | Some c \<Rightarrow> (Inr (), disk_put t (c @ data) s)),
      fs_Sync = (\<lambda>t s. (Inr (), s)), fs_Close = (\<lambda>t s. (Inr (), s)), fs_Chmod = (\<lambda>t s. (Inr (), s)),
      fs_Rename = (\<lambda>t p s. case map_of (dk_files s) t of None \<Rightarrow> (Inl ErrIO, s) | Some c \<Rightarrow> (Inr (), disk_remove t (disk_put p c s))),
      fs_Remove = (\<lambda>t s. (Inr (), disk_remove t s))\<rparr>"

lemma disk_files:
  "map_of (dk_files (disk_put p c s)) = (map_of (dk_files s))(p \<mapsto> c)"
  "map_of (dk_files (disk_remove p s)) = (map_of (dk_files s))(p := None)"
proof -
  show "map_of (dk_files (disk_put p c s)) = (map_of (dk_files s))(p \<mapsto> c)"
    by (auto simp: disk_put_def map_of_obj_put)
  have "map_of (filter (\<lambda>(q, c). q \<noteq> p) xs) = (map_of xs)(p := None)" for xs :: "(string \<times> string) list"
    by (induction xs) auto
  then show "map_of (dk_files (disk_remove p s)) = (map_of (dk_files s))(p := None)" by (simp add: disk_remove_def)
qed

lemma base_name_Join: "entry_name n \<Longrightarrow> base_name (path_Join [d, n]) = n"
proof -
  assume n: "entry_name n"
  have "path_names (path_Join [d, n]) = clean_names (IsAbs (d @ CHR ''/'' # n)) (path_names d) @ [n]" if "d \<noteq> []"
    using that n clean_names_append [of "[n]" _ "path_names d"]
    by (auto simp: path_Join_def path_names_Clean path_names_append entry_name_def)
  moreover have "path_names (path_Join [[], n]) = [n]"
    using n clean_names_append [of "[n]" _ "[]"] path_names_elem [of n n]
    by (auto simp: path_Join_def path_names_Clean entry_name_def clean_names_def)
  ultimately show ?thesis by (cases "d = []") (simp_all add: base_name_def)
qed

lemma dir_names_iff: "n \<in> set (dir_names d s) \<longleftrightarrow> entry_name n \<and> map_of (dk_files s) (path_Join [d, n]) \<noteq> None"
proof
  assume n: "entry_name n \<and> map_of (dk_files s) (path_Join [d, n]) \<noteq> None"
  then obtain c where "(path_Join [d, n], c) \<in> set (dk_files s)" by (auto dest: map_of_SomeD)
  then have "n \<in> set (map (base_name \<circ> fst) (dk_files s))" using base_name_Join [of n d] n by force
  with n show "n \<in> set (dir_names d s)" by (simp add: dir_names_def)
qed (auto simp: dir_names_def)

interpretation disk: registry_files disk_fs "\<lambda>s. map_of (dk_files s)"
proof unfold_locales
  have errs: "errors_Is ErrNotExist ErrNotExist" by (simp add: ErrNotExist_def)
  have names: "distinct (map de_Name (map (\<lambda>n. \<lparr>de_Name = n, de_IsDir = False\<rparr>) (dir_names d s)))" for d s
    by (simp add: dir_names_def comp_def)
  fix d t p data n :: string and s s' :: disk and u :: unit and e c es
  show "fs_ReadDir disk_fs d s = Inr es \<Longrightarrow> distinct (map de_Name es)"
    using names [of d s] by (auto simp: disk_fs_def split: if_splits)
  show "fs_ReadDir disk_fs d s = Inr es \<Longrightarrow> entry_name n \<Longrightarrow> map_of (dk_files s) (path_Join [d, n]) \<noteq> None \<Longrightarrow>
      \<lparr>de_Name = n, de_IsDir = False\<rparr> \<in> set es"
    using dir_names_iff [of n d s] by (auto simp: disk_fs_def split: if_splits)
  show "fs_ReadDir disk_fs d s = Inl e \<Longrightarrow> errors_Is e ErrNotExist \<Longrightarrow> entry_name n \<Longrightarrow> map_of (dk_files s) (path_Join [d, n]) = None"
    using dir_names_iff [of n d s] by (auto simp: disk_fs_def split: if_splits)
qed (auto simp: disk_fs_def disk_files Let_def temp_name_temp upd_exists split: if_splits option.splits)

end
