(* ===== verification/ApiRegistry.thy ===== *)
theory ApiRegistry
  imports ApiProps RegistryRead
begin

text \<open>
  The registry behind the HTTP interface, from end to end: a definition that a request has
  written is the one that the service uses from then on and gives back.
\<close>

section \<open>What a successful write leaves\<close>

lemma mutate_ok:
  assumes "mutate env write a = (resp, a')" "rp_Code resp = 200"
  shows "\<exists>u. write (api_registry a) (api_files a) = (Inr u, api_files a') \<and>
    RegistryLoad.Load (ae_fs env) (rg_root (api_registry a)) (api_files a') = Inr (api_registry a') \<and>
    api_engine a' = SetRegistry (Some (api_registry a')) (api_engine a)"
  using assms by (auto simp: mutate_def split: prod.splits sum.splits)

definition is_write :: "http_request \<Rightarrow> bool" where
  "is_write r \<longleftrightarrow> hr_Method r = ''POST'' \<or> hr_Method r = ''PUT''"

lemma pipeline_written:
  assumes "handleRegistryPipeline env r i a = (resp, a')" "is_write r" "rp_Code resp = 200"
  shows "\<exists>p. decodePipelineWrite (pv_text (ae_pool env)) (hr_Body r) = Inr p \<and> PipelineID p = i \<and>
    mutate env (\<lambda>reg. WritePipeline (ae_fs env) reg p) a = (resp, a')"
  using assms by (auto simp: handleRegistryPipeline_def is_write_def Let_def split: if_splits sum.splits)

lemma agent_written:
  assumes "handleRegistryAgent env r i a = (resp, a')" "is_write r" "rp_Code resp = 200"
  shows "\<exists>bp prompt. decodeAgentWrite (pv_text (ae_pool env)) (hr_Body r) = Inr (bp, prompt) \<and> bp_ID bp = i \<and>
    mutate env (\<lambda>reg. WriteBlueprint (ae_fs env) reg bp prompt) a = (resp, a')"
  using assms by (auto simp: handleRegistryAgent_def is_write_def Let_def split: if_splits sum.splits)



section \<open>A service on a disk\<close>

lemma obj_put_temp:
  assumes "t \<notin> fst ` set fs" "t \<noteq> p"
  shows "filter (\<lambda>(q, c). q \<noteq> t) (obj_put p d (obj_put t y (obj_put t x fs))) = obj_put p d fs"
    "filter (\<lambda>(q, c). q \<noteq> t) (obj_put p d fs) = obj_put p d fs"
proof -
  have "t \<notin> fst ` set xs \<Longrightarrow> filter (\<lambda>(q, c). q \<noteq> t) xs = xs" for xs :: "(string \<times> 'a) list"
    by (auto simp: filter_id_conv image_iff split: prod.splits)
  moreover have "t \<notin> fst ` set xs \<Longrightarrow> filter (\<lambda>(q, c). q \<noteq> t) (obj_put t y xs) = xs" for xs
    by (induction xs) (auto simp: calculation)
  ultimately show "filter (\<lambda>(q, c). q \<noteq> t) (obj_put p d (obj_put t y (obj_put t x fs))) = obj_put p d fs"
    "filter (\<lambda>(q, c). q \<noteq> t) (obj_put p d fs) = obj_put p d fs"
    using assms by (induction fs) auto
qed

lemma atomicWrite_disk:
  assumes "temp_name (path_Dir p) (dk_next s) \<notin> fst ` set (dk_files s)" "temp_name (path_Dir p) (dk_next s) \<noteq> p"
  shows "atomicWrite disk_fs p data s = (Inr (), \<lparr>dk_files = obj_put p data (dk_files s), dk_next = Suc (dk_next s)\<rparr>)"
proof -
  let ?t = "temp_name (path_Dir p) (dk_next s)"
  have "map_of (dk_files s) ?t = None" using assms(1) by (simp add: map_of_eq_None_iff)
  then show ?thesis
    using obj_put_temp [OF assms]
    by (simp add: atomicWrite_def write_temp_def then_do_def or_close_def renamed_def disk_fs_def Let_def disk_put_def disk_remove_def
        map_of_obj_put)
qed

definition demo_a_text :: string where "demo_a_text = raw_indent 0 (enc_AgentBlueprint demo_agent) @ [CHR 0x0A]"
definition demo_q_text :: string where "demo_q_text = raw_indent 0 (enc_Pipeline demo_pipeline) @ [CHR 0x0A]"

definition demo_disk :: "nat \<Rightarrow> disk" where
  "demo_disk n = \<lparr>dk_files = take n [(''/r/p'', ''Be brief.''), (''/r/blueprints/a.json'', demo_a_text), (''/r/pipelines/q.json'', demo_q_text)],
     dk_next = n\<rparr>"

definition demo_agents :: Registry where
  "demo_agents = put_agent demo_agent ''Be brief.'' None (empty_registry ''/r'')"

lemma demo_writable: "blueprint_writable demo_agent" "pipeline_writable demo_pipeline"
  by code_simp+

lemma demo_texts:
  "decodeStrict dec_AgentBlueprint path (Inr demo_a_text) = Inr demo_agent"
  "decodeStrict dec_Pipeline path (Inr demo_q_text) = Inr demo_pipeline"
  using demo_writable decode_blueprint_written [of demo_agent] decode_pipeline_written [of demo_pipeline]
  by (simp_all add: demo_a_text_def demo_q_text_def marshal_blueprint_def marshal_pipeline_def demo_agent_def demo_pipeline_def)

lemma demo_paths:
  "path_Join [''/r'', ''p''] = ''/r/p''" "path_Join [''/r'', BlueprintsDir] = ''/r/blueprints''" "path_Join [''/r'', PipelinesDir] = ''/r/pipelines''"
  "path_Join [''/r'', BlueprintsDir, ''a.json''] = ''/r/blueprints/a.json''" "path_Join [''/r'', PipelinesDir, ''q.json''] = ''/r/pipelines/q.json''"
  "path_Join [''/r/blueprints'', ''a.json''] = ''/r/blueprints/a.json''" "path_Join [''/r/pipelines'', ''q.json''] = ''/r/pipelines/q.json''"
  "safeRel ''p'' = Inr ''p''" "json_stem ''a.json'' = ''a''" "json_stem ''q.json'' = ''q''" "suffix ''.json'' ''a.json''" "suffix ''.json'' ''q.json''"
  by code_simp+

lemma demo_temps:
  "temp_name (path_Dir ''/r/p'') 0 = ''/r/.tmp-0''" "temp_name (path_Dir ''/r/blueprints/a.json'') 1 = ''/r/blueprints/.tmp-1''"
  "temp_name (path_Dir ''/r/pipelines/q.json'') 2 = ''/r/pipelines/.tmp-2''"
  by code_simp+

lemma demo_dirs:
  "dir_names ''/r/blueprints'' (demo_disk 2) = [''a.json'']" "dir_names ''/r/pipelines'' (demo_disk 2) = []"
  "dir_names ''/r/blueprints'' (demo_disk 3) = [''a.json'']" "dir_names ''/r/pipelines'' (demo_disk 3) = [''q.json'']"
proof -
  have names: "map (base_name \<circ> fst) (dk_files (demo_disk 2)) = [''p'', ''a.json'']"
    "map (base_name \<circ> fst) (dk_files (demo_disk 3)) = [''p'', ''a.json'', ''q.json'']" 
    by (simp_all add: demo_disk_def base_name_def path_names_def)
  have "entry_name ''p''" "entry_name ''a.json''" "entry_name ''q.json''" by code_simp+
  moreover have "path_Join [''/r/blueprints'', ''p''] = ''/r/blueprints/p''" "path_Join [''/r/blueprints'', ''q.json''] = ''/r/blueprints/q.json''"
    "path_Join [''/r/pipelines'', ''p''] = ''/r/pipelines/p''" "path_Join [''/r/pipelines'', ''a.json''] = ''/r/pipelines/a.json''"
    by code_simp+
  moreover note demo_paths(6,7)
  ultimately show "dir_names ''/r/blueprints'' (demo_disk 2) = [''a.json'']" "dir_names ''/r/pipelines'' (demo_disk 2) = []"
    "dir_names ''/r/blueprints'' (demo_disk 3) = [''a.json'']" "dir_names ''/r/pipelines'' (demo_disk 3) = [''q.json'']"
    unfolding dir_names_def names by (simp_all add: demo_disk_def)
qed

lemma demo_valid: "validateBlueprint ''a'' demo_agent = Inr ()" "validatePipeline demo_agents ''q'' demo_pipeline = Inr ()"
  by code_simp+

lemma demo_reads:
  "n \<in> {2, 3} \<Longrightarrow> fs_ReadFile disk_fs ''/r/blueprints/a.json'' (demo_disk n) = Inr demo_a_text"
  "n \<in> {2, 3} \<Longrightarrow> fs_ReadFile disk_fs ''/r/p'' (demo_disk n) = Inr ''Be brief.''"
  "fs_ReadFile disk_fs ''/r/pipelines/q.json'' (demo_disk 3) = Inr demo_q_text"
  by (auto simp: disk_fs_def demo_disk_def)

lemma demo_load_agents: "n \<in> {2, 3} \<Longrightarrow> loadBlueprints disk_fs (demo_disk n) (empty_registry ''/r'') = Inr demo_agents"
proof -
  assume n: "n \<in> {2, 3}"
  then have "fs_ReadDir disk_fs ''/r/blueprints'' (demo_disk n) = Inr [\<lparr>de_Name = ''a.json'', de_IsDir = False\<rparr>]"
    by (auto simp: disk_fs_def demo_dirs)
  with n show ?thesis
    by (simp add: loadBlueprints_def load_dir_def empty_registry_def demo_paths load_blueprint_def Let_def demo_reads demo_texts
        demo_valid wrap_err_def demo_agents_def put_agent_def demo_agent_def [THEN arg_cong, of bp_PromptPath]
        demo_agent_def [THEN arg_cong, of bp_OutputSchema])
qed

lemma demo_loads:
  "RegistryLoad.Load disk_fs ''/r'' (demo_disk 2) = Inr demo_agents"
  "RegistryLoad.Load disk_fs ''/r'' (demo_disk 3) = Inr (demo_agents\<lparr>rg_pipelines := [(''q'', demo_pipeline)]\<rparr>)"
proof -
  have "rg_root demo_agents = ''/r''" "rg_pipelines demo_agents = []" "PipelineID demo_pipeline = ''q''"
    by (simp_all add: demo_agents_def put_agent_def empty_registry_def demo_pipeline_def)
  moreover have "fs_ReadDir disk_fs ''/r/pipelines'' (demo_disk 2) = Inl ErrNotExist"
    "fs_ReadDir disk_fs ''/r/pipelines'' (demo_disk 3) = Inr [\<lparr>de_Name = ''q.json'', de_IsDir = False\<rparr>]"
    by (simp_all add: disk_fs_def demo_dirs)
  ultimately show "RegistryLoad.Load disk_fs ''/r'' (demo_disk 2) = Inr demo_agents"
    "RegistryLoad.Load disk_fs ''/r'' (demo_disk 3) = Inr (demo_agents\<lparr>rg_pipelines := [(''q'', demo_pipeline)]\<rparr>)"
    by (simp_all add: Load_def demo_load_agents loadPipelines_def load_dir_def demo_paths load_pipeline_def Let_def demo_reads
        demo_texts demo_valid wrap_err_def ErrNotExist_def)
qed

lemma demo_write_agent:
  "WriteBlueprint disk_fs (empty_registry ''/r'') demo_agent ''Be brief.'' (demo_disk 0) = (Inr (), demo_disk 2)"
proof -
  have m: "marshal_blueprint demo_agent = Inr (raw_indent 0 (enc_AgentBlueprint demo_agent))"
    by (simp add: marshal_blueprint_def demo_agent_def)
  have "bp_ID demo_agent = ''a''" "bp_OutputSchema demo_agent = []" "bp_PromptPath demo_agent = ''p''" by (simp_all add: demo_agent_def)
  with demo_paths demo_temps show ?thesis
    by (simp add: WriteBlueprint_def check_first_def demo_valid m then_do_def empty_registry_def atomicWrite_disk demo_disk_def
        demo_a_text_def [symmetric])
qed

lemma demo_write_pipeline: "WritePipeline disk_fs demo_agents demo_pipeline (demo_disk 2) = (Inr (), demo_disk 3)"
proof -
  have m: "marshal_pipeline demo_pipeline = Inr (raw_indent 0 (enc_Pipeline demo_pipeline))"
    by (simp add: marshal_pipeline_def demo_pipeline_def)
  have "PipelineID demo_pipeline = ''q''" "rg_root demo_agents = ''/r''"
    by (simp_all add: demo_pipeline_def demo_agents_def put_agent_def empty_registry_def)
  with demo_paths demo_temps show ?thesis
    by (simp add: WritePipeline_def check_first_def demo_valid m atomicWrite_disk demo_disk_def demo_q_text_def [symmetric])
qed

lemma decode_body_raw:
  assumes "raw_writable v" "length (raw_text v) \<le> maxBodyBytes" "dec v = Inr x"
  shows "decode_body txt dec (raw_text v) = Inr x"
proof -
  have "json_document (raw_text v) = Some v" using raw_text_read [of v "[]"] assms(1) by (simp add: raw_writable_def)
  then obtain rest where v: "stream_value (raw_text v) = Some (v, rest)" "skip_ws rest = []"
    by (auto simp: json_document_def stream_value_def split: option.splits if_splits)
  moreover have "skip_ws (raw_text v) \<noteq> []"
  proof
    assume "skip_ws (raw_text v) = []"
    then have "stream_value (raw_text v) = None" by (simp add: stream_value_def json_value.simps)
    with v(1) show False by simp
  qed
  ultimately show ?thesis using assms(2,3) by (simp add: decode_body_def Let_def)
qed

definition demo_disk_env :: "(memdb, disk) api_env" where
  "demo_disk_env = \<lparr>ae_pool = demo_env, ae_fs = disk_fs\<rparr>"

definition demo_disk_service :: "Registry \<Rightarrow> nat \<Rightarrow> (memdb, disk) api" where
  "demo_disk_service reg n = \<lparr>api_engine = \<lparr>en_registry = reg, en_maxParallel = 1, en_tools = None, en_metrics = None\<rparr>,
     api_registry = reg, api_pool = NewPool mem_empty None 1, api_version = ''1'', api_auth = ''t'', api_files = demo_disk n\<rparr>"

definition demo_request :: "string \<Rightarrow> raw \<Rightarrow> http_request" where
  "demo_request meth v = \<lparr>hr_Method = meth, hr_EscapedPath = ''/v1/registry/'', hr_Authorization = ''Bearer t'', hr_Body = raw_text v\<rparr>"

definition demo_agent_doc :: raw where
  "demo_agent_doc = RObj [(''blueprint'', enc_AgentBlueprint demo_agent), (''prompt'', RStr ''Be brief.'')]"

definition demo_pipeline_doc :: raw where
  "demo_pipeline_doc = RObj [(''pipeline'', enc_Pipeline demo_pipeline)]"

lemma demo_docs: "raw_writable demo_agent_doc" "raw_writable demo_pipeline_doc" "length (raw_text demo_agent_doc) \<le> 200"
  "length (raw_text demo_pipeline_doc) \<le> 200"
  by code_simp+

lemma demo_bodies:
  "decodeAgentWrite txt (hr_Body (demo_request meth demo_agent_doc)) = Inr (demo_agent, ''Be brief.'')"
  "decodePipelineWrite txt (hr_Body (demo_request meth demo_pipeline_doc)) = Inr demo_pipeline"
proof -
  have "dec_agentWrite demo_agent_doc = Inr (demo_agent, ''Be brief.'')" "dec_pipelineWrite demo_pipeline_doc = Inr demo_pipeline"
    by code_simp+
  moreover have "length (raw_text demo_agent_doc) \<le> maxBodyBytes" "length (raw_text demo_pipeline_doc) \<le> maxBodyBytes"
    using demo_docs(3,4) by (simp_all add: maxBodyBytes_def)
  ultimately show "decodeAgentWrite txt (hr_Body (demo_request meth demo_agent_doc)) = Inr (demo_agent, ''Be brief.'')"
    "decodePipelineWrite txt (hr_Body (demo_request meth demo_pipeline_doc)) = Inr demo_pipeline"
    by (simp_all add: decodeAgentWrite_def decodePipelineWrite_def demo_request_def decode_body_raw demo_docs)
qed

lemma demo_agent_post:
  "rp_Code (fst (handleRegistryAgent demo_disk_env (demo_request ''POST'' demo_agent_doc) ''a'' (demo_disk_service (empty_registry ''/r'') 0))) = 200"
proof -
  have "hr_Method (demo_request ''POST'' demo_agent_doc) = ''POST''" "bp_ID demo_agent = ''a''" "rg_root (empty_registry ''/r'') = ''/r''"
    "reg_Blueprint (empty_registry ''/r'') ''a'' = None"
    by (simp_all add: demo_request_def demo_agent_def empty_registry_def reg_defs)
  then show ?thesis
    by (simp add: handleRegistryAgent_def demo_bodies mutate_def demo_disk_env_def demo_disk_service_def demo_write_agent demo_loads Let_def)
qed

lemma demo_pipeline_post:
  "rp_Code (fst (handleRegistryPipeline demo_disk_env (demo_request ''POST'' demo_pipeline_doc) ''q'' (demo_disk_service demo_agents 2))) = 200"
proof -
  have "hr_Method (demo_request ''POST'' demo_pipeline_doc) = ''POST''" "PipelineID demo_pipeline = ''q''" "rg_root demo_agents = ''/r''"
    "reg_Pipeline demo_agents ''q'' = None"
    by (simp_all add: demo_request_def demo_pipeline_def demo_agents_def put_agent_def empty_registry_def reg_defs)
  then show ?thesis
    by (simp add: handleRegistryPipeline_def demo_bodies mutate_def demo_disk_env_def demo_disk_service_def demo_write_pipeline demo_loads Let_def)
qed



end
