(* ===== verification/OpenAI.thy ===== *)
theory OpenAI
  imports Llm RegistryWrite
begin

text \<open>
  \<open>internal/llm/openai.go\<close>: the client of a chat-completions endpoint.  The network is a
  parameter: a record of what \<open>net/http\<close> does with a request.  Decoding a response is
  decoding into a struct that may have a value already, as \<open>json.Unmarshal\<close> does for a field
  that occurs twice.
\<close>

section \<open>The protocol\<close>

record OpenAIConfig =
  oc_BaseURL :: string
  oc_Model :: string
  oc_APIKey :: string
  oc_Timeout :: goint

record OpenAIClient =
  defaultBaseURL :: string
  defaultModel :: string
  apiKey :: string
  clientTimeout :: goint

definition TrimRightSlash :: "string \<Rightarrow> string" where
  "TrimRightSlash s = rev (dropWhile (\<lambda>c. c = CHR ''/'') (rev s))"

definition NewOpenAI :: "OpenAIConfig \<Rightarrow> OpenAIClient res" where
  "NewOpenAI cfg =
     (if TrimSpace (oc_BaseURL cfg) = [] then Inl (Errorf ''llm: base_url is required'' [])
      else Inr \<lparr>defaultBaseURL = TrimRightSlash (oc_BaseURL cfg), defaultModel = oc_Model cfg, apiKey = oc_APIKey cfg,
             clientTimeout = (if sint (oc_Timeout cfg) \<le> 0 then 300000000000 else oc_Timeout cfg)\<rparr>)"

record chatRequest =
  cr_Model :: string
  cr_Messages :: "Message list"
  cr_Tools :: "Tool list"
  cr_Temperature :: "f64 option"
  cr_MaxTokens :: goint
  cr_ResponseFormat :: "string option"
  cr_Stream :: bool

record chat_usage =
  us_PromptTokens :: goint
  us_CompletionTokens :: goint
  us_TotalTokens :: goint

record chat_error =
  ce_Message :: string
  ce_Type :: string

record chatResponse =
  ch_Choices :: "Message list"
  ch_Usage :: "chat_usage option"
  ch_Error :: "chat_error option"

section \<open>Encoding a request\<close>

definition enc_ToolCallFunction :: "ToolCallFunction \<Rightarrow> raw" where
  "enc_ToolCallFunction f = RObj (string_member ''name'' (tcf_Name f) @ string_member ''arguments'' (tcf_Arguments f))"

definition enc_ToolCall :: "ToolCall \<Rightarrow> raw" where
  "enc_ToolCall tc = RObj
     (string_member ''id'' (tc_ID tc) @ omit_string ''type'' (tc_Type tc) @
      [(''function'', enc_ToolCallFunction (tc_Function tc))])"

definition enc_Message :: "Message \<Rightarrow> raw" where
  "enc_Message m = RObj
     (string_member ''role'' (msg_Role m) @ string_member ''content'' (msg_Content m) @
      omit_list ''tool_calls'' (map enc_ToolCall (msg_ToolCalls m)) @ omit_string ''tool_call_id'' (msg_ToolCallID m))"

text \<open>The parameters are a \<open>map[string]any\<close>, left out when it is nil or empty.\<close>

definition enc_ToolFunction :: "ToolFunction \<Rightarrow> raw" where
  "enc_ToolFunction f = RObj
     (string_member ''name'' (tf_Name f) @ omit_string ''description'' (tf_Description f) @
      (if tf_Parameters f \<in> {JNull, JObj []} then [] else [(''parameters'', raw_of_json (tf_Parameters f))]))"

definition enc_Tool :: "Tool \<Rightarrow> raw" where
  "enc_Tool t = RObj (string_member ''type'' (tool_Type t) @ [(''function'', enc_ToolFunction (tool_Function t))])"

definition enc_chatRequest :: "chatRequest \<Rightarrow> raw" where
  "enc_chatRequest b = RObj
     (string_member ''model'' (cr_Model b) @ [(''messages'', RArr (map enc_Message (cr_Messages b)))] @
      omit_list ''tools'' (map enc_Tool (cr_Tools b)) @
      (case cr_Temperature b of None \<Rightarrow> [] | Some x \<Rightarrow> [(''temperature'', RNum (json_float x))]) @
      omit_int ''max_tokens'' (cr_MaxTokens b) @
      (case cr_ResponseFormat b of None \<Rightarrow> [] | Some t \<Rightarrow> [(''response_format'', RObj [(''type'', RStr t)])]) @
      [(''stream'', RBool (cr_Stream b))])"

definition marshal_chatRequest :: "chatRequest \<Rightarrow> string res" where
  "marshal_chatRequest b =
     (if (\<forall>t\<in>set (cr_Tools b). json_finite (tf_Parameters (tool_Function t))) \<and>
         (case cr_Temperature b of None \<Rightarrow> True | Some x \<Rightarrow> fin_val x \<noteq> None)
      then Inr (raw_text (enc_chatRequest b)) else Inl ErrJSON)"

section \<open>Decoding into a value\<close>

text \<open>
  The values of a field are decoded one after the other, each into what the one before left.
  \<open>null\<close> leaves strings, numbers and structs alone and sets slices and pointers to nil.
\<close>

definition into_field :: "string \<Rightarrow> members \<Rightarrow> (raw \<Rightarrow> 'a \<Rightarrow> 'a res) \<Rightarrow> 'a \<Rightarrow> 'a res" where
  "into_field f ms dec old = for_each dec (field_values f ms) old"

definition into_string :: "raw \<Rightarrow> string \<Rightarrow> string res" where
  "into_string v old = (case v of RNull \<Rightarrow> Inr old | RStr s \<Rightarrow> Inr s | _ \<Rightarrow> Inl ErrJSON)"

definition into_int :: "raw \<Rightarrow> goint \<Rightarrow> goint res" where
  "into_int v old =
     (case v of
        RNull \<Rightarrow> Inr old
      | RNum lit \<Rightarrow> (case Atoi lit of Some n \<Rightarrow> Inr (word_of_int n) | None \<Rightarrow> Inl ErrJSON)
      | _ \<Rightarrow> Inl ErrJSON)"

text \<open>Element \<open>i\<close> is decoded into the element that is there, or into a zero value.\<close>

fun into_elems :: "'a \<Rightarrow> (raw \<Rightarrow> 'a \<Rightarrow> 'a res) \<Rightarrow> raw list \<Rightarrow> 'a list \<Rightarrow> 'a list res" where
  "into_elems zero dec [] old = Inr []"
| "into_elems zero dec (v # vs) old =
     bind_res (dec v (case old of [] \<Rightarrow> zero | x # _ \<Rightarrow> x)) (\<lambda>y.
     bind_res (into_elems zero dec vs (tl old)) (\<lambda>ys. Inr (y # ys)))"

definition into_list :: "'a \<Rightarrow> (raw \<Rightarrow> 'a \<Rightarrow> 'a res) \<Rightarrow> raw \<Rightarrow> 'a list \<Rightarrow> 'a list res" where
  "into_list zero dec v old =
     (case v of RNull \<Rightarrow> Inr [] | RArr vs \<Rightarrow> into_elems zero dec vs old | _ \<Rightarrow> Inl ErrJSON)"

definition into_pointer :: "'a \<Rightarrow> (raw \<Rightarrow> 'a \<Rightarrow> 'a res) \<Rightarrow> raw \<Rightarrow> 'a option \<Rightarrow> 'a option res" where
  "into_pointer zero dec v old =
     (case v of RNull \<Rightarrow> Inr None | _ \<Rightarrow> bind_res (dec v (case old of None \<Rightarrow> zero | Some x \<Rightarrow> x)) (\<lambda>y. Inr (Some y)))"

definition into_struct :: "(members \<Rightarrow> 'a \<Rightarrow> 'a res) \<Rightarrow> raw \<Rightarrow> 'a \<Rightarrow> 'a res" where
  "into_struct dec v old = (case v of RNull \<Rightarrow> Inr old | RObj ms \<Rightarrow> dec ms old | _ \<Rightarrow> Inl ErrJSON)"

definition zero_ToolCallFunction :: ToolCallFunction where
  "zero_ToolCallFunction = \<lparr>tcf_Name = [], tcf_Arguments = []\<rparr>"

definition zero_ToolCall :: ToolCall where
  "zero_ToolCall = \<lparr>tc_ID = [], tc_Type = [], tc_Function = zero_ToolCallFunction\<rparr>"

definition into_ToolCallFunction :: "raw \<Rightarrow> ToolCallFunction \<Rightarrow> ToolCallFunction res" where
  "into_ToolCallFunction = into_struct (\<lambda>ms old.
     bind_res (into_field ''name'' ms into_string (tcf_Name old)) (\<lambda>name.
     bind_res (into_field ''arguments'' ms into_string (tcf_Arguments old)) (\<lambda>args.
       Inr \<lparr>tcf_Name = name, tcf_Arguments = args\<rparr>)))"

definition into_ToolCall :: "raw \<Rightarrow> ToolCall \<Rightarrow> ToolCall res" where
  "into_ToolCall = into_struct (\<lambda>ms old.
     bind_res (into_field ''id'' ms into_string (tc_ID old)) (\<lambda>i.
     bind_res (into_field ''type'' ms into_string (tc_Type old)) (\<lambda>t.
     bind_res (into_field ''function'' ms into_ToolCallFunction (tc_Function old)) (\<lambda>f.
       Inr \<lparr>tc_ID = i, tc_Type = t, tc_Function = f\<rparr>))))"

definition into_Message :: "raw \<Rightarrow> Message \<Rightarrow> Message res" where
  "into_Message = into_struct (\<lambda>ms old.
     bind_res (into_field ''role'' ms into_string (msg_Role old)) (\<lambda>role.
     bind_res (into_field ''content'' ms into_string (msg_Content old)) (\<lambda>content.
     bind_res (into_field ''tool_calls'' ms (into_list zero_ToolCall into_ToolCall) (msg_ToolCalls old)) (\<lambda>calls.
     bind_res (into_field ''tool_call_id'' ms into_string (msg_ToolCallID old)) (\<lambda>i.
       Inr \<lparr>msg_Role = role, msg_Content = content, msg_ToolCalls = calls, msg_ToolCallID = i\<rparr>)))))"

definition into_choice :: "raw \<Rightarrow> Message \<Rightarrow> Message res" where
  "into_choice = into_struct (\<lambda>ms old. into_field ''message'' ms into_Message old)"

definition into_usage :: "raw \<Rightarrow> chat_usage \<Rightarrow> chat_usage res" where
  "into_usage = into_struct (\<lambda>ms old.
     bind_res (into_field ''prompt_tokens'' ms into_int (us_PromptTokens old)) (\<lambda>p.
     bind_res (into_field ''completion_tokens'' ms into_int (us_CompletionTokens old)) (\<lambda>c.
     bind_res (into_field ''total_tokens'' ms into_int (us_TotalTokens old)) (\<lambda>t.
       Inr \<lparr>us_PromptTokens = p, us_CompletionTokens = c, us_TotalTokens = t\<rparr>))))"

definition into_error :: "raw \<Rightarrow> chat_error \<Rightarrow> chat_error res" where
  "into_error = into_struct (\<lambda>ms old.
     bind_res (into_field ''message'' ms into_string (ce_Message old)) (\<lambda>m.
     bind_res (into_field ''type'' ms into_string (ce_Type old)) (\<lambda>t.
       Inr \<lparr>ce_Message = m, ce_Type = t\<rparr>)))"

definition zero_chatResponse :: chatResponse where
  "zero_chatResponse = \<lparr>ch_Choices = [], ch_Usage = None, ch_Error = None\<rparr>"

definition into_chatResponse :: "raw \<Rightarrow> chatResponse \<Rightarrow> chatResponse res" where
  "into_chatResponse = into_struct (\<lambda>ms old.
     bind_res (into_field ''choices'' ms (into_list (plain_Message [] []) into_choice) (ch_Choices old)) (\<lambda>choices.
     bind_res (into_field ''usage'' ms
       (into_pointer \<lparr>us_PromptTokens = 0, us_CompletionTokens = 0, us_TotalTokens = 0\<rparr> into_usage) (ch_Usage old)) (\<lambda>usage.
     bind_res (into_field ''error'' ms (into_pointer \<lparr>ce_Message = [], ce_Type = []\<rparr> into_error) (ch_Error old)) (\<lambda>err.
       Inr \<lparr>ch_Choices = choices, ch_Usage = usage, ch_Error = err\<rparr>))))"

definition Unmarshal_into :: "(raw \<Rightarrow> 'a \<Rightarrow> 'a res) \<Rightarrow> string \<Rightarrow> 'a \<Rightarrow> 'a res" where
  "Unmarshal_into dec s old = (case json_document s of None \<Rightarrow> Inl ErrJSON | Some v \<Rightarrow> dec v old)"

section \<open>The call\<close>

record http_call =
  hc_URL :: string
  hc_ContentType :: string
  hc_Authorization :: "string option"
  hc_Body :: string

text \<open>The status, the bytes of the body, and the error with which the body ends, if it does.\<close>

record http_answer =
  ha_StatusCode :: int
  ha_Body :: string
  ha_Fails :: "goerr option"

text \<open>\<open>ht_NewRequest\<close> fails for a URL that does not parse; \<open>ht_Do\<close> gets the timeout of the client.\<close>

record 's transport =
  ht_NewRequest :: "string \<Rightarrow> unit res"
  ht_Do :: "Ctx \<Rightarrow> goint \<Rightarrow> http_call \<Rightarrow> 's \<Rightarrow> http_answer res \<times> 's"

definition response_limit :: nat where
  "response_limit = 8388608"

text \<open>\<open>io.ReadAll\<close> of a limited reader: behind the limit nothing is read.\<close>

definition ReadAll_limited :: "nat \<Rightarrow> http_answer \<Rightarrow> string res" where
  "ReadAll_limited n a =
     (if n \<le> length (ha_Body a) then Inr (take n (ha_Body a))
      else case ha_Fails a of None \<Rightarrow> Inr (ha_Body a) | Some e \<Rightarrow> Inl e)"

definition truncate :: "string \<Rightarrow> nat \<Rightarrow> string" where
  "truncate s n = (if length s \<le> n then s else take n s @ ''...'')"

definition conversation :: "Request \<Rightarrow> Message list" where
  "conversation req =
     (if rq_Messages req \<noteq> [] then rq_Messages req
      else (if rq_SystemPrompt req \<noteq> [] then [plain_Message ''system'' (rq_SystemPrompt req)] else []) @
        [plain_Message ''user'' (rq_UserInput req)])"

definition chat_body :: "string \<Rightarrow> Request \<Rightarrow> chatRequest" where
  "chat_body model req =
     \<lparr>cr_Model = model, cr_Messages = conversation req, cr_Tools = rq_Tools req, cr_Temperature = rq_Temperature req,
      cr_MaxTokens = rq_MaxTokens req,
      cr_ResponseFormat = (if rq_JSONOutput req then Some ''json_object'' else None), cr_Stream = False\<rparr>"

text \<open>What \<open>Complete\<close> makes of an answer.\<close>

definition read_answer :: "http_answer \<Rightarrow> Response res" where
  "read_answer a =
     bind_res (wrap_err ''llm: read response: %w'' [] (ReadAll_limited response_limit a)) (\<lambda>raw.
     bind_res (if raw = [] then Inr zero_chatResponse
               else wrap_err ''llm: decode response (status %d): %w'' [Itoa (ha_StatusCode a)]
                 (Unmarshal_into into_chatResponse raw zero_chatResponse)) (\<lambda>parsed.
     if ha_StatusCode a < 200 \<or> ha_StatusCode a \<ge> 300 then
       Inl (HTTPError (ha_StatusCode a)
         (case ch_Error parsed of
            Some e \<Rightarrow> if ce_Message e \<noteq> [] then ce_Message e else truncate raw 300
          | None \<Rightarrow> truncate raw 300))
     else case ch_Choices parsed of
       [] \<Rightarrow> Inl (Errorf ''llm: response contained no choices'' [])
     | m # _ \<Rightarrow>
         let out = zero_Response\<lparr>rs_Content := msg_Content m, rs_ToolCalls := msg_ToolCalls m\<rparr> in
         Inr (case ch_Usage parsed of
            None \<Rightarrow> out
          | Some u \<Rightarrow> out\<lparr>rs_PromptTokens := us_PromptTokens u, rs_OutputTokens := us_CompletionTokens u,
              rs_TotalTokens := us_TotalTokens u\<rparr>)))"

definition request_base :: "OpenAIClient \<Rightarrow> Request \<Rightarrow> string" where
  "request_base c req = (if TrimSpace (rq_BaseURL req) \<noteq> [] then TrimRightSlash (rq_BaseURL req) else defaultBaseURL c)"

definition request_model :: "OpenAIClient \<Rightarrow> Request \<Rightarrow> string" where
  "request_model c req = (if rq_Model req = [] then defaultModel c else rq_Model req)"

definition chat_call :: "OpenAIClient \<Rightarrow> Request \<Rightarrow> string \<Rightarrow> http_call" where
  "chat_call c req payload =
     \<lparr>hc_URL = request_base c req @ ''/chat/completions'', hc_ContentType = ''application/json'',
      hc_Authorization = (if apiKey c \<noteq> [] then Some (''Bearer '' @ apiKey c) else None), hc_Body = payload\<rparr>"

definition openai_Complete :: "'s transport \<Rightarrow> OpenAIClient \<Rightarrow> 's client" where
  "openai_Complete ht c ctx req s =
     (if request_model c req = [] then (Inl (Errorf ''llm: model is required'' []), s)
      else case bind_res (marshal_chatRequest (chat_body (request_model c req) req)) (\<lambda>payload.
          bind_res (ht_NewRequest ht (hc_URL (chat_call c req payload))) (\<lambda>_. Inr payload)) of
        Inl err \<Rightarrow> (Inl err, s)
      | Inr payload \<Rightarrow>
          (case ht_Do ht ctx (clientTimeout c) (chat_call c req payload) s of
             (Inl err, s) \<Rightarrow> (Inl (ErrWrap ''llm: request failed: %w'' [] err), s)
           | (Inr a, s) \<Rightarrow> (read_answer a, s)))"

section \<open>What an answer becomes\<close>

text \<open>The body could be read, and it is empty or a JSON document of the expected shape.\<close>

definition answer_parses :: "http_answer \<Rightarrow> bool" where
  "answer_parses a \<longleftrightarrow> (case ReadAll_limited response_limit a of
     Inl _ \<Rightarrow> False
   | Inr raw \<Rightarrow> raw = [] \<or> (case Unmarshal_into into_chatResponse raw zero_chatResponse of Inl _ \<Rightarrow> False | Inr _ \<Rightarrow> True))"

lemma read_answer_status:
  assumes "ha_StatusCode a < 200 \<or> ha_StatusCode a \<ge> 300"
  shows "\<exists>err. read_answer a = Inl err \<and> (answer_parses a \<longrightarrow> (\<exists>msg. err = HTTPError (ha_StatusCode a) msg))"
proof (cases "ReadAll_limited response_limit a")
  case (Inr raw)
  show ?thesis
  proof (cases "raw = []")
    case False
    with Inr assms show ?thesis
      by (cases "Unmarshal_into into_chatResponse raw zero_chatResponse") (auto simp: read_answer_def wrap_err_def answer_parses_def)
  qed (use Inr assms in \<open>auto simp: read_answer_def wrap_err_def answer_parses_def\<close>)
qed (auto simp: read_answer_def wrap_err_def answer_parses_def)

definition sends :: "'s transport \<Rightarrow> OpenAIClient \<Rightarrow> Ctx \<Rightarrow> Request \<Rightarrow> 's \<Rightarrow> http_answer res \<times> 's \<Rightarrow> bool" where
  "sends ht c ctx req s out \<longleftrightarrow> request_model c req \<noteq> [] \<and>
     (\<exists>payload. marshal_chatRequest (chat_body (request_model c req) req) = Inr payload \<and>
        ht_NewRequest ht (hc_URL (chat_call c req payload)) = Inr () \<and>
        ht_Do ht ctx (clientTimeout c) (chat_call c req payload) s = out)"

lemma openai_sends: "sends ht c ctx req s (Inr a, s') \<Longrightarrow> openai_Complete ht c ctx req s = (read_answer a, s')"
  by (auto simp: sends_def openai_Complete_def)

lemma openai_Inr:
  "openai_Complete ht c ctx req s = (Inr resp, s') \<Longrightarrow> \<exists>a. sends ht c ctx req s (Inr a, s') \<and> read_answer a = Inr resp"
  by (auto simp: openai_Complete_def sends_def bind_res_Inr split: if_splits sum.splits prod.splits)

lemma read_answer_Inr:
  assumes "read_answer a = Inr resp"
  shows "200 \<le> ha_StatusCode a \<and> ha_StatusCode a < 300 \<and>
    (\<exists>raw parsed m ms. ReadAll_limited response_limit a = Inr raw \<and> raw \<noteq> [] \<and>
      Unmarshal_into into_chatResponse raw zero_chatResponse = Inr parsed \<and> ch_Choices parsed = m # ms \<and>
      rs_Content resp = msg_Content m \<and> rs_ToolCalls resp = msg_ToolCalls m)"
proof -
  have "200 \<le> ha_StatusCode a \<and> ha_StatusCode a < 300" using read_answer_status [of a] assms by force
  moreover obtain raw where raw: "ReadAll_limited response_limit a = Inr raw"
    using assms by (cases "ReadAll_limited response_limit a") (auto simp: read_answer_def wrap_err_def)
  moreover have "raw \<noteq> []" using assms raw by (auto simp: read_answer_def wrap_err_def zero_chatResponse_def split: if_splits)
  moreover obtain parsed where "Unmarshal_into into_chatResponse raw zero_chatResponse = Inr parsed"
    using assms raw \<open>raw \<noteq> []\<close> by (cases "Unmarshal_into into_chatResponse raw zero_chatResponse") (auto simp: read_answer_def wrap_err_def)
  ultimately show ?thesis
    using assms by (auto simp: read_answer_def wrap_err_def Let_def zero_Response_def split: if_splits list.splits option.splits)
qed

text \<open>
  a response of \<open>Complete\<close> always comes from one answer of the server with a status of the
  class 2xx, whose body is a JSON document with at least one choice; content and tool calls
  are those of the first choice.
\<close>

theorem openai_success:
  assumes "openai_Complete ht c ctx req s = (Inr resp, s')"
  shows "\<exists>a raw parsed m ms. sends ht c ctx req s (Inr a, s') \<and> 200 \<le> ha_StatusCode a \<and> ha_StatusCode a < 300 \<and>
    ReadAll_limited response_limit a = Inr raw \<and> Unmarshal_into into_chatResponse raw zero_chatResponse = Inr parsed \<and>
    ch_Choices parsed = m # ms \<and> rs_Content resp = msg_Content m \<and> rs_ToolCalls resp = msg_ToolCalls m"
  using openai_Inr [OF assms] read_answer_Inr by blast

text \<open>
  C30: with the retrying client around it, an error of the class 4xx other than 429 fails at
  once: one request, no pause, and the caller gets the status.  This is so when the answer
  has no body or one of the expected shape.
\<close>

theorem client_error_fails_fast:
  assumes "sends ht c ctx req s (Inr a, s')" "answer_parses a" "400 \<le> ha_StatusCode a" "ha_StatusCode a < 500" "ha_StatusCode a \<noteq> 429"
    and "1 \<le> sint (MaxAttempts cfg)"
  shows "\<exists>msg. retry_Complete rt (openai_Complete ht c) cfg ctx req s = (Inl (HTTPError (ha_StatusCode a) msg), s')"
proof -
  from read_answer_status [of a] assms(2,3) obtain msg where "read_answer a = Inl (HTTPError (ha_StatusCode a) msg)" by auto
  with openai_sends [OF assms(1)] have "openai_Complete ht c ctx req s = (Inl (HTTPError (ha_StatusCode a) msg), s')" by simp
  moreover have "\<not> Retryable (HTTPError (ha_StatusCode a) msg)"
    using assms(4,5) by (simp add: Retryable_def Canceled_def DeadlineExceeded_def)
  ultimately show ?thesis using assms(6) by (simp add: retry_Complete_def retry_loop.simps [of rt])
qed

section \<open>Examples\<close>

text \<open>A server that gives one answer to every request; the state counts the requests.\<close>

definition constant_server :: "http_answer \<Rightarrow> nat transport" where
  "constant_server a = \<lparr>ht_NewRequest = (\<lambda>_. Inr ()), ht_Do = (\<lambda>ctx timeout call n. (Inr a, Suc n))\<rparr>"

definition demo_openai :: OpenAIClient where
  "demo_openai = \<lparr>defaultBaseURL = ''http://h/v1'', defaultModel = ''m'', apiKey = [], clientTimeout = 300000000000\<rparr>"

lemma demo_openai_new: "NewOpenAI \<lparr>oc_BaseURL = ''http://h/v1//'', oc_Model = ''m'', oc_APIKey = [], oc_Timeout = 0\<rparr> = Inr demo_openai"
  by code_simp

lemma constant_sends: "sends (constant_server a) demo_openai ctx demo_req n (Inr a, Suc n)"
  by (simp add: sends_def constant_server_def marshal_chatRequest_def chat_body_def demo_req_def request_model_def)

theorem client_error_fails_fast_witness:
  "\<exists>msg. retry_Complete demo_rt (openai_Complete (constant_server \<lparr>ha_StatusCode = 404, ha_Body = [], ha_Fails = None\<rparr>) demo_openai)
     demo_cfg demo_ctx demo_req 0 = (Inl (HTTPError 404 msg), 1)"
proof -
  have "answer_parses \<lparr>ha_StatusCode = 404, ha_Body = [], ha_Fails = None\<rparr>"
    by (simp add: answer_parses_def ReadAll_limited_def response_limit_def)
  from client_error_fails_fast [OF constant_sends this, of demo_cfg demo_rt demo_ctx 0] show ?thesis
    by (simp add: demo_cfg_def)
qed

text \<open>
  An answer of the class 4xx whose body is not JSON, as proxies send it, is an error of the
  decoder and not an \<open>HTTPError\<close>: the retrying client repeats the request until its attempts
  are used up.
\<close>

theorem client_error_retried:
  "retry_Complete demo_rt (openai_Complete (constant_server \<lparr>ha_StatusCode = 400, ha_Body = ''<'', ha_Fails = None\<rparr>) demo_openai)
     demo_cfg demo_ctx demo_req 0 =
   (Inl (ErrWrap ''llm: decode response (status %d): %w'' [''400''] ErrJSON), 3)"
proof -
  let ?a = "\<lparr>ha_StatusCode = 400, ha_Body = ''<'', ha_Fails = None\<rparr>" and ?e = "ErrWrap ''llm: decode response (status %d): %w'' [''400''] ErrJSON"
  have "json_document ''<'' = None" "Itoa 400 = ''400''" by code_simp+
  then have "read_answer ?a = Inl ?e"
    by (simp add: read_answer_def ReadAll_limited_def response_limit_def wrap_err_def Unmarshal_into_def)
  then have one: "openai_Complete (constant_server ?a) demo_openai demo_ctx demo_req n = (Inl ?e, Suc n)" for n
    using openai_sends [OF constant_sends] by simp
  have "Retryable ?e" by (simp add: Retryable_def Canceled_def DeadlineExceeded_def ErrJSON_def)
  moreover have "between demo_rt demo_cfg demo_ctx n s = (Inr (), s)" for n s
    by (simp add: between_def demo_cfg_def demo_rt_def backoff_def sleep_def Let_def)
  ultimately show ?thesis
    by (simp add: retry_Complete_def retry_loop.simps [of demo_rt] one demo_cfg_def [THEN arg_cong, of MaxAttempts])
qed

text \<open>A server that answers.\<close>

definition demo_answer_doc :: raw where
  "demo_answer_doc = RObj [(''choices'', RArr [RObj [(''message'', RObj [(''content'', RStr ''yes'')])]])]"

lemma demo_answer_read:
  "read_answer \<lparr>ha_StatusCode = 200, ha_Body = raw_text demo_answer_doc, ha_Fails = None\<rparr> = Inr (zero_Response\<lparr>rs_Content := ''yes''\<rparr>)"
proof -
  have "raw_ok demo_answer_doc" "raw_depth demo_answer_doc \<le> max_depth" by code_simp+
  then have "json_document (raw_text demo_answer_doc) = Some demo_answer_doc" using raw_text_read [of demo_answer_doc "[]"] by simp
  moreover have "into_chatResponse demo_answer_doc zero_chatResponse =
      Inr \<lparr>ch_Choices = [plain_Message [] ''yes''], ch_Usage = None, ch_Error = None\<rparr>" by code_simp
  moreover have "length (raw_text demo_answer_doc) \<le> 100" "raw_text demo_answer_doc \<noteq> []" by code_simp+
  ultimately show ?thesis
    by (simp add: read_answer_def ReadAll_limited_def response_limit_def wrap_err_def Unmarshal_into_def plain_Message_def zero_Response_def)
qed

theorem openai_success_witness:
  "\<exists>a raw parsed m ms. sends (constant_server \<lparr>ha_StatusCode = 200, ha_Body = raw_text demo_answer_doc, ha_Fails = None\<rparr>)
      demo_openai demo_ctx demo_req 0 (Inr a, 1) \<and>
    ReadAll_limited response_limit a = Inr raw \<and> Unmarshal_into into_chatResponse raw zero_chatResponse = Inr parsed \<and>
    ch_Choices parsed = m # ms \<and> msg_Content m = ''yes''"
proof -
  let ?ht = "constant_server \<lparr>ha_StatusCode = 200, ha_Body = raw_text demo_answer_doc, ha_Fails = None\<rparr>"
  have "openai_Complete ?ht demo_openai demo_ctx demo_req 0 = (Inr (zero_Response\<lparr>rs_Content := ''yes''\<rparr>), 1)"
    using openai_sends [OF constant_sends] by (simp add: demo_answer_read)
  from openai_success [OF this] show ?thesis by (fastforce simp: zero_Response_def)
qed

end
