(* ===== verification/RateLimit.thy ===== *)
theory RateLimit
  imports Llm Machine
begin

text \<open>
  \<open>internal/ratelimit/ratelimit.go\<close>: the client that limits the requests to a backend.  The
  environment variables and the case mappings of Unicode are parameters; the token bucket is
  the package \<open>golang.org/x/time/rate\<close>, of which only the outcome of \<open>Wait\<close> matters here.
\<close>

section \<open>Configuration\<close>

record lim_env =
  le_LookupEnv :: "string \<rightharpoonup> string"
  le_ToLower :: "string \<Rightarrow> string"
  le_ToUpper :: "string \<Rightarrow> string"

record Config =
  DefaultConcurrency :: int
  DefaultRate :: f64
  DefaultBurst :: int

text \<open>
  The verb \<open>%d\<close> of \<open>fmt.Sscanf\<close>: white space but no newline, a sign, digits, and a value in
  the range of an int.  What follows the number is not looked at.
\<close>

definition scan_space :: "string \<Rightarrow> string" where
  "scan_space s = strip_words (length s) (filter (\<lambda>w. w \<noteq> [CHR 0x0A]) space_encodings) s"

definition scan_int :: "string \<Rightarrow> (int \<times> string) option" where
  "scan_int s =
     (let t = scan_space s;
          sign = (if t \<noteq> [] \<and> (hd t = CHR ''-'' \<or> hd t = CHR ''+'') then [hd t] else []);
          u = drop (length sign) t; ds = takeWhile isDigit u
      in if ds = [] then None
         else case Atoi (sign @ ds) of None \<Rightarrow> None | Some n \<Rightarrow> Some (n, dropWhile isDigit u))"

definition parseRate :: "string \<Rightarrow> (f64 \<times> int) option" where
  "parseRate s =
     (let s = TrimSpace s in
      if s = [] \<or> s = ''0'' then None
      else if CHR ''/'' \<notin> set s then
        (case scan_int s of None \<Rightarrow> None | Some (n, _) \<Rightarrow> if n \<le> 0 then None else Some (f64_of_int n, n))
      else
        (case scan_int s of
           None \<Rightarrow> None
         | Some (n, r) \<Rightarrow>
             if r = [] \<or> hd r \<noteq> CHR ''/'' then None
             else (case scan_int (tl r) of
                 None \<Rightarrow> None
               | Some (d, _) \<Rightarrow> if n \<le> 0 \<or> d \<le> 0 then None else Some (f64_div (f64_of_int n) (f64_of_int d), n))))"

definition envOr :: "lim_env \<Rightarrow> string \<Rightarrow> string \<Rightarrow> string" where
  "envOr E key fallback = (case le_LookupEnv E key of Some v \<Rightarrow> if v \<noteq> [] then v else fallback | None \<Rightarrow> fallback)"

definition envInt :: "lim_env \<Rightarrow> string \<Rightarrow> int \<Rightarrow> int" where
  "envInt E key fallback =
     (case le_LookupEnv E key of
        None \<Rightarrow> fallback
      | Some v \<Rightarrow>
          if v = [] then fallback
          else (case scan_int v of None \<Rightarrow> fallback | Some (n, _) \<Rightarrow> if n < 1 then fallback else n))"

definition FromEnv :: "lim_env \<Rightarrow> Config" where
  "FromEnv E =
     (let c = \<lparr>DefaultConcurrency = 0, DefaultRate = Fin 0, DefaultBurst = 0\<rparr>;
          v = envInt E ''HARNESS_CONCURRENCY_DEFAULT'' 0;
          c = (if v > 0 then c\<lparr>DefaultConcurrency := v\<rparr> else c)
      in case parseRate (envOr E ''HARNESS_RATE_LIMIT'' []) of
           Some (r, b) \<Rightarrow> c\<lparr>DefaultRate := r, DefaultBurst := b\<rparr>
         | None \<Rightarrow> c)"

section \<open>Keys\<close>

text \<open>The text behind the first \<open>://\<close>, and the text before the first of some bytes.\<close>

fun after_scheme :: "string \<Rightarrow> string option" where
  "after_scheme [] = None"
| "after_scheme (c # s) = (if prefix ''://'' (c # s) then Some (drop 3 (c # s)) else after_scheme s)"

definition endpointKey :: "lim_env \<Rightarrow> string \<Rightarrow> string" where
  "endpointKey E baseURL =
     (let s = TrimSpace baseURL;
          s = (if s = [] then ''default'' else s);
          s = (case after_scheme s of Some r \<Rightarrow> r | None \<Rightarrow> s);
          s = takeWhile (\<lambda>c. c \<noteq> CHR ''/'' \<and> c \<noteq> CHR ''?'' \<and> c \<noteq> CHR ''#'') s
      in le_ToLower E s)"

definition envKey :: "lim_env \<Rightarrow> string \<Rightarrow> string" where
  "envKey E host =
     le_ToUpper E (map (\<lambda>c. if c = CHR ''.'' \<or> c = CHR '':'' \<or> c = CHR ''/'' \<or> c = CHR 0x5C then CHR ''_'' else c) host)"

definition semKey :: "string \<Rightarrow> int \<Rightarrow> string" where
  "semKey endpoint concurrency = endpoint @ ''|'' @ Itoa concurrency"

text \<open>The overrides in a context; without one they are zero.\<close>

definition ctx_override :: "Ctx \<Rightarrow> int \<times> string" where
  "ctx_override ctx = (case cx_Override ctx of None \<Rightarrow> (0, []) | Some (n, r) \<Rightarrow> (sint n, r))"

definition concurrency :: "lim_env \<Rightarrow> Config \<Rightarrow> string \<Rightarrow> int \<times> string \<Rightarrow> int" where
  "concurrency E cfg key ov =
     (let v = envInt E (''HARNESS_CONCURRENCY_'' @ envKey E key) 0 in
      if v > 0 then v else if fst ov > 0 then fst ov else DefaultConcurrency cfg)"

definition rateLimit :: "lim_env \<Rightarrow> Config \<Rightarrow> string \<Rightarrow> int \<times> string \<Rightarrow> f64 \<times> int" where
  "rateLimit E cfg key ov =
     (case parseRate (snd ov) of
        Some rb \<Rightarrow> rb
      | None \<Rightarrow>
          (case parseRate (envOr E (''HARNESS_RATE_LIMIT_'' @ envKey E key) []) of
             Some rb \<Rightarrow> rb
           | None \<Rightarrow> (DefaultRate cfg, DefaultBurst cfg)))"

section \<open>The limiter\<close>

text \<open>
  A semaphore is its capacity and the number of slots taken; a bucket is its rate and burst.
  A request is waiting for its bucket, waiting for a slot, in flight at the backend, or done.
\<close>

datatype phase =
    RateWait string Ctx Request
  | SlotWait string Ctx Request
  | InFlight string Ctx Request
  | Returned "Response res"

record limiter =
  lm_sem :: "string \<rightharpoonup> int \<times> nat"
  lm_buckets :: "string \<rightharpoonup> f64 \<times> int"
  lm_calls :: "phase list"

definition limiter_New :: "Config \<Rightarrow> Config \<times> limiter" where
  "limiter_New cfg =
     ((if DefaultConcurrency cfg < 1 then cfg\<lparr>DefaultConcurrency := 1\<rparr> else cfg),
      \<lparr>lm_sem = Map.empty, lm_buckets = Map.empty, lm_calls = []\<rparr>)"

definition semFor :: "string \<Rightarrow> int \<Rightarrow> limiter \<Rightarrow> string \<times> limiter" where
  "semFor key n l =
     (let ck = semKey key n in
      if lm_sem l ck \<noteq> None then (ck, l) else (ck, l\<lparr>lm_sem := (lm_sem l)(ck \<mapsto> (n, 0))\<rparr>))"

text \<open>The key of the cache has the rate truncated to an integer.\<close>

definition bucketKey :: "string \<Rightarrow> f64 \<Rightarrow> int \<Rightarrow> string" where
  "bucketKey key limit burst = key @ ''|'' @ Itoa (int64_of_f64 limit) @ ''|'' @ Itoa burst"

definition rateLimiterFor :: "string \<Rightarrow> f64 \<Rightarrow> int \<Rightarrow> limiter \<Rightarrow> string option \<times> limiter" where
  "rateLimiterFor key limit burst l =
     (if f64_less limit (Fin 0) \<or> f64_eq limit (Fin 0) \<or> burst \<le> 0 then (None, l)
      else let ck = bucketKey key limit burst in
        if lm_buckets l ck \<noteq> None then (Some ck, l)
        else (Some ck, l\<lparr>lm_buckets := (lm_buckets l)(ck \<mapsto> (limit, burst))\<rparr>))"

text \<open>\<open>Complete\<close> from the semaphore on: the request waits for a slot.\<close>

definition want_slot :: "lim_env \<Rightarrow> Config \<Rightarrow> Ctx \<Rightarrow> Request \<Rightarrow> limiter \<Rightarrow> phase \<times> limiter" where
  "want_slot E cfg ctx req l =
     (let key = endpointKey E (rq_BaseURL req) in
      case semFor key (concurrency E cfg key (ctx_override ctx)) l of (ck, l) \<Rightarrow> (SlotWait ck ctx req, l))"

datatype lim_event =
    Call Ctx Request
  | Rated nat "goerr option"
  | Acquire nat
  | Cancel nat goerr
  | Finish nat "Response res"

definition call_at :: "limiter \<Rightarrow> nat \<Rightarrow> phase option" where
  "call_at l i = (if i < length (lm_calls l) then Some (lm_calls l ! i) else None)"

definition set_call :: "nat \<Rightarrow> phase \<Rightarrow> limiter \<Rightarrow> limiter" where
  "set_call i p l = l\<lparr>lm_calls := (lm_calls l)[i := p]\<rparr>"

fun lim_exec :: "lim_env \<Rightarrow> Config \<Rightarrow> lim_event \<Rightarrow> limiter \<Rightarrow> limiter option" where
  "lim_exec E cfg (Call ctx req) l =
     (let key = endpointKey E (rq_BaseURL req); rb = rateLimit E cfg key (ctx_override ctx) in
      case rateLimiterFor key (fst rb) (snd rb) l of
        (Some bucket, l) \<Rightarrow> Some (l\<lparr>lm_calls := lm_calls l @ [RateWait bucket ctx req]\<rparr>)
      | (None, l) \<Rightarrow> (case want_slot E cfg ctx req l of (p, l) \<Rightarrow> Some (l\<lparr>lm_calls := lm_calls l @ [p]\<rparr>)))"
| "lim_exec E cfg (Rated i err) l =
     (case call_at l i of
        Some (RateWait bucket ctx req) \<Rightarrow>
          (case err of
             Some e \<Rightarrow> Some (set_call i (Returned (Inl (ErrWrap ''ratelimit: rate wait failed: %w'' [] e))) l)
           | None \<Rightarrow> (case want_slot E cfg ctx req l of (p, l) \<Rightarrow> Some (set_call i p l)))
      | _ \<Rightarrow> None)"
| "lim_exec E cfg (Acquire i) l =
     (case call_at l i of
        Some (SlotWait ck ctx req) \<Rightarrow>
          (case lm_sem l ck of
             Some (n, taken) \<Rightarrow>
               if int taken < n
               then Some (set_call i (InFlight ck ctx req) (l\<lparr>lm_sem := (lm_sem l)(ck \<mapsto> (n, Suc taken))\<rparr>))
               else None
           | None \<Rightarrow> None)
      | _ \<Rightarrow> None)"
| "lim_exec E cfg (Cancel i err) l =
     (case call_at l i of
        Some (SlotWait ck ctx req) \<Rightarrow> Some (set_call i (Returned (Inl err)) l)
      | _ \<Rightarrow> None)"
| "lim_exec E cfg (Finish i resp) l =
     (case call_at l i of
        Some (InFlight ck ctx req) \<Rightarrow>
          (case lm_sem l ck of
             Some (n, taken) \<Rightarrow>
               Some (set_call i (Returned resp) (l\<lparr>lm_sem := (lm_sem l)(ck \<mapsto> (n, taken - 1))\<rparr>))
           | None \<Rightarrow> None)
      | _ \<Rightarrow> None)"

section \<open>Slots\<close>

fun flies :: "string \<Rightarrow> phase \<Rightarrow> bool" where
  "flies ck (InFlight c ctx req) \<longleftrightarrow> c = ck"
| "flies ck _ \<longleftrightarrow> False"

definition in_flight :: "string \<Rightarrow> limiter \<Rightarrow> nat" where
  "in_flight ck l = length (filter (flies ck) (lm_calls l))"

fun holds_key :: "phase \<Rightarrow> string option" where
  "holds_key (SlotWait ck ctx req) = Some ck"
| "holds_key (InFlight ck ctx req) = Some ck"
| "holds_key _ = None"

definition sem_ok :: "limiter \<Rightarrow> string \<Rightarrow> bool" where
  "sem_ok l ck \<longleftrightarrow>
     (case lm_sem l ck of
        None \<Rightarrow> Some ck \<notin> holds_key ` set (lm_calls l)
      | Some (n, taken) \<Rightarrow> taken = in_flight ck l \<and> int taken \<le> n \<and> 1 \<le> n \<and> (\<exists>ep. ck = semKey ep n))"

definition lim_inv :: "limiter \<Rightarrow> bool" where
  "lim_inv l \<longleftrightarrow> (\<forall>ck. sem_ok l ck)"

lemma sem_update_simps [simp]:
  "in_flight c (l\<lparr>lm_sem := x\<rparr>) = in_flight c l" "call_at (l\<lparr>lm_sem := x\<rparr>) i = call_at l i"
  by (simp_all add: in_flight_def call_at_def)

lemma Itoa_no_bar: "CHR ''|'' \<notin> set (Itoa i)"
proof -
  have "CHR ''|'' \<notin> set (nat_digits n)" for n
    using nat_digits_isDigit [of n] by (auto simp: list_all_iff isDigit_def)
  then show ?thesis by (simp add: Itoa_def)
qed

lemma Itoa_inj: "Itoa i = Itoa j \<Longrightarrow> i = j"
proof -
  assume e: "Itoa i = Itoa j"
  have val: "digits_value 0 (nat_digits n) = n" for n by (rule digits_value_nat_digits)
  have hd: "hd (nat_digits n) \<noteq> CHR ''-''" for n
    using nat_digits_isDigit [of n] nat_digits_nonempty [of n] by (cases "nat_digits n") (auto simp: isDigit_def)
  show "i = j"
  proof (cases "i < 0"; cases "j < 0")
    assume "i < 0" "j < 0"
    with e have "nat_digits (nat (- i)) = nat_digits (nat (- j))" by (simp add: Itoa_def)
    with val have "nat (- i) = nat (- j)" by metis
    with \<open>i < 0\<close> \<open>j < 0\<close> show ?thesis by simp
  next
    assume "\<not> i < 0" "\<not> j < 0"
    with e have "nat_digits (nat i) = nat_digits (nat j)" by (simp add: Itoa_def)
    with val have "nat i = nat j" by metis
    with \<open>\<not> i < 0\<close> \<open>\<not> j < 0\<close> show ?thesis by simp
  qed (use e in \<open>simp_all add: Itoa_def\<close>, (metis hd list.sel(1))+)
qed

lemma append_bar_inj:
  "a @ CHR ''|'' # x = b @ CHR ''|'' # y \<Longrightarrow> CHR ''|'' \<notin> set x \<Longrightarrow> CHR ''|'' \<notin> set y \<Longrightarrow> a = b \<and> x = y"
  by (auto simp: append_eq_append_conv2 Cons_eq_append_conv append_eq_Cons_conv)

lemma semKey_inj: "semKey a m = semKey b n \<longleftrightarrow> a = b \<and> m = n"
  using append_bar_inj [of a "Itoa m" b "Itoa n"] Itoa_no_bar Itoa_inj by (auto simp: semKey_def)

lemma concurrency_pos: "1 \<le> DefaultConcurrency cfg \<Longrightarrow> 1 \<le> concurrency E cfg key ov"
  by (auto simp: concurrency_def Let_def)

text \<open>A call that is replaced by one with the same key, or by one that has returned.\<close>

lemma in_flight_set_call:
  "call_at l i = Some p \<Longrightarrow>
     in_flight ck (set_call i q l) + of_bool (flies ck p) = in_flight ck l + of_bool (flies ck q)"
  using length_filter_update [of i "lm_calls l" "flies ck" q]
  by (auto simp: call_at_def set_call_def in_flight_def split: if_splits)

lemma holds_set_call:
  "holds_key ` set (lm_calls (set_call i q l)) \<subseteq> insert (holds_key q) (holds_key ` set (lm_calls l))"
  using set_update_subset_insert [of "lm_calls l" i q] by (auto simp: set_call_def)

lemma call_at_set: "call_at l i = Some p \<Longrightarrow> p \<in> set (lm_calls l)"
  by (auto simp: call_at_def split: if_splits)

lemma semFor_ok:
  assumes "lim_inv l" "semFor key n l = (ck, l')" "1 \<le> n"
  shows "lim_inv l' \<and> lm_calls l' = lm_calls l \<and> lm_sem l' ck \<noteq> None"
proof (cases "lm_sem l (semKey key n)")
  case None
  with assms have l': "l' = l\<lparr>lm_sem := (lm_sem l)(ck \<mapsto> (n, 0))\<rparr>" "ck = semKey key n" by (auto simp: semFor_def Let_def)
  have "Some ck \<notin> holds_key ` set (lm_calls l)" using assms(1) [unfolded lim_inv_def, rule_format, of ck] None l'(2) by (simp add: sem_ok_def)
  moreover have "flies ck p \<Longrightarrow> holds_key p = Some ck" for p by (cases p) auto
  ultimately have "in_flight ck l = 0" by (force simp: in_flight_def filter_empty_conv)
  then have "sem_ok l' c" for c
    using assms(1) [unfolded lim_inv_def, rule_format, of c] assms(3) l' by (cases "c = ck") (auto simp: sem_ok_def split: option.splits)
  with l' show ?thesis by (simp add: lim_inv_def)
next
  case (Some x)
  with assms show ?thesis by (auto simp: semFor_def Let_def)
qed

lemma want_slot_ok:
  assumes "lim_inv l" "1 \<le> DefaultConcurrency cfg" "want_slot E cfg ctx req l = (p, l')"
  shows "lim_inv l' \<and> lm_calls l' = lm_calls l \<and> (\<exists>ck. p = SlotWait ck ctx req \<and> lm_sem l' ck \<noteq> None)"
proof -
  let ?key = "endpointKey E (rq_BaseURL req)" and ?n = "concurrency E cfg (endpointKey E (rq_BaseURL req)) (ctx_override ctx)"
  obtain ck l1 where "semFor ?key ?n l = (ck, l1)" by fastforce
  with semFor_ok [OF assms(1) this concurrency_pos [OF assms(2)]] assms(3) show ?thesis
    by (auto simp: want_slot_def Let_def)
qed

text \<open>Adding or changing a call that is not in flight and whose semaphore exists.\<close>

lemma lim_inv_calls:
  assumes "lim_inv l" and "\<And>ck. in_flight ck l' = in_flight ck l" and "lm_sem l' = lm_sem l"
    and "\<And>ck. Some ck \<in> holds_key ` set (lm_calls l') \<Longrightarrow> Some ck \<in> holds_key ` set (lm_calls l) \<or> lm_sem l ck \<noteq> None"
  shows "lim_inv l'"
  unfolding lim_inv_def
proof
  fix ck
  show "sem_ok l' ck"
    using assms(1) [unfolded lim_inv_def, rule_format, of ck] assms(2,3) assms(4) [of ck]
    by (cases "lm_sem l ck") (auto simp: sem_ok_def simp del: image_iff)
qed

lemma lim_inv_add:
  assumes "lim_inv l" "\<And>ck. \<not> flies ck p" "\<And>ck. holds_key p = Some ck \<Longrightarrow> lm_sem l ck \<noteq> None"
  shows "lim_inv (l\<lparr>lm_calls := lm_calls l @ [p]\<rparr>)"
  using assms by (intro lim_inv_calls [OF assms(1)]) (auto simp: in_flight_def dest: sym)

lemma lim_inv_set:
  assumes "lim_inv l" "call_at l i = Some p" "\<And>ck. \<not> flies ck p" "\<And>ck. \<not> flies ck q"
    and "\<And>ck. holds_key q = Some ck \<Longrightarrow> lm_sem l ck \<noteq> None"
  shows "lim_inv (set_call i q l)"
proof (rule lim_inv_calls [OF assms(1)])
  show "in_flight ck (set_call i q l) = in_flight ck l" for ck
    using in_flight_set_call [OF assms(2), of ck q] assms(3,4) by simp
  show "Some ck \<in> holds_key ` set (lm_calls l) \<or> lm_sem l ck \<noteq> None"
    if "Some ck \<in> holds_key ` set (lm_calls (set_call i q l))" for ck
    using that holds_set_call [of i q l] assms(5) [of ck] by auto
qed (simp add: set_call_def)

text \<open>Taking and giving back a slot.\<close>

lemma lim_inv_slot:
  assumes inv: "lim_inv l" and i: "call_at l i = Some p" and k: "holds_key p = Some ck" "lm_sem l ck = Some (n, taken)"
    and q: "holds_key q = None \<or> holds_key q = Some ck" and other: "\<And>c. c \<noteq> ck \<Longrightarrow> \<not> flies c p \<and> \<not> flies c q"
    and m: "m + of_bool (flies ck p) = taken + of_bool (flies ck q)" "int m \<le> n"
  shows "lim_inv (set_call i q (l\<lparr>lm_sem := (lm_sem l)(ck \<mapsto> (n, m))\<rparr>))"
  unfolding lim_inv_def
proof
  let ?l = "l\<lparr>lm_sem := (lm_sem l)(ck \<mapsto> (n, m))\<rparr>"
  fix c
  have fl: "in_flight c (set_call i q ?l) + of_bool (flies c p) = in_flight c l + of_bool (flies c q)"
    using in_flight_set_call [of ?l i p c q] i by simp
  have ok: "sem_ok l c" using inv by (simp add: lim_inv_def)
  show "sem_ok (set_call i q ?l) c"
  proof (cases "c = ck")
    case True
    with ok k fl m show ?thesis by (auto simp: sem_ok_def set_call_def)
  next
    case False
    with fl other have "in_flight c (set_call i q ?l) = in_flight c l" by simp
    moreover have "Some c \<in> holds_key ` set (lm_calls (set_call i q ?l)) \<Longrightarrow> Some c \<in> holds_key ` set (lm_calls l)"
      using holds_set_call [of i q ?l] q False by auto
    ultimately show ?thesis using ok False by (auto simp: sem_ok_def set_call_def split: option.splits)
  qed
qed

lemma lim_inv_exec:
  assumes inv: "lim_inv l" and d: "1 \<le> DefaultConcurrency cfg" and ev: "lim_exec E cfg ev l = Some l'"
  shows "lim_inv l'"
proof (cases ev)
  case (Call ctx req)
  obtain b l1 where b: "rateLimiterFor (endpointKey E (rq_BaseURL req))
      (fst (rateLimit E cfg (endpointKey E (rq_BaseURL req)) (ctx_override ctx)))
      (snd (rateLimit E cfg (endpointKey E (rq_BaseURL req)) (ctx_override ctx))) l = (b, l1)" by fastforce
  then have "lm_sem l1 = lm_sem l" "lm_calls l1 = lm_calls l" by (auto simp: rateLimiterFor_def Let_def split: if_splits)
  then have inv1: "lim_inv l1" using lim_inv_calls [OF inv, of l1] by (simp add: in_flight_def)
  show ?thesis
  proof (cases b)
    case (Some bucket)
    with ev Call b lim_inv_add [OF inv1, of "RateWait bucket ctx req"] show ?thesis by (auto simp: Let_def)
  next
    case None
    obtain p l2 where w: "want_slot E cfg ctx req l1 = (p, l2)" by fastforce
    from want_slot_ok [OF inv1 d w] obtain ck where p: "lim_inv l2" "p = SlotWait ck ctx req" "lm_sem l2 ck \<noteq> None" by auto
    with ev Call b None w lim_inv_add [OF p(1), of p] show ?thesis by (auto simp: Let_def)
  qed
next
  case (Rated i err)
  with ev obtain bucket ctx req where c: "call_at l i = Some (RateWait bucket ctx req)"
    by (auto split: option.splits phase.splits)
  show ?thesis
  proof (cases err)
    case (Some e)
    with ev Rated c lim_inv_set [OF inv c, of "Returned (Inl (ErrWrap ''ratelimit: rate wait failed: %w'' [] e))"] show ?thesis by auto
  next
    case None
    obtain p l2 where w: "want_slot E cfg ctx req l = (p, l2)" by fastforce
    from want_slot_ok [OF inv d w] obtain ck where p: "lim_inv l2" "lm_calls l2 = lm_calls l" "p = SlotWait ck ctx req" "lm_sem l2 ck \<noteq> None"
      by auto
    with c have "call_at l2 i = Some (RateWait bucket ctx req)" by (simp add: call_at_def split: if_splits)
    from lim_inv_set [OF p(1) this, of p] p ev Rated c None w show ?thesis by auto
  qed
next
  case (Acquire i)
  with ev obtain ck ctx req n taken where c: "call_at l i = Some (SlotWait ck ctx req)" "lm_sem l ck = Some (n, taken)" "int taken < n"
    and l': "l' = set_call i (InFlight ck ctx req) (l\<lparr>lm_sem := (lm_sem l)(ck \<mapsto> (n, Suc taken))\<rparr>)"
    by (auto split: option.splits phase.splits if_splits)
  show ?thesis unfolding l' using c by (intro lim_inv_slot [OF inv c(1) _ c(2)]) auto
next
  case (Cancel i err)
  with ev obtain ck ctx req where c: "call_at l i = Some (SlotWait ck ctx req)" "l' = set_call i (Returned (Inl err)) l"
    by (auto split: option.splits phase.splits)
  show ?thesis unfolding c(2) by (rule lim_inv_set [OF inv c(1)]) auto
next
  case (Finish i resp)
  with ev obtain ck ctx req n taken where c: "call_at l i = Some (InFlight ck ctx req)" "lm_sem l ck = Some (n, taken)"
    and l': "l' = set_call i (Returned resp) (l\<lparr>lm_sem := (lm_sem l)(ck \<mapsto> (n, taken - 1))\<rparr>)"
    by (auto split: option.splits phase.splits)
  have "taken = in_flight ck l" "int taken \<le> n" using inv [unfolded lim_inv_def, rule_format, of ck] c(2) by (auto simp: sem_ok_def)
  moreover have "0 < in_flight ck l"
    using call_at_set [OF c(1)] by (force simp: in_flight_def filter_empty_conv)
  ultimately show ?thesis unfolding l' by (intro lim_inv_slot [OF inv c(1) _ c(2)]) auto
qed

interpretation lim: invariant_machine "lim_exec E (fst (limiter_New cfg))" lim_inv for E cfg
  by unfold_locales (rule lim_inv_exec, auto simp: limiter_New_def)

lemma lim_inv_New: "lim_inv (snd (limiter_New cfg))"
  by (simp add: limiter_New_def lim_inv_def sem_ok_def)

text \<open>
  C27: in every interleaving of any number of requests, at most \<open>n\<close> of those that an endpoint
  admits with concurrency \<open>n\<close> are in flight; and no slot is ever lost: a request that waits
  for a slot can take one unless another one of its kind is in flight.
\<close>

theorem limiter_bounds_in_flight:
  assumes "reachable (lim_exec E (fst (limiter_New cfg))) (snd (limiter_New cfg)) l"
  shows "int (in_flight (semKey endpoint n) l) \<le> max 0 n \<and>
    (call_at l i = Some (SlotWait ck ctx req) \<longrightarrow>
       lim_exec E (fst (limiter_New cfg)) (Acquire i) l \<noteq> None \<or> 0 < in_flight ck l)"
proof
  have inv: "lim_inv l" using lim.inv_reachable [OF assms lim_inv_New] .
  have "flies c p \<Longrightarrow> holds_key p = Some c" for c p by (cases p) auto
  then have none: "lm_sem l c = None \<Longrightarrow> in_flight c l = 0" for c
    using inv [unfolded lim_inv_def, rule_format, of c] by (force simp: sem_ok_def in_flight_def filter_empty_conv)
  show "int (in_flight (semKey endpoint n) l) \<le> max 0 n"
    using inv [unfolded lim_inv_def, rule_format, of "semKey endpoint n"] none [of "semKey endpoint n"]
    by (auto simp: sem_ok_def semKey_inj split: option.splits)
  show "call_at l i = Some (SlotWait ck ctx req) \<longrightarrow>
       lim_exec E (fst (limiter_New cfg)) (Acquire i) l \<noteq> None \<or> 0 < in_flight ck l"
  proof
    assume c: "call_at l i = Some (SlotWait ck ctx req)"
    then have "Some ck \<in> holds_key ` set (lm_calls l)" using call_at_set [OF c] by force
    then obtain n' taken where "lm_sem l ck = Some (n', taken)" "taken = in_flight ck l" "1 \<le> n'"
      using inv [unfolded lim_inv_def, rule_format, of ck] by (auto simp: sem_ok_def split: option.splits)
    with c show "lim_exec E (fst (limiter_New cfg)) (Acquire i) l \<noteq> None \<or> 0 < in_flight ck l" by auto
  qed
qed

section \<open>Examples\<close>

definition plain_env :: lim_env where
  "plain_env = \<lparr>le_LookupEnv = Map.empty, le_ToLower = id, le_ToUpper = id\<rparr>"

definition zero_cfg :: Config where
  "zero_cfg = \<lparr>DefaultConcurrency = 0, DefaultRate = Fin 0, DefaultBurst = 0\<rparr>"

definition ctx_with :: "goint \<Rightarrow> Ctx" where
  "ctx_with n = \<lparr>cx_Timeouts = [], cx_Override = Some (n, [])\<rparr>"

text \<open>One request of an agent with concurrency 1 and two of an agent with concurrency 2, to one endpoint.\<close>

definition mixed_events :: "lim_event list" where
  "mixed_events = [Call (ctx_with 1) demo_req, Call (ctx_with 2) demo_req, Call (ctx_with 2) demo_req,
     Acquire 0, Acquire 1, Acquire 2]"

definition mixed_state :: limiter where
  "mixed_state = \<lparr>lm_sem = [''default|1'' \<mapsto> (1, 1), ''default|2'' \<mapsto> (2, 2)], lm_buckets = Map.empty,
     lm_calls = [InFlight ''default|1'' (ctx_with 1) demo_req, InFlight ''default|2'' (ctx_with 2) demo_req,
       InFlight ''default|2'' (ctx_with 2) demo_req]\<rparr>"

lemma mixed_run: "run_events (lim_exec plain_env (fst (limiter_New zero_cfg))) mixed_events (snd (limiter_New zero_cfg)) = Some mixed_state"
proof -
  have k: "endpointKey plain_env [] = ''default''" "semKey ''default'' 1 = ''default|1''" "semKey ''default'' 2 = ''default|2''"
    "parseRate [] = None"
    by code_simp+
  have w: "want_slot plain_env cfg (ctx_with n) demo_req l = (case semFor ''default'' (sint n) l of (ck, l) \<Rightarrow> (SlotWait ck (ctx_with n) demo_req, l))"
    if "0 < sint n" for n cfg l
    using that by (simp add: want_slot_def demo_req_def k concurrency_def envInt_def plain_env_def ctx_with_def ctx_override_def Let_def)
      (simp add: k [unfolded plain_env_def])
  have r: "rateLimiterFor key (fst (rateLimit plain_env (fst (limiter_New zero_cfg)) key (ctx_override (ctx_with n))))
      (snd (rateLimit plain_env (fst (limiter_New zero_cfg)) key (ctx_override (ctx_with n)))) l = (None, l)" for key n l
    by (simp add: rateLimit_def ctx_override_def ctx_with_def k envOr_def plain_env_def rateLimiterFor_def limiter_New_def zero_cfg_def f64_eq_def)
  have c: "lim_exec plain_env (fst (limiter_New zero_cfg)) (Call (ctx_with n) demo_req) l =
      Some (case semFor ''default'' (sint n) l of (ck, l) \<Rightarrow> l\<lparr>lm_calls := lm_calls l @ [SlotWait ck (ctx_with n) demo_req]\<rparr>)"
    if "0 < sint n" for n l
    unfolding lim_exec.simps Let_def r prod.case option.case w [OF that] by (simp split: prod.split)
  have i: "snd (limiter_New zero_cfg) = \<lparr>lm_sem = Map.empty, lm_buckets = Map.empty, lm_calls = []\<rparr>"
    by (simp add: limiter_New_def)
  show ?thesis unfolding i mixed_events_def mixed_state_def
    by (simp add: c semFor_def k Let_def call_at_def set_call_def del: lim_exec.simps(1)) (simp add: fun_eq_iff numeral_2_eq_2)
qed

theorem limiter_bounds_in_flight_witness:
  "int (in_flight (semKey ''default'' 2) mixed_state) \<le> max 0 2"
proof -
  have "reachable (lim_exec plain_env (fst (limiter_New zero_cfg))) (snd (limiter_New zero_cfg)) mixed_state"
    using mixed_run reachable_run_events by metis
  from limiter_bounds_in_flight [OF this] show ?thesis by blast
qed

text \<open>
  The limit holds for each pair of an endpoint and a concurrency, not for the endpoint:
  with one agent limited to 1 and another limited to 2, one backend can have three requests
  in flight, more than either of them declares.
\<close>

theorem endpoint_limit_exceeded:
  "reachable (lim_exec plain_env (fst (limiter_New zero_cfg))) (snd (limiter_New zero_cfg)) mixed_state \<and>
   in_flight (semKey ''default'' 1) mixed_state + in_flight (semKey ''default'' 2) mixed_state = 3"
proof
  show "reachable (lim_exec plain_env (fst (limiter_New zero_cfg))) (snd (limiter_New zero_cfg)) mixed_state"
    using mixed_run reachable_run_events by metis
  have "semKey ''default'' 1 = ''default|1''" "semKey ''default'' 2 = ''default|2''" by code_simp+
  then show "in_flight (semKey ''default'' 1) mixed_state + in_flight (semKey ''default'' 2) mixed_state = 3"
    by (simp add: in_flight_def mixed_state_def)
qed

text \<open>Two rates with one integer part share a bucket, which has the rate of the first.\<close>

lemma bucket_shared: "bucketKey key (Fin (9 / 8)) 9 = bucketKey key (Fin (3 / 2)) 9"
proof -
  have "\<lfloor>9 / 8 :: rat\<rfloor> = 1" "\<lfloor>3 / 2 :: rat\<rfloor> = 1" by (simp_all add: floor_eq_iff)
  then show ?thesis by (simp add: bucketKey_def int64_of_f64_def trunc_rat_def)
qed

end
