(* ===== verification/Service.thy ===== *)
theory Service
  imports ApiRegistry OpenAI RateLimit RedisWire
begin

text \<open>
  \<open>cmd/harness/main.go\<close>: how the service is put together, with the functions that open the
  two stores.  The environment, the flags, the drivers and the files are parameters.  The
  listener, the signals and the log are left out: a start ends with the handler that would be
  served, or with the message of the fatal error.
\<close>

section \<open>Opening the stores\<close>

text \<open>The driver: creating directories, opening a data source, and running the schema on it.\<close>

record 'db sql_driver =
  sd_MkdirAll :: "string \<Rightarrow> unit res"
  sd_Open :: "string \<Rightarrow> 'db res"
  sd_Schema :: "'db \<Rightarrow> 'db res"

definition sqlite_dsn :: "string \<Rightarrow> string" where
  "sqlite_dsn path = ''file:'' @ path @ ''?_pragma=busy_timeout(5000)&_pragma=journal_mode(WAL)'' @
     ''&_pragma=synchronous(NORMAL)&_pragma=foreign_keys(1)''"

definition sqlite_Open :: "'db sql_driver \<Rightarrow> string \<Rightarrow> 'db res" where
  "sqlite_Open drv path =
     (if TrimSpace path = [] then Inl (Errorf ''store: path is required'' [])
      else
        bind_res (if path_Dir path \<noteq> [] \<and> path_Dir path \<noteq> ''.''
                  then wrap_err ''store: create dir: %w'' [] (sd_MkdirAll drv (path_Dir path)) else Inr ()) (\<lambda>_.
        bind_res (wrap_err ''store: open: %w'' [] (sd_Open drv (sqlite_dsn path))) (\<lambda>db.
          wrap_err ''store: apply schema: %w'' [] (sd_Schema drv db))))"

record redis_Config =
  rc_Addr :: string
  rc_Password :: string
  rc_DB :: int
  rc_KeyPrefix :: string

text \<open>The network by address, and the clock of the store.\<close>

record 'srv redis_net =
  rn_net :: "string \<Rightarrow> 'srv network"
  rn_dial :: "string \<Rightarrow> 'srv \<Rightarrow> goerr option \<times> 'srv"
  rn_now :: "'srv rstate \<Rightarrow> string"
  rn_nano :: "'srv rstate \<Rightarrow> int"

definition newPool :: "'srv redis_net \<Rightarrow> string \<Rightarrow> string \<Rightarrow> int \<Rightarrow> 'srv redis_env" where
  "newPool n addr password db = \<lparr>re_net = rn_net n addr, re_dial = rn_dial n addr, re_password = password, re_db = db\<rparr>"

definition store_api :: "'srv redis_net \<Rightarrow> 'srv redis_env \<Rightarrow> string \<Rightarrow> 'srv rstate redis_api" where
  "store_api n env pfx = \<lparr>ra_cmd = redis_cmd env, ra_multi = redis_multi env, ra_pfx = pfx, ra_now = rn_now n, ra_nano = rn_nano n\<rparr>"

definition pool_close :: "'srv rstate \<Rightarrow> 'srv rstate" where
  "pool_close s = s\<lparr>rs_conns := []\<rparr>"

definition redis_addr :: "redis_Config \<Rightarrow> string" where
  "redis_addr cfg = (if TrimSpace (rc_Addr cfg) = [] then ''127.0.0.1:6379'' else rc_Addr cfg)"

definition redis_Open :: "'srv redis_net \<Rightarrow> redis_Config \<Rightarrow> 'srv \<Rightarrow> 'srv rstate redis_api res \<times> 'srv rstate" where
  "redis_Open n cfg srv =
     (let pfx = (if rc_KeyPrefix cfg = [] then ''jh:'' else rc_KeyPrefix cfg);
          api = store_api n (newPool n (redis_addr cfg) (rc_Password cfg) (rc_DB cfg)) pfx
      in case redis_Ping api \<lparr>rs_srv = srv, rs_conns = []\<rparr> of
           (Inl err, s) \<Rightarrow> (Inl err, pool_close s)
         | (Inr _, s) \<Rightarrow> (Inr api, s))"

definition redis_Close :: "'srv rstate \<Rightarrow> unit res \<times> 'srv rstate" where
  "redis_Close s = (Inr (), pool_close s)"

section \<open>The configuration\<close>

type_synonym environ = "string \<rightharpoonup> string"

definition main_envOr :: "environ \<Rightarrow> string \<Rightarrow> string \<Rightarrow> string" where
  "main_envOr E key fallback = (case E key of Some v \<Rightarrow> if v \<noteq> [] then v else fallback | None \<Rightarrow> fallback)"

definition Getenv :: "environ \<Rightarrow> string \<Rightarrow> string" where
  "Getenv E key = (case E key of Some v \<Rightarrow> v | None \<Rightarrow> [])"

definition main_envInt :: "environ \<Rightarrow> string \<Rightarrow> int \<Rightarrow> int" where
  "main_envInt E key fallback =
     (case E key of
        None \<Rightarrow> fallback
      | Some v \<Rightarrow> if v = [] then fallback else (case Atoi v of None \<Rightarrow> fallback | Some n \<Rightarrow> if n < 1 then fallback else n))"

text \<open>The flags of the command line, where they are given.\<close>

record flags =
  fl_registry :: "string option"
  fl_db :: "string option"
  fl_store :: "string option"
  fl_workers :: "int option"
  fl_retries :: "int option"
  fl_version :: bool

definition flag_or :: "'a option \<Rightarrow> 'a \<Rightarrow> 'a" where
  "flag_or f fallback = (case f of Some v \<Rightarrow> v | None \<Rightarrow> fallback)"

text \<open>The two stores by the functions that open them.\<close>

record 's openers =
  op_sqlite :: "string \<Rightarrow> ('s store_ops \<times> 's) res"
  op_redis :: "redis_Config \<Rightarrow> ('s store_ops \<times> 's) res"

definition redis_config :: "environ \<Rightarrow> redis_Config" where
  "redis_config E =
     \<lparr>rc_Addr = main_envOr E ''HARNESS_REDIS_ADDR'' ''127.0.0.1:6379'', rc_Password = Getenv E ''HARNESS_REDIS_PASSWORD'',
      rc_DB = (case Atoi (main_envOr E ''HARNESS_REDIS_DB'' []) of Some n \<Rightarrow> n | None \<Rightarrow> 0),
      rc_KeyPrefix = main_envOr E ''HARNESS_REDIS_PREFIX'' ''jh:''\<rparr>"

definition openStore :: "environ \<Rightarrow> 's openers \<Rightarrow> string \<Rightarrow> string \<Rightarrow> ('s store_ops \<times> 's) res" where
  "openStore E opn kind dbPath =
     (if kind = ''sqlite'' \<or> kind = [] then op_sqlite opn dbPath
      else if kind = ''redis'' then op_redis opn (redis_config E)
      else Inl (Errorf ''unknown store %q (want sqlite or redis)'' [kind]))"

section \<open>The start\<close>

text \<open>
  What the process gives: the environment, the flags, the number of processors, the case
  mappings for the limiter, the version, the drivers, the network and the rendering of
  errors.  \<open>pr_retried\<close> is what counting a retry does to the state of the client.
\<close>

record ('s, 'f, 'w) process =
  pr_env :: environ
  pr_flags :: flags
  pr_NumCPU :: int
  pr_GOMAXPROCS :: goint
  pr_limits :: lim_env
  pr_version :: string
  pr_openers :: "'s openers"
  pr_fs :: "'f fs"
  pr_text :: error_text
  pr_http :: "'w transport"
  pr_runtime :: "'w runtime"
  pr_retried :: "'w \<Rightarrow> 'w"

text \<open>
  The service that is served: the retrying client, the limiter in front of it, and the handler.
\<close>

record ('s, 'f, 'w) service =
  sv_client :: "'w client"
  sv_limiter :: "Config \<times> limiter"
  sv_env :: "('s, 'f) api_env"
  sv_api :: "('s, 'f) api"

datatype ('s, 'f, 'w) outcome =
    ShowVersion
  | Fatal string goerr
  | Serving "('s, 'f, 'w) service"

definition or_fatal :: "string \<Rightarrow> 'a res \<Rightarrow> ('a \<Rightarrow> ('s, 'f, 'w) outcome) \<Rightarrow> ('s, 'f, 'w) outcome" where
  "or_fatal msg r k = (case r of Inl err \<Rightarrow> Fatal msg err | Inr x \<Rightarrow> k x)"

definition startup_tools :: "environ \<Rightarrow> tool_registry option res" where
  "startup_tools E =
     (if Getenv E ''ENABLE_TOOLS'' = ''true''
      then bind_res (tools_New [''current_time'', ''word_count'', ''math_eval'']) (\<lambda>t. Inr (Some t)) else Inr None)"

definition openai_config :: "environ \<Rightarrow> OpenAIConfig" where
  "openai_config E =
     \<lparr>oc_BaseURL = main_envOr E ''OPENAI_BASE_URL'' ''http://127.0.0.1:11434/v1'', oc_Model = main_envOr E ''OPENAI_MODEL'' [],
      oc_APIKey = Getenv E ''OPENAI_API_KEY'', oc_Timeout = 0\<rparr>"

definition flag_registry :: "('s, 'f, 'w) process \<Rightarrow> string" where
  "flag_registry pr = flag_or (fl_registry (pr_flags pr)) (main_envOr (pr_env pr) ''HARNESS_REGISTRY'' ''./agent-registry'')"

definition flag_workers :: "('s, 'f, 'w) process \<Rightarrow> int" where
  "flag_workers pr = flag_or (fl_workers (pr_flags pr)) (main_envInt (pr_env pr) ''HARNESS_WORKERS'' (pr_NumCPU pr))"

definition main_store :: "('s, 'f, 'w) process \<Rightarrow> ('s store_ops \<times> 's) res" where
  "main_store pr =
     (let E = pr_env pr; fl = pr_flags pr in
      openStore E (pr_openers pr) (flag_or (fl_store fl) (main_envOr E ''HARNESS_STORE'' ''sqlite''))
        (flag_or (fl_db fl) (main_envOr E ''HARNESS_DB'' ''./data/harness.db'')))"

definition main_client :: "('s, 'f, 'w) process \<Rightarrow> OpenAIClient \<Rightarrow> 'w client" where
  "main_client pr base =
     NewRetry (pr_runtime pr) (openai_Complete (pr_http pr) base)
       \<lparr>MaxAttempts = word_of_int (flag_or (fl_retries (pr_flags pr)) (main_envInt (pr_env pr) ''HARNESS_RETRIES'' 3)),
        BaseDelay = 0, MaxDelay = 0, OnRetry = Some (pr_retried pr)\<rparr>"

definition main_start :: "('s, 'f, 'w) process \<Rightarrow> 'f \<Rightarrow> ('s, 'f, 'w) outcome" where
  "main_start pr files =
     (let E = pr_env pr in
      if fl_version (pr_flags pr) then ShowVersion
      else
        or_fatal ''load registry %s: %v'' (RegistryLoad.Load (pr_fs pr) (flag_registry pr) files) (\<lambda>reg.
        or_fatal ''open %s store: %v'' (main_store pr) (\<lambda>(ops, st).
        or_fatal ''init llm client: %v'' (NewOpenAI (openai_config E)) (\<lambda>base.
        let client = main_client pr base in
        or_fatal ''init engine: %v'' (engine_New (Some reg) (Some client) (pr_GOMAXPROCS pr)) (\<lambda>eng.
        or_fatal ''init tools: %v'' (startup_tools E) (\<lambda>tools.
        let met = Some metrics_New;
            eng = SetMetrics met eng;
            eng = (case tools of None \<Rightarrow> eng | Some t \<Rightarrow> SetTools (Some t) eng);
            penv = \<lparr>pv_ops = ops, pv_cap = nat (pool_cap (flag_workers pr) 0), pv_text = pr_text pr\<rparr>;
            pool = list_orphans penv (NewPool st met (flag_workers pr))
        in
        or_fatal ''init api: %v''
          (api_New \<lparr>cf_Engine = Some eng, cf_Registry = Some reg, cf_Pool = Some pool, cf_Store = Some ops,
             cf_Version = pr_version pr, cf_AuthToken = Getenv E ''HARNESS_AUTH_TOKEN''\<rparr> files) (\<lambda>a.
          Serving \<lparr>sv_client = client, sv_limiter = limiter_New (FromEnv (pr_limits pr)),
            sv_env = \<lparr>ae_pool = penv, ae_fs = pr_fs pr\<rparr>, sv_api = a\<rparr>)))))))"

section \<open>What a start gives\<close>

lemma or_fatal_Serving: "or_fatal msg r k = Serving sv \<longleftrightarrow> (\<exists>x. r = Inr x \<and> k x = Serving sv)"
  by (cases r) (auto simp: or_fatal_def)

lemma startup_tools_ok: "\<exists>t. startup_tools E = Inr t"
proof -
  have "\<exists>t. tools_New [''current_time'', ''word_count'', ''math_eval''] = Inr t"
    by (simp add: tools_New_def add_tool_def builtins_def)
  then show ?thesis by (auto simp: startup_tools_def)
qed

lemma engine_parts [simp]:
  "en_registry (SetMetrics m e) = en_registry e" "en_registry (SetTools t e) = en_registry e"
  by (simp_all add: SetMetrics_def SetTools_def)

lemma main_serving:
  assumes "main_start pr files = Serving sv"
  shows "\<exists>reg. RegistryLoad.Load (pr_fs pr) (flag_registry pr) files = Inr reg \<and> api_registry (sv_api sv) = reg \<and>
    en_registry (api_engine (sv_api sv)) = reg \<and> api_files (sv_api sv) = files \<and>
    api_auth (sv_api sv) = Getenv (pr_env pr) ''HARNESS_AUTH_TOKEN'' \<and> ae_fs (sv_env sv) = pr_fs pr"
  using assms
  by (auto simp: main_start_def or_fatal_Serving engine_New_def api_New_def Let_def split: if_splits prod.splits option.splits)

lemma loadPipelines_root: "loadPipelines fs s r = Inr r' \<Longrightarrow> rg_root r' = rg_root r"
  unfolding loadPipelines_def Let_def
  by (erule load_dir_invariant) (auto simp: load_pipeline_def Let_def bind_res_Inr split: if_splits)

lemma Load_root: "RegistryLoad.Load fs base s = Inr r \<Longrightarrow> rg_root r = base"
  by (auto simp: Load_def bind_res_Inr empty_registry_def dest!: loadBlueprints_root loadPipelines_root)

text \<open>
  The service starts exactly when the registry loads, the store opens and the base URL of the
  model is not blank; the other errors that \<open>main\<close> checks for cannot occur.
\<close>

theorem main_starts_iff:
  "(\<exists>sv. main_start pr files = Serving sv) \<longleftrightarrow>
     \<not> fl_version (pr_flags pr) \<and> (\<exists>reg. RegistryLoad.Load (pr_fs pr) (flag_registry pr) files = Inr reg) \<and>
     (\<exists>x. main_store pr = Inr x) \<and> TrimSpace (main_envOr (pr_env pr) ''OPENAI_BASE_URL'' ''http://127.0.0.1:11434/v1'') \<noteq> []"
proof -
  have llm: "(\<exists>c. NewOpenAI (openai_config E) = Inr c) \<longleftrightarrow> TrimSpace (main_envOr E ''OPENAI_BASE_URL'' ''http://127.0.0.1:11434/v1'') \<noteq> []" for E
    by (simp add: NewOpenAI_def openai_config_def)
  obtain t where "startup_tools (pr_env pr) = Inr t" using startup_tools_ok by blast
  then have "(\<exists>sv. main_start pr files = Serving sv) \<longleftrightarrow>
     \<not> fl_version (pr_flags pr) \<and> (\<exists>reg. RegistryLoad.Load (pr_fs pr) (flag_registry pr) files = Inr reg) \<and>
     (\<exists>x. main_store pr = Inr x) \<and> (\<exists>c. NewOpenAI (openai_config (pr_env pr)) = Inr c)"
    by (auto simp: main_start_def or_fatal_def engine_New_def api_New_def Let_def split: sum.split prod.split)
  then show ?thesis by (simp only: llm)
qed

section \<open>The running service\<close>

text \<open>
  The states of the service after a start: requests are handled and the pool works, in any order.
\<close>

inductive running :: "('s, 'f, 'w) process \<Rightarrow> ('s, 'f) api_env \<Rightarrow> ('s, 'f) api \<Rightarrow> bool" for pr where
  started: "main_start pr files = Serving sv \<Longrightarrow> running pr (sv_env sv) (sv_api sv)"
| request: "running pr env a \<Longrightarrow> authenticate env d r a = (resp, a') \<Longrightarrow> running pr env a'"
| pool_works: "running pr env a \<Longrightarrow> pool_event (ae_pool env) e (api_pool a) = Some p \<Longrightarrow> running pr env (a\<lparr>api_pool := p\<rparr>)"

lemma snapshot_keeps:
  assumes "snapshot_step env a (resp, a')" "rg_root (api_registry a) = base"
  shows "rg_root (api_registry a') = base"
  using assms by (auto simp: snapshot_step_def dest: Load_root)

lemma mutate_parts: "mutate env w a = (resp, a') \<Longrightarrow> api_auth a' = api_auth a \<and> api_version a' = api_version a"
  by (auto simp: mutate_def split: prod.splits sum.splits)

lemma submit_job_parts: "submit_job env job a = (resp, a') \<Longrightarrow> api_auth a' = api_auth a \<and> api_version a' = api_version a"
  by (auto simp: submit_job_def split: prod.splits sum.splits)

lemma request_keeps_auth: "authenticate env d r a = (resp, a') \<Longrightarrow> api_auth a' = api_auth a"
proof -
  have "api_auth (snd (handleAgents env d r a)) = api_auth a" "api_auth (snd (handlePipelines env d r a)) = api_auth a"
    "api_auth (snd (handleSessions env r a)) = api_auth a" "api_auth (snd (handleRegistry env r a)) = api_auth a"
    "api_auth (snd (handleReadyz env a)) = api_auth a"
    using mutate_parts [of env _ a, OF prod.collapse [symmetric]] submit_job_parts [of env _ a, OF prod.collapse [symmetric]]
    by (auto simp: handleAgents_def handleExecuteAgent_def handlePipelines_def handleExecutePipeline_def handleSessions_def
        handleSession_def handleSessionSteps_def handleRegistry_def handleRegistryAgent_def handleRegistryPipeline_def
        handleReadyz_def set_store_def Let_def split: option.split prod.split sum.split)
  then have "api_auth (snd (authenticate env d r a)) = api_auth a"
    by (auto simp: authenticate_def serve_mux_def serve_route_def Let_def split: option.split prod.split route.split)
  then show "authenticate env d r a = (resp, a') \<Longrightarrow> ?thesis" by simp
qed

text \<open>
  C9: whatever requests it gets and however the pool works, the service that \<open>main\<close> has started
  always has a valid registry, the same one in the interface and in the engine, loaded from
  the directory it was started with; and the token that guards it is the one of the
  environment.
\<close>

theorem running_service_ok:
  assumes "running pr env a" and "\<And>dir f es. fs_ReadDir (pr_fs pr) dir f = Inr es \<Longrightarrow> distinct (map de_Name es)"
  shows "service_ok a \<and> rg_root (api_registry a) = flag_registry pr \<and> ae_fs env = pr_fs pr \<and>
    api_auth a = Getenv (pr_env pr) ''HARNESS_AUTH_TOKEN''"
  using assms(1)
proof induction
  note ok = Load_ok [of "pr_fs pr", OF assms(2)]
  case (started files sv)
  from main_serving [OF started] ok Load_root show ?case by (auto simp: service_ok_def)
next
  case (request env a d r resp a')
  have step: "snapshot_step env a (resp, a')" using snapshot_step_authenticate [of env a d r] request.hyps(2) by simp
  have "service_ok a'"
    using step request.IH Load_ok [of "pr_fs pr", OF assms(2)] by (auto simp: snapshot_step_def service_ok_def)
  with snapshot_keeps [OF step] request_keeps_auth [OF request.hyps(2)] request.IH show ?case by simp
next
  case (pool_works env a e p)
  then show ?case by (simp add: service_ok_def)
qed

section \<open>A start\<close>

text \<open>An empty environment, the registry of one agent, and a store in memory.\<close>

definition demo_process :: "(memdb, disk, nat) process" where
  "demo_process =
     \<lparr>pr_env = Map.empty,
      pr_flags = \<lparr>fl_registry = Some ''/r'', fl_db = None, fl_store = None, fl_workers = None, fl_retries = None, fl_version = False\<rparr>,
      pr_NumCPU = 2, pr_GOMAXPROCS = 2, pr_limits = plain_env, pr_version = ''1'',
      pr_openers = \<lparr>op_sqlite = (\<lambda>_. Inr (pv_ops demo_env, mem_empty)), op_redis = (\<lambda>_. Inl ErrIO)\<rparr>,
      pr_fs = disk_fs, pr_text = (\<lambda>_. []),
      pr_http = constant_server \<lparr>ha_StatusCode = 404, ha_Body = [], ha_Fails = None\<rparr>, pr_runtime = demo_rt, pr_retried = (\<lambda>n. n)\<rparr>"

lemma demo_starts: "\<exists>sv. main_start demo_process (demo_disk 2) = Serving sv"
proof -
  have "TrimSpace ''http://127.0.0.1:11434/v1'' \<noteq> []" by code_simp
  then show ?thesis
    by (simp add: main_starts_iff demo_process_def flag_registry_def flag_or_def demo_loads main_store_def openStore_def main_envOr_def)
qed

theorem running_service_ok_witness:
  "\<exists>env a. running demo_process env a \<and> service_ok a \<and> rg_root (api_registry a) = ''/r'' \<and> api_auth a = []"
proof -
  obtain sv where "main_start demo_process (demo_disk 2) = Serving sv" using demo_starts by blast
  then have run: "running demo_process (sv_env sv) (sv_api sv)" by (rule running.started)
  have "distinct (map de_Name es)" if "fs_ReadDir (pr_fs demo_process) dir f = Inr es" for dir f es
    using that disk.ReadDir_distinct by (simp add: demo_process_def)
  from running_service_ok [OF run this]
  have "service_ok (sv_api sv) \<and> rg_root (api_registry (sv_api sv)) = ''/r'' \<and> api_auth (sv_api sv) = []"
    by (simp add: demo_process_def flag_registry_def flag_or_def Getenv_def)
  with run show ?thesis by blast
qed

section \<open>The stores after they were opened\<close>

text \<open>
  A Redis store that was opened has one pooled connection, without unread bytes; one that
  could not be opened has none left.
\<close>

theorem redis_Open_pool:
  assumes "rn_dial n (redis_addr cfg) srv = (None, srv)" "rc_Password cfg = []" "rc_DB cfg = 0"
    and "answers (rn_net n (redis_addr cfg)) srv (writeCommand [''PING'']) [r] srv'"
  shows "case redis_Open n cfg srv of
     (Inl _, s) \<Rightarrow> r_kind r = CHR ''-'' \<and> rs_conns s = []
   | (Inr api, s) \<Rightarrow> r_kind r \<noteq> CHR ''-'' \<and> rs_conns s = [[]] \<and> clean s \<and> rs_srv s = srv'"
proof -
  let ?env = "newPool n (redis_addr cfg) (rc_Password cfg) (rc_DB cfg)" and ?s = "\<lparr>rs_srv = srv, rs_conns = []\<rparr>"
  have "get_conn ?env ?s = (Inr \<lparr>c_srv = srv, c_unread = []\<rparr>, ?s)"
    using assms(1-3) by (simp add: get_conn_def pool_get_def pool_dial_def dial_do_def newPool_def)
  moreover have "conn_do (rn_net n (redis_addr cfg)) [''PING''] \<lparr>c_srv = srv, c_unread = []\<rparr> = (answered r, \<lparr>c_srv = srv', c_unread = []\<rparr>)"
    by (rule conn_do_answered [OF assms(4)])
  ultimately have "redis_cmd ?env ?s [''PING''] = (answered r, \<lparr>rs_srv = srv', rs_conns = [[]]\<rparr>)"
    by (simp add: redis_cmd_def newPool_def answered_def finish_conn_def pool_put_def)
  then show ?thesis
    by (simp add: redis_Open_def redis_Ping_def store_api_def Let_def answered_def pool_close_def clean_def)
qed

end
