(* ===== verification/LlmStub.thy ===== *)
theory LlmStub
  imports OpenAI RegistryRead
begin

text \<open>
  The test doubles of the model: \<open>internal/llm/fake.go\<close> and the server of
  \<open>internal/llmstub/llmstub.go\<close>.  The client of \<open>internal/llm/openai.go\<close> and this server
  understand each other: the response of the script arrives as it is.
\<close>

section \<open>The fake client\<close>

record Fake =
  fk_responses :: "Response list"
  fk_errs :: "goerr list"
  fk_Requests :: "Request list"
  fk_next :: nat

definition NewFake :: "Response list \<Rightarrow> Fake" where
  "NewFake responses = \<lparr>fk_responses = responses, fk_errs = [], fk_Requests = [], fk_next = 0\<rparr>"

definition NewFakeErr :: "goerr \<Rightarrow> Fake" where
  "NewFakeErr err = \<lparr>fk_responses = [], fk_errs = [err], fk_Requests = [], fk_next = 0\<rparr>"

definition ErrUnsupported :: goerr where
  "ErrUnsupported = Sentinel ''llm: unsupported request''"

definition fake_Complete :: "Fake client" where
  "fake_Complete ctx req f =
     (let f = f\<lparr>fk_Requests := fk_Requests f @ [req]\<rparr> in
      if fk_errs f \<noteq> [] then
        (let i = (if fk_next f \<ge> length (fk_errs f) then length (fk_errs f) - 1 else fk_next f) in
         (Inl (fk_errs f ! i), f\<lparr>fk_next := fk_next f + 1\<rparr>))
      else if fk_responses f = [] then (Inl ErrUnsupported, f)
      else
        (let i = (if fk_next f \<ge> length (fk_responses f) then length (fk_responses f) - 1 else fk_next f) in
         (Inr (fk_responses f ! i), f\<lparr>fk_next := fk_next f + 1\<rparr>)))"

definition fake_CallCount :: "Fake \<Rightarrow> nat" where
  "fake_CallCount f = length (fk_Requests f)"

section \<open>The server\<close>

type_synonym Script = "Request \<Rightarrow> Response"

text \<open>The state of the server is the list of the requests it has seen.\<close>

definition stub_CallCount :: "Request list \<Rightarrow> nat" where
  "stub_CallCount seen = length seen"

definition into_map :: "raw \<Rightarrow> json \<Rightarrow> json res" where
  "into_map v old =
     (case v of
        RNull \<Rightarrow> Inr JNull
      | RObj _ \<Rightarrow>
          (case to_any v of
             Some (JObj new) \<Rightarrow> Inr (JObj (fold (\<lambda>(k, x). obj_put k x) new (case old of JObj kvs \<Rightarrow> kvs | _ \<Rightarrow> [])))
           | _ \<Rightarrow> Inl ErrJSON)
      | _ \<Rightarrow> Inl ErrJSON)"

definition into_ToolFunction :: "raw \<Rightarrow> ToolFunction \<Rightarrow> ToolFunction res" where
  "into_ToolFunction = into_struct (\<lambda>ms old.
     bind_res (into_field ''name'' ms into_string (tf_Name old)) (\<lambda>name.
     bind_res (into_field ''description'' ms into_string (tf_Description old)) (\<lambda>description.
     bind_res (into_field ''parameters'' ms into_map (tf_Parameters old)) (\<lambda>parameters.
       Inr \<lparr>tf_Name = name, tf_Description = description, tf_Parameters = parameters\<rparr>))))"

definition into_Tool :: "raw \<Rightarrow> Tool \<Rightarrow> Tool res" where
  "into_Tool = into_struct (\<lambda>ms old.
     bind_res (into_field ''type'' ms into_string (tool_Type old)) (\<lambda>t.
     bind_res (into_field ''function'' ms into_ToolFunction (tool_Function old)) (\<lambda>f.
       Inr \<lparr>tool_Type = t, tool_Function = f\<rparr>)))"

definition zero_Tool :: Tool where
  "zero_Tool = \<lparr>tool_Type = [], tool_Function = \<lparr>tf_Name = [], tf_Description = [], tf_Parameters = JNull\<rparr>\<rparr>"

definition zero_Request :: Request where
  "zero_Request = \<lparr>rq_Model = [], rq_BaseURL = [], rq_SystemPrompt = [], rq_UserInput = [], rq_Messages = [], rq_Tools = [],
     rq_Temperature = None, rq_MaxTokens = 0, rq_JSONOutput = False\<rparr>"

text \<open>The struct \<open>chatRequest\<close> of the stub, decoded into the request that it makes of it.\<close>

definition into_stubRequest :: "raw \<Rightarrow> Request \<Rightarrow> Request res" where
  "into_stubRequest = into_struct (\<lambda>ms old.
     bind_res (into_field ''model'' ms into_string (rq_Model old)) (\<lambda>model.
     bind_res (into_field ''messages'' ms (into_list (plain_Message [] []) into_Message) (rq_Messages old)) (\<lambda>messages.
     bind_res (into_field ''tools'' ms (into_list zero_Tool into_Tool) (rq_Tools old)) (\<lambda>tools.
       Inr (zero_Request\<lparr>rq_Model := model, rq_Messages := messages, rq_Tools := tools\<rparr>)))))"

definition enc_stubResponse :: "Response \<Rightarrow> raw" where
  "enc_stubResponse resp = RObj
     [(''choices'', RArr [RObj [(''message'', enc_Message
         \<lparr>msg_Role = ''assistant'', msg_Content = rs_Content resp, msg_ToolCalls = rs_ToolCalls resp, msg_ToolCallID = []\<rparr>)]]),
      (''usage'', RObj
         [(''prompt_tokens'', RNum (Itoa (sint (rs_PromptTokens resp)))),
          (''completion_tokens'', RNum (Itoa (sint (rs_OutputTokens resp)))),
          (''total_tokens'', RNum (Itoa (sint (if rs_TotalTokens resp = 0 then 1 else rs_TotalTokens resp))))])]"

definition http_Error :: "string \<Rightarrow> int \<Rightarrow> http_answer" where
  "http_Error msg code = \<lparr>ha_StatusCode = code, ha_Body = msg @ [CHR 0x0A], ha_Fails = None\<rparr>"

definition stub_limit :: nat where
  "stub_limit = 1048576"

definition serve :: "Script \<Rightarrow> string \<Rightarrow> string \<Rightarrow> string \<Rightarrow> Request list \<Rightarrow> http_answer \<times> Request list" where
  "serve script meth path body seen =
     (if meth \<noteq> ''POST'' \<or> path \<noteq> ''/v1/chat/completions'' then (http_Error ''not found'' 404, seen)
      else case Unmarshal_into into_stubRequest (take stub_limit body) zero_Request of
        Inl _ \<Rightarrow> (http_Error ''invalid json'' 400, seen)
      | Inr full \<Rightarrow>
          (\<lparr>ha_StatusCode = 200, ha_Body = raw_text (enc_stubResponse (script full)) @ [CHR 0x0A], ha_Fails = None\<rparr>,
           seen @ [full]))"

section \<open>Scripts\<close>

definition stub_SystemPrompt :: "Request \<Rightarrow> string" where
  "stub_SystemPrompt req =
     (case find (\<lambda>m. msg_Role m = ''system'') (rq_Messages req) of None \<Rightarrow> [] | Some m \<Rightarrow> msg_Content m)"

definition LastUser :: "Request \<Rightarrow> string" where
  "LastUser req =
     (case find (\<lambda>m. msg_Role m = ''user'') (rev (rq_Messages req)) of None \<Rightarrow> [] | Some m \<Rightarrow> msg_Content m)"

definition HasToolResult :: "Request \<Rightarrow> bool" where
  "HasToolResult req \<longleftrightarrow> list_ex (\<lambda>m. msg_Role m = ''tool'') (rq_Messages req)"

text \<open>\<open>JSONResponse\<close> panics for a value that cannot be encoded.\<close>

definition JSONResponse :: "json \<Rightarrow> Response option" where
  "JSONResponse v =
     (if json_finite v then Some (zero_Response\<lparr>rs_Content := raw_text (raw_of_json v), rs_TotalTokens := 1\<rparr>) else None)"

definition contains :: "string \<Rightarrow> string \<Rightarrow> bool" where
  "contains s m \<longleftrightarrow> sublist m s"

text \<open>The responses in the order in which the loop over the map happens to run.\<close>

definition ByPrompt :: "(string \<times> string) list \<Rightarrow> Script" where
  "ByPrompt responses req =
     zero_Response\<lparr>rs_TotalTokens := 1, rs_Content :=
       (case find (\<lambda>(m, c). m \<noteq> ''*'' \<and> contains (stub_SystemPrompt req) m) responses of
          Some (m, c) \<Rightarrow> c
        | None \<Rightarrow> (case map_of responses ''*'' of Some c \<Rightarrow> c | None \<Rightarrow> []))\<rparr>"

section \<open>Decoding what was encoded\<close>

lemma into_values [simp]: "into_string (RStr s) old = Inr s" "into_int (RNum (Itoa (sint n))) old' = Inr n"
  by (simp_all add: into_string_def into_int_def Atoi_sint)

lemma into_field_values:
  "field_values f ms = [] \<Longrightarrow> into_field f ms dec old = Inr old"
  "field_values f ms = [v] \<Longrightarrow> into_field f ms dec old = dec v old"
  "field_values f ms = (if s \<noteq> [] then [RStr s] else []) \<Longrightarrow> into_field f ms into_string [] = Inr s"
  by (cases "dec v old"; simp add: into_field_def)+

lemma into_elems_map:
  assumes "\<And>x. x \<in> set xs \<Longrightarrow> dec (enc x) zero = Inr x"
  shows "into_elems zero dec (map enc xs) [] = Inr xs"
  using assms by (induction xs) auto

lemma into_list_field:
  assumes "\<And>x. x \<in> set xs \<Longrightarrow> dec (enc x) zero = Inr x"
  shows "field_values f ms = (if xs \<noteq> [] then [RArr (map enc xs)] else []) \<Longrightarrow> into_field f ms (into_list zero dec) [] = Inr xs"
    "field_values f ms = [RArr (map enc xs)] \<Longrightarrow> into_field f ms (into_list zero dec) [] = Inr xs"
  using into_elems_map [of xs dec enc zero, OF assms] by (auto simp: into_field_values into_list_def split: if_splits)

lemma chat_names:
  "plain_name ''name''" "plain_name ''arguments''" "plain_name ''type''" "plain_name ''function''" "plain_name ''role''" "plain_name ''content''"
  "plain_name ''tool_calls''" "plain_name ''tool_call_id''" "plain_name ''parameters''" "plain_name ''messages''" "plain_name ''response_format''"
  "plain_name ''stream''" "plain_name ''choices''" "plain_name ''message''" "plain_name ''usage''" "plain_name ''prompt_tokens''"
  "plain_name ''completion_tokens''" "plain_name ''total_tokens''" "plain_name ''error''"
  by (simp_all add: plain_name_def byte_in_def)

lemmas chat_values = field_values_encoded plain_names chat_names ascii_lower_def byte_in_def

lemma into_enc_ToolCall: "into_ToolCall (enc_ToolCall tc) zero_ToolCall = Inr tc"
proof -
  have "into_ToolCallFunction (enc_ToolCallFunction f) zero_ToolCallFunction = Inr f" for f
  proof -
    obtain ms where ms: "enc_ToolCallFunction f = RObj ms" by (simp add: enc_ToolCallFunction_def)
    note ms_eq = ms [unfolded enc_ToolCallFunction_def raw.inject, symmetric]
    have "field_values ''name'' ms = [RStr (tcf_Name f)]" "field_values ''arguments'' ms = [RStr (tcf_Arguments f)]"
      unfolding ms_eq by (simp_all add: chat_values)
    then show ?thesis by (simp add: ms into_ToolCallFunction_def into_struct_def into_field_values)
  qed
  moreover obtain ms where ms: "enc_ToolCall tc = RObj ms" by (simp add: enc_ToolCall_def)
  note ms_eq = ms [unfolded enc_ToolCall_def raw.inject, symmetric]
  have v: "field_values ''id'' ms = [RStr (tc_ID tc)]" "field_values ''type'' ms = (if tc_Type tc \<noteq> [] then [RStr (tc_Type tc)] else [])"
    "field_values ''function'' ms = [enc_ToolCallFunction (tc_Function tc)]"
    unfolding ms_eq by (simp_all add: chat_values)
  ultimately show ?thesis
    using into_field_values(3) [OF v(2)] into_field_values(2) [OF v(3), of into_ToolCallFunction]
    by (simp add: ms into_ToolCall_def into_struct_def into_field_values v(1) zero_ToolCall_def)
qed

lemma into_enc_Message: "into_Message (enc_Message m) (plain_Message [] []) = Inr m"
proof -
  obtain ms where ms: "enc_Message m = RObj ms" by (simp add: enc_Message_def)
  note ms_eq = ms [unfolded enc_Message_def raw.inject, symmetric]
  have v: "field_values ''role'' ms = [RStr (msg_Role m)]" "field_values ''content'' ms = [RStr (msg_Content m)]"
    "field_values ''tool_calls'' ms = (if msg_ToolCalls m \<noteq> [] then [RArr (map enc_ToolCall (msg_ToolCalls m))] else [])"
    "field_values ''tool_call_id'' ms = (if msg_ToolCallID m \<noteq> [] then [RStr (msg_ToolCallID m)] else [])"
    unfolding ms_eq by (simp_all add: chat_values)
  from into_list_field(1) [where dec = into_ToolCall and enc = enc_ToolCall, OF into_enc_ToolCall v(3)] into_field_values(3) [OF v(4)] v(1,2) show ?thesis
    by (simp add: ms into_Message_def into_struct_def into_field_values plain_Message_def)
qed

text \<open>The parameters of a tool arrive as they are when JSON can carry them; an empty map arrives as nil.\<close>

definition tool_stable :: "Tool \<Rightarrow> bool" where
  "tool_stable t \<longleftrightarrow> (case tf_Parameters (tool_Function t) of
     JNull \<Rightarrow> True
   | JObj kvs \<Rightarrow> kvs \<noteq> [] \<and> json_stable (JObj kvs) \<and> fold (\<lambda>(k, x). obj_put k x) kvs [] = kvs
   | _ \<Rightarrow> False)"

lemma into_enc_Tool:
  assumes "tool_stable t"
  shows "into_Tool (enc_Tool t) zero_Tool = Inr t"
proof -
  let ?f = "tool_Function t"
  obtain ms where ms: "enc_ToolFunction ?f = RObj ms" by (simp add: enc_ToolFunction_def)
  note ms_eq = ms [unfolded enc_ToolFunction_def raw.inject, symmetric]
  have v: "field_values ''name'' ms = [RStr (tf_Name ?f)]"
    "field_values ''description'' ms = (if tf_Description ?f \<noteq> [] then [RStr (tf_Description ?f)] else [])"
    "field_values ''parameters'' ms = (if tf_Parameters ?f \<in> {JNull, JObj []} then [] else [raw_of_json (tf_Parameters ?f)])"
    unfolding ms_eq by (simp_all add: chat_values)
  have "into_field ''parameters'' ms into_map JNull = Inr (tf_Parameters ?f)"
    using v(3) assms by (auto simp: into_field_values into_map_def tool_stable_def json_stable_def split: json.splits)
  with v into_field_values(3) [OF v(2)]
  have f: "into_ToolFunction (enc_ToolFunction ?f) (tool_Function zero_Tool) = Inr ?f"
    by (simp add: ms into_ToolFunction_def into_struct_def into_field_values zero_Tool_def)
  obtain ns where ns: "enc_Tool t = RObj ns" by (simp add: enc_Tool_def)
  note ns_eq = ns [unfolded enc_Tool_def raw.inject, symmetric]
  have "field_values ''type'' ns = [RStr (tool_Type t)]" "field_values ''function'' ns = [enc_ToolFunction ?f]"
    unfolding ns_eq by (simp_all add: chat_values)
  with f show ?thesis by (simp add: ns into_Tool_def into_struct_def into_field_values)
qed

lemma into_enc_chatRequest:
  assumes "list_all tool_stable (cr_Tools b)"
  shows "into_stubRequest (enc_chatRequest b) zero_Request =
    Inr (zero_Request\<lparr>rq_Model := cr_Model b, rq_Messages := cr_Messages b, rq_Tools := cr_Tools b\<rparr>)"
proof -
  obtain ms where ms: "enc_chatRequest b = RObj ms" by (simp add: enc_chatRequest_def)
  note ms_eq = ms [unfolded enc_chatRequest_def raw.inject, symmetric]
  have v: "field_values ''model'' ms = [RStr (cr_Model b)]" "field_values ''messages'' ms = [RArr (map enc_Message (cr_Messages b))]"
    "field_values ''tools'' ms = (if cr_Tools b \<noteq> [] then [RArr (map enc_Tool (cr_Tools b))] else [])"
    unfolding ms_eq by (simp_all add: chat_values split: option.split)
  have t: "into_field ''tools'' ms (into_list zero_Tool into_Tool) [] = Inr (cr_Tools b)"
    using assms v(3) by (intro into_list_field(1) [where enc = enc_Tool]) (auto simp: list_all_iff into_enc_Tool)
  have "into_field ''messages'' ms (into_list (plain_Message [] []) into_Message) [] = Inr (cr_Messages b)"
    using v(2) by (intro into_list_field(2) [where enc = enc_Message]) (auto simp: into_enc_Message)
  moreover have "into_field ''model'' ms into_string [] = Inr (cr_Model b)" using v(1) by (simp add: into_field_values)
  moreover have "rq_Model zero_Request = []" "rq_Messages zero_Request = []" "rq_Tools zero_Request = []" by (simp_all add: zero_Request_def)
  ultimately show ?thesis using t by (simp add: ms into_stubRequest_def into_struct_def)
qed

definition counted :: "Response \<Rightarrow> Response" where
  "counted resp = resp\<lparr>rs_TotalTokens := if rs_TotalTokens resp = 0 then 1 else rs_TotalTokens resp\<rparr>"

lemma into_enc_stubResponse:
  "into_chatResponse (enc_stubResponse resp) zero_chatResponse = Inr
     \<lparr>ch_Choices = [\<lparr>msg_Role = ''assistant'', msg_Content = rs_Content resp, msg_ToolCalls = rs_ToolCalls resp, msg_ToolCallID = []\<rparr>],
      ch_Usage = Some \<lparr>us_PromptTokens = rs_PromptTokens resp, us_CompletionTokens = rs_OutputTokens resp,
        us_TotalTokens = rs_TotalTokens (counted resp)\<rparr>, ch_Error = None\<rparr>"
proof -
  let ?m = "\<lparr>msg_Role = ''assistant'', msg_Content = rs_Content resp, msg_ToolCalls = rs_ToolCalls resp, msg_ToolCallID = []\<rparr>"
  obtain ms where ms: "enc_stubResponse resp = RObj ms" by (simp add: enc_stubResponse_def)
  note ms_eq = ms [unfolded enc_stubResponse_def raw.inject, symmetric]
  have v: "field_values ''choices'' ms = [RArr [RObj [(''message'', enc_Message ?m)]]]" "field_values ''error'' ms = []"
    "field_values ''usage'' ms = [RObj [(''prompt_tokens'', RNum (Itoa (sint (rs_PromptTokens resp)))),
          (''completion_tokens'', RNum (Itoa (sint (rs_OutputTokens resp)))),
          (''total_tokens'', RNum (Itoa (sint (rs_TotalTokens (counted resp)))))]]"
    unfolding ms_eq by (simp_all add: chat_values counted_def)
  have "into_choice (RObj [(''message'', enc_Message ?m)]) (plain_Message [] []) = Inr ?m"
    by (simp add: into_choice_def into_struct_def into_field_def chat_values into_enc_Message)
  moreover have "into_usage (RObj [(''prompt_tokens'', RNum (Itoa (sint p))), (''completion_tokens'', RNum (Itoa (sint c))),
      (''total_tokens'', RNum (Itoa (sint t)))]) \<lparr>us_PromptTokens = 0, us_CompletionTokens = 0, us_TotalTokens = 0\<rparr> =
      Inr \<lparr>us_PromptTokens = p, us_CompletionTokens = c, us_TotalTokens = t\<rparr>" for p c t
    by (simp add: into_usage_def into_struct_def into_field_def chat_values)
  ultimately show ?thesis
    by (simp add: ms into_chatResponse_def into_struct_def into_field_values v into_list_def into_pointer_def zero_chatResponse_def)
qed

section \<open>The client and the server\<close>

text \<open>A network that brings the requests below \<open>url\<close> to the server.\<close>

definition stub_transport :: "string \<Rightarrow> Script \<Rightarrow> Request list transport" where
  "stub_transport url script =
     \<lparr>ht_NewRequest = (\<lambda>_. Inr ()),
      ht_Do = (\<lambda>ctx timeout call seen.
        if prefix url (hc_URL call)
        then (case serve script ''POST'' (drop (length url) (hc_URL call)) (hc_Body call) seen of (a, seen) \<Rightarrow> (Inr a, seen))
        else (Inl (Sentinel ''connection refused''), seen))\<rparr>"

definition sent :: "OpenAIClient \<Rightarrow> Request \<Rightarrow> chatRequest" where
  "sent c req = chat_body (request_model c req) req"

definition seen_as :: "OpenAIClient \<Rightarrow> Request \<Rightarrow> Request" where
  "seen_as c req = zero_Request\<lparr>rq_Model := request_model c req, rq_Messages := conversation req, rq_Tools := rq_Tools req\<rparr>"

lemma read_answer_stub:
  assumes "raw_writable (enc_stubResponse resp)" "length (raw_text (enc_stubResponse resp)) + 1 < response_limit"
  shows "read_answer \<lparr>ha_StatusCode = 200, ha_Body = raw_text (enc_stubResponse resp) @ [CHR 0x0A], ha_Fails = None\<rparr> = Inr (counted resp)"
proof -
  let ?b = "raw_text (enc_stubResponse resp) @ [CHR 0x0A]"
  have "json_document ?b = Some (enc_stubResponse resp)"
    using assms(1) raw_text_read [of "enc_stubResponse resp" "[CHR 0x0A]"] by (simp add: raw_writable_def json_ws_def)
  then have "Unmarshal_into into_chatResponse ?b zero_chatResponse = into_chatResponse (enc_stubResponse resp) zero_chatResponse"
    by (simp add: Unmarshal_into_def)
  with assms(2) into_enc_stubResponse [of resp] show ?thesis
    by (simp add: read_answer_def ReadAll_limited_def wrap_err_def zero_Response_def Let_def counted_def)
qed


definition demo_script :: Script where
  "demo_script req = zero_Response\<lparr>rs_Content := LastUser req\<rparr>"

lemma demo_seen: "seen_as demo_openai demo_req = zero_Request\<lparr>rq_Model := ''m'', rq_Messages := [plain_Message ''user'' ''hi'']\<rparr>"
  by code_simp

lemma demo_stub_docs:
  "raw_writable (enc_chatRequest (sent demo_openai demo_req))" "length (raw_text (enc_chatRequest (sent demo_openai demo_req))) \<le> 200"
  "raw_writable (enc_stubResponse (demo_script (seen_as demo_openai demo_req)))"
  "length (raw_text (enc_stubResponse (demo_script (seen_as demo_openai demo_req)))) \<le> 200"
  by code_simp+


lemma find_member: "find P xs = Some x \<Longrightarrow> x \<in> set xs \<and> P x"
  by (auto simp: find_Some_iff)

text \<open>
  The comment of \<open>ByPrompt\<close> calls it independent of the order of the map.  It is when at most
  one key occurs in the prompt; two keys that do, and the order decides.
\<close>

theorem ByPrompt_order:
  "distinct (map fst rs) \<Longrightarrow> distinct (map fst rs') \<Longrightarrow> set rs = set rs' \<Longrightarrow>
     (\<And>m m'. m \<in> fst ` set rs - {''*''} \<Longrightarrow> m' \<in> fst ` set rs - {''*''} \<Longrightarrow> contains (stub_SystemPrompt req) m \<Longrightarrow>
        contains (stub_SystemPrompt req) m' \<Longrightarrow> m = m') \<Longrightarrow>
     ByPrompt rs req = ByPrompt rs' req"
proof -
  assume d: "distinct (map fst rs)" "distinct (map fst rs')" and eq: "set rs = set rs'"
    and one: "\<And>m m'. m \<in> fst ` set rs - {''*''} \<Longrightarrow> m' \<in> fst ` set rs - {''*''} \<Longrightarrow> contains (stub_SystemPrompt req) m \<Longrightarrow>
        contains (stub_SystemPrompt req) m' \<Longrightarrow> m = m'"
  let ?P = "\<lambda>(m, c :: string). m \<noteq> ''*'' \<and> contains (stub_SystemPrompt req) m"
  have same: "x = y" if "x \<in> set rs" "y \<in> set rs" "?P x" "?P y" for x y
  proof -
    from that have "fst x = fst y" by (intro one) (auto split: prod.splits)
    with that(1,2) eq_key_imp_eq_value [OF d(1), of "fst x" "snd x" "snd y"] show "x = y" by (metis prod.collapse)
  qed
  have "find ?P rs = find ?P rs'"
  proof (cases "find ?P rs")
    case None
    then have "find ?P rs' = None" using eq by (simp only: find_None_iff) blast
    with None show ?thesis by simp
  next
    case (Some x)
    then have x: "x \<in> set rs" "?P x" using find_member by fast+
    then obtain y where y: "find ?P rs' = Some y" using eq by (cases "find ?P rs'") (auto simp: find_None_iff)
    then have "y \<in> set rs" "?P y" using eq find_member [of ?P rs' y] by simp_all
    with same x Some y show ?thesis by auto
  qed
  moreover have "map_of rs = map_of rs'" using map_of_inject_set [OF d] eq by simp
  ultimately show ?thesis by (simp add: ByPrompt_def cong: option.case_cong)
qed

theorem ByPrompt_order_matters:
  "\<exists>req. ByPrompt [(''a'', ''x''), (''b'', ''y'')] req \<noteq> ByPrompt [(''b'', ''y''), (''a'', ''x'')] req"
proof
  show "ByPrompt [(''a'', ''x''), (''b'', ''y'')] (zero_Request\<lparr>rq_Messages := [plain_Message ''system'' ''ab'']\<rparr>) \<noteq>
    ByPrompt [(''b'', ''y''), (''a'', ''x'')] (zero_Request\<lparr>rq_Messages := [plain_Message ''system'' ''ab'']\<rparr>)"
    by code_simp
qed

end
