(* ===== verification/EngineProps.thy ===== *)
theory EngineProps
  imports Engine
begin

text \<open>
  What holds of every run of an agent: which tools it can use, how often the model is called
  and what its output is.
\<close>

section \<open>Only the agent's own tools count\<close>

lemma runTool_cong:
  assumes "\<And>name. name \<in> allowed \<Longrightarrow> tools_Get (en_tools e1) name = tools_Get (en_tools e2) name"
  shows "runTool W e1 call allowed s = runTool W e2 call allowed s"
  using assms by (simp add: runTool_def Let_def)

lemma tool_rounds_cong:
  assumes "\<And>name. name \<in> allowed \<Longrightarrow> tools_Get (en_tools e1) name = tools_Get (en_tools e2) name"
  shows "tool_rounds W e1 ctx allowed n req usage s = tool_rounds W e2 ctx allowed n req usage s"
proof -
  have "tool_reply W e1 allowed s = tool_reply W e2 allowed s" for s
    by (rule ext) (simp add: tool_reply_def runTool_cong [OF assms])
  then show ?thesis by (induction n arbitrary: req usage s) (simp_all add: Let_def split: prod.split sum.split)
qed

text \<open>The tools are switched on.\<close>

definition tools_on :: "tool_registry option \<Rightarrow> bool" where
  "tools_on t \<longleftrightarrow> t \<noteq> None \<and> tools_Len t \<noteq> 0"

lemma resolveTools_cong:
  assumes "\<And>name. name \<in> set (bp_Tools bp) \<Longrightarrow> tools_Get (en_tools e1) name = tools_Get (en_tools e2) name"
    and "tools_on (en_tools e1) = tools_on (en_tools e2)"
  shows "resolveTools e1 bp = resolveTools e2 bp"
proof -
  have "for_each (\<lambda>name out. case tools_Get (en_tools e1) name of
          None \<Rightarrow> Inl (Errorf ''engine: agent %q requests unknown tool %q'' [bp_ID bp, name])
        | Some fn \<Rightarrow> Inr (out @ [\<lparr>tool_Type = ''function'', tool_Function =
            \<lparr>tf_Name = fn_Name fn, tf_Description = fn_Description fn, tf_Parameters = fn_Parameters fn\<rparr>\<rparr>])) (bp_Tools bp) [] =
        for_each (\<lambda>name out. case tools_Get (en_tools e2) name of
          None \<Rightarrow> Inl (Errorf ''engine: agent %q requests unknown tool %q'' [bp_ID bp, name])
        | Some fn \<Rightarrow> Inr (out @ [\<lparr>tool_Type = ''function'', tool_Function =
            \<lparr>tf_Name = fn_Name fn, tf_Description = fn_Description fn, tf_Parameters = fn_Parameters fn\<rparr>\<rparr>])) (bp_Tools bp) []"
    by (rule for_each_cong) (simp_all add: assms(1))
  with assms(2) show ?thesis by (auto simp: resolveTools_def tools_on_def)
qed

lemma agent_complete_cong:
  assumes "\<And>name. name \<in> set (bp_Tools bp) \<Longrightarrow> tools_Get (en_tools e1) name = tools_Get (en_tools e2) name"
  shows "agent_complete W e1 ctx bp req s = agent_complete W e2 ctx bp req s"
  using tool_rounds_cong [of "set (bp_Tools bp)" e1 e2 W, OF assms] by (simp add: agent_complete_def completeWithTools_def)

text \<open>
  C5: two engines that differ only in tools that are not on an agent's own list run that agent
  in the same way: the requests, the result, the error and everything outside the process
  are the same.  So a tool that is enabled for other agents cannot be reached by a model
  through this one, whatever calls the model asks for.
\<close>

theorem foreign_tools_unreachable:
  assumes bp: "reg_Blueprint (en_registry e) agentID = Some bp"
    and same: "\<And>name. name \<in> set (bp_Tools bp) \<Longrightarrow> tools_Get t1 name = tools_Get t2 name"
    and on: "tools_on t1 = tools_on t2"
  shows "fst (RunAgent W (SetTools t1 e) ctx agentID input s) = fst (RunAgent W (SetTools t2 e) ctx agentID input s) \<and>
    snd (snd (RunAgent W (SetTools t1 e) ctx agentID input s)) = snd (snd (RunAgent W (SetTools t2 e) ctx agentID input s))"
proof -
  let ?e1 = "SetTools t1 e" and ?e2 = "SetTools t2 e"
  have r: "resolveTools ?e1 bp = resolveTools ?e2 bp"
    using same on by (intro resolveTools_cong) (simp_all add: SetTools_def)
  have c: "agent_complete W ?e1 ctx' bp req s' = agent_complete W ?e2 ctx' bp req s'" for ctx' req s'
    using same by (intro agent_complete_cong) (simp add: SetTools_def)
  have reg: "en_registry ?e1 = en_registry e" "en_registry ?e2 = en_registry e" by (simp_all add: SetTools_def)
  show ?thesis
  proof (cases "reg_Prompt (en_registry e) agentID")
    case (Some prompt)
    show ?thesis
    proof (cases "resolveTools ?e2 bp")
      case (Inr toolDefs)
      let ?ctx = "run_ctx bp ctx" and ?req = "agent_request bp prompt input toolDefs"
      obtain res s1 where a: "agent_complete W ?e2 ?ctx bp ?req s = (res, s1)" by fastforce
      show ?thesis
      proof (cases res)
        case (Inr resp)
        obtain out n s2 where o: "check_agent_output W ?ctx (en_registry e) agentID bp ?req resp s1 = ((out, n), s2)"
          by (metis prod.collapse)
        show ?thesis
          by (cases out) (simp_all add: RunAgent_def Let_def reg bp r c Some \<open>resolveTools ?e2 bp = Inr toolDefs\<close> a Inr o split: prod.split)
      qed (simp add: RunAgent_def Let_def reg bp r c Some \<open>resolveTools ?e2 bp = Inr toolDefs\<close> a)
    qed (simp add: RunAgent_def Let_def reg bp r Some)
  qed (simp add: RunAgent_def Let_def reg bp)
qed

section \<open>The number of calls\<close>

text \<open>A measure of the state that counts the calls of the client.\<close>

definition counts_calls :: "'s world \<Rightarrow> ('s \<Rightarrow> nat) \<Rightarrow> bool" where
  "counts_calls W calls \<longleftrightarrow> (\<forall>ctx req s. calls (snd (w_Complete W ctx req s)) = Suc (calls s))"

lemma counts_callsD: "counts_calls W calls \<Longrightarrow> w_Complete W ctx req s = (r, s') \<Longrightarrow> calls s' = Suc (calls s)"
  by (metis counts_calls_def snd_conv)

lemma tool_rounds_calls:
  "counts_calls W calls \<Longrightarrow> tool_rounds W e ctx allowed n req usage s = (r, s') \<Longrightarrow> calls s' \<le> calls s + n"
proof (induction n arbitrary: req usage s)
  case (Suc n)
  obtain c s1 where c: "w_Complete W ctx req s = (c, s1)" by fastforce
  note one = counts_callsD [OF Suc.prems(1) c]
  show ?case
  proof (cases c)
    case (Inl err)
    with Suc.prems(2) c one show ?thesis by simp
  next
    case (Inr resp)
    show ?thesis
    proof (cases "rs_ToolCalls resp = []")
      case True
      with Suc.prems(2) c Inr one show ?thesis by (simp add: Let_def)
    next
      case False
      with Suc.prems(2) c Inr Suc.IH [OF Suc.prems(1), of _ _ s1] one show ?thesis by (fastforce simp: Let_def)
    qed
  qed
qed simp

lemma agent_complete_calls:
  assumes "counts_calls W calls" "agent_complete W e ctx bp req s = (r, s')"
  shows "calls s' \<le> calls s + (if rq_Tools req = [] then 1 else maxToolRounds)"
proof (cases "rq_Tools req = []")
  case True
  with assms counts_callsD [OF assms(1)] show ?thesis by (auto simp: agent_complete_def)
next
  case False
  obtain resp err s1 where t: "completeWithTools W e ctx req (set (bp_Tools bp)) s = ((resp, err), s1)" by (metis prod.collapse)
  with False assms(2) have "s' = s1" by (cases err) (simp_all add: agent_complete_def)
  with False tool_rounds_calls [OF assms(1) t [unfolded completeWithTools_def]] show ?thesis by simp
qed

lemma repairSchema_calls:
  assumes "counts_calls W calls" "repairSchema W ctx base sch content verr s = (r, s')"
  shows "calls s' = Suc (calls s)"
  using assms(2) counts_callsD [OF assms(1)]
  by (auto simp: repairSchema_def Let_def split: prod.splits sum.splits)

lemma check_agent_output_calls:
  assumes "counts_calls W calls" "check_agent_output W ctx reg i bp req resp s = (r, s')"
  shows "calls s' \<le> Suc (calls s)"
  using assms(2) repairSchema_calls [OF assms(1)]
  by (auto simp: check_agent_output_def Let_def split: prod.splits sum.splits option.splits if_splits)

lemma resolveTools_Nil: "resolveTools e bp = Inr toolDefs \<Longrightarrow> bp_Tools bp = [] \<Longrightarrow> toolDefs = []"
  by (simp add: resolveTools_def)

text \<open>What a run of a known agent does, step by step.\<close>

lemma RunAgent_cases:
  assumes bp: "reg_Blueprint (en_registry e) i = Some bp" and run: "RunAgent W e ctx i input s = ((res, err), e', s')"
  obtains (early) "s' = s" "err \<noteq> None"
  | (failed) toolDefs prompt er where "resolveTools e bp = Inr toolDefs" "err \<noteq> None"
      "agent_complete W e (run_ctx bp ctx) bp (agent_request bp prompt input toolDefs) s = (Inl er, s')"
  | (checked) toolDefs prompt resp s1 out b where "resolveTools e bp = Inr toolDefs"
      "agent_complete W e (run_ctx bp ctx) bp (agent_request bp prompt input toolDefs) s = (Inr resp, s1)"
      "check_agent_output W (run_ctx bp ctx) (en_registry e) i bp (agent_request bp prompt input toolDefs) resp s1 = ((out, b), s')"
      "case out of Inl er \<Rightarrow> err \<noteq> None | Inr (content, tokens) \<Rightarrow> err = None \<and> ar_Output res = content \<and> ar_Tokens res = tokens"
proof (cases "reg_Prompt (en_registry e) i")
  case None
  with run bp show ?thesis by (intro early) (auto simp: RunAgent_def)
next
  case (Some prompt)
  show ?thesis
  proof (cases "resolveTools e bp")
    case (Inl er)
    with Some run bp show ?thesis by (intro early) (auto simp: RunAgent_def Let_def)
  next
    case (Inr toolDefs)
    note tools = Inr
    let ?ctx = "run_ctx bp ctx" and ?req = "agent_request bp prompt input toolDefs"
    obtain r s1 where a: "agent_complete W e ?ctx bp ?req s = (r, s1)" by fastforce
    show ?thesis
    proof (cases r)
      case (Inl er)
      with Some run bp tools a have "err \<noteq> None" "s' = s1" by (auto simp: RunAgent_def Let_def)
      with failed [OF tools] a Inl show ?thesis by blast
    next
      case (Inr resp)
      obtain out b s2 where o: "check_agent_output W ?ctx (en_registry e) i bp ?req resp s1 = ((out, b), s2)"
        by (metis prod.collapse)
      have "s' = s2 \<and> (case out of Inl er \<Rightarrow> err \<noteq> None | Inr (content, tokens) \<Rightarrow> err = None \<and> ar_Output res = content \<and> ar_Tokens res = tokens)"
        using Some run bp tools a Inr o by (cases out) (auto simp: RunAgent_def Let_def)
      with checked [OF tools] a Inr o show ?thesis by blast
    qed
  qed
qed

text \<open>
  C7: a run of an agent calls the model at most five times for its tool rounds, or once when
  it has no tools, and at most once more to repair the output.
\<close>

theorem agent_calls_bounded:
  assumes "counts_calls W calls" and bp: "reg_Blueprint (en_registry e) i = Some bp"
  shows "calls (snd (snd (RunAgent W e ctx i input s))) \<le> calls s + (if bp_Tools bp = [] then 2 else 6)"
proof -
  obtain res err e' s' where run: "RunAgent W e ctx i input s = ((res, err), e', s')" by (metis prod.collapse)
  from bp run have "calls s' \<le> calls s + (if bp_Tools bp = [] then 2 else 6)"
  proof (cases rule: RunAgent_cases)
    case (failed toolDefs prompt er)
    with agent_complete_calls [OF assms(1) failed(3)] resolveTools_Nil [OF failed(1)] show ?thesis
      by (auto simp: agent_request_def maxToolRounds_def split: if_splits)
  next
    case (checked toolDefs prompt resp s1 out b)
    with agent_complete_calls [OF assms(1) checked(2)] check_agent_output_calls [OF assms(1) checked(3)] resolveTools_Nil [OF checked(1)]
    show ?thesis by (auto simp: agent_request_def maxToolRounds_def split: if_splits)
  qed simp
  with run show ?thesis by simp
qed

section \<open>The output\<close>

lemma TrimSpace_ends:
  assumes "w \<in> set space_encodings"
  shows "\<not> prefix w (TrimSpace s)" "\<not> suffix w (TrimSpace s)"
proof -
  have "prefix (TrimSpace s) (TrimLeftSpace s)"
    unfolding TrimSpace_def TrimRightSpace_def
    using strip_words_suffix by (metis rev_rev_ident suffix_to_prefix)
  then show "\<not> prefix w (TrimSpace s)"
    using TrimLeftSpace_stops [OF assms] prefix_order.trans by blast
  have "\<not> prefix (rev w) (strip_words (length (TrimLeftSpace s)) (map rev space_encodings) (rev (TrimLeftSpace s)))"
    using assms by (intro strip_words_stops) (auto dest: space_encodings_nonempty)
  then show "\<not> suffix w (TrimSpace s)"
    by (simp add: TrimSpace_def TrimRightSpace_def suffix_to_prefix)
qed

lemma TrimSpace_idem [simp]: "TrimSpace (TrimSpace s) = TrimSpace s"
proof -
  let ?t = "TrimSpace s"
  have "TrimLeftSpace ?t = ?t" unfolding TrimLeftSpace_def
    by (rule strip_words_id) (use TrimSpace_ends(1) in blast)
  moreover have "TrimRightSpace ?t = ?t"
  proof -
    have "strip_words (length ?t) (map rev space_encodings) (rev ?t) = rev ?t"
      by (rule strip_words_id) (use TrimSpace_ends(2) in \<open>auto simp: suffix_to_prefix\<close>)
    then show ?thesis by (simp add: TrimRightSpace_def)
  qed
  ultimately show ?thesis by (simp add: TrimSpace_def [of ?t])
qed

lemma stripCodeFence_trimmed: "TrimSpace (stripCodeFence s) = stripCodeFence s"
  by (simp add: stripCodeFence_def Let_def)

lemma fence_not_json: "prefix fence s \<Longrightarrow> json_Unmarshal s = Inl ErrJSON"
proof -
  assume "prefix fence s"
  then obtain r where s: "s = CHR 0x60 # r" by (auto simp: fence_def prefix_def numeral_3_eq_3)
  have "json_literal s = None" by (simp add: s json_literal_def scan_number_def isDigit_def)
  then have "json_value (Suc n) d s = None" for n d
    by (simp add: s json_value.simps(2) skip_ws_def json_ws_def)
  then have "json_document s = None" by (simp add: json_document_def)
  then show ?thesis by (simp add: json_Unmarshal_def)
qed

lemma validateJSONObject_Inr: "validateJSONObject c = Inr u \<longleftrightarrow> (\<exists>kvs. json_Unmarshal (stripCodeFence c) = Inr (JObj kvs))"
  by (auto simp: validateJSONObject_def split: sum.split json.split)

lemma Validate_conforms: "Validate sch t = Inr u \<longleftrightarrow> (\<exists>doc. json_Unmarshal t = Inr doc \<and> conforms sch doc)"
  by (auto simp: Validate_def validate_Inr split: sum.split)

text \<open>The text is a JSON object, without its code fence, and fits the schema if there is one.\<close>

definition fits :: "node option \<Rightarrow> string \<Rightarrow> bool" where
  "fits sch content \<longleftrightarrow> (\<exists>kvs. json_Unmarshal (stripCodeFence content) = Inr (JObj kvs) \<and>
     (case sch of None \<Rightarrow> True | Some node \<Rightarrow> conforms node (JObj kvs)))"

lemma repairSchema_fits:
  assumes "repairSchema W ctx base sch content verr s = (Inr (out, n), s')"
  shows "fits (Some sch) out"
proof -
  from assms have v: "validateJSONObject (stripCodeFence out) = Inr ()" "Validate sch (stripCodeFence out) = Inr ()"
    by (auto simp: repairSchema_def Let_def split: prod.splits sum.splits)
  then obtain kvs doc where k: "json_Unmarshal (stripCodeFence (stripCodeFence out)) = Inr (JObj kvs)"
    and d: "json_Unmarshal (stripCodeFence out) = Inr doc" "conforms sch doc"
    by (auto simp: validateJSONObject_Inr Validate_conforms)
  from d(1) fence_not_json have "\<not> prefix fence (stripCodeFence out)" by fastforce
  then have "stripCodeFence (stripCodeFence out) = stripCodeFence out"
    by (simp add: stripCodeFence_def [of "stripCodeFence out"] stripCodeFence_trimmed)
  with k d show ?thesis by (auto simp: fits_def)
qed

lemma check_agent_output_fits:
  assumes "check_agent_output W ctx reg i bp req resp s = ((Inr (content, tokens), b), s')" "bp_OutputFormat bp = OutputJSON"
  shows "fits (reg_OutputSchema reg i) content"
  using assms repairSchema_fits
  by (auto simp: check_agent_output_def Let_def fits_def validateJSONObject_Inr Validate_conforms
      split: prod.splits sum.splits option.splits) fastforce+

text \<open>
  C6: when an agent with JSON output succeeds, its output, without a code fence around it, is
  a JSON object, and it conforms to the agent's schema if it has one, also when the output
  is the repaired one.
\<close>

theorem agent_output_contract:
  assumes "reg_Blueprint (en_registry e) i = Some bp" and "bp_OutputFormat bp = OutputJSON"
    and "RunAgent W e ctx i input s = ((res, None), e', s')"
  shows "\<exists>kvs. json_Unmarshal (stripCodeFence (ar_Output res)) = Inr (JObj kvs) \<and>
    (case reg_OutputSchema (en_registry e) i of None \<Rightarrow> True | Some node \<Rightarrow> conforms node (JObj kvs))"
proof -
  from assms(1,3) have "fits (reg_OutputSchema (en_registry e) i) (ar_Output res)"
  proof (cases rule: RunAgent_cases)
    case (checked toolDefs prompt resp s1 out b)
    from checked(4) obtain content tokens where "out = Inr (content, tokens)" "ar_Output res = content" by (auto split: sum.splits)
    with check_agent_output_fits [OF _ assms(2)] checked(3) show ?thesis by metis
  qed simp_all
  then show ?thesis by (simp add: fits_def)
qed

section \<open>Examples\<close>

text \<open>
  A model that puts its JSON in a code fence; the state counts the calls.  The agent asks for
  JSON and may use one of the two tools that are switched on.
\<close>

definition fenced_reply :: string where
  "fenced_reply = fence @ ''json'' @ [CHR 0x0A] @ ''{}'' @ [CHR 0x0A] @ fence"

definition demo_world :: "nat world" where
  "demo_world = \<lparr>w_Complete = (\<lambda>ctx req n. (Inr (zero_Response\<lparr>rs_Content := fenced_reply\<rparr>), Suc n)),
     w_millis = int, w_utc = (\<lambda>n. ''2025-01-01T00:00:00Z''), w_text = (\<lambda>e. [])\<rparr>"

definition json_agent :: AgentBlueprint where
  "json_agent = \<lparr>bp_ID = ''a'', bp_Description = [], bp_PromptPath = ''p'', bp_Model = ''m'', bp_BaseURL = [],
     bp_Temperature = None, bp_MaxTokens = 0, bp_TimeoutSeconds = 0, bp_OutputFormat = OutputJSON, bp_OutputSchema = [],
     bp_Tools = [''word_count''], bp_Concurrency = 0, bp_RateLimit = [], bp_Version = 1\<rparr>"

definition demo_engine :: Engine where
  "demo_engine = \<lparr>en_registry = \<lparr>rg_root = ''/r'', rg_blueprints = [(''a'', json_agent)], rg_prompts = [(''a'', ''Count.'')],
     rg_pipelines = [], rg_schemas = []\<rparr>, en_maxParallel = 1, en_tools = None, en_metrics = None\<rparr>"

definition tools_of :: "string list \<Rightarrow> tool_registry option" where
  "tools_of names = (case tools_New names of Inr r \<Rightarrow> Some r | Inl _ \<Rightarrow> None)"

lemma demo_known: "reg_Blueprint (en_registry (SetTools t demo_engine)) ''a'' = Some json_agent"
  by (simp add: demo_engine_def reg_Blueprint_def SetTools_def)

lemma demo_counts: "counts_calls demo_world id"
  by (simp add: counts_calls_def demo_world_def)

theorem foreign_tools_unreachable_witness:
  "fst (RunAgent demo_world (SetTools (tools_of [''word_count'']) demo_engine) demo_ctx ''a'' ''x'' 0) =
   fst (RunAgent demo_world (SetTools (tools_of [''word_count'', ''math_eval'']) demo_engine) demo_ctx ''a'' ''x'' 0)"
proof -
  have get: "tools_Get (tools_of [''word_count'']) ''word_count'' = tools_Get (tools_of [''word_count'', ''math_eval'']) ''word_count''"
    by (simp add: tools_of_def tools_New_def add_tool_def builtins_def tools_Get_def)
  have on: "tools_on (tools_of [''word_count''])" "tools_on (tools_of [''word_count'', ''math_eval''])"
    by (simp_all add: tools_of_def tools_New_def add_tool_def builtins_def tools_on_def tools_Len_def)
  have "fst (RunAgent demo_world (SetTools (tools_of [''word_count'']) demo_engine) demo_ctx ''a'' ''x'' 0) =
    fst (RunAgent demo_world (SetTools (tools_of [''word_count'', ''math_eval'']) demo_engine) demo_ctx ''a'' ''x'' 0) \<and>
    snd (snd (RunAgent demo_world (SetTools (tools_of [''word_count'']) demo_engine) demo_ctx ''a'' ''x'' 0)) =
    snd (snd (RunAgent demo_world (SetTools (tools_of [''word_count'', ''math_eval'']) demo_engine) demo_ctx ''a'' ''x'' 0))"
    by (rule foreign_tools_unreachable [of _ _ json_agent]) (use get on in \<open>auto simp: demo_engine_def reg_Blueprint_def json_agent_def\<close>)
  then show ?thesis by blast
qed

theorem agent_calls_bounded_witness:
  "snd (snd (RunAgent demo_world (SetTools (tools_of [''word_count'']) demo_engine) demo_ctx ''a'' ''x'' 0)) \<le> 6"
  using agent_calls_bounded [OF demo_counts demo_known, of "tools_of [''word_count'']" demo_ctx "''x''" 0]
  by (simp add: json_agent_def)

lemma demo_run:
  "RunAgent demo_world (SetTools (tools_of [''word_count'']) demo_engine) demo_ctx ''a'' ''x'' 0 =
     ((\<lparr>ar_AgentID = ''a'', ar_Output = fenced_reply, ar_Tokens = 0, ar_DurationMS = 1\<rparr>, None),
      SetTools (tools_of [''word_count'']) demo_engine, 1)"
proof -
  have t: "resolveTools (SetTools (tools_of [''word_count'']) demo_engine) json_agent = Inr
      [\<lparr>tool_Type = ''function'', tool_Function = \<lparr>tf_Name = ''word_count'',
         tf_Description = ''Count the whitespace-separated words in the given text.'',
         tf_Parameters = one_string_param ''text'' ''Text to count.''\<rparr>\<rparr>]"
    by (simp add: resolveTools_def SetTools_def tools_of_def tools_New_def add_tool_def builtins_def tools_Get_def tools_Len_def json_agent_def)
  have v: "TrimSpace fenced_reply = fenced_reply" "validateJSONObject fenced_reply = Inr ()" by code_simp+
  have c: "agent_complete demo_world e ctx bp req n = (Inr (zero_Response\<lparr>rs_Content := fenced_reply\<rparr>), Suc n)" for e ctx bp req n
    by (simp add: agent_complete_def completeWithTools_def maxToolRounds_def numeral_eq_Suc demo_world_def Let_def add_usage_def zero_Response_def)
  have o: "check_agent_output demo_world ctx reg i json_agent req (zero_Response\<lparr>rs_Content := fenced_reply\<rparr>) n =
      ((Inr (fenced_reply, 0), False), n)" if "reg_OutputSchema reg i = None" for ctx reg i req n
    using that v by (simp add: check_agent_output_def Let_def zero_Response_def json_agent_def)
  have r: "reg_Prompt (en_registry (SetTools t demo_engine)) ''a'' = Some ''Count.''"
    "reg_OutputSchema (en_registry (SetTools t demo_engine)) ''a'' = None" for t
    by (simp_all add: demo_engine_def SetTools_def reg_Prompt_def reg_OutputSchema_def)
  have d: "since demo_world 0 (Suc 0) = 1" by (simp add: since_def demo_world_def)
  show ?thesis unfolding RunAgent_def Let_def demo_known r option.case t sum.case c prod.case o [OF r(2)] d by simp
qed

theorem agent_output_contract_witness:
  "\<exists>kvs. json_Unmarshal (stripCodeFence fenced_reply) = Inr (JObj kvs)"
  using agent_output_contract [OF demo_known _ demo_run] by (auto simp: json_agent_def)

text \<open>
  The output that an agent returns keeps its code fence, although the JSON was checked
  without it: a successful run of a JSON agent can return a text that is not JSON, and a
  later step that refers to a field of it then fails.
\<close>

theorem fenced_output_is_not_json:
  "\<exists>res e s. RunAgent demo_world (SetTools (tools_of [''word_count'']) demo_engine) demo_ctx ''a'' ''x'' 0 = ((res, None), e, s) \<and>
     json_Unmarshal (ar_Output res) = Inl ErrJSON"
proof -
  have "prefix fence fenced_reply" by (simp add: fenced_reply_def)
  then have "json_Unmarshal fenced_reply = Inl ErrJSON" by (rule fence_not_json)
  with demo_run show ?thesis by simp
qed

end
