(* ===== verification/DocsCheck.thy ===== *)
theory DocsCheck
  imports RegistryWrite "HOL-Library.Product_Lexorder"
begin

text \<open>
  \<open>internal/docscheck/docscheck.go\<close>: the helpers that compare the documentation with the
  sources.  The regular expressions of the file repeat single characters only, so a pattern is
  a list of atoms and the first match is found by trying the choices in the order of
  \<open>regexp\<close>.  A directory is a tree; the other files are read through a function.
\<close>

section \<open>Regular expressions\<close>

text \<open>\<open>Words\<close> is an alternative of literals, \<open>Many n p\<close> a greedy repetition of at least \<open>n\<close> characters.\<close>

datatype atom =
    Words "string list"
  | Many nat "char \<Rightarrow> bool"
  | Boundary
  | TextBegin
  | TextEnd
  | GroupOpen
  | GroupClose

abbreviation Lit :: "string \<Rightarrow> atom" where
  "Lit w \<equiv> Words [w]"

fun first_some :: "('a \<Rightarrow> 'b option) \<Rightarrow> 'a list \<Rightarrow> 'b option" where
  "first_some f [] = None"
| "first_some f (x # xs) = (case f x of Some y \<Rightarrow> Some y | None \<Rightarrow> first_some f xs)"

definition word_char :: "char \<Rightarrow> bool" where
  "word_char c \<longleftrightarrow> byte_in 0x30 0x39 c \<or> byte_in 0x41 0x5A c \<or> byte_in 0x61 0x7A c \<or> c = CHR ''_''"

definition at_boundary :: "char option \<Rightarrow> string \<Rightarrow> bool" where
  "at_boundary prev s \<longleftrightarrow>
     (case prev of None \<Rightarrow> False | Some c \<Rightarrow> word_char c) \<noteq> (case s of [] \<Rightarrow> False | c # _ \<Rightarrow> word_char c)"

definition last_char :: "string \<Rightarrow> char option \<Rightarrow> char option" where
  "last_char w prev = (if w = [] then prev else Some (last w))"

text \<open>
  A match from here on: the character in front, the text of the open group and the groups
  that are closed; the result is the groups and the rest of the text.
\<close>

primrec re_match :: "atom list \<Rightarrow> char option \<Rightarrow> string option \<Rightarrow> string list \<Rightarrow> string \<Rightarrow> (string list \<times> string) option" where
  "re_match [] prev cur caps s = Some (caps, s)"
| "re_match (a # as) prev cur caps s =
     (let eat = (\<lambda>w. re_match as (last_char w prev) (map_option (\<lambda>g. g @ w) cur) caps (drop (length w) s)) in
      case a of
        Words ws \<Rightarrow> first_some (\<lambda>w. if prefix w s then eat w else None) ws
      | Many n p \<Rightarrow> first_some (\<lambda>k. if n \<le> k then eat (take k s) else None) (rev [0..<Suc (length (takeWhile p s))])
      | Boundary \<Rightarrow> if at_boundary prev s then re_match as prev cur caps s else None
      | TextBegin \<Rightarrow> if prev = None then re_match as prev cur caps s else None
      | TextEnd \<Rightarrow> if s = [] then re_match as prev cur caps s else None
      | GroupOpen \<Rightarrow> re_match as prev (Some []) caps s
      | GroupClose \<Rightarrow> re_match as prev None (caps @ [case cur of None \<Rightarrow> [] | Some g \<Rightarrow> g]) s)"

text \<open>\<open>FindAllStringSubmatch\<close>: matches from left to right that do not overlap; no pattern matches the empty text.\<close>

function find_all :: "atom list \<Rightarrow> char option \<Rightarrow> string \<Rightarrow> string list list" where
  "find_all p prev [] = []"
| "find_all p prev (c # s) =
     (case re_match p prev None [] (c # s) of
        None \<Rightarrow> find_all p (Some c) s
      | Some (caps, rest) \<Rightarrow>
          if length rest < length (c # s)
          then caps # find_all p (last_char (take (length (c # s) - length rest) (c # s)) prev) rest
          else find_all p (Some c) s)"
  by pat_completeness auto
termination by (relation "measure (\<lambda>(p, prev, s). length s)") auto

definition FindAll :: "atom list \<Rightarrow> string \<Rightarrow> string list list" where
  "FindAll p s = find_all p None s"

definition FindFirst :: "atom list \<Rightarrow> string \<Rightarrow> string list option" where
  "FindFirst p s = (case FindAll p s of [] \<Rightarrow> None | m # _ \<Rightarrow> Some m)"

section \<open>The patterns\<close>

definition methods :: "string list" where
  "methods = [''GET'', ''POST'', ''PUT'', ''DELETE'', ''PATCH'']"

definition handleFuncRe :: "atom list" where
  "handleFuncRe = [Lit ''mux.HandleFunc('', Many 0 re_space, Lit [CHR 0x22], GroupOpen, Many 1 (\<lambda>c. c \<noteq> CHR 0x22), GroupClose, Lit [CHR 0x22]]"

definition commentLineRe :: "atom list" where
  "commentLineRe = [TextBegin, Many 0 re_space, Lit ''//'', GroupOpen, Many 0 (\<lambda>c. c \<noteq> CHR 0x0A), GroupClose, TextEnd]"

definition commentRouteRe :: "atom list" where
  "commentRouteRe = [Boundary, GroupOpen, Words methods, GroupClose, Many 1 re_space, GroupOpen, Lit ''/'',
     Many 1 (\<lambda>c. \<not> re_space c \<and> c \<notin> {CHR '','', CHR ''.'', CHR '')'', CHR '']'', CHR 0x60}), GroupClose]"

definition env_rest :: "char \<Rightarrow> bool" where
  "env_rest c \<longleftrightarrow> byte_in 0x41 0x5A c \<or> byte_in 0x30 0x39 c \<or> c = CHR ''_''"

text \<open>\<open>([A-Z][A-Z0-9_]*)\<close>.\<close>

definition env_name :: "atom list" where
  "env_name = [GroupOpen, Words (map (\<lambda>n. [char_of n]) [0x41..<0x5B]), Many 0 env_rest, GroupClose]"

definition envSourceRe :: "atom list" where
  "envSourceRe = [Words [''os.Getenv'', ''os.LookupEnv'', ''envOr'', ''envInt''], Lit ''('', Many 0 re_space, Lit [CHR 0x22]] @
     env_name @ [Lit [CHR 0x22]]"

definition envTableCellRe :: "atom list" where
  "envTableCellRe = [TextBegin, Lit ''|'', Many 0 re_space, Lit [CHR 0x60]] @ env_name @ [Lit [CHR 0x60], Many 0 re_space, Lit ''|'']"

definition metric_atoms :: "atom list" where
  "metric_atoms = [GroupOpen, Lit ''harness_'', Many 1 (\<lambda>c. byte_in 0x61 0x7A c \<or> c = CHR ''_''), Lit ''_total'', GroupClose]"

definition metricValueRe :: "atom list" where
  "metricValueRe = [Lit [CHR 0x22]] @ metric_atoms @ [Lit [CHR 0x22]]"

definition docMethodPathRe :: "atom list" where
  "docMethodPathRe = [Lit [CHR 0x60], GroupOpen, Words methods, GroupClose, Many 1 re_space, GroupOpen, Lit ''/'',
     Many 1 (\<lambda>c. c \<noteq> CHR 0x60), GroupClose, Lit [CHR 0x60]]"

definition readmeTableRe :: "atom list" where
  "readmeTableRe = [Lit ''|'', Many 0 re_space, Lit [CHR 0x60], GroupOpen, Words methods, GroupClose, Lit [CHR 0x60], Many 0 re_space,
     Lit ''|'', Many 0 re_space, Lit [CHR 0x60], GroupOpen, Lit ''/'', Many 1 (\<lambda>c. c \<noteq> CHR 0x60), GroupClose, Lit [CHR 0x60]]"

definition versionPinRe :: "atom list" where
  "versionPinRe = [Lit ''VERSION='', GroupOpen, Words [''v'', []], Many 1 isDigit, Lit ''.'', Many 1 isDigit, Lit ''.'', Many 1 isDigit, GroupClose]"

definition mdLinkRe :: "atom list" where
  "mdLinkRe = [Lit ''](''  , GroupOpen, Many 1 (\<lambda>c. c \<noteq> CHR '')'' \<and> \<not> re_space c), GroupClose, Lit '')'']"

definition semverRe :: "atom list" where
  "semverRe = [TextBegin, Many 1 isDigit, Lit ''.'', Many 1 isDigit, Lit ''.'', Many 1 isDigit, TextEnd]"

section \<open>Text\<close>

text \<open>
  \<open>strings.ToLower\<close> as far as ASCII is concerned: the Kelvin sign and the capital I with a
  dot have ASCII letters as their lower case, other runes outside ASCII stay outside it.
\<close>

fun to_lower :: "string \<Rightarrow> string" where
  "to_lower [] = []"
| "to_lower (c # s) =
     (if c = CHR 0xE2 \<and> take 2 s = [CHR 0x84, CHR 0xAA] then CHR ''k'' # to_lower (drop 2 s)
      else if c = CHR 0xC4 \<and> take 1 s = [CHR 0xB0] then CHR ''i'' # to_lower (drop 1 s)
      else ascii_lower c # to_lower s)"

definition heading_level :: "string \<Rightarrow> nat" where
  "heading_level trimmed = length (takeWhile (\<lambda>c. c = CHR ''#'') trimmed)"

definition strip_line :: "string \<Rightarrow> string \<Rightarrow> nat \<times> string list \<Rightarrow> nat \<times> string list" where
  "strip_line phrase line st =
     (let (skipLevel, out) = st; trimmed = TrimSpace line; level = heading_level trimmed in
      if level > 0 then
        let heading = to_lower (TrimSpace (drop level trimmed));
            skipLevel = (if skipLevel > 0 \<and> level \<le> skipLevel then 0 else skipLevel)
        in if skipLevel = 0 \<and> sublist phrase heading then (level, out)
           else (skipLevel, if skipLevel = 0 then out @ [line] else out)
      else (skipLevel, if skipLevel = 0 then out @ [line] else out))"

definition stripSection :: "string \<Rightarrow> string \<Rightarrow> string" where
  "stripSection doc phrase = Join [CHR 0x0A] (snd (fold (strip_line phrase) (Split (CHR 0x0A) doc) (0, [])))"

definition slug_char :: "char \<Rightarrow> string" where
  "slug_char c =
     (if byte_in 0x61 0x7A c \<or> byte_in 0x30 0x39 c \<or> c = CHR ''-'' \<or> c = CHR ''_'' then [c]
      else if c = CHR '' '' then ''-'' else [])"

definition Slugify :: "string \<Rightarrow> string" where
  "Slugify heading = concat (map slug_char (to_lower heading))"

definition balancedBraces :: "string \<Rightarrow> bool" where
  "balancedBraces s \<longleftrightarrow> length (filter (\<lambda>c. c = CHR ''{'') s) = length (filter (\<lambda>c. c = CHR ''}'') s)"

text \<open>The lines of a \<open>bufio.Scanner\<close>, and the error of a line that does not fit its buffer.\<close>

definition ErrTooLong :: goerr where
  "ErrTooLong = Sentinel ''bufio.Scanner: token too long''"

definition dropCR :: "string \<Rightarrow> string" where
  "dropCR l = (if l \<noteq> [] \<and> last l = CHR 0x0D then butlast l else l)"

definition scan_lines :: "string \<Rightarrow> string list \<times> goerr option" where
  "scan_lines s =
     (let ls = Split (CHR 0x0A) s;
          ls = (if last ls = [] then butlast ls else ls);
          fits = takeWhile (\<lambda>l. length l < 65536) ls
      in (map dropCR fits, if length fits < length ls then Some ErrTooLong else None))"

section \<open>Trees of files\<close>

datatype tree =
    FileNode string "string res"
  | DirNode string "tree list res"

fun tree_name :: "tree \<Rightarrow> string" where
  "tree_name (FileNode n c) = n"
| "tree_name (DirNode n ts) = n"

text \<open>\<open>filepath.WalkDir\<close> with a function that skips directories by name and reads files.\<close>

fun walk :: "(string \<Rightarrow> bool) \<Rightarrow> (string \<Rightarrow> string res \<Rightarrow> 'a \<Rightarrow> 'a res) \<Rightarrow> string \<Rightarrow> tree \<Rightarrow> 'a \<Rightarrow> 'a res"
  and walk_list :: "(string \<Rightarrow> bool) \<Rightarrow> (string \<Rightarrow> string res \<Rightarrow> 'a \<Rightarrow> 'a res) \<Rightarrow> string \<Rightarrow> tree list \<Rightarrow> 'a \<Rightarrow> 'a res"
where
  "walk skip f path (FileNode n c) acc = f path c acc"
| "walk skip f path (DirNode n (Inl err)) acc = (if skip n then Inr acc else Inl err)"
| "walk skip f path (DirNode n (Inr ts)) acc = (if skip n then Inr acc else walk_list skip f path ts acc)"
| "walk_list skip f path [] acc = Inr acc"
| "walk_list skip f path (t # ts) acc =
     bind_res (walk skip f (path_Join [path, tree_name t]) t acc) (\<lambda>acc. walk_list skip f path ts acc)"

definition go_source :: "string \<Rightarrow> bool" where
  "go_source p \<longleftrightarrow> suffix ''.go'' p \<and> \<not> suffix ''_test.go'' p"

text \<open>Go sources that are no tests, each given to \<open>f\<close> with its content.\<close>

definition walk_sources :: "(string \<Rightarrow> bool) \<Rightarrow> (string \<Rightarrow> 'a \<Rightarrow> 'a) \<Rightarrow> string \<Rightarrow> tree res \<Rightarrow> 'a \<Rightarrow> 'a res" where
  "walk_sources skip f dir t acc =
     bind_res t (\<lambda>t. walk skip (\<lambda>p c acc. if go_source p then bind_res c (\<lambda>s. Inr (f s acc)) else Inr acc) dir t acc)"

definition MarkdownFiles :: "string \<Rightarrow> tree res \<Rightarrow> string list res" where
  "MarkdownFiles dir t =
     bind_res (bind_res t (\<lambda>t. walk (\<lambda>n. n = ''.git'') (\<lambda>p c out. Inr (if suffix ''.md'' p then out @ [p] else out)) dir t []))
       (\<lambda>out. Inr (sort out))"

section \<open>Routes\<close>

record doc_route =
  dr_Method :: string
  dr_Path :: string

definition route_String :: "doc_route \<Rightarrow> string" where
  "route_String r = dr_Method r @ '' '' @ dr_Path r"

type_synonym route_set = "(string \<times> doc_route) list"

definition sortRoutes :: "route_set \<Rightarrow> doc_route list" where
  "sortRoutes rs = sort_key (\<lambda>r. (dr_Path r, dr_Method r)) (map snd rs)"

definition put_route :: "doc_route \<Rightarrow> route_set \<Rightarrow> route_set" where
  "put_route r = obj_put (route_String r) r"

text \<open>A match with a method and a path.\<close>

definition match_route_of :: "string list \<Rightarrow> doc_route" where
  "match_route_of m = \<lparr>dr_Method = m ! 0, dr_Path = m ! 1\<rparr>"

definition line_routes :: "string \<Rightarrow> doc_route list" where
  "line_routes line =
     (case FindFirst commentLineRe line of
        None \<Rightarrow> []
      | Some cm \<Rightarrow> filter (\<lambda>r. balancedBraces (dr_Path r)) (map match_route_of (FindAll commentRouteRe (cm ! 0))))"

definition scan_routes :: "string \<Rightarrow> string list \<times> doc_route list \<Rightarrow> string list \<times> doc_route list" where
  "scan_routes s acc =
     (fst acc @ map (\<lambda>m. m ! 0) (FindAll handleFuncRe s), snd acc @ concat (map line_routes (Split (CHR 0x0A) s)))"

definition add_pattern :: "doc_route list \<Rightarrow> string \<Rightarrow> route_set \<Rightarrow> route_set res" where
  "add_pattern comments p rs =
     (if \<not> suffix ''/'' p then
        let found = filter (\<lambda>r. dr_Path r = p) comments in
        Inr (if found = [] then put_route \<lparr>dr_Method = ''GET'', dr_Path = p\<rparr> rs else fold put_route found rs)
      else if list_ex (\<lambda>r. prefix p (dr_Path r)) comments then Inr rs
      else Inl (Errorf ''internal/api: prefix %q has no method+path route comment; document the routes so the drift check can verify them'' [p]))"

definition SourceRoutes :: "string \<Rightarrow> tree res \<Rightarrow> doc_route list res" where
  "SourceRoutes apiDir t =
     bind_res (walk_sources (\<lambda>_. False) scan_routes apiDir t ([], [])) (\<lambda>(pats, comments).
     bind_res (for_each (add_pattern comments) pats (fold put_route comments [])) (\<lambda>rs. Inr (sortRoutes rs)))"

definition add_doc_route :: "string list \<Rightarrow> route_set \<Rightarrow> route_set" where
  "add_doc_route m rs =
     (let p = TrimSpace (m ! 1) in if p = [] then rs else put_route \<lparr>dr_Method = m ! 0, dr_Path = p\<rparr> rs)"

definition DocumentedRoutes :: "string res \<Rightarrow> doc_route list res" where
  "DocumentedRoutes content =
     bind_res content (\<lambda>doc.
       let s = stripSection doc ''not implemented'';
           rs = fold add_doc_route (FindAll docMethodPathRe s) [];
           rs = fold add_doc_route (FindAll readmeTableRe s) rs
       in Inr (sortRoutes rs))"

section \<open>Variables, metrics and the version\<close>

definition sorted_keys :: "string list \<Rightarrow> string list" where
  "sorted_keys ks = sort (remdups ks)"

definition skipped_dirs :: "string list" where
  "skipped_dirs = [''.git'', ''vendor'', ''bin'', ''data'', ''node_modules'', ''docscheck'']"

definition SourceEnvVars :: "string \<Rightarrow> tree res \<Rightarrow> string list res" where
  "SourceEnvVars dir t =
     bind_res (walk_sources (\<lambda>n. n \<in> set skipped_dirs) (\<lambda>s acc. acc @ map (\<lambda>m. m ! 0) (FindAll envSourceRe s)) dir t [])
       (\<lambda>ks. Inr (sorted_keys ks))"

definition env_cells :: "string res \<Rightarrow> string list \<Rightarrow> string list res" where
  "env_cells content acc =
     bind_res content (\<lambda>s.
       case scan_lines s of
         (ls, Some err) \<Rightarrow> Inl err
       | (ls, None) \<Rightarrow> Inr (acc @ concat (map (\<lambda>l. case FindFirst envTableCellRe l of None \<Rightarrow> [] | Some m \<Rightarrow> [m ! 0]) ls)))"

definition DocumentedEnvVars :: "string res list \<Rightarrow> string list res" where
  "DocumentedEnvVars contents = bind_res (for_each env_cells contents []) (\<lambda>ks. Inr (sorted_keys ks))"

definition SourceMetrics :: "string \<Rightarrow> tree res \<Rightarrow> string list res" where
  "SourceMetrics dir t =
     bind_res (walk_sources (\<lambda>_. False) (\<lambda>s acc. acc @ map (\<lambda>m. m ! 0) (FindAll metricValueRe s)) dir t [])
       (\<lambda>ks. Inr (sorted_keys ks))"

definition DocumentedMetrics :: "string res \<Rightarrow> string list res" where
  "DocumentedMetrics content = bind_res content (\<lambda>s. Inr (sorted_keys (map (\<lambda>m. m ! 0) (FindAll metric_atoms s))))"

definition VersionPin :: "string \<Rightarrow> string res \<Rightarrow> string res" where
  "VersionPin path content =
     bind_res content (\<lambda>s.
       case FindFirst versionPinRe s of
         None \<Rightarrow> Inl (Errorf ''%s: no VERSION=<semver> literal found'' [path])
       | Some m \<Rightarrow> Inr (m ! 0))"

section \<open>Links\<close>

text \<open>\<open>filepath.Rel\<close>: up from what the base has more than the common elements, down to the rest of the target.\<close>

definition path_elements :: "string \<Rightarrow> string list" where
  "path_elements p = filter (\<lambda>n. n \<noteq> []) (Split (CHR ''/'') p)"

fun drop_common :: "string list \<Rightarrow> string list \<Rightarrow> string list \<times> string list" where
  "drop_common (b # bs) (t # ts) = (if b = t then drop_common bs ts else (b # bs, t # ts))"
| "drop_common bs ts = (bs, ts)"

definition filepath_Rel :: "string \<Rightarrow> string \<Rightarrow> string res" where
  "filepath_Rel basepath targpath =
     (let base = Clean basepath; targ = Clean targpath; err = Errorf ''Rel: can't make %s relative to %s'' [targpath, basepath] in
      if targ = base then Inr ''.''
      else
        let base = (if base = ''.'' then [] else base); (bs, ts) = drop_common (path_elements base) (path_elements targ) in
        if IsAbs base \<noteq> IsAbs targ \<or> bs \<noteq> [] \<and> ts \<noteq> [] \<and> hd bs = ''..'' then Inl err
        else Inr (Join ''/'' (replicate (length bs) ''..'' @ ts)))"

text \<open>Reading, the check that a path exists and whether it is a directory, and the working directory.\<close>

record doc_fs =
  df_ReadFile :: "string \<Rightarrow> string res"
  df_Stat :: "string \<Rightarrow> bool res"
  df_Getwd :: "string res"

definition rel :: "doc_fs \<Rightarrow> string \<Rightarrow> string" where
  "rel fs path =
     (case df_Getwd fs of
        Inl _ \<Rightarrow> path
      | Inr wd \<Rightarrow> (case filepath_Rel wd path of Inl _ \<Rightarrow> path | Inr r \<Rightarrow> r))"

definition heading_of :: "string \<Rightarrow> string option" where
  "heading_of l =
     (let line = TrimSpace l in
      if prefix ''#'' line then Some (TrimSpace (dropWhile (\<lambda>c. c = CHR ''#'') line)) else None)"

definition hasAnchor :: "doc_fs \<Rightarrow> string \<Rightarrow> string \<Rightarrow> bool res" where
  "hasAnchor fs path want =
     bind_res (df_ReadFile fs path) (\<lambda>s.
       case scan_lines s of (ls, err) \<Rightarrow>
         if list_ex (\<lambda>l. case heading_of l of None \<Rightarrow> False | Some h \<Rightarrow> Slugify h = want) ls then Inr True
         else (case err of Some e \<Rightarrow> Inl e | None \<Rightarrow> Inr False))"

definition external_link :: "string \<Rightarrow> bool" where
  "external_link target \<longleftrightarrow> sublist ''://'' target \<or> prefix ''#'' target \<or> prefix ''mailto:'' target"

definition link_file :: "string \<Rightarrow> string" where
  "link_file target = takeWhile (\<lambda>c. c \<noteq> CHR ''#'') target"

definition link_anchor :: "string \<Rightarrow> string" where
  "link_anchor target = drop (Suc (length (link_file target))) target"

definition check_link :: "doc_fs \<Rightarrow> string \<Rightarrow> string \<Rightarrow> goerr list \<Rightarrow> goerr list res" where
  "check_link fs path target problems =
     (if external_link target \<or> link_file target = [] then Inr problems
      else
        let resolved = path_Join [path_Dir path, link_file target] in
        case df_Stat fs resolved of
          Inl _ \<Rightarrow> Inr (problems @ [Errorf ''%s: relative link %q does not resolve (%s)'' [rel fs path, target, rel fs resolved]])
        | Inr isDir \<Rightarrow>
            if link_anchor target = [] \<or> isDir then Inr problems
            else bind_res (hasAnchor fs resolved (link_anchor target)) (\<lambda>ok.
              Inr (if ok then problems
                   else problems @ [Errorf ''%s: link %q has no matching heading #%s in %s''
                     [rel fs path, target, link_anchor target, rel fs resolved]])))"

definition CheckLinks :: "doc_fs \<Rightarrow> string \<Rightarrow> goerr list res" where
  "CheckLinks fs path =
     bind_res (df_ReadFile fs path) (\<lambda>s. for_each (\<lambda>m. check_link fs path (m ! 0)) (FindAll mdLinkRe s) [])"

section \<open>Sections that are left out\<close>

definition line_level :: "string \<Rightarrow> nat" where
  "line_level l = heading_level (TrimSpace l)"

text \<open>A heading whose text has the phrase.\<close>

definition names_phrase :: "string \<Rightarrow> string \<Rightarrow> bool" where
  "names_phrase phrase l \<longleftrightarrow> line_level l > 0 \<and> sublist phrase (to_lower (TrimSpace (drop (line_level l) (TrimSpace l))))"

text \<open>The last of the lines is in the section of heading \<open>j\<close>: no heading behind it is at its level or higher.\<close>

definition in_section :: "string \<Rightarrow> string list \<Rightarrow> nat \<Rightarrow> bool" where
  "in_section phrase ls j \<longleftrightarrow> j < length ls \<and> names_phrase phrase (ls ! j) \<and>
     (\<forall>k. j < k \<and> k < length ls \<and> line_level (ls ! k) > 0 \<longrightarrow> line_level (ls ! k) > line_level (ls ! j))"

definition left_out :: "string \<Rightarrow> string list \<Rightarrow> nat \<Rightarrow> bool" where
  "left_out phrase ls i \<longleftrightarrow> (\<exists>j\<le>i. in_section phrase (take (Suc i) ls) j)"

lemma in_section_snoc:
  "in_section phrase (ls @ [l]) j \<longleftrightarrow>
     in_section phrase ls j \<and> (line_level l > 0 \<longrightarrow> line_level l > line_level (ls ! j)) \<or> j = length ls \<and> names_phrase phrase l"
  by (auto simp: in_section_def nth_append less_Suc_eq)

lemma strip_line_eq:
  "strip_line phrase l (skip, out) =
     (let n = line_level l; skip = (if n > 0 \<and> skip > 0 \<and> n \<le> skip then 0 else skip) in
      if skip = 0 \<and> names_phrase phrase l then (n, out) else (skip, if skip = 0 then out @ [l] else out))"
  by (auto simp: strip_line_def Let_def names_phrase_def line_level_def)

text \<open>The level that is being skipped is the lowest level of the sections that are open.\<close>

definition skip_state :: "string \<Rightarrow> string list \<Rightarrow> nat \<Rightarrow> bool" where
  "skip_state phrase ls skip \<longleftrightarrow> (\<forall>j. in_section phrase ls j \<longrightarrow> 0 < skip \<and> skip \<le> line_level (ls ! j)) \<and>
     (skip > 0 \<longrightarrow> (\<exists>j. in_section phrase ls j \<and> line_level (ls ! j) = skip))"

lemma skip_state_step:
  assumes "skip_state phrase ls skip"
  shows "skip_state phrase (ls @ [l]) (fst (strip_line phrase l (skip, out)))"
proof -
  let ?n = "line_level l"
  let ?skip = "if ?n > 0 \<and> skip > 0 \<and> ?n \<le> skip then 0 else skip"
  have hit: "names_phrase phrase l \<Longrightarrow> ?n > 0" by (simp add: names_phrase_def)
  have len: "in_section phrase ls j \<Longrightarrow> j < length ls" for j by (simp add: in_section_def)
  show ?thesis
  proof (cases "?skip = 0")
    case True
    have new: "in_section phrase (ls @ [l]) j \<longleftrightarrow> j = length ls \<and> names_phrase phrase l" for j
      using assms True by (force simp: in_section_snoc skip_state_def split: if_splits)
    have "fst (strip_line phrase l (skip, out)) = (if names_phrase phrase l then ?n else 0)"
      using True by (auto simp: strip_line_eq Let_def)
    with new hit show ?thesis by (auto simp: skip_state_def)
  next
    case False
    then have s: "fst (strip_line phrase l (skip, out)) = skip" "skip > 0" "?n > 0 \<Longrightarrow> skip < ?n"
      by (auto simp: strip_line_eq Let_def split: if_splits)
    obtain j where j: "in_section phrase ls j" "line_level (ls ! j) = skip" using assms s(2) by (auto simp: skip_state_def)
    with s(3) len [OF j(1)] have "in_section phrase (ls @ [l]) j \<and> line_level ((ls @ [l]) ! j) = skip"
      by (simp add: in_section_snoc nth_append)
    moreover have "skip \<le> line_level ((ls @ [l]) ! i)" if "in_section phrase (ls @ [l]) i" for i
      using that assms s(3) hit len by (auto simp: in_section_snoc nth_append skip_state_def)
    ultimately show ?thesis using s(1,2) by (auto simp: skip_state_def)
  qed
qed

lemma strip_fold:
  "skip_state phrase ls (fst (fold (strip_line phrase) ls (0, []))) \<and>
   snd (fold (strip_line phrase) ls (0, [])) = map ((!) ls) (filter (\<lambda>i. \<not> left_out phrase ls i) [0..<length ls])"
proof (induction ls rule: rev_induct)
  case Nil
  show ?case by (simp add: skip_state_def in_section_def)
next
  case (snoc l ls)
  obtain skip out where st: "fold (strip_line phrase) ls (0, []) = (skip, out)" by fastforce
  with snoc have IH: "skip_state phrase ls skip" "out = map ((!) ls) (filter (\<lambda>i. \<not> left_out phrase ls i) [0..<length ls])" by auto
  have state: "skip_state phrase (ls @ [l]) (fst (strip_line phrase l (skip, out)))" by (rule skip_state_step [OF IH(1)])
  have old: "map ((!) (ls @ [l])) (filter (\<lambda>i. \<not> left_out phrase (ls @ [l]) i) [0..<length ls]) = out"
    unfolding IH(2) by (auto simp: left_out_def nth_append intro!: map_cong filter_cong)
  have "in_section phrase (ls @ [l]) j \<Longrightarrow> j \<le> length ls" for j by (simp add: in_section_def)
  then have "left_out phrase (ls @ [l]) (length ls) \<longleftrightarrow> (\<exists>j. in_section phrase (ls @ [l]) j)" by (auto simp: left_out_def)
  also have "\<dots> \<longleftrightarrow> fst (strip_line phrase l (skip, out)) \<noteq> 0" using state by (auto simp: skip_state_def)
  finally have "snd (strip_line phrase l (skip, out)) = (if left_out phrase (ls @ [l]) (length ls) then out else out @ [l])"
    by (auto simp: strip_line_eq Let_def names_phrase_def split: if_splits)
  with state old st show ?case by simp
qed

text \<open>
  \<open>stripSection\<close> leaves out exactly the lines that stand in the section of a heading with the
  phrase: from the heading up to the next heading of the same or a higher level.  The other
  lines stay as they are and in their order.
\<close>

theorem stripSection_spec:
  "stripSection doc phrase =
     (let ls = Split (CHR 0x0A) doc in Join [CHR 0x0A] (map ((!) ls) (filter (\<lambda>i. \<not> left_out phrase ls i) [0..<length ls])))"
  using strip_fold [of phrase "Split (CHR 0x0A) doc"] by (simp add: stripSection_def Let_def)

section \<open>Links and headings\<close>

definition link_ok :: "doc_fs \<Rightarrow> string \<Rightarrow> string \<Rightarrow> bool" where
  "link_ok fs path target \<longleftrightarrow> external_link target \<or> link_file target = [] \<or>
     (let resolved = path_Join [path_Dir path, link_file target] in
      case df_Stat fs resolved of
        Inl _ \<Rightarrow> False
      | Inr isDir \<Rightarrow> link_anchor target = [] \<or> isDir \<or> hasAnchor fs resolved (link_anchor target) = Inr True)"

lemma check_link_Inr:
  assumes "check_link fs path target ps = Inr qs"
  shows "\<exists>new. qs = ps @ new \<and> (new = [] \<longleftrightarrow> link_ok fs path target)"
  using assms by (auto simp: check_link_def link_ok_def Let_def bind_res_Inr split: if_splits sum.splits)

lemma check_link_ok: "link_ok fs path target \<Longrightarrow> check_link fs path target ps = Inr ps"
  by (auto simp: check_link_def link_ok_def Let_def split: sum.splits)

lemma check_links_loop:
  "for_each (\<lambda>m. check_link fs path (f m)) ms ps = Inr qs \<Longrightarrow> \<exists>new. qs = ps @ new \<and> (new = [] \<longleftrightarrow> (\<forall>m\<in>set ms. link_ok fs path (f m)))"
proof (induction ms arbitrary: ps)
  case (Cons m ms)
  then obtain rs where r: "check_link fs path (f m) ps = Inr rs" "for_each (\<lambda>m. check_link fs path (f m)) ms rs = Inr qs"
    by (auto simp: go_error)
  from check_link_Inr [OF r(1)] Cons.IH [OF r(2)] show ?case by auto
qed simp

text \<open>
  \<open>CheckLinks\<close> reports nothing exactly when every relative link of the file leads to a file
  or directory that exists and every fragment of a link to a file is the slug of a heading there.
\<close>

theorem CheckLinks_clean_iff:
  "CheckLinks fs path = Inr [] \<longleftrightarrow>
     (\<exists>s. df_ReadFile fs path = Inr s \<and> (\<forall>m\<in>set (FindAll mdLinkRe s). link_ok fs path (m ! 0)))"
proof -
  have "(\<forall>m\<in>set ms. link_ok fs path (f m)) \<Longrightarrow> for_each (\<lambda>m. check_link fs path (f m)) ms ps = Inr ps"
    for ms :: "string list list" and f ps
    by (induction ms) (auto simp: check_link_ok)
  with check_links_loop [of fs path "\<lambda>m. m ! 0" _ "[]" "[]"] show ?thesis
    by (auto simp: CheckLinks_def bind_res_Inr)
qed

lemma ascii_lower_idem: "ascii_lower (ascii_lower c) = ascii_lower c"
  by (auto simp: ascii_lower_def byte_in_def)

lemma to_lower_plain: "(\<And>c. c \<in> set s \<Longrightarrow> slug_char c = [c]) \<Longrightarrow> to_lower s = s"
proof (induction s)
  case (Cons c s)
  then have "slug_char c = [c]" "to_lower s = s" by auto
  moreover from this(1) have "c \<noteq> CHR 0xE2" "c \<noteq> CHR 0xC4" "ascii_lower c = c"
    by (auto simp: slug_char_def ascii_lower_def byte_in_def split: if_splits)
  ultimately show ?case by simp
qed simp

lemma slug_chars: "c \<in> set (Slugify h) \<Longrightarrow> slug_char c = [c]"
  by (auto simp: Slugify_def slug_char_def split: if_splits)

text \<open>A slug has only small letters, digits, hyphens and underscores, and is its own slug.\<close>

theorem Slugify_idem: "Slugify (Slugify h) = Slugify h"
proof -
  have "concat (map slug_char s) = s" if "\<And>c. c \<in> set s \<Longrightarrow> slug_char c = [c]" for s
    using that by (induction s) auto
  then show ?thesis using to_lower_plain [of "Slugify h"] slug_chars [of _ h] by (simp add: Slugify_def [of "Slugify h"])
qed

section \<open>Routes\<close>

definition documented :: "doc_route list \<Rightarrow> string \<Rightarrow> bool" where
  "documented rs p \<longleftrightarrow> (if suffix ''/'' p then \<exists>r\<in>set rs. prefix p (dr_Path r) else \<exists>r\<in>set rs. dr_Path r = p)"

text \<open>The sets of routes are keyed by the text of the route, which determines it.\<close>

definition keyed :: "route_set \<Rightarrow> bool" where
  "keyed rs \<longleftrightarrow> distinct (map fst rs) \<and> (\<forall>(k, r)\<in>set rs. k = route_String r \<and> dr_Method r \<in> set methods)"

lemma route_String_inj:
  assumes "dr_Method r \<in> set methods" "dr_Method q \<in> set methods" "route_String r = route_String q"
  shows "r = q"
proof -
  have m: "takeWhile (\<lambda>c. c \<noteq> CHR '' '') (route_String x) = dr_Method x" if "dr_Method x \<in> set methods" for x
    using that by (auto simp: methods_def route_String_def)
  with assms have "dr_Method r = dr_Method q" by metis
  with assms(3) show ?thesis by (simp add: route_String_def)
qed

lemma keyed_put:
  assumes "keyed rs" "dr_Method r \<in> set methods"
  shows "keyed (put_route r rs)" "snd ` set (put_route r rs) = insert r (snd ` set rs)"
proof -
  show "keyed (put_route r rs)"
    using assms set_obj_put [of "route_String r" r rs] by (auto simp: keyed_def put_route_def distinct_obj_put)
  have "x \<in> snd ` set (put_route r rs)" if "(k, x) \<in> set rs" for k x
  proof (cases "k = route_String r")
    case True
    then have "x = r" using that assms by (intro route_String_inj) (auto simp: keyed_def)
    then show ?thesis using map_of_SomeD [of "put_route r rs" "route_String r" r] by (force simp: put_route_def map_of_obj_put)
  next
    case False
    have "map_of rs k = Some x" using that assms(1) by (simp add: keyed_def)
    with False have "map_of (put_route r rs) k = Some x" by (simp add: put_route_def map_of_obj_put)
    then show ?thesis by (force dest: map_of_SomeD)
  qed
  moreover have "r \<in> snd ` set (put_route r rs)"
    using map_of_SomeD [of "put_route r rs" "route_String r" r] by (force simp: put_route_def map_of_obj_put)
  ultimately show "snd ` set (put_route r rs) = insert r (snd ` set rs)"
    using set_obj_put [of "route_String r" r rs] by (force simp: put_route_def)
qed

lemma keyed_fold_put:
  "keyed rs \<Longrightarrow> (\<And>r. r \<in> set xs \<Longrightarrow> dr_Method r \<in> set methods) \<Longrightarrow>
     keyed (fold put_route xs rs) \<and> snd ` set (fold put_route xs rs) = set xs \<union> snd ` set rs"
proof (induction xs arbitrary: rs)
  case (Cons x xs)
  then show ?case using keyed_put [of rs x] by simp
qed simp

lemma sortRoutes_set:
  assumes "keyed rs"
  shows "set (sortRoutes rs) = snd ` set rs" "distinct (sortRoutes rs)" "sorted (map (\<lambda>r. (dr_Path r, dr_Method r)) (sortRoutes rs))"
proof -
  have "x = y" if "x \<in> set rs" "y \<in> set rs" "snd x = snd y" for x y
  proof -
    have "\<And>z. z \<in> set rs \<Longrightarrow> fst z = route_String (snd z)" using assms by (auto simp: keyed_def)
    with that show ?thesis by (simp add: prod_eq_iff)
  qed
  then have "inj_on snd (set rs)" by (rule inj_onI)
  moreover have "distinct rs" using assms by (simp add: keyed_def distinct_map)
  ultimately have "distinct (map snd rs)" by (simp only: distinct_map)
  then show "distinct (sortRoutes rs)" unfolding sortRoutes_def by simp
  show "set (sortRoutes rs) = snd ` set rs" unfolding sortRoutes_def by simp
  show "sorted (map (\<lambda>r. (dr_Path r, dr_Method r)) (sortRoutes rs))" unfolding sortRoutes_def by (rule sorted_sort_key)
qed

section \<open>The routes of the sources\<close>

lemma first_some_Some: "first_some f xs = Some y \<Longrightarrow> \<exists>x\<in>set xs. f x = Some y"
  by (induction xs) (auto split: option.splits)

lemma find_all_match: "m \<in> set (find_all p prev s) \<Longrightarrow> \<exists>prev' s' rest. re_match p prev' None [] s' = Some (m, rest)"
proof (induction p prev s rule: find_all.induct)
  case (2 p prev c s)
  show ?case
  proof (cases "re_match p prev None [] (c # s)")
    case None
    with 2 show ?thesis by simp
  next
    case (Some x)
    show ?thesis
    proof (cases "length (snd x) < length (c # s)")
      case True
      with Some "2.IH"(2) [OF Some prod.collapse] "2.prems" show ?thesis by (cases x) auto
    next
      case False
      with Some "2.IH"(3) [OF Some prod.collapse] "2.prems" show ?thesis by (cases x) auto
    qed
  qed
qed simp

lemma re_match_groups: "re_match as prev cur caps s = Some (m, rest) \<Longrightarrow> \<exists>more. m = caps @ more"
proof (induction as arbitrary: prev cur caps s)
  case (Cons a as)
  show ?case
  proof (cases a)
    case (Words ws)
    with Cons.prems Cons.IH show ?thesis by (auto simp: Let_def dest!: first_some_Some split: if_splits)
  next
    case (Many n p)
    with Cons.prems Cons.IH show ?thesis by (auto simp del: upt_Suc simp: Let_def dest!: first_some_Some split: if_splits)
  next
    case GroupClose
    with Cons.prems Cons.IH show ?thesis by (fastforce simp: Let_def)
  qed (use Cons in \<open>auto simp: Let_def split: if_splits\<close>)
qed simp

text \<open>The first group of a pattern that begins with a group of literals is one of them.\<close>

lemma re_match_words:
  assumes "re_match (GroupOpen # Words ws # GroupClose # as) prev None [] s = Some (m, rest)"
  shows "m ! 0 \<in> set ws"
proof -
  from assms obtain w prev' s' where "w \<in> set ws" "re_match as prev' None [w] s' = Some (m, rest)"
    by (auto simp: Let_def dest!: first_some_Some split: if_splits)
  with re_match_groups [OF this(2)] show ?thesis by auto
qed

lemma commentRoute_method:
  assumes "m \<in> set (FindAll commentRouteRe s)"
  shows "m ! 0 \<in> set methods"
proof -
  obtain as where re: "commentRouteRe = Boundary # GroupOpen # Words methods # GroupClose # as" by (simp add: commentRouteRe_def)
  from find_all_match [OF assms [unfolded FindAll_def]] obtain prev s' rest where
    "re_match (Boundary # GroupOpen # Words methods # GroupClose # as) prev None [] s' = Some (m, rest)" unfolding re by blast
  then have "re_match (GroupOpen # Words methods # GroupClose # as) prev None [] s' = Some (m, rest)"
    by (simp only: re_match.simps(2) [of Boundary] atom.case Let_def option.distinct split: if_split_asm)
  then show ?thesis by (rule re_match_words)
qed

lemma line_routes_method: "r \<in> set (line_routes l) \<Longrightarrow> dr_Method r \<in> set methods"
  by (auto simp: line_routes_def match_route_of_def commentRoute_method split: option.splits)

definition scanned :: "string list \<times> doc_route list \<Rightarrow> bool" where
  "scanned acc \<longleftrightarrow> (\<forall>r\<in>set (snd acc). dr_Method r \<in> set methods)"

lemma walk_invariant:
  "walk skip f path t acc = Inr acc' \<Longrightarrow> I acc \<Longrightarrow> (\<And>p c acc acc'. f p c acc = Inr acc' \<Longrightarrow> I acc \<Longrightarrow> I acc') \<Longrightarrow> I acc'"
  "walk_list skip f path ts acc = Inr acc' \<Longrightarrow> I acc \<Longrightarrow> (\<And>p c acc acc'. f p c acc = Inr acc' \<Longrightarrow> I acc \<Longrightarrow> I acc') \<Longrightarrow> I acc'"
proof (induction skip f path t acc and skip f path ts acc arbitrary: acc' and acc' rule: walk_walk_list.induct)
  case (5 skip f path t ts acc)
  then obtain mid where "walk skip f (path_Join [path, tree_name t]) t acc = Inr mid" "walk_list skip f path ts mid = Inr acc'"
    by (auto simp: bind_res_Inr)
  with 5 show ?case by metis
qed (auto split: if_splits)

lemma walk_sources_invariant:
  assumes "walk_sources skip f dir t acc = Inr acc'" "I acc" "\<And>s acc. I acc \<Longrightarrow> I (f s acc)"
  shows "I acc'"
proof -
  from assms(1) obtain x where "walk skip (\<lambda>p c acc. if go_source p then bind_res c (\<lambda>s. Inr (f s acc)) else Inr acc) dir x acc = Inr acc'"
    by (auto simp: walk_sources_def bind_res_Inr)
  then show ?thesis using assms(2) by (rule walk_invariant(1)) (auto simp: bind_res_Inr assms(3) split: if_splits)
qed

lemma scan_routes_methods: "scanned acc \<Longrightarrow> scanned (scan_routes s acc)"
  by (auto simp: scanned_def scan_routes_def line_routes_method)

text \<open>What the patterns add to the routes of the comments.\<close>

definition default_routes :: "doc_route list \<Rightarrow> string list \<Rightarrow> doc_route set" where
  "default_routes comments pats =
     {\<lparr>dr_Method = ''GET'', dr_Path = p\<rparr> | p. p \<in> set pats \<and> \<not> suffix ''/'' p \<and> (\<forall>r\<in>set comments. dr_Path r \<noteq> p)}"

lemma add_pattern_step:
  assumes "add_pattern comments p rs = Inr rs'" "keyed rs" "set comments \<subseteq> snd ` set rs" "\<forall>r\<in>set comments. dr_Method r \<in> set methods"
  shows "keyed rs' \<and> snd ` set rs' = snd ` set rs \<union> default_routes comments [p] \<and>
    (suffix ''/'' p \<longrightarrow> (\<exists>r\<in>set comments. prefix p (dr_Path r)))"
proof (cases "suffix ''/'' p")
  case True
  with assms(1,2) show ?thesis by (auto simp: add_pattern_def default_routes_def list_ex_iff split: if_splits)
next
  case False
  let ?found = "filter (\<lambda>r. dr_Path r = p) comments"
  show ?thesis
  proof (cases "?found = []")
    case True
    then have "default_routes comments [p] = {\<lparr>dr_Method = ''GET'', dr_Path = p\<rparr>}"
      using False by (auto simp: default_routes_def filter_empty_conv)
    with True False assms(1) keyed_put [OF assms(2), of "\<lparr>dr_Method = ''GET'', dr_Path = p\<rparr>"] show ?thesis
      by (auto simp: add_pattern_def methods_def)
  next
    case found: False
    then have "default_routes comments [p] = {}" by (auto simp: default_routes_def filter_empty_conv)
    moreover have "rs' = fold put_route ?found rs" using found False assms(1) by (simp add: add_pattern_def Let_def)
    ultimately show ?thesis using False keyed_fold_put [OF assms(2), of ?found] assms(3,4) by auto
  qed
qed

lemma add_patterns:
  assumes "for_each (add_pattern comments) ps rs = Inr rs'" "keyed rs" "set comments \<subseteq> snd ` set rs" "\<forall>r\<in>set comments. dr_Method r \<in> set methods"
  shows "keyed rs' \<and> snd ` set rs' = snd ` set rs \<union> default_routes comments ps \<and>
    (\<forall>p\<in>set ps. suffix ''/'' p \<longrightarrow> (\<exists>r\<in>set comments. prefix p (dr_Path r)))"
  using assms
proof (induction ps arbitrary: rs)
  case Nil
  then show ?case by (simp add: default_routes_def)
next
  case (Cons p ps)
  then obtain mid where m: "add_pattern comments p rs = Inr mid" "for_each (add_pattern comments) ps mid = Inr rs'" by (auto simp: go_error)
  note one = add_pattern_step [OF m(1) Cons.prems(2-4)]
  have "default_routes comments (p # ps) = default_routes comments [p] \<union> default_routes comments ps"
    by (auto simp: default_routes_def)
  with Cons.IH [OF m(2)] one Cons.prems(3,4) show ?case by auto
qed

text \<open>
  The routes that \<open>SourceRoutes\<close> gives are those of the comments, and a \<open>GET\<close> for every exact
  pattern without a comment: sorted, each once, and such that every registered pattern is
  documented by one of them.
\<close>

theorem SourceRoutes_spec:
  assumes "walk_sources (\<lambda>_. False) scan_routes apiDir t ([], []) = Inr (pats, comments)" and "SourceRoutes apiDir t = Inr rs"
  shows "set rs = set comments \<union> default_routes comments pats \<and> distinct rs \<and>
    sorted (map (\<lambda>r. (dr_Path r, dr_Method r)) rs) \<and> (\<forall>p\<in>set pats. documented rs p)"
proof -
  have "scanned (pats, comments)"
    using assms(1) by (rule walk_sources_invariant) (simp_all add: scan_routes_methods, simp add: scanned_def)
  then have m: "\<forall>r\<in>set comments. dr_Method r \<in> set methods" by (simp add: scanned_def)
  have start: "keyed (fold put_route comments [])" "snd ` set (fold put_route comments []) = set comments"
    using keyed_fold_put [of "[]" comments] m by (auto simp: keyed_def)
  from assms obtain found where f: "for_each (add_pattern comments) pats (fold put_route comments []) = Inr found" "rs = sortRoutes found"
    by (auto simp: SourceRoutes_def bind_res_Inr)
  note all = add_patterns [OF f(1) start(1) _ m]
  have set: "set rs = set comments \<union> default_routes comments pats" using all start(2) sortRoutes_set(1) f(2) by auto
  have "documented rs p" if "p \<in> set pats" for p
  proof (cases "suffix ''/'' p \<or> (\<exists>r\<in>set comments. dr_Path r = p)")
    case True
    with that all start(2) show ?thesis by (auto simp: documented_def set)
  next
    case False
    with that have "\<lparr>dr_Method = ''GET'', dr_Path = p\<rparr> \<in> set rs" by (auto simp: set default_routes_def)
    then have "\<exists>r\<in>set rs. dr_Path r = p" by (rule bexI [rotated]) simp
    with False show ?thesis by (simp add: documented_def)
  qed
  with set all start(2) sortRoutes_set(2,3) f(2) show ?thesis by auto
qed

definition demo_source :: string where
  "demo_source = ''// GET /v1/jobs/{id}, and POST /v1/jobs.'' @ [CHR 0x0A] @
     ''mux.HandleFunc('' @ [CHR 0x22] @ ''/v1/jobs/'' @ [CHR 0x22] @ '')'' @ [CHR 0x0A] @
     ''mux.HandleFunc( '' @ [CHR 0x22] @ ''/healthz'' @ [CHR 0x22] @ '')''"

definition demo_tree :: "tree res" where
  "demo_tree = Inr (DirNode ''api'' (Inr [FileNode ''api.go'' (Inr demo_source), FileNode ''api_test.go'' (Inl ErrTooLong)]))"

definition demo_routes :: "doc_route list" where
  "demo_routes = [\<lparr>dr_Method = ''GET'', dr_Path = ''/healthz''\<rparr>, \<lparr>dr_Method = ''POST'', dr_Path = ''/v1/jobs''\<rparr>,
     \<lparr>dr_Method = ''GET'', dr_Path = ''/v1/jobs/{id}''\<rparr>]"

lemma demo_scan:
  "walk_sources (\<lambda>_. False) scan_routes ''api'' demo_tree ([], []) = Inr ([''/v1/jobs/'', ''/healthz''], [demo_routes ! 2, demo_routes ! 1])"
  by code_simp

lemma demo_SourceRoutes: "SourceRoutes ''api'' demo_tree = Inr demo_routes"
  by code_simp

text \<open>A file with two comments and a prefix, and an exact pattern that has no comment.\<close>

theorem SourceRoutes_spec_witness:
  "SourceRoutes ''api'' demo_tree = Inr demo_routes \<and> documented demo_routes ''/v1/jobs/'' \<and> documented demo_routes ''/healthz'' \<and>
   distinct demo_routes"
  using SourceRoutes_spec [OF demo_scan demo_SourceRoutes] demo_SourceRoutes by simp

end
