(* ===== verification/Spec2Isabelle.thy ===== *)
theory Spec2Isabelle
  imports PipelineDemo Service LlmStub EngineProps DocsCheck
begin

text \<open>
  A verification development of j-harness, a service that runs language-model agents and
  pipelines of agents.

  \<^bold>\<open>The program.\<close>  A registry of files defines agents (blueprints) and pipelines.  The HTTP API
  (\<open>internal/api\<close>) accepts jobs and changes to the registry; a pool of workers
  (\<open>internal/engine/worker.go\<close>) takes jobs from a bounded queue and records their progress in a
  store (\<open>internal/store\<close>, on SQLite or Redis); the engine (\<open>internal/engine\<close>) runs one agent, or
  the steps of a pipeline in parallel in the order of their dependencies
  (\<open>internal/pipeline\<close>).  Calls of a model go through a client that retries
  (\<open>internal/llm\<close>) and a limiter (\<open>internal/ratelimit\<close>); a model may call the built-in tools
  (\<open>internal/tools\<close>), and its JSON output is checked against a schema (\<open>internal/schema\<close>).

  \<^bold>\<open>Common ground.\<close>
  \<^item> \<^verbatim>\<open>Prelude\<close>: errors as values (\<open>goerr\<close>, \<open>'a res\<close>), loops that stop at an error
    (\<open>for_each\<close>, \<open>check_each\<close>), what the sources use of \<open>strings\<close> and \<open>strconv\<close> on byte strings.
  \<^item> \<^verbatim>\<open>Float64\<close>, \<^verbatim>\<open>Json\<close>, \<^verbatim>\<open>JsonText\<close>, \<^verbatim>\<open>JsonStruct\<close>: float64 values, \<open>encoding/json\<close> as a parser and a
    printer on bytes, the validity of decoded strings, and structs.  The parser takes fuel, twice
    the length of the text and two more, which always suffices because every call but the one
    for an element consumes a byte.
  \<^item> \<^verbatim>\<open>JsonPrint\<close>: \<open>Marshal\<close> and \<open>MarshalIndent\<close> of any value are one printer with two layouts; the locale
    \<open>json_layout\<close> shows for both that the parser reads back what was printed.
  \<^item> \<^verbatim>\<open>Machine\<close>: runs of a program as sequences of events; \<open>reachable\<close> is used for the pipeline,
    the worker pool and the limiter alike.
  \<^item> \<^verbatim>\<open>Model\<close>: \<open>internal/model\<close>, the records of the program.

  \<^bold>\<open>Pipelines.\<close>  \<^verbatim>\<open>Template\<close>, \<^verbatim>\<open>Graph\<close>, \<^verbatim>\<open>Resolve\<close>, \<^verbatim>\<open>Conditions\<close> are the files of
  \<open>internal/pipeline\<close>: references in step inputs, the dependency graph and its check for cycles,
  the substitution of references, and the conditions of routers.  \<^verbatim>\<open>PipelineRun\<close> is
  \<open>engine/pipeline.go\<close>: the loop of \<open>RunPipeline\<close> and the goroutines of the steps as one machine,
  in which an event is an atomic action of the loop or of a goroutine and carries what the
  agent returned.  \<^verbatim>\<open>PipelineSafety\<close>, \<^verbatim>\<open>PipelineLive\<close>, \<^verbatim>\<open>PipelineProps\<close> and \<^verbatim>\<open>PipelineEnd\<close> show, for every
  interleaving: steps run after their dependencies, at most once and at most
  \<open>maxParallel\<close> at a time; a router takes one branch; the first failure decides; every run ends
  after at most 5n + 1 events with one outcome per step.  \<^verbatim>\<open>PipelineDemo\<close> has the
  concrete runs, among them an acyclic pipeline that stalls.

  \<^bold>\<open>Stores.\<close>  \<^verbatim>\<open>StoreSpec\<close> has the interface \<open>Store\<close> and its contract, the locale \<open>job_store\<close>.
  \<^verbatim>\<open>Sqlite\<close> is \<open>sqlite.go\<close> on an SQL engine, \<^verbatim>\<open>Resp\<close> and \<^verbatim>\<open>Redis\<close> are the RESP client and the store on a
  Redis server; engine and server are parameters with the documented meaning of the statements
  and commands as locale assumptions (\<^verbatim>\<open>RedisSpec\<close>, \<^verbatim>\<open>RedisWire\<close>).  \<^verbatim>\<open>Stores\<close> shows that both
  implement the contract, that commands cannot be injected and that replies stay in step with
  commands.

  \<^bold>\<open>Workers.\<close>  \<^verbatim>\<open>Metrics\<close> are the counters.  \<^verbatim>\<open>Worker\<close> is the pool as a machine over any store;
  \<^verbatim>\<open>WorkerSafety\<close> and \<^verbatim>\<open>WorkerProps\<close> show the life cycle of jobs for every store that keeps the contract
  (locale \<open>worker_pool\<close>, interpreted for both stores).

  \<^bold>\<open>Agents.\<close>  \<^verbatim>\<open>Schema\<close> is the validator with its equivalence to a declarative notion of conformity;
  \<^verbatim>\<open>Eval\<close> the calculator tool, whose parser accepts exactly its grammar; \<^verbatim>\<open>Tools\<close> the built-in
  tools; \<^verbatim>\<open>Llm\<close> the client boundary and the retries with 64-bit delays; \<^verbatim>\<open>Engine\<close> and \<^verbatim>\<open>EngineProps\<close> the
  run of one agent: tools outside its list cannot be reached, the number of calls is bounded, JSON
  output keeps its promise.  \<^verbatim>\<open>RateLimit\<close> is the limiter as a machine: the requests in flight
  per endpoint and concurrency are bounded in every interleaving.

  \<^verbatim>\<open>OpenAI\<close> is the client of a chat-completions endpoint over a transport, with the decoding of the
  answers; \<^verbatim>\<open>LlmStub\<close> the test doubles, and that the client and the stub server understand
  each other.

  \<^bold>\<open>Registry and API.\<close>  \<^verbatim>\<open>FilePath\<close> has clean paths and \<open>safeRel\<close>; \<^verbatim>\<open>Registry\<close> the snapshot and
  the validation; \<^verbatim>\<open>RegistryLoad\<close> the strict decoder and \<open>Load\<close>; \<^verbatim>\<open>RegistryWrite\<close> the atomic writes, over a
  file system that keeps the locale \<open>file_system\<close>; \<^verbatim>\<open>RegistryRead\<close> the way back: decoding what was
  encoded, and a reload after a write, over the locale \<open>registry_files\<close>, which adds what reading
  promises.  \<^verbatim>\<open>Api\<close> has every handler, the routes and the authentication as one step on the state of
  the service; \<^verbatim>\<open>ApiProps\<close> shows what is reachable without the token, that the registry in use
  stays valid, and that an accepted job can run, which joins the API, the store, the worker's
  decoding of its input and the pipeline engine.  \<^verbatim>\<open>ApiRegistry\<close> shows that a definition written over
  HTTP is the one that is used and given back.

  \<^bold>\<open>The service.\<close>  \<^verbatim>\<open>Service\<close> is \<open>cmd/harness/main.go\<close>: the settings, the stores as they are
  opened, the layers of the client, the pool and the handler; its invariant holds in every state
  that requests and the pool lead to.  \<open>RequeueOrphans\<close> has listed its jobs when the service is
  served; its loop is part of the pool's events, which allows more interleavings than the
  program has.

  \<^bold>\<open>Documentation.\<close>  \<^verbatim>\<open>DocsCheck\<close> is \<open>internal/docscheck\<close>, the helpers that compare the documents with the
  sources: their regular expressions as lists of atoms with a matcher, and each helper over a
  tree of files.  It shows which lines \<open>stripSection\<close> leaves out, when \<open>CheckLinks\<close> reports nothing,
  that a slug is its own slug, and that \<open>SourceRoutes\<close> gives each registered pattern a route.

  \<^bold>\<open>Interfaces.\<close>  \<open>job_store\<close> (StoreSpec), \<open>worker_pool\<close> (WorkerSafety), \<open>file_system\<close>
  (RegistryWrite), \<open>registry_files\<close> (RegistryRead), \<open>json_layout\<close> (JsonPrint) and the locales of the SQL
  engine, the Redis server and its connection state what one part relies on; each is
  interpreted on the program's own definitions over a concrete engine, server or file system in
  memory.

  \<^bold>\<open>Parameters.\<close>  Code outside the repository is an argument: the regular expressions of
  conditions, the model behind the client, the clock and the random source, the token bucket of
  \<open>golang.org/x/time/rate\<close>, the SQL engine, the Redis server, the file system.  The text of errors
  (\<open>fmt\<close> verbs) is a function \<open>error_text\<close>.

  \<^bold>\<open>Not modelled.\<close>  The listener, the signals and the shutdown, logging, deadlines on connections, the recovery from panics.  In the
  definition files, of two members of one JSON object that name the same nested struct only
  the last counts here.  In one round of tool calls the clock stands still.  The handlers of
  the API are atomic steps, although a write takes its lock only after the check that the
  entry exists.
\<close>

end
